(* ===== verification/Prelude.thy ===== *)
theory Prelude
  imports Complex_Main "HOL-Library.Multiset"
begin

text \<open>
  The parts of JavaScript that \<^verbatim>\<open>BitwardenModel.js\<close>, \<^verbatim>\<open>TotpModel.js\<close> and \<^verbatim>\<open>FidoModel.js\<close> use:
  strings as lists of UTF-16 code units, numbers with their special values, dynamically
  typed values with their coercions, objects as property lists, and the stable array sort;
  and the interface every state machine of the plugin is an instance of.

  Numbers are exact: a finite JavaScript number is the rational it denotes, and rounding to
  53 bits is not modelled. Every number the plugin computes with (milliseconds, byte
  counts, limits, 32-bit words) is an integer below \<open>2 ^ 53\<close>, where doubles are exact; a
  literal beyond the double range is an infinity, as in JavaScript. There is no negative zero.
\<close>

section \<open>Collections of facts\<close>

named_theorems js_eval \<open>unfolding rules that evaluate string functions on literals\<close>
named_theorems num_simps \<open>unfolding rules for JavaScript arithmetic\<close>

section \<open>Strings\<close>

text \<open>A string is its list of UTF-16 code units; \<open>js\<close> embeds an ASCII literal.\<close>

type_synonym jsstr = "nat list"

definition js :: "string \<Rightarrow> jsstr" where
  "js s = map of_char s"

definition is_ws :: "nat \<Rightarrow> bool" where
  "is_ws c \<longleftrightarrow> (9 \<le> c \<and> c \<le> 13) \<or> c = 32 \<or> c = 160 \<or> c = 5760 \<or> (8192 \<le> c \<and> c \<le> 8202)
     \<or> c = 8232 \<or> c = 8233 \<or> c = 8239 \<or> c = 8287 \<or> c = 12288 \<or> c = 65279"

definition trim_start :: "jsstr \<Rightarrow> jsstr" where
  "trim_start s = dropWhile is_ws s"

definition trim_end :: "jsstr \<Rightarrow> jsstr" where
  "trim_end s = rev (dropWhile is_ws (rev s))"

definition trim :: "jsstr \<Rightarrow> jsstr" where
  "trim s = trim_end (trim_start s)"

text \<open>
  Case mapping of ASCII and Latin-1; other code units map to themselves. (The plugin compares
  lower-cased text with ASCII constants, and refuses non-ASCII TOTP keys before mapping them.)
\<close>

definition lower_unit :: "nat \<Rightarrow> nat" where
  "lower_unit c = (if (65 \<le> c \<and> c \<le> 90) \<or> (192 \<le> c \<and> c \<le> 222 \<and> c \<noteq> 215) then c + 32 else c)"

definition to_lower :: "jsstr \<Rightarrow> jsstr" where
  "to_lower s = map lower_unit s"

definition upper_unit :: "nat \<Rightarrow> nat" where
  "upper_unit c = (if 97 \<le> c \<and> c \<le> 122 then c - 32 else c)"

definition is_digit :: "nat \<Rightarrow> bool" where
  "is_digit c \<longleftrightarrow> 48 \<le> c \<and> c \<le> 57"

definition is_alpha :: "nat \<Rightarrow> bool" where
  "is_alpha c \<longleftrightarrow> (65 \<le> c \<and> c \<le> 90) \<or> (97 \<le> c \<and> c \<le> 122)"

definition is_control :: "nat \<Rightarrow> bool" where
  \<comment> \<open>the class \<^verbatim>\<open>[\x00-\x1f\x7f]\<close>\<close>
  "is_control c \<longleftrightarrow> c \<le> 31 \<or> c = 127"

fun starts_with :: "jsstr \<Rightarrow> jsstr \<Rightarrow> bool" where
  "starts_with [] s = True"
| "starts_with (p # ps) [] = False"
| "starts_with (p # ps) (c # cs) = (p = c \<and> starts_with ps cs)"

fun index_of :: "jsstr \<Rightarrow> jsstr \<Rightarrow> nat option" where
  \<comment> \<open>\<^verbatim>\<open>s.indexOf(p)\<close>, with \<open>None\<close> for \<open>-1\<close>\<close>
  "index_of p [] = (if p = [] then Some 0 else None)"
| "index_of p (c # cs) = (if starts_with p (c # cs) then Some 0 else map_option Suc (index_of p cs))"

definition contains :: "jsstr \<Rightarrow> jsstr \<Rightarrow> bool" where
  "contains p s \<longleftrightarrow> index_of p s \<noteq> None"

fun last_index_of :: "nat \<Rightarrow> jsstr \<Rightarrow> nat option" where
  \<comment> \<open>\<^verbatim>\<open>s.lastIndexOf(c)\<close> for one code unit\<close>
  "last_index_of x [] = None"
| "last_index_of x (c # cs) =
     (case last_index_of x cs of Some n \<Rightarrow> Some (Suc n) | None \<Rightarrow> if c = x then Some 0 else None)"

fun split_on :: "nat \<Rightarrow> jsstr \<Rightarrow> jsstr list" where
  \<comment> \<open>\<^verbatim>\<open>s.split(c)\<close> for one code unit: never the empty list\<close>
  "split_on d [] = [[]]"
| "split_on d (c # cs) =
     (if c = d then [] # split_on d cs
      else (case split_on d cs of [] \<Rightarrow> [[c]] | w # ws \<Rightarrow> (c # w) # ws))"

fun join :: "jsstr \<Rightarrow> jsstr list \<Rightarrow> jsstr" where
  "join sep [] = []"
| "join sep [x] = x"
| "join sep (x # y # ys) = x @ sep @ join sep (y # ys)"

text \<open>Code-unit order, as \<^verbatim>\<open><\<close> on strings.\<close>

fun str_less :: "jsstr \<Rightarrow> jsstr \<Rightarrow> bool" where
  "str_less [] [] = False"
| "str_less [] (d # ds) = True"
| "str_less (c # cs) [] = False"
| "str_less (c # cs) (d # ds) = (c < d \<or> (c = d \<and> str_less cs ds))"

lemma js_Nil [simp]: "js [] = []"
  by (simp add: js_def)

lemma js_append: "js (a @ b) = js a @ js b"
  by (simp add: js_def)

lemma js_eq_iff [simp]: "js a = js b \<longleftrightarrow> a = b"
  unfolding js_def by (rule inj_map_eq_map) (simp add: inj_def of_char_eq_iff)

lemma js_eq_Nil_iff [simp]: "js a = [] \<longleftrightarrow> a = []"
  by (simp add: js_def)

lemma Nil_eq_js_iff [simp]: "[] = js a \<longleftrightarrow> a = []"
  by (auto simp: js_def)

lemma length_js [simp]: "length (js s) = length s"
  by (simp add: js_def)

lemma starts_with_iff: "starts_with p s \<longleftrightarrow> (\<exists>t. s = p @ t)"
  by (induction p s rule: starts_with.induct) auto

lemma starts_with_append [simp]: "starts_with p (p @ s)"
  by (simp add: starts_with_iff)

lemma index_of_Some_split:
  "index_of p s = Some n \<Longrightarrow> \<exists>a b. s = a @ p @ b \<and> length a = n"
proof (induction p s arbitrary: n rule: index_of.induct)
  case (1 p)
  then show ?case by (auto split: if_splits)
next
  case (2 p c cs)
  show ?case
  proof (cases "starts_with p (c # cs)")
    case True
    with "2.prems" show ?thesis by (auto simp: starts_with_iff)
  next
    case False
    with "2.prems" obtain m where m: "index_of p cs = Some m" "n = Suc m" by auto
    then obtain a b where "cs = a @ p @ b" "length a = m" using "2.IH" False by blast
    with m have "c # cs = (c # a) @ p @ b \<and> length (c # a) = n" by simp
    then show ?thesis by blast
  qed
qed

lemma index_of_self: "index_of p (p @ b) = Some 0"
proof (cases "p @ b")
  case (Cons c cs)
  then have "starts_with p (c # cs)" using starts_with_append [of p b] by simp
  then show ?thesis unfolding Cons by simp
qed simp

lemma index_of_unit: "d \<notin> set a \<Longrightarrow> index_of [d] (a @ d # b) = Some (length a)"
  by (induction a) auto

lemma index_of_none: "d \<notin> set l \<Longrightarrow> index_of [d] l = None"
  by (induction l) auto

lemma index_of_append_Some: "index_of p (a @ p @ b) \<noteq> None"
  by (induction a) (simp_all add: index_of_self)

lemma contains_iff: "contains p s \<longleftrightarrow> (\<exists>a b. s = a @ p @ b)"
  unfolding contains_def using index_of_Some_split index_of_append_Some by fastforce

lemma split_on_not_Nil [simp]: "split_on d s \<noteq> []"
  by (induction d s rule: split_on.induct) (auto split: list.splits)

lemma join_split_on: "join [d] (split_on d s) = s"
proof (induction d s rule: split_on.induct)
  case (2 d c cs)
  then show ?case
    by (cases "split_on d cs" rule: list.exhaust; cases "tl (split_on d cs)") auto
qed simp

lemma split_on_no_sep: "d \<notin> set s \<Longrightarrow> split_on d s = [s]"
  by (induction d s rule: split_on.induct) auto

lemma split_on_line: "d \<notin> set s \<Longrightarrow> split_on d (s @ d # t) = s # split_on d t"
  by (induction s) auto

lemma split_on_join: "ls \<noteq> [] \<Longrightarrow> (\<And>l. l \<in> set ls \<Longrightarrow> d \<notin> set l) \<Longrightarrow> split_on d (join [d] ls) = ls"
proof (induction "[d]" ls rule: join.induct)
  case (3 x y ys)
  then show ?case using split_on_line [of d x] by simp
qed (auto simp: split_on_no_sep)

lemma split_on_append: "split_on d (a @ d # b) = split_on d a @ split_on d b"
  by (induction d a rule: split_on.induct) (auto split: list.splits)

lemma split_lines: "(\<And>l. l \<in> set ls \<Longrightarrow> d \<notin> set l) \<Longrightarrow> split_on d (concat (map (\<lambda>l. l @ [d]) ls)) = ls @ [[]]"
  by (induction ls) (simp_all add: split_on_line)

lemma split_on_parts: "w \<in> set (split_on d s) \<Longrightarrow> d \<notin> set w"
proof (induction d s arbitrary: w rule: split_on.induct)
  case (2 d c cs)
  then show ?case by (auto split: if_splits list.splits)
qed simp

lemma str_less_irrefl [simp]: "\<not> str_less s s"
  by (induction s) auto

lemma str_less_trans: "str_less a b \<Longrightarrow> str_less b c \<Longrightarrow> str_less a c"
proof (induction a b arbitrary: c rule: str_less.induct)
  case (4 x xs y ys)
  then show ?case by (cases c) auto
next
  case (2 d ds)
  then show ?case by (cases c) auto
qed auto

lemma str_less_linear: "str_less a b \<or> a = b \<or> str_less b a"
  by (induction a b rule: str_less.induct) auto

lemmas js_unfold = js_def to_lower_def lower_unit_def is_digit_def is_alpha_def is_control_def
  is_ws_def trim_def trim_start_def trim_end_def

declare js_unfold [js_eval]

lemma set_trim: "set (trim s) \<subseteq> set s"
  unfolding trim_def trim_start_def trim_end_def
  by (auto dest!: set_dropWhileD)

lemma trim_Nil [simp]: "trim [] = []"
  by (simp add: trim_def trim_start_def trim_end_def)

lemma lower_unit_idem [simp]: "lower_unit (lower_unit c) = lower_unit c"
  by (auto simp: lower_unit_def)

lemma to_lower_idem [simp]: "to_lower (to_lower s) = to_lower s"
  by (simp add: to_lower_def)

lemma to_lower_dropWhile:
  "(\<And>c. P (lower_unit c) = P c) \<Longrightarrow> dropWhile P (to_lower s) = to_lower (dropWhile P s)"
  by (induction s) (auto simp: to_lower_def)

lemma is_ws_lower [simp]: "is_ws (lower_unit c) = is_ws c"
  by (auto simp: is_ws_def lower_unit_def)

lemma trim_to_lower: "trim (to_lower s) = to_lower (trim s)"
proof -
  have "rev (to_lower t) = to_lower (rev t)" for t by (simp add: to_lower_def rev_map)
  then show ?thesis by (simp add: trim_def trim_start_def trim_end_def to_lower_dropWhile)
qed

lemma dropWhile_idem': "dropWhile P (dropWhile P s) = dropWhile P s"
  by (induction s) auto

lemma trim_start_idem: "trim_start (trim_start s) = trim_start s"
  by (simp add: trim_start_def dropWhile_idem')

lemma trim_end_idem: "trim_end (trim_end s) = trim_end s"
  by (simp add: trim_end_def dropWhile_idem')

lemma trim_start_end: "trim_start s = s \<Longrightarrow> trim_start (trim_end s) = trim_end s"
proof -
  assume "trim_start s = s"
  then have h: "s = [] \<or> \<not> is_ws (hd s)"
    using hd_dropWhile [of is_ws s] by (auto simp: trim_start_def)
  show ?thesis
  proof (cases "trim_end s")
    case Nil
    then show ?thesis by (simp add: trim_start_def)
  next
    case (Cons c cs)
    have "\<exists>t. s = trim_end s @ t"
      unfolding trim_end_def by (metis rev_append rev_rev_ident takeWhile_dropWhile_id)
    with Cons h show ?thesis by (auto simp: trim_start_def)
  qed
qed

lemma trim_idem [simp]: "trim (trim s) = trim s"
  by (simp add: trim_def trim_start_end trim_end_idem trim_start_idem)

section \<open>Numbers\<close>

datatype jsnum = NaN | PosInf | NegInf | Fin rat

abbreviation numi :: "int \<Rightarrow> jsnum" where
  "numi n \<equiv> Fin (of_int n)"

fun is_finite :: "jsnum \<Rightarrow> bool" where
  "is_finite (Fin q) = True"
| "is_finite _ = False"

fun num_floor :: "jsnum \<Rightarrow> jsnum" where
  "num_floor (Fin q) = Fin (of_int \<lfloor>q\<rfloor>)"
| "num_floor x = x"

fun num_lt :: "jsnum \<Rightarrow> jsnum \<Rightarrow> bool" where
  "num_lt NaN y = False"
| "num_lt x NaN = False"
| "num_lt PosInf y = False"
| "num_lt x NegInf = False"
| "num_lt NegInf y = True"
| "num_lt x PosInf = True"
| "num_lt (Fin a) (Fin b) = (a < b)"

definition num_eq :: "jsnum \<Rightarrow> jsnum \<Rightarrow> bool" where
  \<comment> \<open>\<^verbatim>\<open>===\<close> on numbers: \<open>NaN\<close> equals nothing\<close>
  "num_eq x y \<longleftrightarrow> x \<noteq> NaN \<and> x = y"

definition num_le :: "jsnum \<Rightarrow> jsnum \<Rightarrow> bool" where
  "num_le x y \<longleftrightarrow> num_lt x y \<or> num_eq x y"

fun num_add :: "jsnum \<Rightarrow> jsnum \<Rightarrow> jsnum" where
  "num_add (Fin a) (Fin b) = Fin (a + b)"
| "num_add NaN y = NaN"
| "num_add x NaN = NaN"
| "num_add PosInf NegInf = NaN"
| "num_add NegInf PosInf = NaN"
| "num_add PosInf y = PosInf"
| "num_add NegInf y = NegInf"
| "num_add x PosInf = PosInf"
| "num_add x NegInf = NegInf"

fun num_neg :: "jsnum \<Rightarrow> jsnum" where
  "num_neg (Fin a) = Fin (- a)"
| "num_neg PosInf = NegInf"
| "num_neg NegInf = PosInf"
| "num_neg NaN = NaN"

definition num_sub :: "jsnum \<Rightarrow> jsnum \<Rightarrow> jsnum" where
  "num_sub x y = num_add x (num_neg y)"

fun num_scale :: "rat \<Rightarrow> jsnum \<Rightarrow> jsnum" where
  \<comment> \<open>multiplication by a positive constant\<close>
  "num_scale k (Fin a) = Fin (k * a)"
| "num_scale k x = x"

definition num_max :: "jsnum \<Rightarrow> jsnum \<Rightarrow> jsnum" where
  "num_max x y = (if x = NaN \<or> y = NaN then NaN else if num_lt x y then y else x)"

definition num_min :: "jsnum \<Rightarrow> jsnum \<Rightarrow> jsnum" where
  "num_min x y = (if x = NaN \<or> y = NaN then NaN else if num_lt y x then y else x)"

definition num_or_zero :: "jsnum \<Rightarrow> jsnum" where
  \<comment> \<open>\<^verbatim>\<open>x || 0\<close>\<close>
  "num_or_zero x = (if x = NaN then Fin 0 else x)"

lemmas num_defs = num_eq_def num_le_def num_sub_def num_max_def num_min_def num_or_zero_def

declare num_defs [num_simps]

lemma num_lt_irrefl [simp]: "\<not> num_lt x x"
  by (cases x) auto

lemma num_le_refl: "x \<noteq> NaN \<Longrightarrow> num_le x x"
  by (simp add: num_simps)

lemma num_lt_trans: "num_lt x y \<Longrightarrow> num_lt y z \<Longrightarrow> num_lt x z"
  by (cases x; cases y; cases z) auto

lemma num_lt_linear: "x \<noteq> NaN \<Longrightarrow> y \<noteq> NaN \<Longrightarrow> num_lt x y \<or> x = y \<or> num_lt y x"
  by (cases x; cases y) auto

lemma num_le_trans: "num_le x y \<Longrightarrow> num_le y z \<Longrightarrow> num_le x z"
  by (auto simp: num_le_def num_eq_def intro: num_lt_trans)

lemma num_floor_eq_NaN [simp]: "num_floor x = NaN \<longleftrightarrow> x = NaN"
  by (cases x) auto

lemma num_le_Fin [simp]: "num_le (Fin a) (Fin b) \<longleftrightarrow> a \<le> b"
  by (auto simp: num_simps)

lemma num_max_Fin [simp]: "num_max (Fin a) (Fin b) = Fin (max a b)"
  by (auto simp: num_simps max_def)

lemma num_min_Fin [simp]: "num_min (Fin a) (Fin b) = Fin (min a b)"
  by (auto simp: num_simps min_def)

lemma num_sub_Fin [simp]: "num_sub (Fin a) (Fin b) = Fin (a - b)"
  by (simp add: num_simps)

lemma num_or_zero_Fin [simp]: "num_or_zero (Fin a) = Fin a"
  by (simp add: num_simps)

lemma num_or_zero_not_NaN [simp]: "num_or_zero x \<noteq> NaN"
  by (simp add: num_simps)

subsection \<open>Numbers from text and back\<close>

definition digit_val :: "nat \<Rightarrow> nat" where
  "digit_val c = c - 48"

definition digits_val :: "jsstr \<Rightarrow> nat" where
  "digits_val ds = foldl (\<lambda>n c. 10 * n + digit_val c) 0 ds"

definition pow10 :: "int \<Rightarrow> rat" where
  "pow10 e = (if 0 \<le> e then 10 ^ nat e else 1 / 10 ^ nat (- e))"

definition double_max :: rat where
  \<comment> \<open>from here on, rounding to nearest gives an infinity\<close>
  "double_max = 2 ^ 1024 - 2 ^ 970"

definition to_double :: "rat \<Rightarrow> jsnum" where
  "to_double q = (if double_max \<le> q then PosInf else if q \<le> - double_max then NegInf else Fin q)"

definition span :: "('a \<Rightarrow> bool) \<Rightarrow> 'a list \<Rightarrow> 'a list \<times> 'a list" where
  "span P xs = (takeWhile P xs, dropWhile P xs)"

text \<open>An unsigned decimal literal: digits, an optional fraction, an optional exponent.\<close>

definition read_exponent :: "jsstr \<Rightarrow> int \<times> jsstr" where
  \<comment> \<open>an exponent part that is not complete is not consumed\<close>
  "read_exponent s =
     (case s of
        [] \<Rightarrow> (0, s)
      | c # r \<Rightarrow>
          (if c = 101 \<or> c = 69 then
             (let (neg, r1) = (case r of d # r' \<Rightarrow> if d = 45 then (True, r') else if d = 43 then (False, r')
                                                   else (False, r) | [] \<Rightarrow> (False, r));
                  (ds, r2) = span is_digit r1
              in if ds = [] then (0, s)
                 else ((if neg then - int (digits_val ds) else int (digits_val ds)), r2))
           else (0, s)))"

definition decimal_value :: "jsstr \<Rightarrow> jsstr \<Rightarrow> int \<Rightarrow> jsnum" where
  "decimal_value ip fp e =
     to_double (of_nat (digits_val (ip @ fp)) * pow10 (e - int (length fp)))"

definition parse_decimal :: "jsstr \<Rightarrow> jsnum option" where
  \<comment> \<open>\<^verbatim>\<open>StrUnsignedDecimalLiteral\<close> over the whole text\<close>
  "parse_decimal s =
     (let (ip, r1) = span is_digit s;
          (fp, r2) = (case r1 of c # r \<Rightarrow> if c = 46 then span is_digit r else ([], r1) | [] \<Rightarrow> ([], r1));
          (e, r3) = read_exponent r2
      in if (ip = [] \<and> fp = []) \<or> r3 \<noteq> [] then None else Some (decimal_value ip fp e))"

definition radix_digit :: "nat \<Rightarrow> nat option" where
  "radix_digit c = (if is_digit c then Some (c - 48)
                    else if 97 \<le> c \<and> c \<le> 122 then Some (c - 87)
                    else if 65 \<le> c \<and> c \<le> 90 then Some (c - 55) else None)"

definition parse_radix :: "nat \<Rightarrow> jsstr \<Rightarrow> jsnum" where
  "parse_radix b ds =
     (if ds \<noteq> [] \<and> (\<forall>c\<in>set ds. \<exists>d<b. radix_digit c = Some d)
      then to_double (of_nat (foldl (\<lambda>n c. b * n + the (radix_digit c)) 0 ds)) else NaN)"

definition string_to_number :: "jsstr \<Rightarrow> jsnum" where
  \<comment> \<open>\<^verbatim>\<open>Number(s)\<close> for a string\<close>
  "string_to_number s0 =
     (let s = trim s0 in
      if s = [] then Fin 0
      else if starts_with (js ''0x'') s \<or> starts_with (js ''0X'') s then parse_radix 16 (drop 2 s)
      else if starts_with (js ''0o'') s \<or> starts_with (js ''0O'') s then parse_radix 8 (drop 2 s)
      else if starts_with (js ''0b'') s \<or> starts_with (js ''0B'') s then parse_radix 2 (drop 2 s)
      else
        (let (neg, r) = (if hd s = 45 then (True, tl s) else if hd s = 43 then (False, tl s) else (False, s));
             v = (if r = js ''Infinity'' then Some PosInf else parse_decimal r)
         in (case v of None \<Rightarrow> NaN | Some n \<Rightarrow> if neg then num_neg n else n)))"

fun nat_digits_acc :: "nat \<Rightarrow> jsstr \<Rightarrow> jsstr" where
  "nat_digits_acc n acc =
     (if n < 10 then (48 + n) # acc else nat_digits_acc (n div 10) ((48 + n mod 10) # acc))"

declare nat_digits_acc.simps [simp del]

definition nat_to_str :: "nat \<Rightarrow> jsstr" where
  "nat_to_str n = nat_digits_acc n []"

definition int_to_str :: "int \<Rightarrow> jsstr" where
  "int_to_str n = (if n < 0 then 45 # nat_to_str (nat (- n)) else nat_to_str (nat n))"

text \<open>
  Finite non-integers and integers from \<open>10 ^ 21\<close>: the digits of the exact decimal (the scale
  search is bounded by the 1074 fraction digits a double can have), laid out as
  \<^verbatim>\<open>Number.prototype.toString\<close> lays them out.
\<close>

fun decimal_scale :: "nat \<Rightarrow> rat \<Rightarrow> nat \<Rightarrow> nat" where
  "decimal_scale 0 q k = k"
| "decimal_scale (Suc f) q k = (if q \<in> \<int> then k else decimal_scale f (10 * q) (Suc k))"

definition strip_zeros :: "jsstr \<Rightarrow> jsstr" where
  "strip_zeros ds = rev (dropWhile (\<lambda>c. c = 48) (rev ds))"

definition decimal_to_str :: "rat \<Rightarrow> jsstr" where
  "decimal_to_str q =
     (let k0 = decimal_scale 1100 q 0;
          ds0 = nat_to_str (nat \<lfloor>q * 10 ^ k0\<rfloor>);
          n = int (length ds0) - int k0;
          ds = strip_zeros ds0;
          k = int (length ds);
          e = n - 1
      in if k \<le> n \<and> n \<le> 21 then ds @ replicate (nat (n - k)) 48
         else if 0 < n \<and> n \<le> 21 then take (nat n) ds @ [46] @ drop (nat n) ds
         else if - 6 < n \<and> n \<le> 0 then js ''0.'' @ replicate (nat (- n)) 48 @ ds
         else (let m = (if k = 1 then ds else hd ds # 46 # tl ds)
               in m @ [101, if e < 0 then 45 else 43] @ nat_to_str (nat \<bar>e\<bar>)))"

fun num_to_str :: "jsnum \<Rightarrow> jsstr" where
  "num_to_str NaN = js ''NaN''"
| "num_to_str PosInf = js ''Infinity''"
| "num_to_str NegInf = js ''-Infinity''"
| "num_to_str (Fin q) =
     (if q = of_int \<lfloor>q\<rfloor> \<and> \<bar>q\<bar> < 10 ^ 21 then int_to_str \<lfloor>q\<rfloor>
      else if q < 0 then 45 # decimal_to_str (- q) else decimal_to_str q)"

lemma num_to_str_int: "\<bar>n\<bar> < 10 ^ 21 \<Longrightarrow> num_to_str (numi n) = int_to_str n"
proof -
  assume "\<bar>n\<bar> < 10 ^ 21"
  then have "\<bar>of_int n :: rat\<bar> < 10 ^ 21"
    by (metis of_int_abs of_int_less_iff of_int_numeral of_int_power)
  then show ?thesis by simp
qed

lemma nat_digits_acc_append: "nat_digits_acc n acc = nat_digits_acc n [] @ acc"
proof (induction n arbitrary: acc rule: less_induct)
  case (less n)
  show ?case
  proof (cases "n < 10")
    case True
    then show ?thesis by (simp add: nat_digits_acc.simps [of n])
  next
    case False
    then have lt: "n div 10 < n" by simp
    have "nat_digits_acc n acc = nat_digits_acc (n div 10) ((48 + n mod 10) # acc)"
      using False by (simp add: nat_digits_acc.simps [of n acc])
    also have "\<dots> = nat_digits_acc (n div 10) [] @ [48 + n mod 10] @ acc"
      using less [OF lt, of "(48 + n mod 10) # acc"] by simp
    also have "\<dots> = nat_digits_acc n [] @ acc"
      using False less [OF lt, of "[48 + n mod 10]"] by (simp add: nat_digits_acc.simps [of n "[]"])
    finally show ?thesis .
  qed
qed

lemma nat_to_str_unfold:
  "nat_to_str n = (if n < 10 then [48 + n] else nat_to_str (n div 10) @ [48 + n mod 10])"
  using nat_digits_acc_append [of "n div 10" "[48 + n mod 10]"]
  by (simp add: nat_to_str_def nat_digits_acc.simps [of n "[]"])

lemma digits_val_snoc: "digits_val (ds @ [c]) = 10 * digits_val ds + digit_val c"
  by (simp add: digits_val_def)

lemma nat_to_str_digits: "c \<in> set (nat_to_str n) \<Longrightarrow> is_digit c"
proof (induction n rule: less_induct)
  case (less n)
  show ?case
  proof (cases "n < 10")
    case True
    with less.prems show ?thesis by (simp add: nat_to_str_unfold [of n] is_digit_def)
  next
    case False
    have "n mod 10 < 10" by simp
    then have "is_digit (48 + n mod 10)" unfolding is_digit_def by arith
    with False less.prems less.IH [of "n div 10"] show ?thesis
      by (auto simp: nat_to_str_unfold [of n])
  qed
qed

lemma nat_to_str_not_Nil [simp]: "nat_to_str n \<noteq> []"
  by (simp add: nat_to_str_unfold [of n])

lemma digits_val_nat_to_str [simp]: "digits_val (nat_to_str n) = n"
proof (induction n rule: less_induct)
  case (less n)
  show ?case
  proof (cases "n < 10")
    case True
    then show ?thesis by (simp add: nat_to_str_unfold [of n] digits_val_def digit_val_def)
  next
    case False
    with less [of "n div 10"] show ?thesis
      by (simp add: nat_to_str_unfold [of n] digits_val_snoc digit_val_def)
  qed
qed

lemma nat_to_str_leading_zero: "nat_to_str n = 48 # t \<Longrightarrow> n = 0 \<and> t = []"
proof (induction n arbitrary: t rule: less_induct)
  case (less n)
  show ?case
  proof (cases "n < 10")
    case True
    with less.prems show ?thesis by (simp add: nat_to_str_unfold [of n])
  next
    case False
    with less.prems obtain u where u: "nat_to_str (n div 10) = 48 # u"
      by (cases "nat_to_str (n div 10)") (auto simp: nat_to_str_unfold [of n])
    with False less.IH [of "n div 10" u] have "n div 10 = 0" by simp
    with False show ?thesis by simp
  qed
qed

section \<open>Values\<close>

datatype jsval =
    JUndef
  | JNull
  | JBool bool
  | JNum jsnum
  | JStr jsstr
  | JArr "jsval list"
  | JObj "(jsstr \<times> jsval) list"

abbreviation jint :: "int \<Rightarrow> jsval" where
  "jint n \<equiv> JNum (numi n)"

fun truthy :: "jsval \<Rightarrow> bool" where
  "truthy JUndef = False"
| "truthy JNull = False"
| "truthy (JBool b) = b"
| "truthy (JNum n) = (n \<noteq> NaN \<and> n \<noteq> Fin 0)"
| "truthy (JStr s) = (s \<noteq> [])"
| "truthy (JArr xs) = True"
| "truthy (JObj ps) = True"

definition js_or :: "jsval \<Rightarrow> jsval \<Rightarrow> jsval" where
  \<comment> \<open>\<^verbatim>\<open>a || b\<close>\<close>
  "js_or a b = (if truthy a then a else b)"

fun nullish :: "jsval \<Rightarrow> bool" where
  "nullish JUndef = True"
| "nullish JNull = True"
| "nullish _ = False"

fun is_object :: "jsval \<Rightarrow> bool" where
  \<comment> \<open>\<^verbatim>\<open>v && typeof v === "object"\<close>\<close>
  "is_object (JObj ps) = True"
| "is_object (JArr xs) = True"
| "is_object _ = False"

fun is_string :: "jsval \<Rightarrow> bool" where
  \<comment> \<open>\<^verbatim>\<open>typeof v === "string"\<close>\<close>
  "is_string (JStr s) = True"
| "is_string _ = False"

lemma is_string_iff: "is_string v \<longleftrightarrow> (\<exists>s. v = JStr s)"
  by (cases v) auto

fun is_array :: "jsval \<Rightarrow> bool" where
  "is_array (JArr xs) = True"
| "is_array _ = False"

text \<open>
  An object is its list of own properties in enumeration order: array indices first, in
  ascending order, then the other keys in insertion order.
\<close>

definition is_index_key :: "jsstr \<Rightarrow> bool" where
  "is_index_key k \<longleftrightarrow> k \<noteq> [] \<and> (\<forall>c\<in>set k. is_digit c) \<and> (k = [48] \<or> hd k \<noteq> 48)
     \<and> digits_val k < 4294967295"

definition key_before :: "jsstr \<Rightarrow> jsstr \<Rightarrow> bool" where
  "key_before k j \<longleftrightarrow> is_index_key k \<and> (is_index_key j \<longrightarrow> digits_val k < digits_val j)"

fun obj_put :: "(jsstr \<times> 'a) list \<Rightarrow> jsstr \<Rightarrow> 'a \<Rightarrow> (jsstr \<times> 'a) list" where
  "obj_put [] k v = [(k, v)]"
| "obj_put ((j, w) # ps) k v =
     (if j = k then (k, v) # ps
      else if key_before k j \<and> k \<notin> fst ` set ps then (k, v) # (j, w) # ps
      else (j, w) # obj_put ps k v)"

definition obj_get :: "(jsstr \<times> jsval) list \<Rightarrow> jsstr \<Rightarrow> jsval" where
  "obj_get ps k = (case map_of ps k of None \<Rightarrow> JUndef | Some v \<Rightarrow> v)"

fun get_prop :: "jsval \<Rightarrow> jsstr \<Rightarrow> jsval" where
  \<comment> \<open>\<^verbatim>\<open>v.k\<close>; the source never reads a property of null or undefined\<close>
  "get_prop (JObj ps) k = obj_get ps k"
| "get_prop (JArr xs) k =
     (if k = js ''length'' then JNum (Fin (of_nat (length xs)))
      else if is_index_key k \<and> digits_val k < length xs then xs ! digits_val k else JUndef)"
| "get_prop (JStr s) k =
     (if k = js ''length'' then JNum (Fin (of_nat (length s)))
      else if is_index_key k \<and> digits_val k < length s then JStr [s ! digits_val k] else JUndef)"
| "get_prop _ k = JUndef"

lemma map_of_obj_put [simp]:
  "map_of (obj_put ps k v) j = (if j = k then Some v else map_of ps j)"
proof (induction ps k v rule: obj_put.induct)
  case (2 i w ps k v)
  then show ?case by (cases "i = k"; cases "key_before k i \<and> k \<notin> fst ` set ps") auto
qed simp

lemma obj_get_put [simp]:
  "obj_get (obj_put ps k v) j = (if j = k then v else obj_get ps j)"
  by (simp add: obj_get_def)

lemma keys_obj_put [simp]: "fst ` set (obj_put ps k v) = insert k (fst ` set ps)"
proof (induction ps k v rule: obj_put.induct)
  case (2 i w ps k v)
  then show ?case by (cases "i = k"; cases "key_before k i \<and> k \<notin> fst ` set ps") auto
qed simp

lemma distinct_obj_put: "distinct (map fst ps) \<Longrightarrow> distinct (map fst (obj_put ps k v))"
proof (induction ps k v rule: obj_put.induct)
  case (2 j w ps k v)
  have "j \<noteq> k \<Longrightarrow> j \<notin> fst ` set (obj_put ps k v) \<longleftrightarrow> j \<notin> fst ` set ps" by auto
  with 2 show ?case by auto
qed simp

fun to_str :: "jsval \<Rightarrow> jsstr" where
  \<comment> \<open>\<^verbatim>\<open>String(v)\<close>\<close>
  "to_str JUndef = js ''undefined''"
| "to_str JNull = js ''null''"
| "to_str (JBool b) = (if b then js ''true'' else js ''false'')"
| "to_str (JNum n) = num_to_str n"
| "to_str (JStr s) = s"
| "to_str (JArr xs) = join [44] (map (\<lambda>x. if nullish x then [] else to_str x) xs)"
| "to_str (JObj ps) = js ''[object Object]''"

fun to_num :: "jsval \<Rightarrow> jsnum" where
  \<comment> \<open>\<^verbatim>\<open>Number(v)\<close>\<close>
  "to_num JUndef = NaN"
| "to_num JNull = Fin 0"
| "to_num (JBool b) = (if b then Fin 1 else Fin 0)"
| "to_num (JNum n) = n"
| "to_num (JStr s) = string_to_number s"
| "to_num (JArr xs) = string_to_number (to_str (JArr xs))"
| "to_num (JObj ps) = NaN"

definition str_or :: "jsval \<Rightarrow> jsstr \<Rightarrow> jsstr" where
  \<comment> \<open>\<^verbatim>\<open>String(v || d)\<close>\<close>
  "str_or v d = (if truthy v then to_str v else d)"

definition text_of :: "jsval \<Rightarrow> jsstr" where
  \<comment> \<open>\<^verbatim>\<open>String(v === undefined || v === null ? "" : v)\<close>\<close>
  "text_of v = (if nullish v then [] else to_str v)"

lemma str_or_JStr [simp]: "str_or (JStr s) [] = s"
  by (simp add: str_or_def)

lemma text_of_JStr [simp]: "text_of (JStr s) = s"
  by (simp add: text_of_def)

section \<open>Array.prototype.sort\<close>

text \<open>The stable sort; \<open>le a b\<close> is \<^verbatim>\<open>compare(a, b) <= 0\<close>.\<close>

fun insert_by :: "('a \<Rightarrow> 'a \<Rightarrow> bool) \<Rightarrow> 'a \<Rightarrow> 'a list \<Rightarrow> 'a list" where
  "insert_by le x [] = [x]"
| "insert_by le x (y # ys) = (if le x y then x # y # ys else y # insert_by le x ys)"

definition sort_by :: "('a \<Rightarrow> 'a \<Rightarrow> bool) \<Rightarrow> 'a list \<Rightarrow> 'a list" where
  "sort_by le xs = foldr (insert_by le) xs []"

lemma mset_insert_by [simp]: "mset (insert_by le x ys) = add_mset x (mset ys)"
  by (induction ys) auto

lemma mset_sort_by [simp]: "mset (sort_by le xs) = mset xs"
  by (induction xs) (auto simp: sort_by_def)

lemma set_sort_by [simp]: "set (sort_by le xs) = set xs"
  using mset_sort_by [of le xs] by (metis set_mset_mset)

lemma set_insert_by [simp]: "set (insert_by le x ys) = insert x (set ys)"
  by (induction ys) auto

lemma length_sort_by [simp]: "length (sort_by le xs) = length xs"
  by (metis mset_sort_by size_mset)

lemma sort_by_Nil [simp]: "sort_by le [] = []"
  by (simp add: sort_by_def)

lemma distinct_map_mset_eq:
  "mset xs = mset ys \<Longrightarrow> distinct (map f xs) = distinct (map f ys)"
  by (metis mset_eq_imp_distinct_iff mset_map)

lemma distinct_map_sort_by [simp]: "distinct (map f (sort_by le xs)) = distinct (map f xs)"
  by (rule distinct_map_mset_eq) simp

text \<open>What a comparison function promises its sorts: a total preorder on the values it sees.\<close>

locale sort_order =
  fixes le :: "'a \<Rightarrow> 'a \<Rightarrow> bool"
  assumes le_total: "le a b \<or> le b a"
    and le_trans: "le a b \<Longrightarrow> le b c \<Longrightarrow> le a c"
begin

lemma sorted_insert_by: "sorted_wrt le ys \<Longrightarrow> sorted_wrt le (insert_by le x ys)"
proof (induction ys)
  case (Cons y ys)
  show ?case
  proof (cases "le x y")
    case True
    with Cons.prems show ?thesis by (auto intro: le_trans)
  next
    case False
    with le_total have "le y x" by blast
    with False Cons show ?thesis by auto
  qed
qed simp

lemma sorted_sort_by: "sorted_wrt le (sort_by le xs)"
  by (induction xs) (auto simp: sort_by_def intro: sorted_insert_by)

lemma sort_by_id: "sorted_wrt le xs \<Longrightarrow> sort_by le xs = xs"
proof (induction xs)
  case (Cons x xs)
  then have "sort_by le (x # xs) = insert_by le x xs" by (simp add: sort_by_def)
  with Cons.prems show ?case by (cases xs) auto
qed simp

lemma sort_by_idem: "sort_by le (sort_by le xs) = sort_by le xs"
  by (rule sort_by_id) (rule sorted_sort_by)

end

section \<open>State machines\<close>

text \<open>
  The contract of a component whose state changes only through one step function: the
  invariant holds at the start and every step keeps it. The panel's supervisor, the account
  registry and the prompt cooldown are instances.
\<close>

locale machine =
  fixes start :: "'s"
    and step :: "'s \<Rightarrow> 'e \<Rightarrow> 's"
    and inv :: "'s \<Rightarrow> bool"
  assumes inv_start: "inv start"
    and inv_step: "inv s \<Longrightarrow> inv (step s e)"
begin

lemma inv_run_from: "inv s \<Longrightarrow> inv (foldl step s es)"
  by (induction es arbitrary: s) (auto intro: inv_step)

lemma inv_run: "inv (foldl step start es)"
  by (rule inv_run_from) (rule inv_start)

end

end
