(* ===== verification/Shell.thy ===== *)
theory Shell
  imports Prelude
begin

text \<open>
  The command builders of \<^verbatim>\<open>BitwardenModel.js\<close> that run \<^verbatim>\<open>bw\<close> under a byte cap, and a model of how
  the shell splits the text they build into words. A value quoted by \<open>shellQuote\<close> is always one
  word of the script with exactly its text, so no id or URL of a vault can become a second
  word, an option or a command.
\<close>

section \<open>Quoting and caps\<close>

definition shellQuote :: "jsstr \<Rightarrow> jsstr" where
  \<comment> \<open>\<^verbatim>\<open>"'" + value.replace(/'/g, "'\\''") + "'"\<close>\<close>
  "shellQuote value = [39] @ concat (map (\<lambda>c. if c = 39 then [39, 92, 39, 39] else [c]) value) @ [39]"

definition MAX_ITEMS_BYTES :: nat where "MAX_ITEMS_BYTES = 16 * 1024 * 1024"
definition MAX_DETAIL_BYTES :: nat where "MAX_DETAIL_BYTES = 4 * 1024 * 1024"
definition MAX_SENDS_BYTES :: nat where "MAX_SENDS_BYTES = 8 * 1024 * 1024"
definition MAX_COLLECTIONS_BYTES :: nat where "MAX_COLLECTIONS_BYTES = 2 * 1024 * 1024"
definition MAX_FOLDERS_BYTES :: nat where "MAX_FOLDERS_BYTES = 2 * 1024 * 1024"
definition MAX_ORGS_BYTES :: nat where "MAX_ORGS_BYTES = 2 * 1024 * 1024"
definition MAX_STATUS_BYTES :: nat where "MAX_STATUS_BYTES = 64 * 1024"
definition MAX_TOKEN_BYTES :: nat where "MAX_TOKEN_BYTES = 4096"
definition MAX_STDERR_BYTES :: nat where "MAX_STDERR_BYTES = 8192"
definition MAX_MISC_BYTES :: nat where "MAX_MISC_BYTES = 64 * 1024"

definition SANITIZED_LIST_ERROR :: jsstr where "SANITIZED_LIST_ERROR = js ''Could not safely read vault items.''"

definition cappedScript :: "jsstr \<Rightarrow> nat \<Rightarrow> jsstr" where
  \<comment> \<open>no cap on stderr is \<open>0\<close>\<close>
  \<open>cappedScript script maxStderrBytes =
     (if maxStderrBytes \<noteq> 0
      then js ''exec 2> >(head -c '' @ nat_to_str maxStderrBytes @ js '' >&2); '' else [])
     @ js ''set -o pipefail; '' @ script
     @ js ''\<newline>__rc=$?\<newline>case "$__rc" in 141) __rc=0 ;; esac\<newline>exit "$__rc"''\<close>

definition plain_arg_unit :: "nat \<Rightarrow> bool" where
  \<comment> \<open>the class \<^verbatim>\<open>[a-zA-Z0-9_\-\.\/]\<close>\<close>
  "plain_arg_unit c \<longleftrightarrow> is_alpha c \<or> is_digit c \<or> c = 95 \<or> c = 45 \<or> c = 46 \<or> c = 47"

definition quote_arg :: "jsstr \<Rightarrow> jsstr" where
  "quote_arg arg = (if arg \<noteq> [] \<and> (\<forall>c\<in>set arg. plain_arg_unit c) then arg else shellQuote arg)"

definition capped_inner :: "jsstr list \<Rightarrow> jsstr" where
  "capped_inner args = js ''bw'' @ concat (map (\<lambda>arg. 32 # quote_arg arg) args)"

definition buildCappedCommand :: "jsstr list \<Rightarrow> nat \<Rightarrow> nat \<Rightarrow> jsstr list" where
  "buildCappedCommand args maxStdoutBytes maxStderrBytes =
     (let inner = capped_inner args
                  @ (if maxStdoutBytes \<noteq> 0 then js '' | head -c '' @ nat_to_str maxStdoutBytes else [])
      in [js ''bash'', js ''-c'', cappedScript inner maxStderrBytes])"

section \<open>Private directories and supervised jobs\<close>

definition privateDirScript :: "jsstr \<Rightarrow> jsstr" where
  \<open>privateDirScript name =
     (let d = js ''"$'' @ name @ js ''"''
      in js ''if [ -e '' @ d @ js '' ]; then [ -d '' @ d @ js '' ] && [ ! -L '' @ d @ js '' ] || exit 1; ''
         @ js ''else (umask 077 && mkdir -p -- '' @ d @ js '') || exit 1; fi; chmod 700 -- '' @ d @ js '' || exit 1; '')\<close>

definition supervisedProcessPrelude :: "jsstr \<Rightarrow> jsstr" where
  \<open>supervisedProcessPrelude cleanupCommand =
     js ''__auth_job='' @ [39, 39] @ js ''; ''
     @ js ''__auth_cleanup() { trap - EXIT HUP INT TERM; ''
     @ js ''if [ -n "${__auth_job:-}" ]; then ''
     @ js ''kill -TERM -- "-$__auth_job" 2>/dev/null || true; ''
     @ js ''wait "$__auth_job" 2>/dev/null || true; fi; ''
     @ (if cleanupCommand \<noteq> [] then cleanupCommand @ js ''; '' else [])
     @ js ''}; ''
     @ js ''trap '__auth_cleanup' EXIT; ''
     @ js ''trap '__auth_cleanup; exit 143' HUP INT TERM; ''\<close>

definition supervisedProcessRun :: "jsstr \<Rightarrow> jsstr" where
  \<open>supervisedProcessRun command =
     js ''set -m; ('' @ cappedScript command MAX_STDERR_BYTES @ js '') & ''
     @ js ''__auth_job=$!; wait "$__auth_job"; __auth_rc=$?; ''
     @ js ''__auth_job='' @ [39, 39] @ js ''; exit "$__auth_rc"''\<close>

definition supervisedProcessCommand :: "jsstr \<Rightarrow> jsstr \<Rightarrow> jsstr list" where
  \<comment> \<open>no prelude is the empty text\<close>
  "supervisedProcessCommand command before =
     [js ''bash'', js ''-c'', before @ supervisedProcessPrelude [] @ supervisedProcessRun command]"

section \<open>Commands\<close>

definition statusCommand :: "jsstr list" where
  "statusCommand = buildCappedCommand [js ''status''] MAX_STATUS_BYTES 0"

definition listOrganizationsCommand :: "jsstr list" where
  "listOrganizationsCommand = buildCappedCommand [js ''list'', js ''organizations''] MAX_ORGS_BYTES 0"

definition listFoldersCommand :: "jsstr list" where
  "listFoldersCommand = buildCappedCommand [js ''list'', js ''folders''] MAX_FOLDERS_BYTES 0"

definition listCollectionsCommand :: "jsstr list" where
  "listCollectionsCommand = buildCappedCommand [js ''list'', js ''collections''] MAX_COLLECTIONS_BYTES 0"

definition listOrgCollectionsCommand :: "jsstr \<Rightarrow> jsstr list" where
  "listOrgCollectionsCommand organizationId =
     buildCappedCommand [js ''list'', js ''org-collections'', js ''--organizationid'', organizationId]
       MAX_COLLECTIONS_BYTES 0"

definition ssh_type :: "jsnum \<Rightarrow> bool" where
  \<comment> \<open>\<^verbatim>\<open>Number(typeCode) === 5\<close>\<close>
  "ssh_type typeCode \<longleftrightarrow> typeCode = Fin 5"

definition getItemCommand :: "jsstr \<Rightarrow> jsnum \<Rightarrow> jsstr list" where
  "getItemCommand itemId typeCode =
     (if ssh_type typeCode then []
      else buildCappedCommand [js ''get'', js ''item'', js ''--'', itemId] MAX_DETAIL_BYTES MAX_STDERR_BYTES)"

definition getPasswordCommand :: "jsstr \<Rightarrow> jsnum \<Rightarrow> jsstr list" where
  "getPasswordCommand itemId typeCode =
     (if ssh_type typeCode then []
      else buildCappedCommand [js ''get'', js ''password'', js ''--raw'', js ''--'', itemId]
             MAX_TOKEN_BYTES MAX_STDERR_BYTES)"

definition getTotpCommand :: "jsstr \<Rightarrow> jsnum \<Rightarrow> jsstr list" where
  "getTotpCommand itemId typeCode =
     (if ssh_type typeCode then []
      else buildCappedCommand [js ''get'', js ''totp'', js ''--raw'', js ''--'', itemId] MAX_TOKEN_BYTES 0)"

definition syncCommand :: "jsstr list" where
  "syncCommand = buildCappedCommand [js ''sync''] MAX_MISC_BYTES 0"

definition lockCommand :: "jsstr list" where
  "lockCommand = buildCappedCommand [js ''lock''] MAX_MISC_BYTES 0"

definition deleteItemCommand :: "jsstr \<Rightarrow> jsnum \<Rightarrow> jsstr list" where
  "deleteItemCommand itemId typeCode =
     (if ssh_type typeCode then []
      else buildCappedCommand [js ''delete'', js ''item'', js ''--'', itemId] MAX_MISC_BYTES MAX_STDERR_BYTES)"

definition listSendsCommand :: "jsstr list" where
  "listSendsCommand = buildCappedCommand [js ''send'', js ''list''] MAX_SENDS_BYTES 0"

definition deleteSendCommand :: "jsstr \<Rightarrow> jsstr list" where
  "deleteSendCommand sendId =
     buildCappedCommand [js ''send'', js ''delete'', js ''--'', sendId] MAX_MISC_BYTES 0"

section \<open>How the shell reads a word\<close>

text \<open>
  The words of a simple command, for the characters that stand for themselves, single quotes
  and backslash escapes; a character that would start an expansion, a double quote or a glob
  is outside this fragment and reads as \<open>None\<close>.
\<close>

definition sh_blank :: "nat \<Rightarrow> bool" where
  "sh_blank c \<longleftrightarrow> c = 32 \<or> c = 9"

definition sh_meta :: "nat \<Rightarrow> bool" where
  \<comment> \<open>newline and \<^verbatim>\<open>| & ; ( ) < >\<close>\<close>
  "sh_meta c \<longleftrightarrow> c = 10 \<or> c = 124 \<or> c = 38 \<or> c = 59 \<or> c = 40 \<or> c = 41 \<or> c = 60 \<or> c = 62"

definition sh_special :: "nat \<Rightarrow> bool" where
  \<comment> \<open>\<^verbatim>\<open>$ ` " * ? [ ] ~ # ! { } = %\<close>\<close>
  "sh_special c \<longleftrightarrow> c = 36 \<or> c = 96 \<or> c = 34 \<or> c = 42 \<or> c = 63 \<or> c = 91 \<or> c = 93 \<or> c = 126
     \<or> c = 35 \<or> c = 33 \<or> c = 123 \<or> c = 125 \<or> c = 61 \<or> c = 37"

fun sh_word :: "bool \<Rightarrow> jsstr \<Rightarrow> (jsstr \<times> jsstr) option" where
  \<comment> \<open>the flag: inside single quotes\<close>
  "sh_word True [] = None"
| "sh_word True (c # cs) =
     (if c = 39 then sh_word False cs else map_option (\<lambda>(w, r). (c # w, r)) (sh_word True cs))"
| "sh_word False [] = Some ([], [])"
| "sh_word False (c # cs) =
     (if c = 39 then sh_word True cs
      else if sh_blank c \<or> sh_meta c then Some ([], c # cs)
      else if sh_special c then None
      else if c = 92 then
        (case cs of [] \<Rightarrow> None
         | d # ds \<Rightarrow> if d = 10 then sh_word False ds else map_option (\<lambda>(w, r). (d # w, r)) (sh_word False ds))
      else map_option (\<lambda>(w, r). (c # w, r)) (sh_word False cs))"

fun sh_words :: "nat \<Rightarrow> jsstr \<Rightarrow> (jsstr list \<times> jsstr) option" where
  \<comment> \<open>the words up to the first metacharacter, and the text from there; at most \<open>n\<close> words\<close>
  "sh_words 0 s = None"
| "sh_words (Suc n) s =
     (let r = dropWhile sh_blank s in
      if r = [] \<or> sh_meta (hd r) then Some ([], r)
      else (case sh_word False r of None \<Rightarrow> None
            | Some (w, r') \<Rightarrow> map_option (\<lambda>(ws, r''). (w # ws, r'')) (sh_words n r')))"

section \<open>Quoting is exact\<close>

definition word_end :: "jsstr \<Rightarrow> bool" where
  "word_end t \<longleftrightarrow> t = [] \<or> sh_blank (hd t) \<or> sh_meta (hd t)"

definition command_end :: "jsstr \<Rightarrow> bool" where
  "command_end t \<longleftrightarrow> word_end t \<and> (dropWhile sh_blank t = [] \<or> sh_meta (hd (dropWhile sh_blank t)))"

lemma not_quote_word_end: "sh_blank c \<or> sh_meta c \<Longrightarrow> c \<noteq> 39"
  by (auto simp: sh_blank_def sh_meta_def)

lemma sh_word_end: "word_end t \<Longrightarrow> sh_word False t = Some ([], t)"
  using not_quote_word_end by (cases t) (auto simp: word_end_def)

lemma sh_word_escaped_quote:
  "sh_word True ([39, 92, 39, 39] @ t) = map_option (\<lambda>(w, r). (39 # w, r)) (sh_word True t)"
  by (simp add: sh_blank_def sh_meta_def sh_special_def)

lemma sh_word_quoted_body:
  "sh_word True (concat (map (\<lambda>c. if c = 39 then [39, 92, 39, 39] else [c]) s) @ 39 # t)
   = map_option (\<lambda>(w, r). (s @ w, r)) (sh_word False t)"
proof (induction s)
  case Nil
  then show ?case by (cases "sh_word False t") auto
next
  case (Cons c s)
  then show ?case
    using sh_word_escaped_quote [of "concat (map (\<lambda>c. if c = 39 then [39, 92, 39, 39] else [c]) s) @ 39 # t"]
    by (cases "sh_word False t") auto
qed

lemma sh_word_shellQuote:
  assumes "word_end t"
  shows "sh_word False (shellQuote s @ t) = Some (s, t)"
  using sh_word_quoted_body [of s t] sh_word_end [OF assms] by (simp add: shellQuote_def)

lemma plain_arg_unit_literal:
  "plain_arg_unit c \<Longrightarrow> c \<noteq> 39 \<and> \<not> sh_blank c \<and> \<not> sh_meta c \<and> \<not> sh_special c \<and> c \<noteq> 92"
  by (auto simp: plain_arg_unit_def is_alpha_def is_digit_def sh_blank_def sh_meta_def sh_special_def)

lemma sh_word_plain:
  "(\<forall>c\<in>set s. plain_arg_unit c) \<Longrightarrow> word_end t \<Longrightarrow> sh_word False (s @ t) = Some (s, t)"
proof (induction s)
  case Nil
  then show ?case by (simp add: sh_word_end)
next
  case (Cons c s)
  then have "sh_word False (s @ t) = Some (s, t)" by simp
  with Cons.prems plain_arg_unit_literal [of c] show ?case by simp
qed

text \<open>
  What a quoting function promises the builders that paste its output into a script: whatever
  the value, the shell reads it back as one word, and the word starts visibly.
\<close>

locale word_quoting =
  fixes quote :: "jsstr \<Rightarrow> jsstr"
  assumes one_word: "word_end t \<Longrightarrow> sh_word False (quote s @ t) = Some (s, t)"
    and starts: "quote s \<noteq> [] \<and> \<not> sh_blank (hd (quote s)) \<and> \<not> sh_meta (hd (quote s))"
begin

lemma words_of_args:
  assumes "length args < n" and "command_end t"
  shows "sh_words n (concat (map (\<lambda>a. 32 # quote a) args) @ t) = Some (args, dropWhile sh_blank t)"
  using assms
proof (induction args arbitrary: n)
  case Nil
  then obtain m where "n = Suc m" by (cases n) auto
  then show ?case using Nil by (simp add: command_end_def)
next
  case (Cons a args)
  then obtain m where m: "n = Suc m" by (cases n) auto
  let ?rest = "concat (map (\<lambda>a. 32 # quote a) args) @ t"
  have "word_end ?rest"
    using Cons.prems(2) by (cases args) (auto simp: word_end_def command_end_def sh_blank_def)
  then have w: "sh_word False (quote a @ ?rest) = Some (a, ?rest)" by (rule one_word)
  have "dropWhile sh_blank (32 # quote a @ ?rest) = quote a @ ?rest"
    using starts [of a] by (cases "quote a") (auto simp: sh_blank_def)
  with w starts [of a] Cons m show ?case by simp
qed

end

lemma quote_arg_one_word:
  assumes "word_end t"
  shows "sh_word False (quote_arg s @ t) = Some (s, t)"
  using sh_word_plain [of s t] sh_word_shellQuote [OF assms] assms by (simp add: quote_arg_def)

lemma quote_arg_starts:
  "quote_arg s \<noteq> [] \<and> \<not> sh_blank (hd (quote_arg s)) \<and> \<not> sh_meta (hd (quote_arg s))"
proof (cases "s \<noteq> [] \<and> (\<forall>c\<in>set s. plain_arg_unit c)")
  case True
  then show ?thesis using plain_arg_unit_literal [of "hd s"] by (auto simp: quote_arg_def)
next
  case False
  then have "quote_arg s = shellQuote s" unfolding quote_arg_def by (rule if_not_P)
  then show ?thesis by (simp add: shellQuote_def sh_blank_def sh_meta_def)
qed

interpretation arg_quoting: word_quoting quote_arg
  by unfold_locales (fact quote_arg_one_word, fact quote_arg_starts)

interpretation shell_quoting: word_quoting shellQuote
  by unfold_locales
    (fact sh_word_shellQuote, simp add: shellQuote_def sh_blank_def sh_meta_def)

lemma capped_inner_words:
  assumes "command_end t" and "length args + 1 < n"
  shows "sh_words n (capped_inner args @ t) = Some (js ''bw'' # args, dropWhile sh_blank t)"
proof -
  obtain m where m: "n = Suc m" "length args < m" using assms(2) by (cases n) auto
  let ?rest = "concat (map (\<lambda>a. 32 # quote_arg a) args) @ t"
  have we: "word_end ?rest"
    using assms(1) by (cases args) (auto simp: word_end_def command_end_def sh_blank_def)
  have "sh_word False (js ''bw'' @ ?rest) = Some (js ''bw'', ?rest)"
    by (rule sh_word_plain [OF _ we]) (simp add: js_def plain_arg_unit_def is_alpha_def)
  moreover have "dropWhile sh_blank (js ''bw'' @ ?rest) = js ''bw'' @ ?rest"
    by (simp add: js_def sh_blank_def)
  moreover have "\<not> sh_meta (hd (js ''bw'' @ ?rest))" by (simp add: js_def sh_meta_def)
  ultimately show ?thesis
    using arg_quoting.words_of_args [OF m(2) assms(1)]
    by (simp add: capped_inner_def m(1) Let_def)
qed

section \<open>Properties\<close>

text \<open>
  Text quoted by \<open>shellQuote\<close> is read by the shell as exactly that text, whatever it
  holds (quotes, blanks, separators, expansions) and whatever follows it in the word.
\<close>

theorem shellQuote_exact:
  "sh_word False (shellQuote s @ t) = map_option (\<lambda>(w, r). (s @ w, r)) (sh_word False t)"
  using sh_word_quoted_body [of s t] by (simp add: shellQuote_def)

text \<open>
  C19: A capped command runs \<^verbatim>\<open>bw\<close> with exactly the given arguments, one word each, and ends at the
  pipe into \<^verbatim>\<open>head -c\<close> (or at the end of the script without a cap): no argument can add a word
  or a command.
\<close>

theorem buildCappedCommand_argv:
  "\<exists>inner. buildCappedCommand args maxOut maxErr = [js ''bash'', js ''-c'', cappedScript inner maxErr] \<and>
     sh_words (length args + 2) inner
     = Some (js ''bw'' # args, if maxOut = 0 then [] else js ''| head -c '' @ nat_to_str maxOut)"
proof -
  let ?t = "if maxOut \<noteq> 0 then js '' | head -c '' @ nat_to_str maxOut else []"
  have "command_end ?t" "dropWhile sh_blank ?t = (if maxOut = 0 then [] else js ''| head -c '' @ nat_to_str maxOut)"
    by (auto simp: command_end_def word_end_def js_def sh_blank_def sh_meta_def)
  with capped_inner_words [of ?t args "length args + 2"] show ?thesis
    by (intro exI [of _ "capped_inner args @ ?t"]) (simp add: buildCappedCommand_def Let_def)
qed

end
