(* ===== verification/Json.thy ===== *)
theory Json
  imports Prelude
begin

text \<open>
  \<^verbatim>\<open>JSON.parse\<close> and \<^verbatim>\<open>JSON.stringify\<close> on the values of the model, as ECMAScript defines them: the
  reader takes the strict JSON grammar (no trailing text, no leading zeros, no raw control
  characters in strings), a repeated key keeps its first position and its last value, and the
  writer escapes quotes, controls and lone surrogates. The reader runs on fuel; \<open>fuel_enough\<close>
  shows that the fuel \<open>json_parse\<close> gives it is always enough, and \<open>json_parse_stringify\<close> that
  writing and reading back is the identity on plain values.
\<close>

section \<open>Reader\<close>

definition json_ws :: "nat \<Rightarrow> bool" where
  "json_ws c \<longleftrightarrow> c = 9 \<or> c = 10 \<or> c = 13 \<or> c = 32"

definition skip_ws :: "jsstr \<Rightarrow> jsstr" where
  "skip_ws s = dropWhile json_ws s"

definition hex_digit :: "nat \<Rightarrow> nat option" where
  "hex_digit c = (case radix_digit c of None \<Rightarrow> None | Some d \<Rightarrow> if d < 16 then Some d else None)"

definition hex4 :: "nat \<Rightarrow> nat \<Rightarrow> nat \<Rightarrow> nat \<Rightarrow> nat option" where
  "hex4 a b c d =
     (case (hex_digit a, hex_digit b, hex_digit c, hex_digit d) of
        (Some w, Some x, Some y, Some z) \<Rightarrow> Some (((w * 16 + x) * 16 + y) * 16 + z)
      | _ \<Rightarrow> None)"

definition simple_escape :: "nat \<Rightarrow> nat option" where
  "simple_escape e =
     (if e = 34 \<or> e = 92 \<or> e = 47 then Some e
      else if e = 98 then Some 8 else if e = 102 then Some 12 else if e = 110 then Some 10
      else if e = 114 then Some 13 else if e = 116 then Some 9 else None)"

definition cons_unit :: "nat \<Rightarrow> (jsstr \<times> jsstr) option \<Rightarrow> (jsstr \<times> jsstr) option" where
  "cons_unit u r = map_option (\<lambda>(s, t). (u # s, t)) r"

fun read_string :: "jsstr \<Rightarrow> (jsstr \<times> jsstr) option" where
  \<comment> \<open>the text after the opening quote\<close>
  "read_string [] = None"
| "read_string (c # r) =
     (if c = 34 then Some ([], r)
      else if c < 32 then None
      else if c = 92 then
        (case r of
           [] \<Rightarrow> None
         | e # r2 \<Rightarrow>
             (if e = 117 then
                (case r2 of
                   a # b # x # y # r3 \<Rightarrow>
                     (case hex4 a b x y of None \<Rightarrow> None | Some u \<Rightarrow> cons_unit u (read_string r3))
                 | _ \<Rightarrow> None)
              else (case simple_escape e of None \<Rightarrow> None | Some u \<Rightarrow> cons_unit u (read_string r2))))
      else cons_unit c (read_string r))"

definition read_sign :: "jsstr \<Rightarrow> bool \<times> jsstr" where
  "read_sign s = (case s of c # t \<Rightarrow> if c = 45 then (True, t) else (False, s) | [] \<Rightarrow> (False, s))"

definition read_fraction :: "jsstr \<Rightarrow> (jsstr \<times> jsstr) option" where
  \<comment> \<open>the digits after a point, which must be there if the point is\<close>
  "read_fraction s =
     (case s of
        c # t \<Rightarrow> if c = 46 then (if takeWhile is_digit t = [] then None else Some (span is_digit t))
                 else Some ([], s)
      | [] \<Rightarrow> Some ([], s))"

definition read_number :: "jsstr \<Rightarrow> (jsnum \<times> jsstr) option" where
  "read_number s =
     (let (neg, r) = read_sign s; ip = takeWhile is_digit r; r1 = dropWhile is_digit r
      in if ip = [] \<or> (1 < length ip \<and> hd ip = 48) then None
         else
           (case read_fraction r1 of
              None \<Rightarrow> None
            | Some (fp, r2) \<Rightarrow>
                (let (e, r3) = read_exponent r2; v = decimal_value ip fp e
                 in Some (if neg then num_neg v else v, r3))))"

definition read_word :: "jsstr \<Rightarrow> (jsval \<times> jsstr) option" where
  "read_word s =
     (if starts_with (js ''null'') s then Some (JNull, drop 4 s)
      else if starts_with (js ''true'') s then Some (JBool True, drop 4 s)
      else if starts_with (js ''false'') s then Some (JBool False, drop 5 s)
      else map_option (\<lambda>(n, r). (JNum n, r)) (read_number s))"

fun json_value :: "nat \<Rightarrow> jsstr \<Rightarrow> (jsval \<times> jsstr) option"
  and json_items :: "nat \<Rightarrow> jsstr \<Rightarrow> (jsval list \<times> jsstr) option"
  and json_members ::
    "nat \<Rightarrow> (jsstr \<times> jsval) list \<Rightarrow> jsstr \<Rightarrow> ((jsstr \<times> jsval) list \<times> jsstr) option" where
  "json_value 0 s = None"
| "json_value (Suc n) s =
     (case skip_ws s of
        [] \<Rightarrow> None
      | c # r \<Rightarrow>
          (if c = 34 then map_option (\<lambda>(t, u). (JStr t, u)) (read_string r)
           else if c = 91 then
             (case skip_ws r of
                [] \<Rightarrow> None
              | d # r2 \<Rightarrow> if d = 93 then Some (JArr [], r2)
                          else map_option (\<lambda>(xs, u). (JArr xs, u)) (json_items n r))
           else if c = 123 then
             (case skip_ws r of
                [] \<Rightarrow> None
              | d # r2 \<Rightarrow> if d = 125 then Some (JObj [], r2)
                          else map_option (\<lambda>(ps, u). (JObj ps, u)) (json_members n [] r))
           else read_word (c # r)))"
| "json_items 0 s = None"
| "json_items (Suc n) s =
     (case json_value n s of
        None \<Rightarrow> None
      | Some (v, r) \<Rightarrow>
          (case skip_ws r of
             [] \<Rightarrow> None
           | c # r2 \<Rightarrow> if c = 44 then map_option (\<lambda>(vs, u). (v # vs, u)) (json_items n r2)
                       else if c = 93 then Some ([v], r2) else None))"
| "json_members 0 acc s = None"
| "json_members (Suc n) acc s =
     (case skip_ws s of
        [] \<Rightarrow> None
      | c # r \<Rightarrow>
          (if c \<noteq> 34 then None
           else
             (case read_string r of
                None \<Rightarrow> None
              | Some (k, r1) \<Rightarrow>
                  (case skip_ws r1 of
                     [] \<Rightarrow> None
                   | d # r2 \<Rightarrow>
                       (if d \<noteq> 58 then None
                        else
                          (case json_value n r2 of
                             None \<Rightarrow> None
                           | Some (v, r3) \<Rightarrow>
                               (case skip_ws r3 of
                                  [] \<Rightarrow> None
                                | e # r4 \<Rightarrow>
                                    if e = 44 then json_members n (obj_put acc k v) r4
                                    else if e = 125 then Some (obj_put acc k v, r4) else None)))))))"

definition json_parse :: "jsstr \<Rightarrow> jsval option" where
  \<comment> \<open>\<^verbatim>\<open>JSON.parse(s)\<close>; \<open>None\<close> is the SyntaxError it throws\<close>
  "json_parse s =
     (case json_value (2 * length s + 1) s of
        Some (v, r) \<Rightarrow> if skip_ws r = [] then Some v else None
      | None \<Rightarrow> None)"

section \<open>Writer\<close>

definition is_high_surrogate :: "nat \<Rightarrow> bool" where
  "is_high_surrogate c \<longleftrightarrow> 55296 \<le> c \<and> c \<le> 56319"

definition is_low_surrogate :: "nat \<Rightarrow> bool" where
  "is_low_surrogate c \<longleftrightarrow> 56320 \<le> c \<and> c \<le> 57343"

definition hex_char :: "nat \<Rightarrow> nat" where
  "hex_char d = (if d < 10 then 48 + d else 87 + d)"

definition hex_unit :: "nat \<Rightarrow> jsstr" where
  "hex_unit c = [hex_char (c div 4096 mod 16), hex_char (c div 256 mod 16),
                 hex_char (c div 16 mod 16), hex_char (c mod 16)]"

definition quote_unit :: "nat \<Rightarrow> jsstr" where
  "quote_unit c =
     (if c = 34 \<or> c = 92 then [92, c]
      else if c = 8 then [92, 98] else if c = 9 then [92, 116] else if c = 10 then [92, 110]
      else if c = 12 then [92, 102] else if c = 13 then [92, 114]
      else if c < 32 \<or> is_high_surrogate c \<or> is_low_surrogate c then [92, 117] @ hex_unit c
      else [c])"

fun quote_units :: "jsstr \<Rightarrow> jsstr" where
  "quote_units [] = []"
| "quote_units (c # cs) =
     (case cs of
        d # ds \<Rightarrow> if is_high_surrogate c \<and> is_low_surrogate d then c # d # quote_units ds
                  else quote_unit c @ quote_units cs
      | [] \<Rightarrow> quote_unit c)"

definition json_quote :: "jsstr \<Rightarrow> jsstr" where
  "json_quote s = 34 # quote_units s @ [34]"

fun json_str :: "jsval \<Rightarrow> jsstr" where
  "json_str JUndef = js ''null''"
| "json_str JNull = js ''null''"
| "json_str (JBool b) = (if b then js ''true'' else js ''false'')"
| "json_str (JNum n) = (if is_finite n then num_to_str n else js ''null'')"
| "json_str (JStr s) = json_quote s"
| "json_str (JArr xs) = 91 # join [44] (map json_str xs) @ [93]"
| "json_str (JObj ps) =
     123 # join [44] (concat (map (\<lambda>(k, v). if v = JUndef then [] else [json_quote k @ 58 # json_str v]) ps)) @ [125]"

text \<open>
  The values that survive a round trip: no undefined, integers, strings of code units, and
  objects listed in their enumeration order.
\<close>

definition units_ok :: "jsstr \<Rightarrow> bool" where
  "units_ok s \<longleftrightarrow> (\<forall>c\<in>set s. c < 65536)"

definition put_all :: "(jsstr \<times> 'a) list \<Rightarrow> (jsstr \<times> 'a) list \<Rightarrow> (jsstr \<times> 'a) list" where
  "put_all acc ps = foldl (\<lambda>a (k, v). obj_put a k v) acc ps"

fun plain_num :: "jsnum \<Rightarrow> bool" where
  "plain_num (Fin q) = (q = of_int \<lfloor>q\<rfloor> \<and> \<bar>q\<bar> < 10 ^ 21)"
| "plain_num _ = False"

fun plain :: "jsval \<Rightarrow> bool" where
  "plain JUndef = False"
| "plain JNull = True"
| "plain (JBool b) = True"
| "plain (JNum n) = plain_num n"
| "plain (JStr s) = units_ok s"
| "plain (JArr xs) = (\<forall>x\<in>set xs. plain x)"
| "plain (JObj ps) = ((\<forall>(k, v)\<in>set ps. units_ok k \<and> plain v) \<and> put_all [] ps = ps)"

lemma units_ok_js [simp]: "units_ok (js s)"
proof -
  have "of_char c < (65536 :: nat)" for c using nat_of_char_less_256 [of c] by linarith
  then show ?thesis by (auto simp: units_ok_def js_def)
qed

lemma name_not_index [simp]: "\<not> is_digit (of_char c) \<Longrightarrow> \<not> is_index_key (js (c # cs))"
  by (auto simp: is_index_key_def js_def)

lemma obj_put_name:
  "\<not> is_index_key k \<Longrightarrow> k \<notin> fst ` set ps \<Longrightarrow> obj_put ps k v = ps @ [(k, v)]"
  by (induction ps k v rule: obj_put.induct) (auto simp: key_before_def)

lemma put_all_names:
  "\<lbrakk>distinct (map fst (acc @ ps)); \<forall>k\<in>set (map fst ps). \<not> is_index_key k\<rbrakk> \<Longrightarrow> put_all acc ps = acc @ ps"
proof (induction ps arbitrary: acc)
  case (Cons p ps)
  obtain k v where "p = (k, v)" by force
  with Cons show ?case using Cons.IH [of "acc @ [p]"] by (simp add: put_all_def obj_put_name)
qed (simp add: put_all_def)

lemma plain_JObj_names:
  "\<lbrakk>distinct (map fst ps); \<forall>(k, v)\<in>set ps. \<not> is_index_key k \<and> units_ok k \<and> plain v\<rbrakk> \<Longrightarrow> plain (JObj ps)"
  using put_all_names [of "[]" ps] by (auto simp: case_prod_beta)

section \<open>The fuel is enough\<close>

lemma length_skip_ws: "length (skip_ws s) \<le> length s"
  by (simp add: skip_ws_def length_dropWhile_le)

lemma skip_ws_Cons_length: "skip_ws s = c # r \<Longrightarrow> length r < length s"
  using length_skip_ws [of s] by simp

lemma read_string_length: "read_string s = Some (t, r) \<Longrightarrow> length r < length s"
proof (induction s arbitrary: t rule: read_string.induct)
  case (2 c r')
  then show ?case
    by (fastforce simp: cons_unit_def split: if_splits list.splits option.splits)
qed simp

lemma read_exponent_length: "length (snd (read_exponent s)) \<le> length s"
  by (auto simp: read_exponent_def span_def Let_def length_dropWhile_le
      split: list.splits intro: le_SucI order_trans [OF length_dropWhile_le])

lemma read_sign_length: "length (snd (read_sign s)) \<le> length s"
  by (auto simp: read_sign_def split: list.splits)

lemma read_fraction_length: "read_fraction s = Some (f, r) \<Longrightarrow> length r \<le> length s"
  by (auto simp: read_fraction_def span_def split: list.splits if_splits intro: le_SucI length_dropWhile_le)

lemma read_number_length:
  assumes "read_number s = Some (n, r)"
  shows "length r < length s"
proof -
  obtain neg t where t: "read_sign s = (neg, t)" by fastforce
  from assms t obtain fp r2 where ip: "takeWhile is_digit t \<noteq> []"
    and fr: "read_fraction (dropWhile is_digit t) = Some (fp, r2)"
    and r: "r = snd (read_exponent r2)"
    by (auto simp: read_number_def Let_def split: if_splits option.splits prod.splits)
  from ip have "length (dropWhile is_digit t) < length t"
    by (metis length_append length_greater_0_conv less_add_same_cancel2 takeWhile_dropWhile_id)
  with read_fraction_length [OF fr] read_exponent_length [of r2] read_sign_length [of s] t r
  show ?thesis by simp
qed

lemma read_word_length: "read_word s = Some (v, r) \<Longrightarrow> length r < length s"
  by (auto simp: read_word_def starts_with_iff dest: read_number_length split: if_splits)

lemma json_length:
  shows "json_value n s = Some (v, r) \<Longrightarrow> length r < length s"
    and "json_items n s = Some (vs, r) \<Longrightarrow> length r < length s"
    and "json_members n acc s = Some (ps, r) \<Longrightarrow> length r < length s"
proof (induction n s and n s and n acc s arbitrary: v r and vs r and ps r
    rule: json_value_json_items_json_members.induct)
  case (2 n s)
  then show ?case
    by (fastforce dest: read_string_length read_word_length skip_ws_Cons_length split: list.splits if_splits)
next
  case (4 n s)
  then show ?case
    by (fastforce dest: skip_ws_Cons_length split: list.splits if_splits option.splits)
next
  case (6 n acc s)
  then show ?case
    by (fastforce dest: read_string_length skip_ws_Cons_length split: list.splits if_splits option.splits)
qed simp_all

text \<open>Whatever any amount of fuel reads, any fuel from \<open>2 * length s + 1\<close> on reads too.\<close>

lemma fuel_enough:
  shows "json_value n s = Some x \<Longrightarrow> 2 * length s + 1 \<le> m \<Longrightarrow> json_value m s = Some x"
    and "json_items n s = Some y \<Longrightarrow> 2 * length s + 2 \<le> m \<Longrightarrow> json_items m s = Some y"
    and "json_members n acc s = Some z \<Longrightarrow> 2 * length s + 2 \<le> m \<Longrightarrow> json_members m acc s = Some z"
proof (induction n arbitrary: s x y acc z m)
  case (Suc n)
  {
    case 1
    then obtain k where k: "m = Suc k" by (cases m) auto
    from 1 obtain c r where cr: "skip_ws s = c # r" by (auto split: list.splits)
    have le: "2 * length r + 2 \<le> k" using skip_ws_Cons_length [OF cr] 1 k by simp
    have "json_items n r = Some y \<Longrightarrow> json_items k r = Some y"
      "json_members n [] r = Some z \<Longrightarrow> json_members k [] r = Some z" for y z
      using Suc.IH(2,3) le by blast+
    with 1 cr show ?case by (auto simp: k split: list.splits if_splits)
  next
    case 2
    then obtain k where k: "m = Suc k" by (cases m) auto
    from 2 obtain v r where v: "json_value n s = Some (v, r)" by (auto split: option.splits)
    from 2 v obtain c r2 where cr: "skip_ws r = c # r2" by (auto split: list.splits)
    have v': "json_value k s = Some (v, r)" using Suc.IH(1) [OF v] 2 k by simp
    have "2 * length r2 + 2 \<le> k"
      using skip_ws_Cons_length [OF cr] json_length(1) [OF v] 2 k by simp
    then have "json_items n r2 = Some y \<Longrightarrow> json_items k r2 = Some y" for y
      using Suc.IH(2) by blast
    with 2 v v' cr show ?case by (auto simp: k split: if_splits)
  next
    case 3
    then obtain k where k: "m = Suc k" by (cases m) auto
    from 3 obtain c r j r1 d r2 v r3 e r4 where
      st: "skip_ws s = c # r" "read_string r = Some (j, r1)" "skip_ws r1 = d # r2"
        "json_value n r2 = Some (v, r3)" "skip_ws r3 = e # r4" "c = 34" "d = 58"
      by (auto split: list.splits option.splits if_splits)
    have l: "length r2 < length s" "length r4 < length s"
      using skip_ws_Cons_length [OF st(1)] read_string_length [OF st(2)] skip_ws_Cons_length [OF st(3)]
        json_length(1) [OF st(4)] skip_ws_Cons_length [OF st(5)] by simp_all
    have v: "json_value k r2 = Some (v, r3)" using Suc.IH(1) [OF st(4)] l 3 k by simp
    have "2 * length r4 + 2 \<le> k" using l 3 k by simp
    then have "json_members n a r4 = Some z \<Longrightarrow> json_members k a r4 = Some z" for a z
      using Suc.IH(3) by blast
    with 3 v st show ?case by (auto simp: k split: if_splits)
  }
qed simp_all

section \<open>Reading back what was written\<close>

lemma hex_digit_hex_char: "d < 16 \<Longrightarrow> hex_digit (hex_char d) = Some d"
  by (auto simp: hex_digit_def hex_char_def radix_digit_def is_digit_def)

lemma hex4_hex_unit:
  assumes "c < 65536"
  shows "hex4 (hex_char (c div 4096 mod 16)) (hex_char (c div 256 mod 16))
           (hex_char (c div 16 mod 16)) (hex_char (c mod 16)) = Some c"
proof -
  have d: "c div 256 = c div 16 div 16" "c div 4096 = c div 16 div 16 div 16"
    by (simp_all flip: div_mult2_eq)
  have "c div 16 div 16 div 16 < 16" using assms by (simp flip: div_mult2_eq add: less_mult_imp_div_less)
  then have "((c div 4096 mod 16 * 16 + c div 256 mod 16) * 16 + c div 16 mod 16) * 16 + c mod 16 = c"
    unfolding d by (simp del: div_mult2_eq)
  moreover have "hex_digit (hex_char (x mod 16)) = Some (x mod 16)" for x
    by (rule hex_digit_hex_char) simp
  ultimately show ?thesis by (simp only: hex4_def prod.case option.case)
qed

lemma read_string_hex_unit:
  assumes "c < 65536"
  shows "read_string (92 # 117 # hex_unit c @ t) = cons_unit c (read_string t)"
  using hex4_hex_unit [OF assms] by (simp add: hex_unit_def)

lemma read_string_quote_unit:
  "c < 65536 \<Longrightarrow> read_string (quote_unit c @ t) = cons_unit c (read_string t)"
  unfolding quote_unit_def by (auto simp: read_string_hex_unit [simplified] simple_escape_def)

lemma read_string_plain_unit:
  "32 \<le> c \<Longrightarrow> c \<noteq> 34 \<Longrightarrow> c \<noteq> 92 \<Longrightarrow> read_string (c # t) = cons_unit c (read_string t)"
  by simp

lemma read_string_quote_units:
  "units_ok s \<Longrightarrow> read_string (quote_units s @ 34 # t) = Some (s, t)"
proof (induction s rule: quote_units.induct)
  case 1
  then show ?case by simp
next
  case (2 c cs)
  show ?case
  proof (cases cs)
    case Nil
    with "2.prems" show ?thesis
      by (simp add: read_string_quote_unit units_ok_def) (simp add: cons_unit_def)
  next
    case (Cons d ds)
    show ?thesis
    proof (cases "is_high_surrogate c \<and> is_low_surrogate d")
      case True
      then have "32 \<le> c" "c \<noteq> 34" "c \<noteq> 92" "32 \<le> d" "d \<noteq> 34" "d \<noteq> 92"
        by (auto simp: is_high_surrogate_def is_low_surrogate_def)
      with True 2 Cons show ?thesis
        by (simp add: read_string_plain_unit units_ok_def cons_unit_def del: read_string.simps)
    next
      case False
      with 2 Cons show ?thesis
        by (auto simp add: read_string_quote_unit units_ok_def cons_unit_def simp del: read_string.simps)
    qed
  qed
qed

definition delim :: "jsstr \<Rightarrow> bool" where
  "delim t \<longleftrightarrow> t = [] \<or> hd t = 44 \<or> hd t = 93 \<or> hd t = 125"

lemma takeWhile_digits:
  "(\<forall>c\<in>set ds. is_digit c) \<Longrightarrow> delim t \<Longrightarrow>
   takeWhile is_digit (ds @ t) = ds \<and> dropWhile is_digit (ds @ t) = t"
  by (induction ds) (auto simp: delim_def is_digit_def takeWhile_eq_Nil_iff, (cases t; simp add: is_digit_def)+)

lemma nat_to_str_single_or_nonzero: "1 < length (nat_to_str n) \<Longrightarrow> hd (nat_to_str n) \<noteq> 48"
proof
  assume l: "1 < length (nat_to_str n)" and h: "hd (nat_to_str n) = 48"
  then obtain t where "nat_to_str n = 48 # t" by (cases "nat_to_str n") auto
  with nat_to_str_leading_zero l show False by fastforce
qed

lemma read_exponent_delim: "delim t \<Longrightarrow> read_exponent t = (0, t)"
  by (auto simp: read_exponent_def delim_def split: list.splits)

lemma read_fraction_delim: "delim t \<Longrightarrow> read_fraction t = Some ([], t)"
  by (auto simp: read_fraction_def delim_def split: list.splits)

lemma double_max_bound: "(10::rat) ^ 21 < double_max"
  by (simp add: double_max_def)

lemma decimal_value_nat: "n < 10 ^ 21 \<Longrightarrow> decimal_value (nat_to_str n) [] 0 = Fin (of_nat n)"
proof -
  assume "n < 10 ^ 21"
  then have "(of_nat n :: rat) < 10 ^ 21"
    by (metis of_nat_less_iff of_nat_numeral of_nat_power)
  with double_max_bound have "(of_nat n :: rat) < double_max" by linarith
  moreover have "- double_max < (of_nat n :: rat)"
    using double_max_bound of_nat_0_le_iff [of n, where 'a = rat] by (auto simp: double_max_def)
  ultimately show ?thesis by (simp add: decimal_value_def to_double_def pow10_def)
qed

lemma read_number_nat:
  assumes "n < 10 ^ 21" "delim t"
  shows "read_number (nat_to_str n @ t) = Some (Fin (of_nat n), t)"
proof -
  obtain c u where cu: "nat_to_str n = c # u" by (cases "nat_to_str n") auto
  have dig: "\<forall>c\<in>set (nat_to_str n). is_digit c" by (simp add: nat_to_str_digits)
  then have "c \<noteq> 45" using cu by (auto simp: is_digit_def)
  then have "read_sign (nat_to_str n @ t) = (False, nat_to_str n @ t)"
    by (simp add: read_sign_def cu)
  then show ?thesis
    using takeWhile_digits [OF dig assms(2)] nat_to_str_single_or_nonzero [of n] assms
    by (auto simp: read_number_def Let_def read_fraction_delim read_exponent_delim decimal_value_nat)
qed

lemma read_number_neg:
  assumes "n < 10 ^ 21" "delim t"
  shows "read_number (45 # nat_to_str n @ t) = Some (Fin (- of_nat n), t)"
proof -
  have dig: "\<forall>c\<in>set (nat_to_str n). is_digit c" by (simp add: nat_to_str_digits)
  have "read_sign (45 # nat_to_str n @ t) = (True, nat_to_str n @ t)"
    by (simp add: read_sign_def)
  then show ?thesis
    using takeWhile_digits [OF dig assms(2)] nat_to_str_single_or_nonzero [of n] assms
    by (auto simp: read_number_def Let_def read_fraction_delim read_exponent_delim decimal_value_nat)
qed

lemma read_number_int:
  assumes "\<bar>i\<bar> < 10 ^ 21" "delim t"
  shows "read_number (int_to_str i @ t) = Some (numi i, t)"
proof (cases "i < 0")
  case True
  then have "nat (- i) < 10 ^ 21" using assms by (simp add: nat_less_iff)
  with True assms read_number_neg [of "nat (- i)" t] show ?thesis
    by (simp add: int_to_str_def of_nat_nat)
next
  case False
  then have "nat i < 10 ^ 21" using assms by (simp add: nat_less_iff)
  with False assms read_number_nat [of "nat i" t] show ?thesis
    by (simp add: int_to_str_def of_nat_nat)
qed

lemma starts_with_js_nomatch:
  "c \<noteq> of_char d \<Longrightarrow> \<not> starts_with (js (d # ds)) (c # t)"
  by (simp add: js_def)

lemma read_word_number:
  assumes "\<bar>i\<bar> < 10 ^ 21" "delim t"
  shows "read_word (int_to_str i @ t) = Some (JNum (numi i), t)"
proof -
  obtain c u where cu: "int_to_str i = c # u" by (cases "int_to_str i") (auto simp: int_to_str_def split: if_splits)
  have "c = 45 \<or> is_digit c"
    using cu nat_to_str_digits [of c "nat i"] by (auto simp: int_to_str_def split: if_splits)
  then have "c \<le> 57" by (auto simp: is_digit_def)
  then have "\<not> starts_with (js ''null'') (int_to_str i @ t)"
    "\<not> starts_with (js ''true'') (int_to_str i @ t)" "\<not> starts_with (js ''false'') (int_to_str i @ t)"
    unfolding cu by (auto intro!: starts_with_js_nomatch)
  then show ?thesis using read_number_int [OF assms] by (simp add: read_word_def)
qed

lemma read_word_literals [simp]:
  "read_word (js ''null'' @ t) = Some (JNull, t)"
  "read_word (js ''true'' @ t) = Some (JBool True, t)"
  "read_word (js ''false'' @ t) = Some (JBool False, t)"
  by (simp_all add: read_word_def js_def)

text \<open>
  \<open>reads_back v\<close>: the reader, given enough fuel and a delimiter after the text, takes exactly the
  text of \<open>v\<close> and gives \<open>v\<close>.
\<close>

definition reads_back :: "jsval \<Rightarrow> bool" where
  "reads_back v \<longleftrightarrow> (\<forall>n t. 2 * length (json_str v) < n \<longrightarrow> delim t \<longrightarrow>
     json_value n (json_str v @ t) = Some (v, t))"

lemma reads_backD:
  "reads_back v \<Longrightarrow> 2 * length (json_str v) < n \<Longrightarrow> delim t \<Longrightarrow> json_value n (json_str v @ t) = Some (v, t)"
  by (simp add: reads_back_def)

lemma delim_Cons [simp]: "delim (c # t) \<longleftrightarrow> c = 44 \<or> c = 93 \<or> c = 125"
  by (simp add: delim_def)

lemma reads_back_word:
  assumes "\<And>t. delim t \<Longrightarrow> read_word (w @ t) = Some (v, t)" and "json_str v = w" and "w \<noteq> []"
    and "\<not> json_ws (hd w)" and "hd w \<noteq> 34" and "hd w \<noteq> 91" and "hd w \<noteq> 123"
  shows "reads_back v"
  unfolding reads_back_def
proof (intro allI impI)
  fix n t assume n: "2 * length (json_str v) < n" and t: "delim t"
  obtain c u where w: "w = c # u" using assms(3) by (cases w) auto
  obtain k where k: "n = Suc k" using n by (cases n) auto
  from assms w have "skip_ws (w @ t) = c # u @ t" by (simp add: skip_ws_def)
  with assms(1) [OF t] assms w k show "json_value n (json_str v @ t) = Some (v, t)" by simp
qed

lemma skip_ws_no_ws: "\<not> json_ws c \<Longrightarrow> skip_ws (c # t) = c # t"
  by (simp add: skip_ws_def)

lemma skip_ws_delim: "delim t \<Longrightarrow> skip_ws t = t"
  by (cases t) (auto simp: delim_def skip_ws_def json_ws_def)

lemma skip_ws_join_items:
  assumes "s = join [44] (x # xs) @ c # t" and "x \<noteq> []" and "\<not> json_ws (hd x)"
  shows "skip_ws s = s" "hd s = hd x" "s \<noteq> []"
  using assms by (cases x; cases xs; auto simp: skip_ws_def)+

lemma json_items_reads_back:
  assumes "\<And>y. y \<in> set (x # xs) \<Longrightarrow> reads_back y"
    and "2 * length (join [44] (map json_str (x # xs))) + 1 < n"
  shows "json_items n (join [44] (map json_str (x # xs)) @ 93 # t) = Some (x # xs, t)"
  using assms
proof (induction xs arbitrary: x n)
  case Nil
  then obtain k where k: "n = Suc k" by (cases n) auto
  have "json_value k (json_str x @ 93 # t) = Some (x, 93 # t)"
    using Nil k by (auto simp: reads_back_def delim_def)
  with k show ?case by (simp add: skip_ws_no_ws json_ws_def)
next
  case (Cons y ys)
  then obtain k where k: "n = Suc k" by (cases n) auto
  have "json_value k (json_str x @ 44 # join [44] (map json_str (y # ys)) @ 93 # t)
        = Some (x, 44 # join [44] (map json_str (y # ys)) @ 93 # t)"
    using Cons.prems k by (auto simp: reads_back_def delim_def)
  moreover have "json_items k (join [44] (map json_str (y # ys)) @ 93 # t) = Some (y # ys, t)"
    using Cons k by simp
  ultimately show ?case using k by (simp add: skip_ws_no_ws json_ws_def)
qed

definition member_str :: "jsstr \<times> jsval \<Rightarrow> jsstr" where
  "member_str p = json_quote (fst p) @ 58 # json_str (snd p)"

lemma json_members_step:
  assumes "units_ok k" and "json_value n (json_str v @ c # t) = Some (v, c # t)" and "c = 44 \<or> c = 125"
  shows "json_members (Suc n) acc (member_str (k, v) @ c # t)
       = (if c = 44 then json_members n (obj_put acc k v) t else Some (obj_put acc k v, t))"
  using assms read_string_quote_units [OF assms(1)]
  by (auto simp: member_str_def json_quote_def skip_ws_no_ws json_ws_def)

lemma json_members_reads_back:
  assumes "\<And>k v. (k, v) \<in> set (p # ps) \<Longrightarrow> units_ok k \<and> reads_back v"
    and "2 * length (join [44] (map member_str (p # ps))) + 1 < n"
  shows "json_members n acc (join [44] (map member_str (p # ps)) @ 125 # t)
       = Some (put_all acc (p # ps), t)"
  using assms
proof (induction ps arbitrary: p n acc)
  case Nil
  then obtain m where m: "n = Suc m" by (cases n) auto
  obtain k v where p: "p = (k, v)" by fastforce
  have "json_value m (json_str v @ 125 # t) = Some (v, 125 # t)"
    using Nil m p by (auto simp: reads_back_def delim_def member_str_def)
  then have "json_members n acc (member_str (k, v) @ 125 # t) = Some (obj_put acc k v, t)"
    using Nil p m by (subst m, subst json_members_step) auto
  with p show ?case by (simp add: put_all_def)
next
  case (Cons q qs)
  then obtain m where m: "n = Suc m" by (cases n) auto
  obtain k v where p: "p = (k, v)" by fastforce
  let ?r = "join [44] (map member_str (q # qs)) @ 125 # t"
  have "json_value m (json_str v @ 44 # ?r) = Some (v, 44 # ?r)"
    by (rule reads_backD) (use Cons.prems m p in \<open>auto simp: member_str_def\<close>)
  then have "json_members n acc (member_str (k, v) @ 44 # ?r) = json_members m (obj_put acc k v) ?r"
    using Cons.prems p m by (subst m, subst json_members_step) auto
  also have "\<dots> = Some (put_all (obj_put acc k v) (q # qs), t)"
    by (rule Cons.IH) (use Cons.prems m p in auto)
  finally show ?case by (simp add: p put_all_def)
qed

lemma json_str_first:
  "plain v \<Longrightarrow> json_str v \<noteq> [] \<and> \<not> json_ws (hd (json_str v)) \<and> hd (json_str v) \<noteq> 93"
proof (cases v)
  case (JNum n)
  assume "plain v"
  with JNum obtain q where q: "n = Fin q" "q = of_int \<lfloor>q\<rfloor>" "\<bar>q\<bar> < 10 ^ 21" by (cases n) auto
  obtain c u where cu: "int_to_str \<lfloor>q\<rfloor> = c # u"
    by (cases "int_to_str \<lfloor>q\<rfloor>") (auto simp: int_to_str_def split: if_splits)
  have "c = 45 \<or> is_digit c"
    using cu nat_to_str_digits [of c "nat \<lfloor>q\<rfloor>"] by (auto simp: int_to_str_def split: if_splits)
  with JNum q cu show ?thesis by (auto simp: json_ws_def is_digit_def)
qed (auto simp: json_quote_def js_def json_ws_def)

lemma json_str_JObj_plain:
  "(\<forall>(k, v)\<in>set ps. plain v) \<Longrightarrow> json_str (JObj ps) = 123 # join [44] (map member_str ps) @ [125]"
proof -
  assume a: "\<forall>(k, v)\<in>set ps. plain v"
  then have "concat (map (\<lambda>(k, v). if v = JUndef then [] else [json_quote k @ 58 # json_str v]) ps)
    = map member_str ps"
    by (induction ps) (auto simp: member_str_def)
  then show ?thesis by simp
qed

lemma reads_back_JArr:
  assumes "\<And>x. x \<in> set xs \<Longrightarrow> reads_back x \<and> plain x"
  shows "reads_back (JArr xs)"
  unfolding reads_back_def
proof (intro allI impI)
  fix n t assume n: "2 * length (json_str (JArr xs)) < n"
  then obtain k where k: "n = Suc k" by (cases n) auto
  show "json_value n (json_str (JArr xs) @ t) = Some (JArr xs, t)"
  proof (cases xs)
    case Nil
    then show ?thesis by (simp add: k skip_ws_def json_ws_def)
  next
    case (Cons y ys)
    let ?s = "join [44] (map json_str (y # ys)) @ 93 # t"
    have f: "json_str y \<noteq> []" "\<not> json_ws (hd (json_str y))" "hd (json_str y) \<noteq> 93"
      using json_str_first [of y] assms Cons by auto
    have sk: "skip_ws ?s = ?s" "hd ?s = hd (json_str y)" "?s \<noteq> []"
      using skip_ws_join_items [of ?s "json_str y" "map json_str ys" 93 t] f by auto
    then obtain d r where d: "?s = d # r" "d \<noteq> 93" using f by (cases ?s) auto
    have "json_items k ?s = Some (y # ys, t)"
      by (rule json_items_reads_back) (use assms Cons n k in auto)
    with d sk have "json_value n (91 # ?s) = Some (JArr (y # ys), t)"
      by (simp add: k skip_ws_no_ws json_ws_def)
    then show ?thesis using Cons by simp
  qed
qed

lemma reads_back_JObj:
  assumes "\<And>k v. (k, v) \<in> set ps \<Longrightarrow> units_ok k \<and> reads_back v \<and> plain v" and "put_all [] ps = ps"
  shows "reads_back (JObj ps)"
  unfolding reads_back_def
proof (intro allI impI)
  have str: "json_str (JObj ps) = 123 # join [44] (map member_str ps) @ [125]"
    by (rule json_str_JObj_plain) (use assms(1) in auto)
  fix n t assume n: "2 * length (json_str (JObj ps)) < n"
  then obtain m where m: "n = Suc m" by (cases n) auto
  show "json_value n (json_str (JObj ps) @ t) = Some (JObj ps, t)"
  proof (cases ps)
    case Nil
    then show ?thesis by (simp add: m skip_ws_def json_ws_def)
  next
    case (Cons p qs)
    let ?s = "join [44] (map member_str (p # qs)) @ 125 # t"
    have f: "member_str p \<noteq> []" "hd (member_str p) = 34" by (simp_all add: member_str_def json_quote_def)
    have sk: "skip_ws ?s = ?s" "hd ?s = 34" "?s \<noteq> []"
      using skip_ws_join_items [of ?s "member_str p" "map member_str qs" 125 t] f by (auto simp: json_ws_def)
    then obtain r where d: "?s = 34 # r" by (cases ?s) auto
    have "json_members m [] ?s = Some (put_all [] (p # qs), t)"
      by (rule json_members_reads_back) (use assms Cons n m str in auto)
    with d sk Cons assms(2) have "json_value n (123 # ?s) = Some (JObj (p # qs), t)"
      by (simp add: m skip_ws_no_ws json_ws_def)
    moreover have "json_str (JObj ps) @ t = 123 # ?s" unfolding str by (simp add: Cons)
    ultimately show ?thesis unfolding Cons by simp
  qed
qed

lemma plain_reads_back: "plain v \<Longrightarrow> reads_back v"
proof (induction v)
  case JNull
  show ?case by (rule reads_back_word [OF read_word_literals(1)]) (auto simp: js_def json_ws_def)
next
  case (JBool b)
  have "reads_back (JBool True)"
    by (rule reads_back_word [OF read_word_literals(2)]) (auto simp: js_def json_ws_def)
  moreover have "reads_back (JBool False)"
    by (rule reads_back_word [OF read_word_literals(3)]) (auto simp: js_def json_ws_def)
  ultimately show ?case by (cases b) simp_all
next
  case (JNum n)
  then obtain q where n: "n = Fin q" and "q = of_int \<lfloor>q\<rfloor>" "\<bar>q\<bar> < 10 ^ 21" by (cases n) auto
  then obtain i where q: "q = of_int i" by metis
  with \<open>\<bar>q\<bar> < 10 ^ 21\<close> have i: "\<bar>i\<bar> < 10 ^ 21"
    by (metis of_int_abs of_int_less_iff of_int_numeral of_int_power)
  have f: "json_str (JNum n) \<noteq> []" "\<not> json_ws (hd (json_str (JNum n)))"
    using json_str_first [OF JNum] by auto
  have s: "json_str (JNum n) = int_to_str i" using num_to_str_int [OF i] by (simp add: n q)
  have "c = 45 \<or> is_digit c" if "int_to_str i = c # u" for c u
    using that nat_to_str_digits [of c "nat i"] by (auto simp: int_to_str_def split: if_splits)
  then have "hd (int_to_str i) = 45 \<or> is_digit (hd (int_to_str i))"
    using f s by (cases "int_to_str i") auto
  then have "hd (int_to_str i) \<noteq> 34" "hd (int_to_str i) \<noteq> 91" "hd (int_to_str i) \<noteq> 123"
    by (auto simp: is_digit_def)
  then show ?case
    using reads_back_word [OF _ s] read_word_number [OF i] f s n q by auto
next
  case (JStr s)
  have "json_value (Suc k) (json_quote s @ t) = Some (JStr s, t)" for k t
    using read_string_quote_units [of s t] JStr by (simp add: json_quote_def skip_ws_no_ws json_ws_def)
  then show ?case by (auto simp: reads_back_def dest: less_imp_Suc_add)
next
  case (JArr xs)
  then show ?case by (intro reads_back_JArr) auto
next
  case (JObj ps)
  then show ?case by (intro reads_back_JObj) fastforce+
qed simp

lemma json_parse_stringify: "plain v \<Longrightarrow> json_parse (json_str v) = Some v"
  using reads_backD [OF plain_reads_back, of v "2 * length (json_str v) + 1" "[]"]
  by (simp add: json_parse_def delim_def skip_ws_def)

section \<open>Written text stays on one line\<close>

lemma hex_char_visible [simp]: "32 \<le> hex_char d"
  by (simp add: hex_char_def)

lemma quote_unit_visible: "x \<in> set (quote_unit c) \<Longrightarrow> 32 \<le> x"
  by (auto simp: quote_unit_def hex_unit_def split: if_splits)

lemma quote_units_visible: "x \<in> set (quote_units s) \<Longrightarrow> 32 \<le> x"
proof (induction s rule: quote_units.induct)
  case (2 c cs)
  show ?case
  proof (cases cs)
    case Nil
    with 2 show ?thesis by (simp add: quote_unit_visible)
  next
    case (Cons d ds)
    show ?thesis
    proof (cases "is_high_surrogate c \<and> is_low_surrogate d")
      case True
      with 2 Cons show ?thesis by (auto simp: is_high_surrogate_def is_low_surrogate_def)
    next
      case False
      then have "x \<in> set (quote_unit c) \<or> x \<in> set (quote_units cs)" using "2.prems" Cons by (simp split: if_splits)
      with False Cons 2 show ?thesis by (auto dest: quote_unit_visible)
    qed
  qed
qed simp

lemma set_join: "x \<in> set (join sep xs) \<Longrightarrow> x \<in> set sep \<or> (\<exists>y\<in>set xs. x \<in> set y)"
  by (induction sep xs rule: join.induct) auto

lemma int_to_str_visible: "x \<in> set (int_to_str i) \<Longrightarrow> 32 \<le> x"
  by (auto simp: int_to_str_def is_digit_def split: if_splits dest: nat_to_str_digits)

lemma json_quote_visible: "x \<in> set (json_quote s) \<Longrightarrow> 32 \<le> x"
  by (auto simp: json_quote_def quote_units_visible)

lemma json_str_visible: "plain v \<Longrightarrow> x \<in> set (json_str v) \<Longrightarrow> 32 \<le> x"
proof (induction v rule: json_str.induct)
  case (4 n)
  then show ?case by (cases n) (auto split: if_splits dest: int_to_str_visible)
next
  case (6 xs)
  then show ?case by (auto dest!: set_join)
next
  case (7 ps)
  then consider "x = 123 \<or> x = 125 \<or> x = 44"
    | k v where "(k, v) \<in> set ps" "x \<in> set (json_quote k @ 58 # json_str v)"
    by (auto dest!: set_join split: if_splits)
  then show ?case
  proof cases
    case (2 k v)
    then have "plain v" using "7.prems" by auto
    moreover from this have "v \<noteq> JUndef" by auto
    ultimately show ?thesis using 2 "7.IH" [OF 2(1) refl] by (auto dest: json_quote_visible)
  qed auto
qed (auto simp: js_def json_quote_visible split: if_splits)

text \<open>
  The contract of a component that keeps its state as JSON text: it writes plain values, and
  its reader understands what its writer wrote.
\<close>

locale json_codec =
  fixes enc :: "'a \<Rightarrow> jsval" and dec :: "jsval \<Rightarrow> 'a" and ok :: "'a \<Rightarrow> bool"
  assumes enc_plain: "ok x \<Longrightarrow> plain (enc x)"
    and dec_enc: "ok x \<Longrightarrow> dec (enc x) = x"
begin

lemma read_written: "ok x \<Longrightarrow> map_option dec (json_parse (json_str (enc x))) = Some x"
  by (simp add: json_parse_stringify enc_plain dec_enc)

lemma text_injective:
  assumes "ok x" and "ok y" and "json_str (enc x) = json_str (enc y)"
  shows "x = y"
proof -
  have "Some x = Some y"
    unfolding read_written [OF assms(1), symmetric] read_written [OF assms(2), symmetric] assms(3) ..
  then show ?thesis by simp
qed

end

end
