(* ===== verification/Accounts.thy ===== *)
theory Accounts
  imports Json
begin

text \<open>
  The account registry of \<^verbatim>\<open>BitwardenModel.js\<close>: slots, the registry file, and the operations the
  panel performs on it. A registry never holds more than ten accounts or the same slot twice,
  whatever file it was read from and whatever operations ran on it; it survives being written
  and read back; and one account signed in twice is kept once.
\<close>

section \<open>Slots\<close>

definition DEFAULT_ACCOUNT_SLOT :: jsstr where
  "DEFAULT_ACCOUNT_SLOT = js ''default''"

definition ACCOUNTS_VERSION :: int where "ACCOUNTS_VERSION = 1"
definition MAX_ACCOUNTS :: nat where "MAX_ACCOUNTS = 10"
definition ACCOUNTS_SUBDIR :: jsstr where "ACCOUNTS_SUBDIR = js ''qs-bitwarden-cli/accounts''"

definition is_hex_lower :: "nat \<Rightarrow> bool" where
  "is_hex_lower c \<longleftrightarrow> is_digit c \<or> (97 \<le> c \<and> c \<le> 102)"

definition ACCOUNT_SLOT_RE :: "jsstr \<Rightarrow> bool" where
  \<comment> \<open>\<^verbatim>\<open>/^[0-9a-f]{16}$/\<close>\<close>
  "ACCOUNT_SLOT_RE s \<longleftrightarrow> length s = 16 \<and> (\<forall>c\<in>set s. is_hex_lower c)"

definition isAccountSlot :: "jsval \<Rightarrow> bool" where
  "isAccountSlot slot \<longleftrightarrow> slot = JStr DEFAULT_ACCOUNT_SLOT \<or> ACCOUNT_SLOT_RE (to_str slot)"

definition accountSlot :: "jsval \<Rightarrow> jsstr" where
  "accountSlot slot =
     (case slot of JStr s \<Rightarrow> if isAccountSlot slot then s else DEFAULT_ACCOUNT_SLOT
      | _ \<Rightarrow> DEFAULT_ACCOUNT_SLOT)"

definition keyringEntryName :: "jsstr \<Rightarrow> jsval \<Rightarrow> jsstr" where
  "keyringEntryName base slot =
     (let s = accountSlot slot in if s = DEFAULT_ACCOUNT_SLOT then base else base @ [64] @ s)"

definition strip_slashes :: "jsstr \<Rightarrow> jsstr" where
  \<comment> \<open>\<^verbatim>\<open>replace(/\/+$/, "")\<close>\<close>
  "strip_slashes s = rev (dropWhile (\<lambda>c. c = 47) (rev s))"

definition accountAppDataDir :: "jsval \<Rightarrow> jsstr \<Rightarrow> jsstr \<Rightarrow> jsstr" where
  "accountAppDataDir slot xdgDataHome home =
     (let s = accountSlot slot in
      if s = DEFAULT_ACCOUNT_SLOT then []
      else if xdgDataHome = [] \<or> hd xdgDataHome \<noteq> 47 then
        (if home = [] \<or> hd home \<noteq> 47 then []
         else strip_slashes (strip_slashes home @ js ''/.local/share'') @ [47] @ ACCOUNTS_SUBDIR @ [47] @ s)
      else strip_slashes xdgDataHome @ [47] @ ACCOUNTS_SUBDIR @ [47] @ s)"

text \<open>
  \<^verbatim>\<open>Math.random\<close> is a parameter: \<open>rnd attempt i\<close> is the digit \<^verbatim>\<open>Math.floor(Math.random() * 16)\<close>
  drawn for position \<open>i\<close> of an attempt.
\<close>

definition draw_slot :: "(nat \<Rightarrow> nat \<Rightarrow> nat) \<Rightarrow> nat \<Rightarrow> jsstr" where
  "draw_slot rnd attempt = map (\<lambda>i. hex_char (rnd attempt i)) [0..<16]"

fun try_slots :: "(nat \<Rightarrow> nat \<Rightarrow> nat) \<Rightarrow> jsstr list \<Rightarrow> nat list \<Rightarrow> jsstr" where
  "try_slots rnd taken [] = []"
| "try_slots rnd taken (a # as) =
     (let slot = draw_slot rnd a in if slot \<notin> set taken then slot else try_slots rnd taken as)"

definition newAccountSlot :: "(nat \<Rightarrow> nat \<Rightarrow> nat) \<Rightarrow> jsstr list \<Rightarrow> jsstr" where
  "newAccountSlot rnd taken = try_slots rnd taken [0..<32]"

section \<open>The registry\<close>

record account =
  slot :: jsstr
  email :: jsstr
  userId :: jsstr
  server :: jsstr
  lastUsed :: jsnum

record registry =
  version :: int
  active :: jsstr
  accounts :: "account list"

definition emptyAccountRegistry :: registry where
  "emptyAccountRegistry = \<lparr>version = ACCOUNTS_VERSION, active = DEFAULT_ACCOUNT_SLOT, accounts = []\<rparr>"

definition cleanAccountText :: "jsval \<Rightarrow> nat \<Rightarrow> jsstr" where
  "cleanAccountText value n = take n (filter (\<lambda>c. \<not> is_control c) (text_of value))"

definition clean_time :: "jsnum \<Rightarrow> jsnum" where
  \<comment> \<open>\<^verbatim>\<open>Math.max(0, Math.floor(n) || 0)\<close>\<close>
  "clean_time n = num_max (Fin 0) (num_or_zero (num_floor n))"

definition account_of_json :: "jsval \<Rightarrow> account" where
  "account_of_json a =
     \<lparr>slot = to_str (get_prop a (js ''slot'')),
      email = cleanAccountText (get_prop a (js ''email'')) 320,
      userId = cleanAccountText (get_prop a (js ''userId'')) 128,
      server = cleanAccountText (get_prop a (js ''server'')) 512,
      lastUsed = clean_time (to_num (get_prop a (js ''lastUsed'')))\<rparr>"

definition account_usable :: "jsval \<Rightarrow> bool" where
  "account_usable a \<longleftrightarrow> is_object a
     \<and> is_string (get_prop a (js ''slot'')) \<and> isAccountSlot (get_prop a (js ''slot''))"

fun read_accounts :: "jsval list \<Rightarrow> jsstr list \<Rightarrow> account list \<Rightarrow> account list" where
  \<comment> \<open>the loop of \<^verbatim>\<open>parseAccountRegistry\<close>: \<open>seen\<close> slots, accounts kept so far\<close>
  "read_accounts [] seen out = out"
| "read_accounts (a # as) seen out =
     (if MAX_ACCOUNTS \<le> length out then out
      else if \<not> account_usable a then read_accounts as seen out
      else if to_str (get_prop a (js ''slot'')) \<in> set seen then read_accounts as seen out
      else read_accounts as (to_str (get_prop a (js ''slot'')) # seen) (out @ [account_of_json a]))"

definition array_or_empty :: "jsval \<Rightarrow> jsval list" where
  "array_or_empty v = (case v of JArr xs \<Rightarrow> xs | _ \<Rightarrow> [])"

definition registry_of_json :: "jsval \<Rightarrow> registry" where
  "registry_of_json parsed =
     (if \<not> is_object parsed \<or> \<not> num_eq (to_num (get_prop parsed (js ''version''))) (numi ACCOUNTS_VERSION)
      then emptyAccountRegistry
      else
        (let out = emptyAccountRegistry
                     \<lparr>accounts := read_accounts (array_or_empty (get_prop parsed (js ''accounts''))) [] []\<rparr>;
             act = get_prop parsed (js ''active'')
         in (case act of JStr s \<Rightarrow> if isAccountSlot act then out\<lparr>active := s\<rparr> else out | _ \<Rightarrow> out)))"

definition parseAccountRegistry :: "jsstr \<Rightarrow> registry" where
  "parseAccountRegistry raw =
     (case json_parse raw of None \<Rightarrow> emptyAccountRegistry | Some v \<Rightarrow> registry_of_json v)"

definition account_json :: "account \<Rightarrow> jsval" where
  "account_json a = JObj [(js ''slot'', JStr (slot a)), (js ''email'', JStr (email a)),
     (js ''userId'', JStr (userId a)), (js ''server'', JStr (server a)), (js ''lastUsed'', JNum (lastUsed a))]"

definition registry_json :: "registry \<Rightarrow> jsval" where
  "registry_json r = JObj [(js ''version'', jint ACCOUNTS_VERSION),
     (js ''active'', JStr (accountSlot (JStr (active r)))), (js ''accounts'', JArr (map account_json (accounts r)))]"

definition serializeAccountRegistry :: "registry \<Rightarrow> jsstr" where
  "serializeAccountRegistry r = json_str (registry_json r)"

definition copyAccountRegistry :: "registry \<Rightarrow> registry" where
  "copyAccountRegistry r =
     \<lparr>version = ACCOUNTS_VERSION, active = accountSlot (JStr (active r)), accounts = accounts r\<rparr>"

definition registryAccount :: "registry \<Rightarrow> jsstr \<Rightarrow> account option" where
  "registryAccount r s = find (\<lambda>a. slot a = s) (accounts r)"

definition registryHasAccount :: "registry \<Rightarrow> jsstr \<Rightarrow> bool" where
  "registryHasAccount r s \<longleftrightarrow> registryAccount r s \<noteq> None"

fun update_slot :: "jsstr \<Rightarrow> (account \<Rightarrow> account) \<Rightarrow> account list \<Rightarrow> account list" where
  \<comment> \<open>an assignment to the entry \<^verbatim>\<open>registryAccount\<close> found\<close>
  "update_slot s f [] = []"
| "update_slot s f (a # as) = (if slot a = s then f a # as else a # update_slot s f as)"

record note_result =
  noted :: registry
  retired :: "jsstr list"
  full :: bool

definition info_field :: "jsval \<Rightarrow> string \<Rightarrow> jsval" where
  \<comment> \<open>\<^verbatim>\<open>info && info.field\<close>\<close>
  "info_field info f = (if truthy info then get_prop info (js f) else info)"

definition str_or_keep :: "jsstr \<Rightarrow> jsstr \<Rightarrow> jsstr" where
  \<comment> \<open>\<^verbatim>\<open>a || b\<close> on strings\<close>
  "str_or_keep a b = (if a \<noteq> [] then a else b)"

definition same_account :: "jsstr \<Rightarrow> jsstr \<Rightarrow> jsstr \<Rightarrow> account \<Rightarrow> bool" where
  \<comment> \<open>another slot that holds this user on this server\<close>
  "same_account s u sv a \<longleftrightarrow> slot a \<noteq> s \<and> u \<noteq> [] \<and> userId a = u \<and> server a = sv"

definition note_entry :: "jsval \<Rightarrow> jsnum \<Rightarrow> account \<Rightarrow> account" where
  \<comment> \<open>the assignments to \<^verbatim>\<open>entry\<close> at the end of \<^verbatim>\<open>registryNoteAccount\<close>\<close>
  "note_entry info now a =
     a\<lparr>email := str_or_keep (cleanAccountText (info_field info ''email'') 320) (email a),
       userId := str_or_keep (cleanAccountText (info_field info ''userId'') 128) (userId a),
       server := cleanAccountText (info_field info ''server'') 512,
       lastUsed := clean_time now\<rparr>"

definition registryNoteAccount :: "registry \<Rightarrow> jsval \<Rightarrow> jsval \<Rightarrow> jsnum \<Rightarrow> note_result" where
  "registryNoteAccount r0 sl info now =
     (let r = copyAccountRegistry r0;
          s = accountSlot sl;
          u = cleanAccountText (info_field info ''userId'') 128;
          sv = cleanAccountText (info_field info ''server'') 512;
          gone = map slot (filter (same_account s u sv) (accounts r));
          r1 = r\<lparr>accounts := filter (\<lambda>a. \<not> same_account s u sv a) (accounts r)\<rparr>;
          fresh = \<lparr>slot = s, email = [], userId = [], server = [], lastUsed = Fin 0\<rparr>
      in case registryAccount r1 s of
           None \<Rightarrow>
             (if MAX_ACCOUNTS \<le> length (accounts r1)
              then \<lparr>noted = r0, retired = [], full = True\<rparr>
              else \<lparr>noted = r1\<lparr>accounts := accounts r1 @ [note_entry info now fresh], active := s\<rparr>, retired = gone, full = False\<rparr>)
         | Some e \<Rightarrow>
             \<lparr>noted = r1\<lparr>accounts := update_slot s (note_entry info now) (accounts r1), active := s\<rparr>, retired = gone, full = False\<rparr>)"

definition registryRemoveAccount :: "registry \<Rightarrow> jsstr \<Rightarrow> registry" where
  "registryRemoveAccount r0 s =
     (let r = copyAccountRegistry r0 in r\<lparr>accounts := filter (\<lambda>a. slot a \<noteq> s) (accounts r)\<rparr>)"

definition registrySetActive :: "registry \<Rightarrow> jsval \<Rightarrow> jsnum option \<Rightarrow> registry" where
  \<comment> \<open>no \<^verbatim>\<open>now\<close> is \<open>None\<close>\<close>
  "registrySetActive r0 sl now =
     (let r = copyAccountRegistry r0; s = accountSlot sl; r1 = r\<lparr>active := s\<rparr>
      in case now of
           None \<Rightarrow> r1
         | Some n \<Rightarrow> r1\<lparr>accounts := update_slot s (\<lambda>a. a\<lparr>lastUsed := clean_time n\<rparr>) (accounts r1)\<rparr>)"

definition slotForNewAccount :: "(nat \<Rightarrow> nat \<Rightarrow> nat) \<Rightarrow> registry \<Rightarrow> jsstr" where
  "slotForNewAccount rnd r =
     (if \<not> registryHasAccount r DEFAULT_ACCOUNT_SLOT then DEFAULT_ACCOUNT_SLOT
      else newAccountSlot rnd (map slot (accounts r)))"

fun best_account :: "jsstr \<Rightarrow> account option \<Rightarrow> account list \<Rightarrow> account option" where
  \<comment> \<open>the loop of \<^verbatim>\<open>registryNextAccount\<close>\<close>
  "best_account leaving best [] = best"
| "best_account leaving best (a # as) =
     (if slot a = leaving then best_account leaving best as
      else (case best of
              None \<Rightarrow> best_account leaving (Some a) as
            | Some b \<Rightarrow> best_account leaving (if num_lt (lastUsed b) (lastUsed a) then Some a else best) as))"

definition registryNextAccount :: "registry \<Rightarrow> jsstr \<Rightarrow> jsstr" where
  "registryNextAccount r leaving =
     (case best_account leaving None (accounts r) of None \<Rightarrow> [] | Some a \<Rightarrow> slot a)"

section \<open>Rows of the account picker\<close>

definition BITWARDEN_US_SERVER :: jsstr where "BITWARDEN_US_SERVER = js ''https://vault.bitwarden.com''"
definition BITWARDEN_EU_SERVER :: jsstr where "BITWARDEN_EU_SERVER = js ''https://vault.bitwarden.eu''"

definition strip_http :: "jsstr \<Rightarrow> jsstr" where
  \<comment> \<open>\<^verbatim>\<open>replace(/^https?:\/\//i, "")\<close>\<close>
  "strip_http s =
     (if starts_with (js ''https://'') (to_lower s) then drop 8 s
      else if starts_with (js ''http://'') (to_lower s) then drop 7 s else s)"

definition accountServerLabel :: "jsstr \<Rightarrow> jsstr" where
  "accountServerLabel sv =
     (let s = strip_slashes (trim sv) in
      if s = [] \<or> s = BITWARDEN_US_SERVER \<or> s = js ''https://bitwarden.com'' then []
      else if s = BITWARDEN_EU_SERVER \<or> s = js ''https://bitwarden.eu'' then js ''EU''
      else strip_http s)"

record account_row =
  row_slot :: jsstr
  row_email :: jsstr
  row_server :: jsstr
  row_label :: jsstr
  row_active :: bool

definition account_le :: "account \<Rightarrow> account \<Rightarrow> bool" where
  \<comment> \<open>the comparison of \<^verbatim>\<open>accountRows\<close> gives a negative number; it is never 0\<close>
  "account_le a b =
     (let x = to_lower (email a); y = to_lower (email b)
      in if str_less x y then True else if str_less y x then False else str_less (slot a) (slot b))"

definition accountRows :: "registry \<Rightarrow> jsstr \<Rightarrow> account_row list" where
  "accountRows r activeSlot =
     map (\<lambda>a. let sv = accountServerLabel (server a); e = str_or_keep (email a) (js ''Account'')
              in \<lparr>row_slot = slot a, row_email = e, row_server = sv,
                  row_label = e @ (if sv \<noteq> [] then js '' ('' @ sv @ js '')'' else []),
                  row_active = (slot a = activeSlot)\<rparr>)
       (sort_by account_le (accounts r))"

section \<open>Well-formed registries\<close>

definition valid_slot :: "jsstr \<Rightarrow> bool" where
  "valid_slot s \<longleftrightarrow> s = DEFAULT_ACCOUNT_SLOT \<or> ACCOUNT_SLOT_RE s"

definition clean_text :: "nat \<Rightarrow> jsstr \<Rightarrow> bool" where
  "clean_text n s \<longleftrightarrow> length s \<le> n \<and> (\<forall>c\<in>set s. \<not> is_control c)"

definition wf_account :: "account \<Rightarrow> bool" where
  "wf_account a \<longleftrightarrow> valid_slot (slot a) \<and> clean_text 320 (email a) \<and> clean_text 128 (userId a)
     \<and> clean_text 512 (server a) \<and> num_le (Fin 0) (lastUsed a) \<and> num_floor (lastUsed a) = lastUsed a"

definition wf_accounts :: "account list \<Rightarrow> bool" where
  "wf_accounts as \<longleftrightarrow> length as \<le> MAX_ACCOUNTS \<and> distinct (map slot as) \<and> (\<forall>a\<in>set as. wf_account a)"

definition wf_registry :: "registry \<Rightarrow> bool" where
  "wf_registry r \<longleftrightarrow> version r = ACCOUNTS_VERSION \<and> valid_slot (active r) \<and> wf_accounts (accounts r)"

text \<open>The operations as the events of one machine.\<close>

datatype registry_event =
    Reload jsstr
  | Note jsval jsval jsnum
  | Remove jsstr
  | SetActive jsval "jsnum option"

fun registry_step :: "registry \<Rightarrow> registry_event \<Rightarrow> registry" where
  "registry_step r (Reload raw) = parseAccountRegistry raw"
| "registry_step r (Note sl info now) = noted (registryNoteAccount r sl info now)"
| "registry_step r (Remove s) = registryRemoveAccount r s"
| "registry_step r (SetActive sl now) = registrySetActive r sl now"

lemma isAccountSlot_JStr [simp]: "isAccountSlot (JStr s) \<longleftrightarrow> valid_slot s"
  by (simp add: isAccountSlot_def valid_slot_def)

lemma valid_slot_default [simp]: "valid_slot DEFAULT_ACCOUNT_SLOT"
  by (simp add: valid_slot_def)

lemma accountSlot_valid [simp]: "valid_slot (accountSlot sl)"
  by (cases sl) (auto simp: accountSlot_def)

lemma accountSlot_JStr_valid [simp]: "valid_slot s \<Longrightarrow> accountSlot (JStr s) = s"
  by (simp add: accountSlot_def)

lemma clean_time_wf: "num_le (Fin 0) (clean_time n) \<and> num_floor (clean_time n) = clean_time n"
  by (cases n) (auto simp: clean_time_def num_simps)

lemma clean_time_id: "num_le (Fin 0) n \<Longrightarrow> num_floor n = n \<Longrightarrow> clean_time n = n"
  by (cases n) (auto simp: clean_time_def num_simps)

lemma cleanAccountText_clean: "clean_text n (cleanAccountText v n)"
  by (auto simp: clean_text_def cleanAccountText_def dest: in_set_takeD)

lemma cleanAccountText_id: "clean_text n s \<Longrightarrow> cleanAccountText (JStr s) n = s"
  by (simp add: clean_text_def cleanAccountText_def filter_id_conv)

lemma clean_text_Nil [simp]: "clean_text n []"
  by (simp add: clean_text_def)

lemma wf_account_of_json: "account_usable a \<Longrightarrow> wf_account (account_of_json a)"
  using clean_time_wf by (auto simp: wf_account_def account_of_json_def account_usable_def is_string_iff cleanAccountText_clean)

lemma read_accounts_wf:
  assumes "wf_accounts out" and "set (map slot out) \<subseteq> set seen"
  shows "wf_accounts (read_accounts as seen out)"
  using assms
proof (induction as seen out rule: read_accounts.induct)
  case (2 a as seen out)
  let ?s = "to_str (get_prop a (js ''slot''))"
  have slot: "slot (account_of_json a) = ?s" by (simp add: account_of_json_def)
  show ?case
  proof (cases "MAX_ACCOUNTS \<le> length out \<or> \<not> account_usable a \<or> ?s \<in> set seen")
    case True
    with 2 show ?thesis by auto
  next
    case False
    then have "?s \<notin> set (map slot out)" using "2.prems" by blast
    with False 2 slot have "wf_accounts (out @ [account_of_json a])"
      by (simp add: wf_accounts_def wf_account_of_json)
    moreover have "set (map slot (out @ [account_of_json a])) \<subseteq> set (?s # seen)"
      using "2.prems"(2) slot by auto
    ultimately show ?thesis using False "2.IH"(3) by simp
  qed
qed simp

lemma wf_empty: "wf_registry emptyAccountRegistry"
  by (simp add: wf_registry_def wf_accounts_def emptyAccountRegistry_def)

lemma wf_registry_of_json: "wf_registry (registry_of_json v)"
  using read_accounts_wf [of "[]" "[]"] wf_empty
  by (auto simp: registry_of_json_def wf_registry_def wf_accounts_def emptyAccountRegistry_def Let_def
      split: jsval.splits)

lemma wf_parse: "wf_registry (parseAccountRegistry raw)"
  by (simp add: parseAccountRegistry_def wf_empty wf_registry_of_json split: option.splits)

lemma wf_copy: "wf_registry r \<Longrightarrow> copyAccountRegistry r = r"
  by (cases r) (simp add: copyAccountRegistry_def wf_registry_def)

lemma map_slot_update [simp]:
  "(\<And>a. slot (f a) = slot a) \<Longrightarrow> map slot (update_slot s f as) = map slot as"
  by (induction as) auto

lemma length_update_slot [simp]: "length (update_slot s f as) = length as"
  by (induction as) auto

lemma update_slot_set:
  "a \<in> set (update_slot s f as) \<Longrightarrow> a \<in> set as \<or> (\<exists>b\<in>set as. slot b = s \<and> a = f b)"
  by (induction as) (auto split: if_splits)

lemma registryAccount_None: "registryAccount r s = None \<longleftrightarrow> s \<notin> slot ` set (accounts r)"
  by (auto simp: registryAccount_def find_None_iff)

lemma wf_accounts_filter: "wf_accounts as \<Longrightarrow> wf_accounts (filter P as)"
  by (auto simp: wf_accounts_def distinct_map_filter intro: order_trans [OF length_filter_le])

lemma wf_accounts_update:
  assumes "wf_accounts as" and "\<And>a. slot (f a) = slot a" and "\<And>a. wf_account a \<Longrightarrow> wf_account (f a)"
  shows "wf_accounts (update_slot s f as)"
  using assms by (auto simp: wf_accounts_def dest!: update_slot_set)

lemma wf_accounts_snoc:
  "\<lbrakk>wf_accounts as; wf_account a; slot a \<notin> slot ` set as; length as < MAX_ACCOUNTS\<rbrakk>
   \<Longrightarrow> wf_accounts (as @ [a])"
  by (auto simp: wf_accounts_def)

lemma slot_note_entry [simp]: "slot (note_entry info now a) = slot a"
  by (simp add: note_entry_def)

lemma wf_note_entry: "wf_account a \<Longrightarrow> wf_account (note_entry info now a)"
  using clean_time_wf [of now]
  by (simp add: note_entry_def wf_account_def cleanAccountText_clean str_or_keep_def)

lemma wf_fresh:
  "valid_slot s \<Longrightarrow> wf_account \<lparr>slot = s, email = [], userId = [], server = [], lastUsed = Fin 0\<rparr>"
  by (simp add: wf_account_def)

lemma wf_note: "wf_registry r \<Longrightarrow> wf_registry (noted (registryNoteAccount r sl info now))"
  unfolding registryNoteAccount_def Let_def
  by (cases r)
    (simp add: wf_copy wf_registry_def wf_accounts_filter wf_accounts_update wf_accounts_snoc wf_note_entry wf_fresh
      registryAccount_None split: option.splits)

lemma wf_remove: "wf_registry r \<Longrightarrow> wf_registry (registryRemoveAccount r s)"
  by (simp add: registryRemoveAccount_def Let_def wf_copy wf_registry_def wf_accounts_filter)

lemma wf_set_active: "wf_registry r \<Longrightarrow> wf_registry (registrySetActive r sl now)"
  using clean_time_wf
  by (auto simp: registrySetActive_def Let_def wf_copy wf_registry_def wf_account_def
      intro!: wf_accounts_update split: option.splits)

lemma wf_registry_step: "wf_registry r \<Longrightarrow> wf_registry (registry_step r e)"
  by (cases e) (simp_all add: wf_parse wf_note wf_remove wf_set_active)

interpretation registry: machine emptyAccountRegistry registry_step wf_registry
  by unfold_locales (fact wf_empty, fact wf_registry_step)

section \<open>The registry file\<close>

definition storable :: "registry \<Rightarrow> bool" where
  \<comment> \<open>well formed, made of UTF-16 code units, with times that print as integers\<close>
  "storable r \<longleftrightarrow> wf_registry r \<and> (\<forall>a\<in>set (accounts r). plain_num (lastUsed a)
     \<and> units_ok (email a) \<and> units_ok (userId a) \<and> units_ok (server a))"

lemma valid_slot_units: "valid_slot s \<Longrightarrow> units_ok s"
  by (auto simp: valid_slot_def DEFAULT_ACCOUNT_SLOT_def js_def ACCOUNT_SLOT_RE_def is_hex_lower_def
      is_digit_def units_ok_def)

lemma account_fields [simp]:
  "get_prop (account_json a) (js ''slot'') = JStr (slot a)"
  "get_prop (account_json a) (js ''email'') = JStr (email a)"
  "get_prop (account_json a) (js ''userId'') = JStr (userId a)"
  "get_prop (account_json a) (js ''server'') = JStr (server a)"
  "get_prop (account_json a) (js ''lastUsed'') = JNum (lastUsed a)"
  by (simp_all add: account_json_def obj_get_def)

lemma account_of_json_json: "wf_account a \<Longrightarrow> account_of_json (account_json a) = a"
  by (simp add: account_of_json_def wf_account_def cleanAccountText_id clean_time_id)

lemma account_usable_json: "wf_account a \<Longrightarrow> account_usable (account_json a)"
  by (simp add: account_usable_def wf_account_def) (simp add: account_json_def)

lemma read_accounts_json:
  assumes "wf_accounts (out @ as)" and "set seen = set (map slot out)"
  shows "read_accounts (map account_json as) seen out = out @ as"
  using assms
proof (induction as arbitrary: seen out)
  case (Cons a as)
  then have "wf_accounts ((out @ [a]) @ as)" "set (slot a # seen) = set (map slot (out @ [a]))" by auto
  note IH = Cons.IH [OF this]
  have "length out < MAX_ACCOUNTS" "slot a \<notin> set seen" "wf_account a"
    using Cons.prems by (auto simp: wf_accounts_def)
  with IH show ?case by (simp add: account_usable_json account_of_json_json)
qed simp

lemma plain_account:
  "\<lbrakk>wf_account a; plain_num (lastUsed a); units_ok (email a); units_ok (userId a); units_ok (server a)\<rbrakk>
   \<Longrightarrow> plain (account_json a)"
  unfolding account_json_def
  by (rule plain_JObj_names) (simp_all add: wf_account_def valid_slot_units is_digit_def)

lemma registry_fields [simp]:
  "get_prop (registry_json r) (js ''version'') = jint ACCOUNTS_VERSION"
  "get_prop (registry_json r) (js ''active'') = JStr (accountSlot (JStr (active r)))"
  "get_prop (registry_json r) (js ''accounts'') = JArr (map account_json (accounts r))"
  by (simp_all add: registry_json_def obj_get_def)

lemma plain_registry: "storable r \<Longrightarrow> plain (registry_json r)"
  unfolding registry_json_def
  by (rule plain_JObj_names)
    (simp_all add: storable_def wf_registry_def wf_accounts_def valid_slot_units is_digit_def plain_account
      ACCOUNTS_VERSION_def)

lemma registry_of_json_json:
  assumes "wf_registry r"
  shows "registry_of_json (registry_json r) = r"
proof -
  have "read_accounts (map account_json (accounts r)) [] [] = accounts r"
    using assms read_accounts_json [of "[]" "accounts r" "[]"] by (simp add: wf_registry_def)
  moreover have "is_object (registry_json r)" by (simp add: registry_json_def)
  ultimately show ?thesis
    using assms
    by (cases r) (simp add: registry_of_json_def wf_registry_def array_or_empty_def emptyAccountRegistry_def
        num_eq_def)
qed

interpretation registry_file: json_codec registry_json registry_of_json storable
  by unfold_locales (simp_all add: plain_registry registry_of_json_json storable_def)

section \<open>Properties\<close>

lemma best_account_max:
  assumes "best_account leaving best as = Some b"
    and "\<And>a. a \<in> set as \<Longrightarrow> lastUsed a \<noteq> NaN" and "\<And>a. best = Some a \<Longrightarrow> slot a \<noteq> leaving \<and> lastUsed a \<noteq> NaN"
  shows "(b \<in> set as \<or> best = Some b) \<and> slot b \<noteq> leaving
    \<and> (\<forall>a \<in> set as. slot a \<noteq> leaving \<longrightarrow> num_le (lastUsed a) (lastUsed b))
    \<and> (\<forall>a. best = Some a \<longrightarrow> num_le (lastUsed a) (lastUsed b))"
  using assms
proof (induction leaving best as rule: best_account.induct)
  case (1 leaving best)
  then show ?case by (simp add: num_le_refl)
next
  case (2 leaving best a as)
  show ?case
  proof (cases "slot a = leaving")
    case True
    with 2 show ?thesis by simp
  next
    case False
    show ?thesis
    proof (cases best)
      case None
      with 2 False show ?thesis by auto
    next
      case (Some c)
      have "num_le (lastUsed a) (lastUsed c)" if "\<not> num_lt (lastUsed c) (lastUsed a)"
        using that "2.prems"(2,3) Some num_lt_linear by (auto simp: num_le_def num_eq_def)
      moreover have "num_le (lastUsed c) (lastUsed a)" if "num_lt (lastUsed c) (lastUsed a)"
        using that by (simp add: num_le_def)
      ultimately show ?thesis
        using 2 False Some by (cases "num_lt (lastUsed c) (lastUsed a)") (auto intro: num_le_trans)
    qed
  qed
qed

lemma best_account_None:
  "best_account leaving best as = None \<longleftrightarrow> best = None \<and> (\<forall>a\<in>set as. slot a = leaving)"
  by (induction leaving best as rule: best_account.induct) (auto split: option.splits)

lemma try_slots_fresh: "try_slots rnd taken as = [] \<or> try_slots rnd taken as \<notin> set taken"
  by (induction as) (auto simp: Let_def)

lemma try_slots_valid:
  assumes "\<And>a i. rnd a i < 16"
  shows "try_slots rnd taken as = [] \<or> ACCOUNT_SLOT_RE (try_slots rnd taken as)"
proof (induction as)
  case (Cons a as)
  have "is_hex_lower (hex_char d)" if "d < 16" for d
    using that by (auto simp: is_hex_lower_def hex_char_def is_digit_def)
  with assms have "ACCOUNT_SLOT_RE (draw_slot rnd a)"
    by (auto simp: ACCOUNT_SLOT_RE_def draw_slot_def)
  with Cons show ?case by (simp add: Let_def)
qed simp

lemma find_update_slot:
  "find (\<lambda>a. slot a = s) as = Some a \<Longrightarrow> (\<And>a. slot (f a) = slot a)
   \<Longrightarrow> find (\<lambda>a. slot a = s) (update_slot s f as) = Some (f a)"
  by (induction as) (auto split: if_splits)

lemma find_update_other:
  "t \<noteq> s \<Longrightarrow> (\<And>a. slot (f a) = slot a)
   \<Longrightarrow> find (\<lambda>a. slot a = t) (update_slot s f as) = find (\<lambda>a. slot a = t) as"
  by (induction as) (auto split: if_splits)

lemma find_slot_iff:
  "distinct (map slot as) \<Longrightarrow> find (\<lambda>a. slot a = s) as = Some a \<longleftrightarrow> a \<in> set as \<and> slot a = s"
  by (induction as) (auto simp: image_iff)

lemma find_filter_slot:
  assumes "distinct (map slot as)"
  shows "find (\<lambda>a. slot a = s) (filter (\<lambda>a. \<not> P a) as)
    = (if s \<in> set (map slot (filter P as)) then None else find (\<lambda>a. slot a = s) as)"
proof -
  have "distinct (map slot (filter (\<lambda>a. \<not> P a) as))" using assms by (simp add: distinct_map_filter)
  note rules = find_slot_iff [OF this] find_slot_iff [OF assms]
  have same: "a = b" if "a \<in> set as" "b \<in> set as" "slot a = slot b" for a b
    using that assms by (auto simp: distinct_map inj_on_def)
  show ?thesis
  proof (cases "s \<in> set (map slot (filter P as))")
    case True
    then have "\<not> (\<exists>a\<in>set as. slot a = s \<and> \<not> P a)" using same by auto
    with True show ?thesis by (auto simp: find_None_iff)
  next
    case False
    then have "find (\<lambda>a. slot a = s) (filter (\<lambda>a. \<not> P a) as) = Some a \<longleftrightarrow> find (\<lambda>a. slot a = s) as = Some a" for a
      unfolding rules by auto
    with False show ?thesis by (metis option.exhaust)
  qed
qed

lemma find_snoc: "find P (as @ [a]) = (case find P as of None \<Rightarrow> if P a then Some a else None | Some b \<Rightarrow> Some b)"
  by (induction as) auto

text \<open>
  C15: From the empty registry, after any sequence of operations (reading any file contents,
  noting any status report, removing and activating any slot) the registry holds at most ten
  accounts in pairwise different valid slots, its texts are bounded and free of control
  characters, its times are non-negative whole numbers and the active slot is valid.
\<close>

theorem registry_always_wf: "wf_registry (foldl registry_step emptyAccountRegistry es)"
  by (rule registry.inv_run)

text \<open>
  A registry whose times are integers a double prints exactly is read back from its file
  as it was written.
\<close>

theorem registry_round_trip: "storable r \<Longrightarrow> parseAccountRegistry (serializeAccountRegistry r) = r"
  using registry_file.read_written [of r]
  by (auto simp: parseAccountRegistry_def serializeAccountRegistry_def)

text \<open>
  What noting an account does to a well-formed registry. If the slot is new and the
  registry is full once the other slots of the same user and server are gone, nothing changes.
  Otherwise exactly those other slots are retired and disappear, the noted slot is active and
  holds the reported server, the reported user and e-mail (the previous ones where the report
  has none) and the time, and every remaining slot is unchanged.
\<close>

theorem note_account_effect:
  assumes "wf_registry r" and "res = registryNoteAccount r sl info now" and "s = accountSlot sl"
    and "u = cleanAccountText (info_field info ''userId'') 128"
    and "sv = cleanAccountText (info_field info ''server'') 512"
  shows "if full res then noted res = r \<and> retired res = [] \<and> registryAccount r s = None
           \<and> 10 \<le> length (filter (\<lambda>a. \<not> same_account s u sv a) (accounts r))
         else retired res = map slot (filter (same_account s u sv) (accounts r))
           \<and> active (noted res) = s
           \<and> registryAccount (noted res) s = Some (note_entry info now
               (case registryAccount r s of Some a \<Rightarrow> a
                | None \<Rightarrow> \<lparr>slot = s, email = [], userId = [], server = [], lastUsed = Fin 0\<rparr>))
           \<and> (\<forall>t. t \<noteq> s \<longrightarrow> registryAccount (noted res) t =
               (if t \<in> set (retired res) then None else registryAccount r t))"
proof -
  let ?kept = "filter (\<lambda>a. \<not> same_account s u sv a) (accounts r)"
  have d: "distinct (map slot (accounts r))" using assms(1) by (simp add: wf_registry_def wf_accounts_def)
  note kept = find_filter_slot [OF d, where P = "same_account s u sv"]
  have s: "find (\<lambda>a. slot a = s) ?kept = registryAccount r s"
    unfolding kept registryAccount_def by (auto simp: same_account_def)
  have t: "find (\<lambda>a. slot a = t) ?kept
      = (if t \<in> set (map slot (filter (same_account s u sv) (accounts r))) then None else registryAccount r t)" for t
    unfolding kept registryAccount_def ..
  show ?thesis
    using s t assms(2) unfolding registryNoteAccount_def Let_def assms(3-5) [symmetric] wf_copy [OF assms(1)]
    by (auto simp: registryAccount_def MAX_ACCOUNTS_def find_snoc find_update_slot find_update_other
        split: option.splits if_splits)
qed

text \<open>
  Signing out of a slot shows the most recently used other account: it is one of the
  registry, not the one left, and no other account was used later. There is none only when no
  other account is left.
\<close>

theorem next_account_most_recent:
  assumes "wf_registry r"
  shows "case registryNextAccount r leaving of
           [] \<Rightarrow> (\<forall>a\<in>set (accounts r). slot a = leaving)
         | _ \<Rightarrow> (\<exists>b\<in>set (accounts r). registryNextAccount r leaving = slot b \<and> slot b \<noteq> leaving
                 \<and> (\<forall>a\<in>set (accounts r). slot a \<noteq> leaving \<longrightarrow> num_le (lastUsed a) (lastUsed b)))"
proof (cases "best_account leaving None (accounts r)")
  case None
  with best_account_None [of leaving None "accounts r"] show ?thesis by (simp add: registryNextAccount_def)
next
  case (Some b)
  have wf: "wf_account a" if "a \<in> set (accounts r)" for a
    using that assms by (auto simp: wf_registry_def wf_accounts_def)
  have "lastUsed a \<noteq> NaN" if "a \<in> set (accounts r)" for a
    using wf [OF that] by (auto simp: wf_account_def num_simps)
  with best_account_max [OF Some] have b: "b \<in> set (accounts r)" "slot b \<noteq> leaving"
    "\<forall>a\<in>set (accounts r). slot a \<noteq> leaving \<longrightarrow> num_le (lastUsed a) (lastUsed b)" by auto
  have "slot b \<noteq> []"
    using wf [OF b(1)] by (auto simp: wf_account_def valid_slot_def DEFAULT_ACCOUNT_SLOT_def ACCOUNT_SLOT_RE_def)
  moreover have "registryNextAccount r leaving = slot b" using Some by (simp add: registryNextAccount_def)
  ultimately show ?thesis using b by (cases "slot b") force+
qed

text \<open>
  Where a new sign-in goes: the default slot while no account holds it; otherwise a
  valid slot that no account of the registry holds, or none at all. An account that is
  signed in can thus never be overwritten by a new one.
\<close>

theorem new_account_slot_fresh:
  assumes "\<And>a i. rnd a i < 16"
  shows "let s = slotForNewAccount rnd r in
           (\<not> registryHasAccount r DEFAULT_ACCOUNT_SLOT \<longrightarrow> s = DEFAULT_ACCOUNT_SLOT)
         \<and> (s = [] \<or> valid_slot s \<and> \<not> registryHasAccount r s)"
  using try_slots_fresh [of rnd "map slot (accounts r)" "[0..<32]"]
    try_slots_valid [of rnd "map slot (accounts r)" "[0..<32]", OF assms]
  by (auto simp: Let_def slotForNewAccount_def newAccountSlot_def registryHasAccount_def registryAccount_None
      valid_slot_def)

subsection \<open>Concrete registries\<close>

definition demo_registry :: registry where
  "demo_registry = \<lparr>version = 1, active = js ''default'', accounts =
     [\<lparr>slot = js ''default'', email = js ''ann@x.org'', userId = js ''u1'', server = js ''https://a'', lastUsed = Fin 5\<rparr>,
      \<lparr>slot = js ''00000000000000ff'', email = js ''bob@x.org'', userId = js ''u2'', server = [], lastUsed = Fin 7\<rparr>]\<rparr>"

lemmas demo_eval = demo_registry_def wf_registry_def wf_accounts_def wf_account_def valid_slot_def clean_text_def
  ACCOUNT_SLOT_RE_def is_hex_lower_def DEFAULT_ACCOUNT_SLOT_def MAX_ACCOUNTS_def ACCOUNTS_VERSION_def
  is_digit_def is_control_def js_def

lemma storable_demo: "storable demo_registry"
  by (simp add: storable_def units_ok_def demo_eval)

lemma wf_demo: "wf_registry demo_registry"
  using storable_demo by (simp add: storable_def)

theorem registry_round_trip_witness:
  "parseAccountRegistry (serializeAccountRegistry demo_registry) = demo_registry"
  by (rule registry_round_trip [OF storable_demo])

definition demo_status :: jsval where
  "demo_status = JObj [(js ''userId'', JStr (js ''u1'')), (js ''server'', JStr (js ''https://a''))]"

lemma demo_note:
  "\<not> full (registryNoteAccount demo_registry (JStr (js ''00000000000000aa'')) demo_status (Fin 9))"
  by code_simp

lemma demo_same:
  "map slot (filter (same_account (accountSlot (JStr (js ''00000000000000aa'')))
     (cleanAccountText (info_field demo_status ''userId'') 128)
     (cleanAccountText (info_field demo_status ''server'') 512)) (accounts demo_registry)) = [js ''default'']"
  by code_simp

lemma demo_slot: "accountSlot (JStr (js ''00000000000000aa'')) = js ''00000000000000aa''"
  by code_simp

theorem note_account_effect_witness:
  "let res = registryNoteAccount demo_registry (JStr (js ''00000000000000aa'')) demo_status (Fin 9)
   in \<not> full res \<and> retired res = [js ''default''] \<and> active (noted res) = js ''00000000000000aa''
      \<and> registryAccount (noted res) (js ''default'') = None"
  using note_account_effect [OF wf_demo refl refl refl refl, of "JStr (js ''00000000000000aa'')" demo_status "Fin 9"]
    demo_note demo_same unfolding demo_slot by (simp add: Let_def)

theorem next_account_most_recent_witness:
  "registryNextAccount demo_registry (js ''default'') = js ''00000000000000ff''
   \<and> (\<exists>b\<in>set (accounts demo_registry). slot b = js ''00000000000000ff'' \<and> lastUsed b = Fin 7)"
  using next_account_most_recent [OF wf_demo, of "js ''default''"]
  by (auto simp: registryNextAccount_def demo_registry_def js_def)

theorem new_account_slot_fresh_witness:
  "slotForNewAccount (\<lambda>a i. 3) demo_registry = js ''3333333333333333''
   \<and> \<not> registryHasAccount demo_registry (js ''3333333333333333'')"
  using new_account_slot_fresh [of "\<lambda>a i. 3" demo_registry] by code_simp

end
