(* ===== verification/Agent.thy ===== *)
theory Agent
  imports Json
begin

text \<open>
  The supervisor of the SSH agent helper of \<^verbatim>\<open>BitwardenModel.js\<close>: the control protocol spoken
  with the helper (one JSON object per line, both ways), the reading of its events, the
  restart delay, the transition function \<open>sshAgentReduce\<close> that decides what the panel does on
  every event, and the mapping of vault events to control lines. The signing gate is open only
  in the phase \<open>Ready\<close>, which only a well-formed \<^verbatim>\<open>ready\<close> answering \<^verbatim>\<open>hello\<close> reaches, and a
  helper that keeps dying is started a bounded number of times.
\<close>

section \<open>The control protocol\<close>

definition SSH_AGENT_CONTROL_VERSION :: int where "SSH_AGENT_CONTROL_VERSION = 2"
definition SSH_AGENT_MAX_LINE_BYTES :: nat where "SSH_AGENT_MAX_LINE_BYTES = 64 * 1024"
definition SSH_AGENT_HANDSHAKE_TIMEOUT_MS :: int where "SSH_AGENT_HANDSHAKE_TIMEOUT_MS = 5000"
definition SSH_AGENT_BACKOFF_BASE_MS :: int where "SSH_AGENT_BACKOFF_BASE_MS = 500"
definition SSH_AGENT_BACKOFF_MAX_MS :: int where "SSH_AGENT_BACKOFF_MAX_MS = 30000"
definition SSH_AGENT_MAX_RESTARTS :: nat where "SSH_AGENT_MAX_RESTARTS = 5"
definition SSH_AGENT_HEALTHY_MS :: int where "SSH_AGENT_HEALTHY_MS = 60 * 1000"
definition SSH_AGENT_ELSEWHERE_RETRY_MS :: int where "SSH_AGENT_ELSEWHERE_RETRY_MS = 30 * 1000"

definition SSH_AGENT_EVENT_TYPES :: "jsstr list" where
  "SSH_AGENT_EVENT_TYPES = map js
     [''ready'', ''unlock_required'', ''approval_required'', ''request_cancelled'',
      ''keys_loaded'', ''public_key'', ''locked'', ''load_failed'', ''grants_changed'', ''state_changed'', ''error'']"

definition control_message :: "string \<Rightarrow> (jsstr \<times> jsval) list \<Rightarrow> jsval" where
  \<comment> \<open>the object of \<open>agentControlLine\<close>: \<^verbatim>\<open>v\<close> and \<^verbatim>\<open>type\<close>, then each of the fields assigned\<close>
  "control_message ty fields =
     JObj (put_all [(js ''v'', jint SSH_AGENT_CONTROL_VERSION), (js ''type'', JStr (js ty))] fields)"

definition agentControlLine :: "string \<Rightarrow> (jsstr \<times> jsval) list \<Rightarrow> jsstr" where
  "agentControlLine ty fields = json_str (control_message ty fields) @ [10]"

definition agentEpoch :: "jsval \<Rightarrow> jsnum" where
  "agentEpoch epoch = num_or_zero (num_floor (to_num epoch))"

definition sshAgentHelloLine :: jsstr where "sshAgentHelloLine = agentControlLine ''hello'' []"
definition sshAgentShutdownLine :: jsstr where "sshAgentShutdownLine = agentControlLine ''shutdown'' []"
definition sshAgentRevokeGrantsLine :: jsstr where
  "sshAgentRevokeGrantsLine = agentControlLine ''revoke_grants'' []"

definition sshAgentOptionsLine :: "jsval \<Rightarrow> jsstr" where
  "sshAgentOptionsLine unlockOnDemand =
     agentControlLine ''options'' [(js ''unlockOnDemand'', JBool (unlockOnDemand = JBool True))]"

definition LOAD_ID_RE :: "jsstr \<Rightarrow> bool" where
  \<comment> \<open>\<^verbatim>\<open>/^[0-9a-f]{32}$/\<close>\<close>
  "LOAD_ID_RE s \<longleftrightarrow> length s = 32 \<and> (\<forall>c\<in>set s. is_digit c \<or> (97 \<le> c \<and> c \<le> 102))"

definition isValidLoadId :: "jsval \<Rightarrow> bool" where
  "isValidLoadId value = (case value of JStr s \<Rightarrow> LOAD_ID_RE s | _ \<Rightarrow> False)"

definition sshAgentLoadBeginLine :: "jsval \<Rightarrow> jsval \<Rightarrow> jsstr" where
  "sshAgentLoadBeginLine epoch loadId =
     (if \<not> isValidLoadId loadId then []
      else agentControlLine ''key_load_begin''
             [(js ''epoch'', JNum (agentEpoch epoch)), (js ''loadId'', loadId)])"

definition sshAgentLoadEndLine :: "jsval \<Rightarrow> jsval \<Rightarrow> jsstr" where
  "sshAgentLoadEndLine epoch loaded =
     agentControlLine ''key_load_end''
       [(js ''epoch'', JNum (agentEpoch epoch)),
        (js ''status'', JStr (if truthy loaded then js ''ok'' else js ''failed''))]"

definition sshAgentVaultLockedLine :: "jsval \<Rightarrow> jsstr" where
  "sshAgentVaultLockedLine epoch = agentControlLine ''vault_locked'' [(js ''epoch'', JNum (agentEpoch epoch))]"

definition sshAgentLoggedOutLine :: jsstr where
  "sshAgentLoggedOutLine = agentControlLine ''vault_logged_out'' []"

section \<open>The helper's paths\<close>

definition RUNTIME_SUBDIR :: jsstr where "RUNTIME_SUBDIR = js ''qs-bitwarden-cli''"

definition cleanAbsoluteDir :: "jsval \<Rightarrow> jsstr" where
  \<comment> \<open>the loop drops trailing slashes but keeps a leading one\<close>
  "cleanAbsoluteDir dir =
     (case dir of
        JStr (c # cs) \<Rightarrow>
          (if c \<noteq> 47 then []
           else (let base = 47 # rev (dropWhile (\<lambda>d. d = 47) (rev cs))
                 in if [46] \<in> set (split_on 47 base) \<or> [46, 46] \<in> set (split_on 47 base) then [] else base))
      | _ \<Rightarrow> [])"

definition runtimeFilePath :: "jsval \<Rightarrow> jsstr \<Rightarrow> jsstr" where
  "runtimeFilePath runtimeDir name =
     (case runtimeDir of
        JStr (c # cs) \<Rightarrow> if c = 47 then (c # cs) @ [47] @ RUNTIME_SUBDIR @ [47] @ name else []
      | _ \<Rightarrow> [])"

definition sshAgentSocketPath :: "jsval \<Rightarrow> jsstr" where
  "sshAgentSocketPath runtimeDir = runtimeFilePath runtimeDir (js ''ssh-agent.sock'')"

definition sshAgentFifoPath :: "jsval \<Rightarrow> jsstr" where
  "sshAgentFifoPath runtimeDir = runtimeFilePath runtimeDir (js ''ssh-keys.fifo'')"

definition sshAgentHelperEnv :: "jsval \<Rightarrow> (jsstr \<times> jsstr) list option" where
  "sshAgentHelperEnv runtimeDir =
     (case runtimeDir of
        JStr (c # cs) \<Rightarrow> if c = 47 then Some [(js ''XDG_RUNTIME_DIR'', c # cs)] else None
      | _ \<Rightarrow> None)"

definition sshAgentLockProbeCommand :: "jsval \<Rightarrow> jsstr list option" where
  \<open>sshAgentLockProbeCommand runtimeDir =
     (let lock = runtimeFilePath runtimeDir (js ''ssh-agent.lock'')
      in if lock = [] then None
         else Some [js ''bash'', js ''-c'',
           js ''[ -f "$1" ] && [ ! -L "$1" ] || exit 0; exec flock -n -E 75 "$1" true'', js ''_'', lock])\<close>

definition sshAgentLockHeld :: "jsval \<Rightarrow> bool" where
  "sshAgentLockHeld exitCode \<longleftrightarrow> to_num exitCode = Fin 75"

section \<open>Reading the helper's lines\<close>

fun utf8_count :: "jsstr \<Rightarrow> nat" where
  \<comment> \<open>the loop of \<open>utf8ByteLength\<close>: a high surrogate takes the unit after it along\<close>
  "utf8_count [] = 0"
| "utf8_count (c # cs) =
     (if c < 128 then 1 + utf8_count cs
      else if c < 2048 then 2 + utf8_count cs
      else if 55296 \<le> c \<and> c \<le> 56319 then 4 + utf8_count (drop 1 cs)
      else 3 + utf8_count cs)"

definition utf8ByteLength :: "jsstr \<Rightarrow> nat" where
  "utf8ByteLength text = (if SSH_AGENT_MAX_LINE_BYTES < length text then length text else utf8_count text)"

datatype agent_code =
    NoCode | EMPTY | MALFORMED | LINE_TOO_LONG | VERSION_MISMATCH | UNKNOWN_TYPE | PROTOCOL
  | HANDSHAKE_TIMEOUT | EXITED | CRASH_LOOP | ELSEWHERE

datatype agent_event =
    EventOk jsval
  | EventBad agent_code bool

definition drop_last_unit :: "nat \<Rightarrow> jsstr \<Rightarrow> jsstr" where
  "drop_last_unit c s = (if s \<noteq> [] \<and> last s = c then butlast s else s)"

definition nonempty_string :: "jsval \<Rightarrow> bool" where
  "nonempty_string v = (case v of JStr s \<Rightarrow> s \<noteq> [] | _ \<Rightarrow> False)"

definition is_version :: "jsval \<Rightarrow> int \<Rightarrow> bool" where
  \<comment> \<open>\<^verbatim>\<open>v === n\<close>\<close>
  "is_version v n = (case v of JNum x \<Rightarrow> num_eq x (numi n) | _ \<Rightarrow> False)"

definition known_type :: "jsval \<Rightarrow> bool" where
  "known_type v = (case v of JStr t \<Rightarrow> t \<in> set SSH_AGENT_EVENT_TYPES | _ \<Rightarrow> False)"

definition ready_complete :: "jsval \<Rightarrow> bool" where
  "ready_complete m \<longleftrightarrow> nonempty_string (get_prop m (js ''socketPath''))
     \<and> nonempty_string (get_prop m (js ''fifoPath'')) \<and> nonempty_string (get_prop m (js ''agentVersion''))"

definition parseAgentEvent :: "jsval \<Rightarrow> agent_event" where
  "parseAgentEvent line =
     (let text = drop_last_unit 13 (drop_last_unit 10 (text_of line)) in
      if text = [] then EventBad EMPTY False
      else if SSH_AGENT_MAX_LINE_BYTES < utf8ByteLength text then EventBad LINE_TOO_LONG True
      else case json_parse text of
        None \<Rightarrow> EventBad MALFORMED True
      | Some parsed \<Rightarrow>
          (if \<not> is_object parsed \<or> is_array parsed then EventBad MALFORMED True
           else if \<not> is_version (get_prop parsed (js ''v'')) SSH_AGENT_CONTROL_VERSION
             then EventBad VERSION_MISMATCH True
           else if \<not> known_type (get_prop parsed (js ''type'')) then EventBad UNKNOWN_TYPE True
           else if get_prop parsed (js ''type'') = JStr (js ''ready'') \<and> \<not> ready_complete parsed
             then EventBad MALFORMED True
           else EventOk parsed))"

definition sshAgentRestartDelayMs :: "jsnum \<Rightarrow> int" where
  "sshAgentRestartDelayMs failures =
     (case num_floor failures of
        Fin q \<Rightarrow> (if q < 1 then SSH_AGENT_BACKOFF_BASE_MS
                  else min SSH_AGENT_BACKOFF_MAX_MS (SSH_AGENT_BACKOFF_BASE_MS * 2 ^ nat (\<lfloor>q\<rfloor> - 1)))
      | _ \<Rightarrow> SSH_AGENT_BACKOFF_BASE_MS)"

section \<open>The supervisor\<close>

datatype phase = Disabled | Starting | Handshaking | Ready | Restarting | Backoff | Elsewhere | Failed

record agent_state =
  phase :: phase
  gateOpen :: bool
  socketPath :: jsstr
  fifoPath :: jsstr
  agentVersion :: jsstr
  failures :: nat
  readyAtMs :: jsnum
  errorCode :: agent_code
  errorMessage :: jsstr

record agent_action =
  start :: bool
  stop :: bool
  writeHello :: bool
  cancelRestart :: bool
  restartInMs :: int
  message :: "jsval option"

text \<open>An event of the panel; \<open>nowMs\<close> and the line are the dynamic values it passes.\<close>

datatype sup_event =
    Enabled bool
  | Started
  | HandshakeTimeout
  | Line jsval jsval
  | Exited bool jsval
  | RestartTimer
  | OtherEvent

definition sshAgentInitialState :: agent_state where
  "sshAgentInitialState = \<lparr>phase = Disabled, gateOpen = False, socketPath = [], fifoPath = [], agentVersion = [],
     failures = 0, readyAtMs = Fin 0, errorCode = NoCode, errorMessage = []\<rparr>"

definition sshAgentNoAction :: agent_action where
  "sshAgentNoAction = \<lparr>start = False, stop = False, writeHello = False, cancelRestart = False, restartInMs = -1,
     message = None\<rparr>"

definition sshAgentCopyState :: "agent_state \<Rightarrow> agent_state" where
  "sshAgentCopyState src = \<lparr>phase = phase src, gateOpen = gateOpen src, socketPath = socketPath src,
     fifoPath = fifoPath src, agentVersion = agentVersion src, failures = failures src, readyAtMs = readyAtMs src,
     errorCode = errorCode src, errorMessage = errorMessage src\<rparr>"

fun SSH_AGENT_ERROR_MESSAGES :: "agent_code \<Rightarrow> jsstr option" where
  "SSH_AGENT_ERROR_MESSAGES MALFORMED = Some (js ''The SSH agent helper sent something the panel could not read.'')"
| "SSH_AGENT_ERROR_MESSAGES LINE_TOO_LONG = Some (js ''The SSH agent helper sent an oversized message.'')"
| "SSH_AGENT_ERROR_MESSAGES VERSION_MISMATCH =
     Some (js ''The SSH agent helper does not match this version of the plugin.'')"
| "SSH_AGENT_ERROR_MESSAGES UNKNOWN_TYPE =
     Some (js ''The SSH agent helper does not match this version of the plugin.'')"
| "SSH_AGENT_ERROR_MESSAGES PROTOCOL = Some (js ''The SSH agent helper broke its side of the control protocol.'')"
| "SSH_AGENT_ERROR_MESSAGES HANDSHAKE_TIMEOUT = Some (js ''The SSH agent helper did not finish starting up.'')"
| "SSH_AGENT_ERROR_MESSAGES EXITED = Some (js ''The SSH agent helper stopped unexpectedly.'')"
| "SSH_AGENT_ERROR_MESSAGES CRASH_LOOP =
     Some (js ''The SSH agent helper keeps failing to start, so it has been left off.'')"
| "SSH_AGENT_ERROR_MESSAGES ELSEWHERE =
     Some (js ''Another process is already serving the SSH agent on this machine -- another ''
       @ js ''Omarchy shell, most likely. This one is standing by and will take over when it stops.'')"
| "SSH_AGENT_ERROR_MESSAGES _ = None"

definition sshAgentErrorMessage :: "agent_code \<Rightarrow> jsstr" where
  "sshAgentErrorMessage code =
     (case SSH_AGENT_ERROR_MESSAGES code of Some m \<Rightarrow> m | None \<Rightarrow> the (SSH_AGENT_ERROR_MESSAGES EXITED))"

type_synonym outcome = "agent_state \<times> agent_action"

definition sshAgentFailMidRun :: "agent_state \<Rightarrow> agent_action \<Rightarrow> agent_code \<Rightarrow> outcome" where
  "sshAgentFailMidRun nxt action code =
     (nxt\<lparr>gateOpen := False, phase := Restarting, errorCode := code, errorMessage := sshAgentErrorMessage code\<rparr>,
      action\<lparr>stop := True, cancelRestart := True\<rparr>)"

definition was_healthy :: "agent_state \<Rightarrow> jsnum \<Rightarrow> bool" where
  "was_healthy s now \<longleftrightarrow> num_lt (Fin 0) (readyAtMs s)
     \<and> num_le (numi SSH_AGENT_HEALTHY_MS) (num_sub now (readyAtMs s))"

definition sshAgentFailOnExit :: "agent_state \<Rightarrow> agent_state \<Rightarrow> agent_action \<Rightarrow> jsnum \<Rightarrow> outcome" where
  "sshAgentFailOnExit s nxt action now =
     (let n1 = nxt\<lparr>gateOpen := False, socketPath := [], fifoPath := [], agentVersion := []\<rparr>;
          n2 = (if errorCode n1 = NoCode
                then n1\<lparr>errorCode := EXITED, errorMessage := sshAgentErrorMessage EXITED\<rparr> else n1);
          f = (if was_healthy s now then 0 else failures s) + 1;
          n3 = n2\<lparr>readyAtMs := Fin 0, failures := f\<rparr>
      in if SSH_AGENT_MAX_RESTARTS < f
         then (n3\<lparr>phase := Failed, errorCode := CRASH_LOOP, errorMessage := sshAgentErrorMessage CRASH_LOOP\<rparr>,
               action\<lparr>restartInMs := -1\<rparr>)
         else (n3\<lparr>phase := Backoff\<rparr>, action\<lparr>restartInMs := sshAgentRestartDelayMs (Fin (of_nat f))\<rparr>))"

definition now_of :: "jsval \<Rightarrow> jsnum" where
  \<comment> \<open>\<^verbatim>\<open>Number(ev.nowMs) || 0\<close>\<close>
  "now_of v = num_or_zero (to_num v)"

definition reduce_line :: "agent_state \<Rightarrow> jsval \<Rightarrow> jsval \<Rightarrow> outcome" where
  \<comment> \<open>the case \<^verbatim>\<open>"line"\<close>\<close>
  "reduce_line current line nowMs =
     (let nxt = sshAgentCopyState current; action = sshAgentNoAction in
      if phase current \<noteq> Handshaking \<and> phase current \<noteq> Ready then (nxt, action)
      else case parseAgentEvent line of
        EventBad code fatal \<Rightarrow> if fatal then sshAgentFailMidRun nxt action code else (nxt, action)
      | EventOk m \<Rightarrow>
          (let isReady = (get_prop m (js ''type'') = JStr (js ''ready'')) in
           if isReady \<noteq> (phase current = Handshaking) then sshAgentFailMidRun nxt action PROTOCOL
           else if isReady then
             (nxt\<lparr>phase := Ready, gateOpen := True,
                 socketPath := to_str (get_prop m (js ''socketPath'')),
                 fifoPath := to_str (get_prop m (js ''fifoPath'')),
                 agentVersion := to_str (get_prop m (js ''agentVersion'')),
                 readyAtMs := now_of nowMs, errorCode := NoCode, errorMessage := []\<rparr>, action)
           else (nxt, action\<lparr>message := Some m\<rparr>)))"

fun sshAgentReduce :: "agent_state \<Rightarrow> sup_event \<Rightarrow> outcome" where
  "sshAgentReduce current (Enabled value) =
     (let nxt = sshAgentCopyState current; action = sshAgentNoAction in
      if \<not> value then
        (if phase current = Disabled then (nxt, action)
         else (sshAgentInitialState, action\<lparr>stop := True, cancelRestart := True\<rparr>))
      else if phase current \<noteq> Disabled \<and> phase current \<noteq> Failed then (nxt, action)
      else (sshAgentInitialState\<lparr>phase := Starting\<rparr>, action\<lparr>start := True\<rparr>))"
| "sshAgentReduce current ev =
     (let nxt = sshAgentCopyState current; action = sshAgentNoAction in
      if phase current = Disabled \<or> phase current = Failed then (nxt, action)
      else case ev of
        Started \<Rightarrow>
          (if phase current \<noteq> Starting then (nxt, action)
           else (nxt\<lparr>phase := Handshaking\<rparr>, action\<lparr>writeHello := True\<rparr>))
      | HandshakeTimeout \<Rightarrow>
          (if phase current \<noteq> Starting \<and> phase current \<noteq> Handshaking then (nxt, action)
           else sshAgentFailMidRun nxt action HANDSHAKE_TIMEOUT)
      | Line line nowMs \<Rightarrow> reduce_line current line nowMs
      | Exited lockHeld nowMs \<Rightarrow>
          (if lockHeld \<and> readyAtMs current = Fin 0 then
             (nxt\<lparr>gateOpen := False, socketPath := [], fifoPath := [], agentVersion := [], phase := Elsewhere,
                 errorCode := ELSEWHERE, errorMessage := sshAgentErrorMessage ELSEWHERE\<rparr>,
              action\<lparr>restartInMs := SSH_AGENT_ELSEWHERE_RETRY_MS\<rparr>)
           else sshAgentFailOnExit current nxt action (now_of nowMs))
      | RestartTimer \<Rightarrow>
          (if phase current \<noteq> Backoff \<and> phase current \<noteq> Elsewhere then (nxt, action)
           else (nxt\<lparr>phase := Starting\<rparr>, action\<lparr>start := True\<rparr>))
      | _ \<Rightarrow> (nxt, action))"

section \<open>The vault's state and the helper\<close>

record vault_context =
  ctx_enabled :: bool
  ctx_helperReady :: bool
  ctx_loggedIn :: bool
  ctx_loading :: bool
  ctx_unlocked :: bool
  ctx_hasPublicCache :: bool
  ctx_epoch :: jsval

datatype vault_state = VDisabled | VLoggedOut | VLoading | VUnlocked | VLockedCached | VLockedEmpty

definition sshAgentVaultState :: "vault_context \<Rightarrow> vault_state" where
  "sshAgentVaultState ctx =
     (if \<not> ctx_enabled ctx \<or> \<not> ctx_helperReady ctx then VDisabled
      else if \<not> ctx_loggedIn ctx then VLoggedOut
      else if ctx_loading ctx then VLoading
      else if ctx_unlocked ctx then VUnlocked
      else if ctx_hasPublicCache ctx then VLockedCached else VLockedEmpty)"

record lifecycle_action =
  controlLines :: "jsstr list"
  cancelLoad :: bool
  startLoad :: bool
  awaitLockAck :: bool
  stopHelper :: bool
  clearPublic :: bool
  advanceEpoch :: bool

definition SSH_AGENT_LOCK_EVENTS :: "jsstr list" where
  "SSH_AGENT_LOCK_EVENTS = map js [''lock'', ''screen-lock'', ''suspend'']"
definition SSH_AGENT_LOGOUT_EVENTS :: "jsstr list" where
  "SSH_AGENT_LOGOUT_EVENTS = map js [''logout'', ''account-change'']"
definition SSH_AGENT_LOAD_EVENTS :: "jsstr list" where
  "SSH_AGENT_LOAD_EVENTS = map js [''unlock'', ''sync'', ''startup'']"

definition sshAgentLifecycleTransition :: "jsstr \<Rightarrow> vault_context \<Rightarrow> lifecycle_action" where
  "sshAgentLifecycleTransition event ctx =
     (let action = \<lparr>controlLines = [], cancelLoad = False, startLoad = False, awaitLockAck = False,
                    stopHelper = False, clearPublic = False, advanceEpoch = False\<rparr>;
          live = (ctx_enabled ctx \<and> ctx_helperReady ctx)
      in if event = js ''disable'' \<or> event = js ''shutdown'' then
           action\<lparr>stopHelper := True, cancelLoad := True, clearPublic := True\<rparr>
         else if event \<in> set SSH_AGENT_LOCK_EVENTS then
           (if live then action\<lparr>cancelLoad := True, controlLines := [sshAgentVaultLockedLine (ctx_epoch ctx)],
                                awaitLockAck := True\<rparr>
            else action\<lparr>cancelLoad := True\<rparr>)
         else if event \<in> set SSH_AGENT_LOGOUT_EVENTS then
           action\<lparr>cancelLoad := True, clearPublic := True,
                  controlLines := (if live then [sshAgentLoggedOutLine] else []), advanceEpoch := live\<rparr>
         else if event \<in> set SSH_AGENT_LOAD_EVENTS then
           action\<lparr>startLoad := (live \<and> ctx_unlocked ctx)\<rparr>
         else action)"

datatype setup_kind = SetupDisabled | SetupEnabled | SetupError

record setup_state =
  setup_is :: setup_kind
  busy :: bool
  setup_message :: jsstr

definition sshAgentSetupState :: "bool \<Rightarrow> bool \<Rightarrow> phase \<Rightarrow> agent_code \<Rightarrow> setup_state" where
  "sshAgentSetupState is_enabled supervisable ph code =
     (if \<not> is_enabled then
        \<lparr>setup_is = SetupDisabled, busy = False, setup_message =
           js ''The SSH agent is off. Your vault works normally; SSH keys stay read-only records.''\<rparr>
      else if \<not> supervisable then
        \<lparr>setup_is = SetupError, busy = False, setup_message =
           js ''The SSH agent needs a per-login runtime directory and could not find one. ''
           @ js ''Without XDG_RUNTIME_DIR it refuses to start rather than use a path it cannot trust.''\<rparr>
      else if ph = Ready then
        \<lparr>setup_is = SetupEnabled, busy = False, setup_message =
           js ''The SSH agent is running and serving its socket.''\<rparr>
      else if ph = Starting \<or> ph = Handshaking then
        \<lparr>setup_is = SetupEnabled, busy = True, setup_message = js ''Starting the SSH agent helper...''\<rparr>
      else
        \<lparr>setup_is = SetupError, busy = False, setup_message =
           (if code \<noteq> NoCode then sshAgentErrorMessage code else sshAgentErrorMessage EXITED)\<rparr>)"

section \<open>The supervisor's invariant\<close>

definition sup_step :: "agent_state \<Rightarrow> sup_event \<Rightarrow> agent_state" where
  "sup_step s e = fst (sshAgentReduce s e)"

definition gate_ok :: "agent_state \<Rightarrow> bool" where
  "gate_ok s \<longleftrightarrow> (gateOpen s \<longleftrightarrow> phase s = Ready)
     \<and> (gateOpen s \<longrightarrow> socketPath s \<noteq> [] \<and> fifoPath s \<noteq> [] \<and> agentVersion s \<noteq> [] \<and> errorCode s = NoCode)"

definition failures_ok :: "agent_state \<Rightarrow> bool" where
  "failures_ok s \<longleftrightarrow> (if phase s = Failed then failures s = 6 \<and> errorCode s = CRASH_LOOP else failures s \<le> 5)
     \<and> (phase s = Backoff \<longrightarrow> 1 \<le> failures s)"

definition error_ok :: "agent_state \<Rightarrow> bool" where
  "error_ok s \<longleftrightarrow> errorMessage s = (if errorCode s = NoCode then [] else sshAgentErrorMessage (errorCode s))
     \<and> (phase s \<in> {Restarting, Backoff, Elsewhere, Failed} \<longrightarrow> errorCode s \<noteq> NoCode)"

definition sup_inv :: "agent_state \<Rightarrow> bool" where
  "sup_inv s \<longleftrightarrow> gate_ok s \<and> failures_ok s \<and> error_ok s \<and> (phase s = Disabled \<longrightarrow> s = sshAgentInitialState)"

lemmas sup_inv_defs = sup_inv_def gate_ok_def failures_ok_def error_ok_def

lemma sshAgentCopyState_id [simp]: "sshAgentCopyState s = s"
  by (simp add: sshAgentCopyState_def)

lemma parseAgentEvent_Ok_iff:
  "parseAgentEvent line = EventOk m \<longleftrightarrow>
     (let text = drop_last_unit 13 (drop_last_unit 10 (text_of line)) in
      text \<noteq> [] \<and> utf8ByteLength text \<le> SSH_AGENT_MAX_LINE_BYTES \<and> json_parse text = Some m
      \<and> is_object m \<and> \<not> is_array m \<and> is_version (get_prop m (js ''v'')) SSH_AGENT_CONTROL_VERSION
      \<and> known_type (get_prop m (js ''type''))
      \<and> (get_prop m (js ''type'') = JStr (js ''ready'') \<longrightarrow> ready_complete m))"
  by (auto simp: parseAgentEvent_def Let_def split: option.splits if_splits)

lemma parseAgentEvent_ready:
  "parseAgentEvent line = EventOk m \<Longrightarrow> get_prop m (js ''type'') = JStr (js ''ready'') \<Longrightarrow> ready_complete m"
  by (simp add: parseAgentEvent_Ok_iff Let_def)

lemma parseAgentEvent_Bad: "parseAgentEvent line = EventBad c True \<Longrightarrow> c \<noteq> NoCode"
  by (auto simp: parseAgentEvent_def Let_def split: option.splits if_splits)

lemma ready_complete_strings:
  "ready_complete m \<Longrightarrow> to_str (get_prop m (js ''socketPath'')) \<noteq> []
     \<and> to_str (get_prop m (js ''fifoPath'')) \<noteq> [] \<and> to_str (get_prop m (js ''agentVersion'')) \<noteq> []"
  by (auto simp: ready_complete_def nonempty_string_def split: jsval.splits)

lemma sup_inv_initial: "sup_inv sshAgentInitialState"
  by (simp add: sup_inv_defs sshAgentInitialState_def)

lemma sup_inv_fail_mid:
  "sup_inv s \<Longrightarrow> code \<noteq> NoCode \<Longrightarrow> phase s \<notin> {Disabled, Failed} \<Longrightarrow> sup_inv (fst (sshAgentFailMidRun s a code))"
  by (simp add: sup_inv_defs sshAgentFailMidRun_def)

lemma sup_inv_fail_exit:
  "sup_inv s \<Longrightarrow> phase s \<notin> {Disabled, Failed} \<Longrightarrow> sup_inv (fst (sshAgentFailOnExit s s a now))"
  by (auto simp: sup_inv_defs sshAgentFailOnExit_def SSH_AGENT_MAX_RESTARTS_def Let_def)

lemma sup_inv_line: "sup_inv s \<Longrightarrow> sup_inv (fst (reduce_line s line now))"
proof -
  assume inv: "sup_inv s"
  show ?thesis
  proof (cases "parseAgentEvent line")
    case (EventOk m)
    have "sup_inv (s\<lparr>phase := Ready, gateOpen := True, socketPath := to_str (get_prop m (js ''socketPath'')),
        fifoPath := to_str (get_prop m (js ''fifoPath'')), agentVersion := to_str (get_prop m (js ''agentVersion'')),
        readyAtMs := t, errorCode := NoCode, errorMessage := []\<rparr>)"
      if "phase s = Handshaking" "get_prop m (js ''type'') = JStr (js ''ready'')" for t
      using that inv ready_complete_strings [OF parseAgentEvent_ready [OF EventOk]] by (simp add: sup_inv_defs)
    with EventOk inv show ?thesis by (auto simp: reduce_line_def Let_def intro: sup_inv_fail_mid)
  next
    case (EventBad c f)
    with inv parseAgentEvent_Bad [of line c] show ?thesis by (auto simp: reduce_line_def Let_def intro!: sup_inv_fail_mid)
  qed
qed

lemma sup_inv_step: "sup_inv s \<Longrightarrow> sup_inv (sup_step s e)"
proof (cases e)
  case (Line l t)
  assume "sup_inv s"
  with Line show ?thesis by (simp add: sup_step_def Let_def sup_inv_line)
next
  case (Exited held t)
  assume "sup_inv s"
  with Exited show ?thesis
    by (simp add: sup_step_def Let_def sup_inv_fail_exit) (simp add: sup_inv_defs)
next
  case (Enabled v)
  assume "sup_inv s"
  with Enabled show ?thesis by (simp add: sup_step_def Let_def sup_inv_initial) (simp add: sup_inv_defs sshAgentInitialState_def)
next
  case HandshakeTimeout
  assume "sup_inv s"
  with HandshakeTimeout show ?thesis by (simp add: sup_step_def Let_def sup_inv_fail_mid)
qed (auto simp: sup_step_def Let_def sup_inv_defs)

interpretation supervisor: machine sshAgentInitialState sup_step sup_inv
  by unfold_locales (fact sup_inv_initial, fact sup_inv_step)

section \<open>Runs of a dying helper\<close>

text \<open>
  A quick event is one that neither the user nor a healthy run caused: not a change of the
  setting, and no exit after a minute of service or while another process holds the lock.
  \<open>quick_run n s\<close>: since the setting was turned on, only quick events happened, the helper
  was started \<open>n\<close> times, and the supervisor is in state \<open>s\<close>.
\<close>

fun quick :: "agent_state \<Rightarrow> sup_event \<Rightarrow> bool" where
  "quick s (Enabled v) = False"
| "quick s (Exited held now) = (\<not> (held \<and> readyAtMs s = Fin 0) \<and> \<not> was_healthy s (now_of now))"
| "quick s _ = True"

inductive quick_run :: "nat \<Rightarrow> agent_state \<Rightarrow> bool" where
  turned_on: "phase s \<in> {Disabled, Failed} \<Longrightarrow> quick_run 1 (sup_step s (Enabled True))"
| next_event: "\<lbrakk>quick_run n s; quick s e\<rbrakk>
    \<Longrightarrow> quick_run (n + (if start (snd (sshAgentReduce s e)) then 1 else 0)) (sup_step s e)"

inductive_cases quick_runE: "quick_run n s"
fun_cases quick_EnabledE: "quick s (Enabled v)"
fun_cases quick_ExitedE: "quick s (Exited held now)"

definition starts_ok :: "nat \<Rightarrow> agent_state \<Rightarrow> bool" where
  "starts_ok n s \<longleftrightarrow> phase s \<notin> {Disabled, Elsewhere} \<and> (if phase s = Failed then failures s = 6 else failures s \<le> 5)
     \<and> n \<le> failures s + (if phase s \<in> {Starting, Handshaking, Ready, Restarting} then 1 else 0)"

lemma reduce_line_keeps:
  "failures (fst (reduce_line s l t)) = failures s"
  "\<not> start (snd (reduce_line s l t))"
  "phase s \<in> {Starting, Handshaking, Ready, Restarting} \<Longrightarrow>
     phase (fst (reduce_line s l t)) \<in> {Starting, Handshaking, Ready, Restarting}"
  "phase s \<notin> {Handshaking, Ready} \<Longrightarrow> phase (fst (reduce_line s l t)) = phase s"
  by (auto simp: reduce_line_def Let_def sshAgentFailMidRun_def sshAgentNoAction_def split: agent_event.splits)

lemma starts_ok_step:
  assumes "starts_ok n s" and "quick s e"
  shows "starts_ok (n + (if start (snd (sshAgentReduce s e)) then 1 else 0)) (sup_step s e)"
proof (cases e)
  case (Line l t)
  show ?thesis
    using assms Line reduce_line_keeps [of s l t]
    by (cases "phase s") (auto simp: sup_step_def starts_ok_def Let_def sshAgentNoAction_def)
next
  case (Exited held t)
  then show ?thesis
    using assms
    by (auto simp: sup_step_def starts_ok_def Let_def sshAgentNoAction_def sshAgentFailOnExit_def
        SSH_AGENT_MAX_RESTARTS_def elim!: quick_ExitedE split: if_splits)
qed (use assms in \<open>auto simp: sup_step_def starts_ok_def Let_def sshAgentNoAction_def sshAgentFailMidRun_def
      split: if_splits\<close>)

lemma starts_ok_run: "quick_run n s \<Longrightarrow> starts_ok n s"
proof (induction rule: quick_run.induct)
  case (turned_on s)
  then show ?case by (auto simp: sup_step_def starts_ok_def Let_def sshAgentInitialState_def)
next
  case (next_event n s e)
  then show ?case by (simp add: starts_ok_step)
qed

section \<open>Reference UTF-8\<close>

fun utf16 :: "nat list \<Rightarrow> jsstr" where
  \<comment> \<open>the code units of a list of code points\<close>
  "utf16 [] = []"
| "utf16 (p # ps) =
     (if p < 65536 then p # utf16 ps
      else (55296 + (p - 65536) div 1024) # (56320 + (p - 65536) mod 1024) # utf16 ps)"

fun utf8 :: "nat list \<Rightarrow> nat list" where
  \<comment> \<open>its bytes in UTF-8\<close>
  "utf8 [] = []"
| "utf8 (p # ps) =
     (if p < 128 then [p]
      else if p < 2048 then [192 + p div 64, 128 + p mod 64]
      else if p < 65536 then [224 + p div 4096, 128 + p div 64 mod 64, 128 + p mod 64]
      else [240 + p div 262144, 128 + p div 4096 mod 64, 128 + p div 64 mod 64, 128 + p mod 64]) @ utf8 ps"

definition scalar :: "nat \<Rightarrow> bool" where
  \<comment> \<open>a code point that is not half of a pair\<close>
  "scalar p \<longleftrightarrow> p < 1114112 \<and> \<not> (55296 \<le> p \<and> p \<le> 57343)"

lemma utf8_count_utf16: "\<forall>p\<in>set ps. scalar p \<Longrightarrow> utf8_count (utf16 ps) = length (utf8 ps)"
proof (induction ps)
  case (Cons p ps)
  have "(p - 65536) div 1024 < 1024" if "p < 1114112" using that by (simp add: less_mult_imp_div_less)
  with Cons show ?case by (auto simp: scalar_def)
qed simp

lemma utf16_le_utf8: "length (utf16 ps) \<le> length (utf8 ps)"
  by (induction ps) auto

section \<open>Properties\<close>

text \<open>
  C2: After any sequence of events the signing gate is open exactly in the phase ready, and
  then the socket, the FIFO and the helper's version are known and no error is shown; at most
  five failures are counted, six only once the supervisor gave up; the message shown is the
  fixed text of the error code; and a disabled supervisor is in its initial state.
\<close>

theorem supervisor_invariant: "sup_inv (foldl sup_step sshAgentInitialState es)"
  by (rule supervisor.inv_run)

text \<open>
  C1: In every reachable state, an event opens the signing gate if and only if the
  supervisor waits for the answer to hello and the event is a line, within the byte cap, that
  parses as an object of the protocol's version and of type ready with its three paths set.
\<close>

theorem gate_opens_only_on_ready:
  "let s = foldl sup_step sshAgentInitialState es in
   (\<not> gateOpen s \<and> gateOpen (sup_step s e)) =
   (phase s = Handshaking
    \<and> (\<exists>line now m. e = Line line now \<and> parseAgentEvent line = EventOk m
         \<and> get_prop m (js ''type'') = JStr (js ''ready'') \<and> ready_complete m))"
proof -
  define s where "s = foldl sup_step sshAgentInitialState es"
  have inv: "gateOpen s \<longleftrightarrow> phase s = Ready"
    using supervisor.inv_run [of es] by (simp add: s_def sup_inv_def gate_ok_def)
  have "(\<not> gateOpen s \<and> gateOpen (sup_step s e)) =
      (phase s = Handshaking
       \<and> (\<exists>line now m. e = Line line now \<and> parseAgentEvent line = EventOk m
            \<and> get_prop m (js ''type'') = JStr (js ''ready'') \<and> ready_complete m))"
  proof (cases e)
    case (Line l t)
    then show ?thesis
      using inv parseAgentEvent_ready [of l]
      by (cases "phase s"; cases "parseAgentEvent l")
        (auto simp: sup_step_def Let_def reduce_line_def sshAgentFailMidRun_def)
  qed (use inv in \<open>auto simp: sup_step_def Let_def sshAgentFailMidRun_def sshAgentFailOnExit_def
      sshAgentInitialState_def\<close>)
  then show ?thesis by (simp add: s_def Let_def)
qed

text \<open>
  C7: However events interleave, a helper that never serves for a minute and whose lock no
  other process holds is started at most six times (once and five restarts) until the user
  turns the feature on again.
\<close>

theorem restarts_bounded: "quick_run n s \<Longrightarrow> n \<le> 6"
  using starts_ok_run [of n s] by (auto simp: starts_ok_def split: if_splits)

text \<open>
  When the supervisor is disabled or has given up, no event other than turning the
  feature on changes its state or asks the panel for anything; and turning the feature off
  leads from every other state to the initial one, stopping the helper and its restart timer.
\<close>

theorem supervisor_off_is_inert:
  "(phase s = Disabled \<or> phase s = Failed \<longrightarrow> e \<noteq> Enabled True \<longrightarrow> e \<noteq> Enabled False \<longrightarrow>
      sshAgentReduce s e = (s, sshAgentNoAction))
   \<and> (phase s = Disabled \<longrightarrow> sshAgentReduce s (Enabled False) = (s, sshAgentNoAction))
   \<and> (phase s \<noteq> Disabled \<longrightarrow> sshAgentReduce s (Enabled False) =
        (sshAgentInitialState, sshAgentNoAction\<lparr>stop := True, cancelRestart := True\<rparr>))"
proof (cases e)
  case (Enabled v)
  then show ?thesis by (cases v) (auto simp: Let_def)
qed (auto simp: Let_def)

lemma restart_delay_small:
  assumes "k \<le> 4"
  shows "sshAgentRestartDelayMs (Fin (of_nat (Suc k))) = 500 * 2 ^ k \<and> (500::int) * 2 ^ k \<le> 8000"
proof -
  have "k \<in> {0, 1, 2, 3, 4}" using assms by auto
  then show ?thesis
    by (auto simp: sshAgentRestartDelayMs_def SSH_AGENT_BACKOFF_BASE_MS_def SSH_AGENT_BACKOFF_MAX_MS_def)
qed

lemma restart_only_on_exit:
  "\<not> (\<exists>held now. e = Exited held now) \<Longrightarrow> restartInMs (snd (sshAgentReduce s e)) = -1"
  by (cases e)
    (auto simp: Let_def reduce_line_def sshAgentNoAction_def sshAgentFailMidRun_def split: agent_event.splits)

lemma restart_on_exit:
  assumes "failures_ok s" and "(s', a) = sshAgentReduce s (Exited held now)" and "phase s \<notin> {Disabled, Failed}"
  shows "restartInMs a = (if phase s' = Elsewhere then 30000
      else if phase s' = Backoff then 500 * 2 ^ (failures s' - 1) else -1)
    \<and> (phase s' = Backoff \<longrightarrow> restartInMs a \<le> 8000)"
  using assms restart_delay_small [of "failures s"] restart_delay_small [of 0]
  by (auto simp: Let_def sshAgentFailOnExit_def sshAgentNoAction_def SSH_AGENT_ELSEWHERE_RETRY_MS_def
      SSH_AGENT_MAX_RESTARTS_def failures_ok_def split: if_splits)

text \<open>
  In every reachable state an event arms the restart timer exactly when the helper of a
  running supervisor exits and it does not give up: with 30 seconds while another process
  holds the lock, otherwise with 500 ms doubled for every further failure, at most 8 seconds.
\<close>

theorem restart_delay_doubles:
  "let s = foldl sup_step sshAgentInitialState es; (s', a) = sshAgentReduce s e in
   restartInMs a =
     (if (\<exists>held now. e = Exited held now) \<and> phase s \<noteq> Disabled \<and> phase s \<noteq> Failed then
        (if phase s' = Elsewhere then 30000
         else if phase s' = Backoff then 500 * 2 ^ (failures s' - 1) else -1)
      else -1)
   \<and> (phase s' = Backoff \<longrightarrow> restartInMs a \<le> 8000)"
proof -
  define s where "s = foldl sup_step sshAgentInitialState es"
  obtain s' a where r: "sshAgentReduce s e = (s', a)" by force
  have inv: "failures_ok s" using supervisor.inv_run [of es] by (simp add: s_def sup_inv_def)
  have off: "restartInMs a = -1" if "phase s \<in> {Disabled, Failed}" "e = Exited held now" for held now
    using that r by (auto simp: Let_def sshAgentNoAction_def)
  have "restartInMs a =
     (if (\<exists>held now. e = Exited held now) \<and> phase s \<noteq> Disabled \<and> phase s \<noteq> Failed then
        (if phase s' = Elsewhere then 30000
         else if phase s' = Backoff then 500 * 2 ^ (failures s' - 1) else -1)
      else -1)
   \<and> (phase s' = Backoff \<longrightarrow> restartInMs a \<le> 8000)"
  proof (cases "\<exists>held now. e = Exited held now")
    case True
    then obtain held now where e: "e = Exited held now" by blast
    show ?thesis
      using off [OF _ e] restart_on_exit [OF inv, of s' a held now] r unfolding e by (cases "phase s") auto
  next
    case False
    with restart_only_on_exit [of e s] r show ?thesis by auto
  qed
  then show ?thesis unfolding Let_def s_def [symmetric] r prod.case .
qed

text \<open>
  For well-formed text the length the line cap is tested with is the length of its UTF-8
  encoding: a line is refused as too long exactly when it has more than 64 KiB in UTF-8.
\<close>

theorem utf8_length_exact:
  assumes "\<forall>p\<in>set ps. scalar p"
  shows "(SSH_AGENT_MAX_LINE_BYTES < utf8ByteLength (utf16 ps)) = (SSH_AGENT_MAX_LINE_BYTES < length (utf8 ps))
    \<and> (length (utf16 ps) \<le> SSH_AGENT_MAX_LINE_BYTES \<longrightarrow> utf8ByteLength (utf16 ps) = length (utf8 ps))"
  using utf8_count_utf16 [OF assms] utf16_le_utf8 [of ps] by (auto simp: utf8ByteLength_def)

subsection \<open>Framing of the control stream\<close>

definition plain_fields :: "(jsstr \<times> jsval) list \<Rightarrow> bool" where
  "plain_fields fs \<longleftrightarrow> distinct (map fst fs)
     \<and> (\<forall>(k, v)\<in>set fs. k \<noteq> js ''v'' \<and> k \<noteq> js ''type'' \<and> \<not> is_index_key k \<and> units_ok k \<and> plain v)"

lemma control_message_fields:
  assumes "plain_fields fs"
  shows "control_message ty fs = JObj ((js ''v'', jint SSH_AGENT_CONTROL_VERSION) # (js ''type'', JStr (js ty)) # fs)"
proof -
  have "distinct (map fst ([(js ''v'', jint SSH_AGENT_CONTROL_VERSION), (js ''type'', JStr (js ty))] @ fs))"
    using assms by (auto simp: plain_fields_def)
  moreover have "\<forall>k\<in>set (map fst fs). \<not> is_index_key k"
    using assms by (auto simp: plain_fields_def)
  ultimately show ?thesis
    unfolding control_message_def by (simp only: put_all_names) simp
qed

lemma plain_control_message: "plain_fields fs \<Longrightarrow> plain (control_message ty fs)"
  unfolding control_message_fields
  by (rule plain_JObj_names) (auto simp: plain_fields_def is_digit_def SSH_AGENT_CONTROL_VERSION_def)

text \<open>
  C27: The control stream is self-framing: the lines written to the helper, split at line
  feeds, are one JSON text per message, each of which parses back to the message that was
  sent, in order, with nothing after the last.
\<close>

theorem control_stream_framed:
  assumes "\<forall>(ty, fs)\<in>set ms. plain_fields fs"
  shows "map json_parse (butlast (split_on 10 (concat (map (\<lambda>(ty, fs). agentControlLine ty fs) ms))))
      = map (\<lambda>(ty, fs). Some (control_message ty fs)) ms
    \<and> last (split_on 10 (concat (map (\<lambda>(ty, fs). agentControlLine ty fs) ms))) = []"
proof -
  have "split_on 10 (concat (map (\<lambda>(ty, fs). agentControlLine ty fs) ms))
      = map (\<lambda>(ty, fs). json_str (control_message ty fs)) ms @ [[]]"
    using assms
  proof (induction ms)
    case (Cons m ms)
    obtain ty fs where m: "m = (ty, fs)" by force
    have "10 \<notin> set (json_str (control_message ty fs))"
      using json_str_visible [OF plain_control_message] Cons.prems m by force
    with Cons m show ?case by (simp add: agentControlLine_def split_on_line)
  qed simp
  with assms show ?thesis
    by (auto simp: json_parse_stringify plain_control_message)
qed

text \<open>
  What a vault event means for the helper. Nothing is written to a helper that is not
  ready, and its lock is not awaited. A lock event on a ready helper sends exactly the
  vault_locked line of the epoch and waits for its acknowledgement; a lock or logout never
  starts a load and cancels a running one; a logout forgets the public keys; and a load
  starts only in the state unlocked of a ready helper (or while one is running there).
\<close>

theorem lifecycle_safe:
  "let a = sshAgentLifecycleTransition event ctx; live = (ctx_enabled ctx \<and> ctx_helperReady ctx) in
   (\<not> live \<longrightarrow> controlLines a = [] \<and> \<not> awaitLockAck a \<and> \<not> startLoad a \<and> \<not> advanceEpoch a)
   \<and> (live \<and> event \<in> set SSH_AGENT_LOCK_EVENTS \<longrightarrow>
        controlLines a = [sshAgentVaultLockedLine (ctx_epoch ctx)] \<and> awaitLockAck a)
   \<and> (event \<in> set (SSH_AGENT_LOCK_EVENTS @ SSH_AGENT_LOGOUT_EVENTS) \<longrightarrow> cancelLoad a \<and> \<not> startLoad a)
   \<and> (event \<in> set SSH_AGENT_LOGOUT_EVENTS \<longrightarrow> clearPublic a)
   \<and> (startLoad a \<and> ctx_loggedIn ctx \<longrightarrow> sshAgentVaultState ctx \<in> {VUnlocked, VLoading})"
  by (auto simp: sshAgentLifecycleTransition_def sshAgentVaultState_def Let_def SSH_AGENT_LOCK_EVENTS_def
      SSH_AGENT_LOGOUT_EVENTS_def SSH_AGENT_LOAD_EVENTS_def)

subsection \<open>Concrete runs\<close>

lemma dead_helper_run: "quick_run 2 (sup_step (sup_step (sup_step sshAgentInitialState (Enabled True))
    (Exited False (jint 7))) RestartTimer)"
proof -
  let ?s1 = "sup_step sshAgentInitialState (Enabled True)"
  let ?s2 = "sup_step ?s1 (Exited False (jint 7))"
  have "quick_run 1 ?s1" by (rule turned_on) (simp add: sshAgentInitialState_def)
  moreover have "quick ?s1 (Exited False (jint 7))" "\<not> start (snd (sshAgentReduce ?s1 (Exited False (jint 7))))"
    by code_simp+
  ultimately have "quick_run 1 ?s2" using next_event [of 1 ?s1 "Exited False (jint 7)"] by simp
  moreover have "start (snd (sshAgentReduce ?s2 RestartTimer))" by code_simp
  ultimately show ?thesis using next_event [of 1 ?s2 RestartTimer] by (simp add: numeral_2_eq_2)
qed

theorem restarts_bounded_witness:
  "\<exists>s. quick_run 2 s \<and> phase s = Starting \<and> failures s = 1 \<and> (2::nat) \<le> 6"
proof -
  have "phase (sup_step (sup_step (sup_step sshAgentInitialState (Enabled True)) (Exited False (jint 7))) RestartTimer)
      = Starting" "failures (sup_step (sup_step (sup_step sshAgentInitialState (Enabled True))
        (Exited False (jint 7))) RestartTimer) = 1"
    by code_simp+
  with dead_helper_run restarts_bounded [OF dead_helper_run] show ?thesis by blast
qed

theorem supervisor_off_is_inert_witness:
  "sshAgentReduce (sshAgentInitialState\<lparr>phase := Failed\<rparr>) RestartTimer
     = (sshAgentInitialState\<lparr>phase := Failed\<rparr>, sshAgentNoAction)"
  using supervisor_off_is_inert [of "sshAgentInitialState\<lparr>phase := Failed\<rparr>" RestartTimer] by simp

theorem restart_delay_doubles_witness:
  "phase (sup_step (sup_step sshAgentInitialState (Enabled True)) (Exited False (jint 7))) = Backoff
   \<and> restartInMs (snd (sshAgentReduce (sup_step sshAgentInitialState (Enabled True)) (Exited False (jint 7)))) \<le> 8000"
proof -
  have "phase (sup_step (sup_step sshAgentInitialState (Enabled True)) (Exited False (jint 7))) = Backoff"
    by code_simp
  moreover have "phase (sup_step (sup_step sshAgentInitialState (Enabled True)) (Exited False (jint 7))) = Backoff \<longrightarrow>
      restartInMs (snd (sshAgentReduce (sup_step sshAgentInitialState (Enabled True)) (Exited False (jint 7)))) \<le> 8000"
    using restart_delay_doubles [of "[Enabled True]" "Exited False (jint 7)"]
    unfolding Let_def case_prod_beta foldl.simps sup_step_def by (rule conjunct2)
  ultimately show ?thesis by blast
qed

theorem utf8_length_exact_witness: "utf8ByteLength (utf16 [8364, 128512]) = length (utf8 [8364, 128512])"
  using utf8_length_exact [of "[8364, 128512]"] by (simp add: scalar_def SSH_AGENT_MAX_LINE_BYTES_def)

theorem control_stream_framed_witness:
  "map json_parse (butlast (split_on 10 (sshAgentHelloLine @ sshAgentVaultLockedLine (jint 3))))
   = [Some (control_message ''hello'' []), Some (control_message ''vault_locked'' [(js ''epoch'', jint 3)])]"
proof -
  have "agentEpoch (jint 3) = numi 3" by (simp add: agentEpoch_def)
  then show ?thesis
    using control_stream_framed [of "[(''hello'', []), (''vault_locked'', [(js ''epoch'', jint 3)])]"]
    by (simp add: sshAgentHelloLine_def sshAgentVaultLockedLine_def plain_fields_def is_digit_def)
qed

definition demo_ctx :: vault_context where
  "demo_ctx = \<lparr>ctx_enabled = True, ctx_helperReady = True, ctx_loggedIn = True, ctx_loading = False,
     ctx_unlocked = True, ctx_hasPublicCache = False, ctx_epoch = jint 4\<rparr>"

theorem lifecycle_safe_witness:
  "controlLines (sshAgentLifecycleTransition (js ''suspend'') demo_ctx) = [sshAgentVaultLockedLine (jint 4)]"
  using lifecycle_safe [of "js ''suspend''" demo_ctx] by (simp add: demo_ctx_def Let_def SSH_AGENT_LOCK_EVENTS_def)

end
