(* ===== verification/Prompts.thy ===== *)
theory Prompts
  imports Agent "HOL-Library.Sublist"
begin

text \<open>
  What the panel of \<^verbatim>\<open>BitwardenModel.js\<close> shows and answers when a program asks the SSH agent for a
  signature: the bounded, control-free text of a prompt, the approve and deny lines, the
  first-in first-out queue of prompts, the grants with their countdown, and the cooldown
  after repeated refusals.
\<close>

section \<open>Text from other programs\<close>

definition SSH_AGENT_APPROVAL_WINDOW_MAX_SEC :: int where "SSH_AGENT_APPROVAL_WINDOW_MAX_SEC = 900"
definition SSH_AGENT_REQUEST_DEADLINE_MS :: int where "SSH_AGENT_REQUEST_DEADLINE_MS = 120 * 1000"
definition SSH_AGENT_MAX_NAME_CHARS :: nat where "SSH_AGENT_MAX_NAME_CHARS = 256"
definition SSH_AGENT_MAX_PATH_CHARS :: nat where "SSH_AGENT_MAX_PATH_CHARS = 512"
definition SSH_AGENT_MAX_DETAIL_CHARS :: nat where "SSH_AGENT_MAX_DETAIL_CHARS = 256"

definition SSH_AGENT_INVISIBLE_RE :: "nat \<Rightarrow> bool" where
  "SSH_AGENT_INVISIBLE_RE c \<longleftrightarrow> c \<le> 31 \<or> (127 \<le> c \<and> c \<le> 159) \<or> (8203 \<le> c \<and> c \<le> 8207)
     \<or> (8232 \<le> c \<and> c \<le> 8238) \<or> (8294 \<le> c \<and> c \<le> 8297) \<or> c = 65279"

definition visibleText :: "jsval \<Rightarrow> jsstr" where
  \<comment> \<open>\<open>hex_unit c\<close> is \<^verbatim>\<open>("0000" + c.toString(16)).slice(-4)\<close>\<close>
  "visibleText value =
     concat (map (\<lambda>c. if SSH_AGENT_INVISIBLE_RE c then [92, 117] @ hex_unit c else [c]) (text_of value))"

definition boundedText :: "jsval \<Rightarrow> nat \<Rightarrow> jsstr" where
  "boundedText value limit =
     (let text = visibleText value in if limit < length text then take limit text else text)"

definition boundedPath :: "jsval \<Rightarrow> nat \<Rightarrow> jsstr" where
  "boundedPath value limit =
     (let text = visibleText value
      in if limit < length text then 8230 # drop (length text - (limit - 1)) text else text)"

definition is_request_num :: "jsnum \<Rightarrow> bool" where
  "is_request_num n \<longleftrightarrow> is_finite n \<and> num_floor n = n \<and> num_le (Fin 0) n"

definition isRequestId :: "jsval \<Rightarrow> bool" where
  "isRequestId value = (case value of JNum n \<Rightarrow> is_request_num n | _ \<Rightarrow> False)"

definition clamp_grant :: "jsval \<Rightarrow> jsnum" where
  \<comment> \<open>the value of \<^verbatim>\<open>seconds\<close> in \<open>sshAgentApproveLine\<close>\<close>
  "clamp_grant grantSeconds =
     (let seconds = num_floor (to_num grantSeconds);
          s = (if \<not> is_finite seconds \<or> num_lt seconds (Fin 0) then Fin 0 else seconds)
      in num_min s (numi SSH_AGENT_APPROVAL_WINDOW_MAX_SEC))"

definition sshAgentApproveLine :: "jsval \<Rightarrow> jsval \<Rightarrow> jsval \<Rightarrow> jsstr" where
  "sshAgentApproveLine requestId grantSeconds untilScreenLock =
     (if \<not> isRequestId requestId then []
      else agentControlLine ''approve''
        ([(js ''requestId'', requestId),
          (js ''grantSeconds'', JNum (if untilScreenLock = JBool True then Fin 0 else clamp_grant grantSeconds))]
         @ (if untilScreenLock = JBool True then [(js ''untilScreenLock'', JBool True)] else [])))"

definition sshAgentDenyLine :: "jsval \<Rightarrow> jsstr" where
  "sshAgentDenyLine requestId =
     (if \<not> isRequestId requestId then [] else agentControlLine ''deny'' [(js ''requestId'', requestId)])"

definition sshAgentUnlockCancelledLine :: "jsval \<Rightarrow> jsstr" where
  "sshAgentUnlockCancelledLine requestId =
     (if \<not> isRequestId requestId then []
      else agentControlLine ''unlock_cancelled''
             [(js ''requestId'', requestId), (js ''reason'', JStr (js ''user-cancelled''))])"

definition sshAgentRevokeGrantLine :: "jsval \<Rightarrow> jsstr" where
  "sshAgentRevokeGrantLine grantId =
     (if \<not> isRequestId grantId then [] else agentControlLine ''revoke_grant'' [(js ''grantId'', grantId)])"

definition processNameFromPath :: "jsval \<Rightarrow> jsstr" where
  "processNameFromPath processPath =
     (let text = visibleText processPath;
          name = (case last_index_of 47 text of Some k \<Rightarrow> drop (Suc k) text | None \<Rightarrow> text)
      in boundedText (JStr name) SSH_AGENT_MAX_NAME_CHARS)"

definition formatDuration :: "jsnum \<Rightarrow> jsstr" where
  "formatDuration seconds =
     (case num_max (Fin 0) (num_or_zero (num_floor seconds)) of
        Fin q \<Rightarrow>
          (let total = nat \<lfloor>q\<rfloor>; minutes = total div 60; rest = total mod 60
           in if 0 < minutes \<and> 0 < rest then nat_to_str minutes @ js ''m '' @ nat_to_str rest @ js ''s''
              else if 0 < minutes then nat_to_str minutes @ js ''m''
              else nat_to_str rest @ js ''s'')
      | _ \<Rightarrow> js ''Infinitym'')"

section \<open>The prompt\<close>

definition SSH_AGENT_PROVENANCE_NOTE :: jsstr where
  "SSH_AGENT_PROVENANCE_NOTE = js ''Reported by the system, not verified. Only the requesting user was checked.''"

definition SSH_AGENT_FORWARDED_WARNING :: jsstr where
  "SSH_AGENT_FORWARDED_WARNING = js ''Forwarded from a remote host. The program shown is the local ssh relaying it, ''
     @ js ''not the one that will use the signature, so it can only be approved once.''"

datatype operation = SshSig | SshAuth | SshSign | NoOperation

definition sshAgentOperation :: "jsval \<Rightarrow> operation" where
  "sshAgentOperation value =
     (if value = JStr (js ''sshsig'') then SshSig else if value = JStr (js ''ssh-auth'') then SshAuth
      else if value = JStr (js ''ssh-sign'') then SshSign else NoOperation)"

fun sshAgentOperationLabel :: "operation \<Rightarrow> jsval \<Rightarrow> jsstr" where
  "sshAgentOperationLabel SshSig detail =
     (let text = boundedText detail SSH_AGENT_MAX_DETAIL_CHARS in
      if text = js ''git'' then js ''Git commit or tag signature''
      else js ''Signature for '' @ [34] @ text @ [34])"
| "sshAgentOperationLabel SshAuth detail = js ''SSH login as '' @ boundedText detail SSH_AGENT_MAX_DETAIL_CHARS"
| "sshAgentOperationLabel SshSign detail = js ''Unrecognised data -- approve only if you expect it''"
| "sshAgentOperationLabel NoOperation detail = []"

definition SSH_HOST_KEY_RE :: "jsstr \<Rightarrow> bool" where
  \<comment> \<open>\<^verbatim>\<open>/^SHA256:[A-Za-z0-9+/]{43}$/\<close>\<close>
  "SSH_HOST_KEY_RE s \<longleftrightarrow> length s = 50 \<and> take 7 s = js ''SHA256:''
     \<and> (\<forall>c\<in>set (drop 7 s). is_alpha c \<or> is_digit c \<or> c = 43 \<or> c = 47)"

definition sshAgentHostKey :: "operation \<Rightarrow> jsval \<Rightarrow> jsstr" where
  "sshAgentHostKey op hostKey =
     (if op \<noteq> SshAuth then []
      else case hostKey of JStr s \<Rightarrow> if SSH_HOST_KEY_RE s then s else [] | _ \<Rightarrow> [])"

definition sshAgentDestinationLabel :: "operation \<Rightarrow> jsstr \<Rightarrow> jsstr" where
  "sshAgentDestinationLabel op hostKey =
     (if op \<noteq> SshAuth then []
      else if hostKey \<noteq> [] then js ''Server host key '' @ hostKey
      else js ''Server not reported by the SSH client'')"

record prompt_view =
  requestId :: jsnum
  keyId :: jsstr
  keyName :: jsstr
  fingerprint :: jsstr
  pid :: jsnum
  processPath :: jsstr
  processName :: jsstr
  op :: operation
  operationLabel :: jsstr
  hostKey :: jsstr
  destinationLabel :: jsstr
  grantOffered :: bool
  grantSeconds :: jsnum
  grantUntilScreenLock :: bool
  grantLabel :: jsstr
  grantShortLabel :: jsstr
  forwardedWarning :: jsstr
  provenanceNote :: jsstr

definition prompt_window :: "jsval \<Rightarrow> jsnum" where
  \<comment> \<open>\<^verbatim>\<open>Math.max(0, Math.min(MAX, Math.floor(Number(approvalWindowSec)) || 0))\<close>\<close>
  "prompt_window approvalWindowSec =
     num_max (Fin 0) (num_min (numi SSH_AGENT_APPROVAL_WINDOW_MAX_SEC)
       (num_or_zero (num_floor (to_num approvalWindowSec))))"

definition int_or_zero :: "jsval \<Rightarrow> jsnum" where
  \<comment> \<open>\<^verbatim>\<open>Math.floor(Number(v)) || 0\<close>\<close>
  "int_or_zero v = num_or_zero (num_floor (to_num v))"

definition sshAgentPromptView :: "jsval \<Rightarrow> jsval \<Rightarrow> jsval \<Rightarrow> prompt_view" where
  "sshAgentPromptView msg approvalWindowSec untilScreenLock =
     (let request = js_or msg (JObj []);
          field = (\<lambda>f. get_prop request (js f));
          win = prompt_window approvalWindowSec;
          forwarded = (field ''forwarded'' = JBool True);
          lock = (untilScreenLock = JBool True);
          offered = (field ''grantOffered'' = JBool True \<and> (lock \<or> num_lt (Fin 0) win) \<and> \<not> forwarded);
          oper = sshAgentOperation (field ''operation'');
          hk = sshAgentHostKey oper (field ''hostKey'')
      in \<lparr>requestId = (case field ''requestId'' of JNum n \<Rightarrow> if is_request_num n then n else numi (-1) | _ \<Rightarrow> numi (-1)),
          keyId = boundedText (field ''keyId'') SSH_AGENT_MAX_NAME_CHARS,
          keyName = boundedText (field ''keyName'') SSH_AGENT_MAX_NAME_CHARS,
          fingerprint = boundedText (field ''fingerprint'') SSH_AGENT_MAX_NAME_CHARS,
          pid = int_or_zero (field ''pid''),
          processPath = boundedPath (field ''processPath'') SSH_AGENT_MAX_PATH_CHARS,
          processName = processNameFromPath (field ''processPath''),
          op = oper,
          operationLabel = sshAgentOperationLabel oper (field ''operationDetail''),
          hostKey = hk,
          destinationLabel = sshAgentDestinationLabel oper hk,
          grantOffered = offered,
          grantSeconds = (if offered \<and> \<not> lock then win else Fin 0),
          grantUntilScreenLock = (offered \<and> lock),
          grantLabel = (if offered then js ''Approve for this program '' @ [183, 32]
                          @ (if lock then js ''until screen lock'' else formatDuration win) else []),
          grantShortLabel = (if offered then js ''Approve ''
                          @ (if lock then js ''until screen lock'' else formatDuration win) else []),
          forwardedWarning = (if forwarded then SSH_AGENT_FORWARDED_WARNING else []),
          provenanceNote = SSH_AGENT_PROVENANCE_NOTE\<rparr>)"

text \<open>
  \<^verbatim>\<open>===\<close> on values of two different messages: each message is its own parse result, so
  objects and arrays in them are never the same object.
\<close>

fun strict_eq :: "jsval \<Rightarrow> jsval \<Rightarrow> bool" where
  "strict_eq (JNum a) (JNum b) = num_eq a b"
| "strict_eq (JArr a) v = False"
| "strict_eq (JObj a) v = False"
| "strict_eq v w = (v = w)"

definition request_fields :: "string list" where
  "request_fields = [''fingerprint'', ''pid'', ''processPath'', ''operation'', ''operationDetail'',
     ''hostKey'', ''forwarded'', ''grantOffered'']"

definition sshAgentSameRequest :: "jsval \<Rightarrow> jsval \<Rightarrow> bool" where
  "sshAgentSameRequest a b \<longleftrightarrow> truthy a \<and> truthy b
     \<and> list_all (\<lambda>f. strict_eq (get_prop a (js f)) (get_prop b (js f))) request_fields
     \<and> nonempty_string (get_prop a (js ''fingerprint''))"

definition sshAgentShouldPrompt :: "jsval \<Rightarrow> bool" where
  "sshAgentShouldPrompt context \<longleftrightarrow> is_object context \<and> get_prop context (js ''screenLocked'') \<noteq> JBool True"

section \<open>The queue of prompts\<close>

definition queue_cap :: "jsval \<Rightarrow> jsnum" where
  "queue_cap maxQueue = (case maxQueue of JNum n \<Rightarrow> if num_lt (Fin 0) n then n else Fin 4 | _ \<Rightarrow> Fin 4)"

definition request_id :: "jsval \<Rightarrow> jsval" where
  "request_id m = get_prop m (js ''requestId'')"

definition sshAgentEnqueuePrompt :: "jsval list \<Rightarrow> jsval \<Rightarrow> jsval \<Rightarrow> jsval list" where
  "sshAgentEnqueuePrompt queue msg maxQueue =
     (if \<not> truthy msg \<or> \<not> isRequestId (request_id msg) then queue
      else if list_ex (\<lambda>q. truthy q \<and> strict_eq (request_id q) (request_id msg)) queue then queue
      else if num_le (queue_cap maxQueue) (Fin (of_nat (length queue))) then queue
      else queue @ [msg])"

fun sshAgentDequeuePrompt :: "jsval list \<Rightarrow> jsval option \<times> jsval list" where
  "sshAgentDequeuePrompt [] = (None, [])"
| "sshAgentDequeuePrompt (m # ms) = (Some m, ms)"

definition sshAgentRemovePrompt :: "jsval list \<Rightarrow> jsval \<Rightarrow> jsval list" where
  "sshAgentRemovePrompt queue rid = filter (\<lambda>m. truthy m \<and> \<not> strict_eq (request_id m) rid) queue"

definition sshAgentPendingCount :: "jsval \<Rightarrow> jsval list \<Rightarrow> nat" where
  "sshAgentPendingCount activePrompt queue = (if truthy activePrompt then 1 else 0) + length queue"

section \<open>Grants\<close>

record grant_view =
  g_grantId :: jsval
  g_keyName :: jsstr
  g_fingerprint :: jsstr
  g_pid :: jsnum
  g_processPath :: jsstr
  g_processName :: jsstr
  g_operationLabel :: jsstr
  g_hostKey :: jsstr
  g_expiresAtMs :: "jsnum option"
  g_untilScreenLock :: bool
  g_remainingSec :: jsnum
  g_remainingLabel :: jsstr

definition grant_view_of :: "jsval \<Rightarrow> jsnum \<Rightarrow> grant_view" where
  "grant_view_of grant now =
     (let field = (\<lambda>f. get_prop grant (js f));
          remaining = num_max (Fin 0) (int_or_zero (field ''expiresInSec''));
          oper = sshAgentOperation (field ''operation'');
          lock = (field ''untilScreenLock'' = JBool True)
      in \<lparr>g_grantId = field ''grantId'',
          g_keyName = boundedText (field ''keyName'') SSH_AGENT_MAX_NAME_CHARS,
          g_fingerprint = boundedText (field ''fingerprint'') SSH_AGENT_MAX_NAME_CHARS,
          g_pid = int_or_zero (field ''pid''),
          g_processPath = boundedPath (field ''processPath'') SSH_AGENT_MAX_PATH_CHARS,
          g_processName = processNameFromPath (field ''processPath''),
          g_operationLabel = sshAgentOperationLabel oper (field ''operationDetail''),
          g_hostKey = sshAgentHostKey oper (field ''hostKey''),
          g_expiresAtMs = (if lock then None else Some (num_add now (num_scale 1000 remaining))),
          g_untilScreenLock = lock,
          g_remainingSec = remaining,
          g_remainingLabel = (if num_lt (Fin 0) remaining then formatDuration remaining @ js '' left''
                              else js ''expiring'')\<rparr>)"

definition sshAgentGrantViews :: "jsval \<Rightarrow> jsval \<Rightarrow> grant_view list" where
  "sshAgentGrantViews grants nowMs =
     (case grants of
        JArr gs \<Rightarrow> map (\<lambda>g. grant_view_of g (now_of nowMs))
                    (filter (\<lambda>g. isRequestId (get_prop g (js ''grantId'')))
                      (map (\<lambda>g. js_or g (JObj [])) gs))
      | _ \<Rightarrow> [])"

definition num_ceil :: "jsnum \<Rightarrow> jsnum" where
  "num_ceil x = num_neg (num_floor (num_neg x))"

definition remaining_sec :: "jsnum \<Rightarrow> jsnum \<Rightarrow> jsnum" where
  \<comment> \<open>\<^verbatim>\<open>Math.ceil((until - now) / 1000)\<close>\<close>
  "remaining_sec until now = num_ceil (num_scale (1 / 1000) (num_sub until now))"

definition grant_at :: "jsnum \<Rightarrow> grant_view \<Rightarrow> grant_view option" where
  \<comment> \<open>one turn of the loop of \<open>sshAgentGrantsAt\<close>\<close>
  "grant_at now view =
     (case g_expiresAtMs view of
        None \<Rightarrow> Some view
      | Some expiry \<Rightarrow>
          (if num_le now (Fin 0) then Some view
           else (let remaining = num_max (Fin 0) (remaining_sec expiry now)
                 in if num_le remaining (Fin 0) then None
                    else Some (view\<lparr>g_remainingSec := remaining,
                                    g_remainingLabel := formatDuration remaining @ js '' left''\<rparr>))))"

definition sshAgentGrantsAt :: "grant_view list \<Rightarrow> jsval \<Rightarrow> grant_view list" where
  "sshAgentGrantsAt views nowMs = List.map_filter (grant_at (now_of nowMs)) views"

section \<open>Cooldown\<close>

definition SSH_AGENT_COOLDOWN_AFTER :: nat where "SSH_AGENT_COOLDOWN_AFTER = 2"
definition SSH_AGENT_COOLDOWN_MS :: int where "SSH_AGENT_COOLDOWN_MS = 5 * 60 * 1000"

record cooldown =
  refusals :: nat
  untilMs :: jsnum

datatype prompt_outcome = Approved | Resumed | Denied | Timeout | OtherOutcome

definition sshAgentCooldownInitial :: cooldown where
  "sshAgentCooldownInitial = \<lparr>refusals = 0, untilMs = Fin 0\<rparr>"

definition sshAgentCooldownAfter :: "cooldown \<Rightarrow> prompt_outcome \<Rightarrow> jsval \<Rightarrow> cooldown" where
  "sshAgentCooldownAfter current outcome nowMs =
     (let now = now_of nowMs in
      if outcome = Approved \<or> outcome = Resumed then \<lparr>refusals = 0, untilMs = Fin 0\<rparr>
      else if outcome \<noteq> Denied \<and> outcome \<noteq> Timeout
        then \<lparr>refusals = refusals current, untilMs = untilMs current\<rparr>
      else
        (let r = refusals current + 1
         in \<lparr>refusals = r,
             untilMs = (if SSH_AGENT_COOLDOWN_AFTER \<le> r then num_add now (numi SSH_AGENT_COOLDOWN_MS)
                        else untilMs current)\<rparr>))"

definition sshAgentCooldownActive :: "cooldown \<Rightarrow> jsval \<Rightarrow> bool" where
  "sshAgentCooldownActive current nowMs \<longleftrightarrow> num_lt (now_of nowMs) (untilMs current)"

record cooldown_status =
  cs_active :: bool
  cs_remainingSec :: jsnum
  cs_message :: jsstr

definition sshAgentCooldownStatus :: "cooldown \<Rightarrow> jsval \<Rightarrow> cooldown_status" where
  "sshAgentCooldownStatus current nowMs =
     (let now = now_of nowMs in
      if num_le (untilMs current) now then \<lparr>cs_active = False, cs_remainingSec = Fin 0, cs_message = []\<rparr>
      else
        (let remaining = remaining_sec (untilMs current) now
         in \<lparr>cs_active = True, cs_remainingSec = remaining,
             cs_message = js ''SSH signing requests are being refused after repeated unanswered prompts. ''
               @ js ''Normal service resumes in '' @ formatDuration remaining @ js ''.''\<rparr>))"

section \<open>Displayed text\<close>

text \<open>The characters that the comment in the source lists, by their code points in the Unicode standard; nothing of
  the regular expression is used here.\<close>

definition control_chars :: "nat set" where
  \<comment> \<open>general category Cc: C0, DEL and C1\<close>
  "control_chars = {c. c < 32} \<union> {127} \<union> {c. 128 \<le> c \<and> c < 160}"

definition separator_chars :: "nat set" where "separator_chars = {8232, 8233}"  \<comment> \<open>U+2028, U+2029\<close>

definition zero_width_chars :: "nat set" where
  "zero_width_chars = {8203, 8204, 8205, 65279}"  \<comment> \<open>U+200B space, U+200C non-joiner, U+200D joiner, U+FEFF byte order mark\<close>

definition direction_chars :: "nat set" where
  \<comment> \<open>U+200E and U+200F marks, U+202A to U+202E embeddings and overrides, U+2066 to U+2069 isolates\<close>
  "direction_chars = {8206, 8207, 8234, 8235, 8236, 8237, 8238, 8294, 8295, 8296, 8297}"

definition hidden_char :: "nat \<Rightarrow> bool" where
  "hidden_char c \<longleftrightarrow> c \<in> control_chars \<union> separator_chars \<union> zero_width_chars \<union> direction_chars"

lemma invisible_iff: "SSH_AGENT_INVISIBLE_RE c = hidden_char c"
  unfolding SSH_AGENT_INVISIBLE_RE_def hidden_char_def control_chars_def separator_chars_def zero_width_chars_def direction_chars_def
  by (simp only: Un_iff mem_Collect_eq insert_iff empty_iff) arith

definition displayable :: "nat \<Rightarrow> jsstr \<Rightarrow> bool" where
  "displayable n s \<longleftrightarrow> length s \<le> n \<and> (\<forall>c\<in>set s. \<not> hidden_char c)"

lemma displayable_iff: "displayable n s \<longleftrightarrow> length s \<le> n \<and> (\<forall>c\<in>set s. \<not> SSH_AGENT_INVISIBLE_RE c)"
  by (simp add: displayable_def invisible_iff)

lemma hex_char_displayable [simp]: "d < 16 \<Longrightarrow> \<not> SSH_AGENT_INVISIBLE_RE (hex_char d)"
  by (auto simp: SSH_AGENT_INVISIBLE_RE_def hex_char_def)

lemma visibleText_visible: "c \<in> set (visibleText v) \<Longrightarrow> \<not> SSH_AGENT_INVISIBLE_RE c"
proof -
  assume "c \<in> set (visibleText v)"
  moreover have "\<not> SSH_AGENT_INVISIBLE_RE x" if "x \<in> set ([92, 117] @ hex_unit d)" for x d
    using that by (auto simp: hex_unit_def) (simp_all add: SSH_AGENT_INVISIBLE_RE_def)
  ultimately show ?thesis by (auto simp: visibleText_def split: if_splits)
qed

lemma visibleText_id: "\<forall>c\<in>set s. \<not> SSH_AGENT_INVISIBLE_RE c \<Longrightarrow> visibleText (JStr s) = s"
  by (induction s) (auto simp: visibleText_def)

lemma boundedText_displayable: "displayable n (boundedText v n)"
  by (auto simp: boundedText_def displayable_iff Let_def dest: visibleText_visible in_set_takeD)

lemma boundedPath_displayable: "0 < n \<Longrightarrow> displayable n (boundedPath v n)"
  by (auto simp: boundedPath_def displayable_iff Let_def dest: visibleText_visible in_set_dropD)
    (simp add: SSH_AGENT_INVISIBLE_RE_def)

lemma processNameFromPath_displayable: "displayable 256 (processNameFromPath v)"
  using boundedText_displayable [of 256] by (simp add: processNameFromPath_def Let_def SSH_AGENT_MAX_NAME_CHARS_def)

lemma displayable_append: "displayable m s \<Longrightarrow> displayable n t \<Longrightarrow> displayable (m + n) (s @ t)"
  by (auto simp: displayable_iff)

lemma displayable_mono: "displayable m s \<Longrightarrow> m \<le> n \<Longrightarrow> displayable n s"
  by (auto simp: displayable_iff)

lemma operationLabel_displayable: "displayable 300 (sshAgentOperationLabel oper detail)"
proof -
  have t: "displayable 256 (boundedText detail SSH_AGENT_MAX_DETAIL_CHARS)"
    using boundedText_displayable [of 256 detail] by (simp add: SSH_AGENT_MAX_DETAIL_CHARS_def)
  have l: "displayable 44 (js ''Signature for '' @ [34])" "displayable 0 []" "displayable 1 [34]"
    "displayable 43 (js ''SSH login as '')" "displayable 300 (js ''Git commit or tag signature'')"
    "displayable 300 (js ''Unrecognised data -- approve only if you expect it'')"
    by (simp_all add: displayable_iff js_def SSH_AGENT_INVISIBLE_RE_def)
  show ?thesis
  proof (cases oper)
    case SshSig
    have "displayable (43 + (256 + 1)) ((js ''Signature for '' @ [34]) @ boundedText detail SSH_AGENT_MAX_DETAIL_CHARS @ [34])"
      by (intro displayable_append t l) (simp add: displayable_iff js_def SSH_AGENT_INVISIBLE_RE_def)
    with SshSig l show ?thesis by (simp add: Let_def)
  next
    case SshAuth
    with displayable_append [OF l(4) t] show ?thesis by (auto elim: displayable_mono)
  qed (use l in \<open>auto elim: displayable_mono\<close>)
qed

lemma host_key_displayable: "displayable 50 (sshAgentHostKey oper v)"
proof -
  have "\<not> SSH_AGENT_INVISIBLE_RE c" if "SSH_HOST_KEY_RE s" "c \<in> set s" for s c
  proof -
    have "c \<in> set (take 7 s) \<or> c \<in> set (drop 7 s)" using that(2) by (metis Un_iff append_take_drop_id set_append)
    then show ?thesis using that(1) by (auto simp: SSH_HOST_KEY_RE_def js_def SSH_AGENT_INVISIBLE_RE_def is_alpha_def is_digit_def)
  qed
  then show ?thesis by (auto simp: sshAgentHostKey_def displayable_iff SSH_HOST_KEY_RE_def split: jsval.splits)
qed

lemma destination_displayable: "displayable 50 hk \<Longrightarrow> displayable 80 (sshAgentDestinationLabel oper hk)"
  by (auto simp: sshAgentDestinationLabel_def displayable_iff js_def SSH_AGENT_INVISIBLE_RE_def)

lemma boundedText_id: "displayable n s \<Longrightarrow> boundedText (JStr s) n = s"
  using visibleText_id [of s] by (simp add: displayable_iff boundedText_def)

section \<open>Grant seconds\<close>

definition grant_range :: "jsnum \<Rightarrow> bool" where
  "grant_range n \<longleftrightarrow> (\<exists>k. n = numi k \<and> 0 \<le> k \<and> k \<le> 900)"

lemma grant_range_zero [simp]: "grant_range (Fin 0)"
  unfolding grant_range_def by (rule exI [of _ 0]) simp

lemma clamp_grant_range: "grant_range (clamp_grant v)"
proof (cases "to_num v")
  case (Fin q)
  let ?k = "min (max 0 \<lfloor>q\<rfloor>) 900"
  have "clamp_grant v = numi ?k"
    using Fin by (auto simp: clamp_grant_def Let_def SSH_AGENT_APPROVAL_WINDOW_MAX_SEC_def min_def max_def)
  then show ?thesis unfolding grant_range_def by (intro exI [of _ ?k]) simp
qed (auto simp: clamp_grant_def Let_def SSH_AGENT_APPROVAL_WINDOW_MAX_SEC_def)

lemma prompt_window_range: "grant_range (prompt_window v)"
proof (cases "to_num v")
  case (Fin q)
  let ?k = "max 0 (min 900 \<lfloor>q\<rfloor>)"
  have "prompt_window v = numi ?k"
    using Fin by (auto simp: prompt_window_def SSH_AGENT_APPROVAL_WINDOW_MAX_SEC_def min_def max_def)
  then show ?thesis unfolding grant_range_def by (intro exI [of _ ?k]) simp
next
  case PosInf
  then show ?thesis unfolding grant_range_def
    by (intro exI [of _ 900]) (simp add: prompt_window_def SSH_AGENT_APPROVAL_WINDOW_MAX_SEC_def num_simps)
qed (auto simp: prompt_window_def SSH_AGENT_APPROVAL_WINDOW_MAX_SEC_def num_simps)

lemma clamp_grant_id: "grant_range n \<Longrightarrow> clamp_grant (JNum n) = n"
  by (auto simp: grant_range_def clamp_grant_def Let_def SSH_AGENT_APPROVAL_WINDOW_MAX_SEC_def)

lemma grant_range_plain: "grant_range n \<Longrightarrow> plain_num n"
  by (auto simp: grant_range_def)

section \<open>First in, first out\<close>

datatype ('m, 'k) queue_event = Offer 'm | Serve | Discard 'k

text \<open>The messages served so far, and the queue, after one more event.\<close>

fun queue_step ::
  "('m list \<Rightarrow> 'm \<Rightarrow> 'm list) \<Rightarrow> ('m list \<Rightarrow> 'm option \<times> 'm list) \<Rightarrow> ('m list \<Rightarrow> 'k \<Rightarrow> 'm list)
   \<Rightarrow> 'm list \<times> 'm list \<Rightarrow> ('m, 'k) queue_event \<Rightarrow> 'm list \<times> 'm list" where
  "queue_step put get del (served, q) (Offer m) = (served, put q m)"
| "queue_step put get del (served, q) Serve =
     (case get q of (None, q') \<Rightarrow> (served, q') | (Some m, q') \<Rightarrow> (served @ [m], q'))"
| "queue_step put get del (served, q) (Discard k) = (served, del q k)"

fun offers :: "('m, 'k) queue_event list \<Rightarrow> 'm list" where
  "offers [] = []"
| "offers (Offer m # es) = m # offers es"
| "offers (_ # es) = offers es"

lemma offers_append: "offers (es @ fs) = offers es @ offers fs"
  by (induction es rule: offers.induct) auto

text \<open>
  The contract of a bounded queue: an entry is appended, below the cap and only if it fits,
  or refused; the first entry is served; discarding keeps the order of the rest.
\<close>

locale bounded_fifo =
  fixes put :: "'m list \<Rightarrow> 'm \<Rightarrow> 'm list"
    and get :: "'m list \<Rightarrow> 'm option \<times> 'm list"
    and del :: "'m list \<Rightarrow> 'k \<Rightarrow> 'm list"
    and cap :: nat
    and sound :: "'m list \<Rightarrow> bool"
  assumes put_cases: "sound q \<Longrightarrow> put q m = q \<or> (put q m = q @ [m] \<and> length q < cap \<and> sound (q @ [m]))"
    and get_Nil: "get [] = (None, [])"
    and get_Cons: "get (m # q) = (Some m, q)"
    and del_subseq: "subseq (del q k) q"
    and sound_Nil: "sound []"
    and sound_subseq: "subseq p q \<Longrightarrow> sound q \<Longrightarrow> sound p"
begin

lemma step_ok:
  assumes "length q \<le> cap" and "sound q" and "subseq (served @ q) h"
    and "queue_step put get del (served, q) e = (served', q')"
  shows "length q' \<le> cap \<and> sound q' \<and> subseq (served' @ q') (h @ offers [e])"
proof (cases e)
  case (Offer m)
  then have q': "q' = put q m" "served' = served" using assms(4) by auto
  consider "put q m = q" | "put q m = q @ [m]" "length q < cap" "sound (q @ [m])" using put_cases [OF assms(2)] by blast
  then show ?thesis
  proof cases
    case 1
    with q' assms Offer show ?thesis by (simp add: subseq_rev_drop_many)
  next
    case 2
    with q' assms Offer list_emb_append_mono [OF assms(3), of "[m]" "[m]"] show ?thesis by simp
  qed
next
  case Serve
  show ?thesis
  proof (cases q)
    case Nil
    with Serve assms show ?thesis by (auto simp: get_Nil)
  next
    case (Cons m ms)
    moreover have "subseq ms (m # ms)" by (rule list_emb_Cons) (rule subseq_order.order_refl)
    ultimately show ?thesis using Serve assms sound_subseq [of ms q] by (auto simp: get_Cons)
  qed
next
  case (Discard k)
  then have q': "q' = del q k" "served' = served" using assms(4) by auto
  have "subseq (served @ del q k) (served @ q)" unfolding subseq_append' by (rule del_subseq)
  with q' Discard assms show ?thesis
    using sound_subseq [OF del_subseq assms(2)] list_emb_length [OF del_subseq [of q k]]
    by (auto intro: subseq_order.order_trans)
qed

lemma run_ok:
  assumes "foldl (queue_step put get del) ([], []) es = (served, q)"
  shows "length q \<le> cap \<and> sound q \<and> subseq (served @ q) (offers es)"
  using assms
proof (induction es arbitrary: served q rule: rev_induct)
  case Nil
  then show ?case by (simp add: sound_Nil)
next
  case (snoc e es)
  obtain s0 q0 where "foldl (queue_step put get del) ([], []) es = (s0, q0)" by force
  with snoc step_ok [of q0 s0 "offers es" e served q] show ?case by (simp add: offers_append)
qed

end

definition sound_queue :: "jsval list \<Rightarrow> bool" where
  "sound_queue q \<longleftrightarrow> (\<forall>m\<in>set q. truthy m \<and> isRequestId (request_id m)) \<and> distinct (map request_id q)"

lemma strict_eq_request: "isRequestId a \<Longrightarrow> strict_eq b a \<longleftrightarrow> b = a"
  by (cases a; cases b) (auto simp: isRequestId_def is_request_num_def num_eq_def)

lemma distinct_subseq: "subseq xs ys \<Longrightarrow> distinct ys \<Longrightarrow> distinct xs"
proof (induction rule: list_emb.induct)
  case (list_emb_Cons2 x y xs ys)
  then show ?case by (auto dest: list_emb_set)
qed auto

lemma sound_queue_subseq: "subseq p q \<Longrightarrow> sound_queue q \<Longrightarrow> sound_queue p"
  unfolding sound_queue_def
  using subseq_map [of p q request_id] distinct_subseq list_emb_set [of "(=)" p q] by metis

lemma enqueue_cases:
  assumes "sound_queue q"
  shows "sshAgentEnqueuePrompt q m JUndef = q
    \<or> (sshAgentEnqueuePrompt q m JUndef = q @ [m] \<and> length q < 4 \<and> sound_queue (q @ [m]))"
  using assms
  by (auto simp: sshAgentEnqueuePrompt_def queue_cap_def sound_queue_def list_ex_iff strict_eq_request)

interpretation prompt_queue: bounded_fifo
  "\<lambda>q m. sshAgentEnqueuePrompt q m JUndef" sshAgentDequeuePrompt sshAgentRemovePrompt 4 sound_queue
proof
  show "subseq (sshAgentRemovePrompt q k) q" for q k by (simp add: sshAgentRemovePrompt_def)
  show "sound_queue []" by (simp add: sound_queue_def)
qed (use enqueue_cases sound_queue_subseq in auto)

section \<open>Refusals since the last approval\<close>

definition resets :: "prompt_outcome \<times> jsval \<Rightarrow> bool" where
  "resets x \<longleftrightarrow> fst x = Approved \<or> fst x = Resumed"

definition recent_refusals :: "(prompt_outcome \<times> jsval) list \<Rightarrow> (prompt_outcome \<times> jsval) list" where
  "recent_refusals os =
     filter (\<lambda>x. fst x = Denied \<or> fst x = Timeout) (rev (takeWhile (\<lambda>x. \<not> resets x) (rev os)))"

definition cooldown_run :: "(prompt_outcome \<times> jsval) list \<Rightarrow> cooldown" where
  "cooldown_run os = foldl (\<lambda>s x. sshAgentCooldownAfter s (fst x) (snd x)) sshAgentCooldownInitial os"

lemma recent_refusals_snoc:
  "recent_refusals (os @ [x]) =
     (if resets x then []
      else if fst x = Denied \<or> fst x = Timeout then recent_refusals os @ [x] else recent_refusals os)"
  by (cases "resets x") (simp_all add: recent_refusals_def)

lemma cooldown_run_state:
  "refusals (cooldown_run os) = length (recent_refusals os)
   \<and> untilMs (cooldown_run os) =
      (if 2 \<le> length (recent_refusals os)
       then num_add (now_of (snd (last (recent_refusals os)))) (numi 300000) else Fin 0)"
proof (induction os rule: rev_induct)
  case Nil
  then show ?case by (simp add: cooldown_run_def recent_refusals_def sshAgentCooldownInitial_def)
next
  case (snoc x os)
  have run: "cooldown_run (os @ [x]) = sshAgentCooldownAfter (cooldown_run os) (fst x) (snd x)"
    by (simp add: cooldown_run_def)
  show ?case
    unfolding run recent_refusals_snoc using snoc
    by (cases "fst x")
      (auto simp: sshAgentCooldownAfter_def Let_def resets_def SSH_AGENT_COOLDOWN_AFTER_def SSH_AGENT_COOLDOWN_MS_def)
qed

lemma now_of_not_NaN [simp]: "now_of v \<noteq> NaN"
  by (simp add: now_of_def)

lemma num_add_Fin_not_NaN: "x \<noteq> NaN \<Longrightarrow> num_add x (Fin q) \<noteq> NaN"
  by (cases x) auto

lemma not_num_le: "x \<noteq> NaN \<Longrightarrow> y \<noteq> NaN \<Longrightarrow> \<not> num_le x y \<longleftrightarrow> num_lt y x"
  by (cases x; cases y) (auto simp: num_le_def num_eq_def)

section \<open>Properties\<close>

text \<open>
  C31: Whatever message the helper sends, every text of the prompt that comes from it (key id and name,
  fingerprint, path and name of the program, operation, host key, destination) is bounded (256 units for
  names, 512 for the path, 300 for the operation, 80 for the destination) and has no C0 or C1 control, no line or
  paragraph separator, none of U+200B to U+200F, no bidirectional embedding, override or isolate and no byte order
  mark; and a key name that is a text within that bound and without such a character is shown as it is.
\<close>

theorem prompt_text_displayable:
  "let v = sshAgentPromptView msg w lock in
   displayable 256 (keyId v) \<and> displayable 256 (keyName v) \<and> displayable 256 (fingerprint v)
   \<and> displayable 512 (processPath v) \<and> displayable 256 (processName v) \<and> displayable 300 (operationLabel v)
   \<and> displayable 50 (hostKey v) \<and> displayable 80 (destinationLabel v)
   \<and> (\<forall>s. get_prop (js_or msg (JObj [])) (js ''keyName'') = JStr s \<and> displayable 256 s \<longrightarrow> keyName v = s)"
  using boundedText_displayable [of 256] boundedPath_displayable [of 512] processNameFromPath_displayable
    operationLabel_displayable host_key_displayable destination_displayable [OF host_key_displayable] boundedText_id [of 256]
  by (simp add: sshAgentPromptView_def Let_def SSH_AGENT_MAX_NAME_CHARS_def SSH_AGENT_MAX_PATH_CHARS_def)

theorem prompt_text_displayable_witness:
  "keyName (sshAgentPromptView (JObj [(js ''keyName'', JStr (js ''git key''))]) JUndef JUndef) = js ''git key''
   \<and> 8238 \<notin> set (keyName (sshAgentPromptView (JObj [(js ''keyName'', JStr [8238, 97])]) JUndef JUndef))"
proof -
  let ?m = "\<lambda>s. JObj [(js ''keyName'', JStr s)]"
  have n: "get_prop (js_or (?m s) (JObj [])) (js ''keyName'') = JStr s" for s by (simp add: js_or_def obj_get_def)
  have "displayable 256 (js ''git key'')" by (simp add: displayable_iff js_def SSH_AGENT_INVISIBLE_RE_def)
  with prompt_text_displayable [of "?m (js ''git key'')" JUndef JUndef] n
  have "keyName (sshAgentPromptView (?m (js ''git key'')) JUndef JUndef) = js ''git key''" by (simp add: Let_def)
  moreover have "displayable 256 (keyName (sshAgentPromptView (?m [8238, 97]) JUndef JUndef))"
    using prompt_text_displayable [of "?m [8238, 97]" JUndef JUndef] by (simp add: Let_def)
  then have "8238 \<notin> set (keyName (sshAgentPromptView (?m [8238, 97]) JUndef JUndef))"
    by (auto simp: displayable_def hidden_char_def direction_chars_def)
  ultimately show ?thesis by simp
qed

text \<open>Other characters that draw as nothing or set the direction pass: the word joiner U+2060 and the Arabic letter
  mark U+061C are shown as they are.\<close>
theorem word_joiner_passes: "boundedText (JStr [8288, 1564]) 256 = [8288, 1564]"
  by (rule boundedText_id) (simp add: displayable_iff SSH_AGENT_INVISIBLE_RE_def)

text \<open>
  C32: A prompt offers a grant only if the helper offered one, the request was not forwarded
  and the user set a window (or grants until the screen locks); the offered seconds are a
  whole number of at most 900, positive exactly for a timed grant; and approving with them
  sends the helper exactly these seconds.
\<close>

theorem grant_offer_safe:
  "let v = sshAgentPromptView msg w lock in
   (grantOffered v \<longrightarrow>
      get_prop msg (js ''grantOffered'') = JBool True \<and> get_prop msg (js ''forwarded'') \<noteq> JBool True
      \<and> (lock = JBool True \<or> num_lt (Fin 0) (prompt_window w)))
   \<and> grant_range (grantSeconds v)
   \<and> num_lt (Fin 0) (grantSeconds v) = (grantOffered v \<and> \<not> grantUntilScreenLock v)
   \<and> clamp_grant (JNum (grantSeconds v)) = grantSeconds v"
proof -
  have "truthy msg" if "get_prop (js_or msg (JObj [])) (js ''grantOffered'') = JBool True"
    using that by (auto simp: js_or_def obj_get_def split: if_splits)
  then show ?thesis
    using prompt_window_range [of w] clamp_grant_id [of "prompt_window w"] clamp_grant_id [OF grant_range_zero]
    by (auto simp: sshAgentPromptView_def Let_def js_or_def)
qed

text \<open>
  The line that approves a request, read back by the helper, is one approve message for
  exactly that request, whose seconds are a whole number between 0 and 900 whatever the
  caller asked for, and 0 when the grant ends with the screen lock. No line is written for
  something that is not a request id.
\<close>

theorem approve_line_bounded:
  assumes "plain rid"
  shows "if isRequestId rid then
           (\<exists>m secs. split_on 10 (sshAgentApproveLine rid secs0 lock) = [json_str m, []]
              \<and> json_parse (json_str m) = Some m
              \<and> get_prop m (js ''type'') = JStr (js ''approve'') \<and> get_prop m (js ''requestId'') = rid
              \<and> get_prop m (js ''grantSeconds'') = JNum secs \<and> grant_range secs
              \<and> (lock = JBool True \<longrightarrow> secs = Fin 0))
         else sshAgentApproveLine rid secs0 lock = []"
proof (cases "isRequestId rid")
  case True
  let ?secs = "if lock = JBool True then Fin 0 else clamp_grant secs0"
  let ?fs = "[(js ''requestId'', rid), (js ''grantSeconds'', JNum ?secs)]
     @ (if lock = JBool True then [(js ''untilScreenLock'', JBool True)] else [])"
  have r: "grant_range ?secs" by (simp add: clamp_grant_range)
  with assms have fs: "plain_fields ?fs"
    by (auto simp: plain_fields_def is_digit_def grant_range_plain)
  let ?m = "control_message ''approve'' ?fs"
  have "10 \<notin> set (json_str ?m)" using json_str_visible [OF plain_control_message [OF fs]] by force
  then have "split_on 10 (sshAgentApproveLine rid secs0 lock) = [json_str ?m, []]"
    using True by (simp add: sshAgentApproveLine_def agentControlLine_def split_on_line)
  moreover have "json_parse (json_str ?m) = Some ?m"
    by (rule json_parse_stringify [OF plain_control_message [OF fs]])
  moreover have "get_prop ?m (js ''type'') = JStr (js ''approve'')" "get_prop ?m (js ''requestId'') = rid"
    "get_prop ?m (js ''grantSeconds'') = JNum ?secs"
    unfolding control_message_fields [OF fs] by (simp_all add: obj_get_def)
  ultimately have "\<exists>m secs. split_on 10 (sshAgentApproveLine rid secs0 lock) = [json_str m, []]
      \<and> json_parse (json_str m) = Some m
      \<and> get_prop m (js ''type'') = JStr (js ''approve'') \<and> get_prop m (js ''requestId'') = rid
      \<and> get_prop m (js ''grantSeconds'') = JNum secs \<and> grant_range secs \<and> (lock = JBool True \<longrightarrow> secs = Fin 0)"
    using r by (intro exI [of _ ?m] exI [of _ ?secs] conjI impI) (assumption | simp)+
  then show ?thesis unfolding if_P [OF True] .
qed (simp add: sshAgentApproveLine_def)

text \<open>
  C16: After any sequence of offered, served and discarded prompts, at most four are queued,
  all with different valid request ids, and those served followed by those queued are a
  subsequence of the offers: no prompt is served before one offered earlier, or twice.
\<close>

theorem prompt_queue_fifo:
  "case foldl (queue_step (\<lambda>q m. sshAgentEnqueuePrompt q m JUndef) sshAgentDequeuePrompt sshAgentRemovePrompt)
          ([], []) es of
     (served, q) \<Rightarrow> length q \<le> 4 \<and> sound_queue q \<and> subseq (served @ q) (offers es)"
  using prompt_queue.run_ok [of es] by (auto split: prod.splits)

text \<open>
  The cooldown counts exactly the refusals since the last approval or resumption, and
  from the second on it lasts five minutes from the latest; requests are refused, and the
  status shown, exactly while it lasts.
\<close>

theorem cooldown_exact:
  "let s = cooldown_run os; rs = recent_refusals os in
   refusals s = length rs
   \<and> sshAgentCooldownActive s t =
       (if 2 \<le> length rs then num_lt (now_of t) (num_add (now_of (snd (last rs))) (numi 300000))
        else num_lt (now_of t) (Fin 0))
   \<and> cs_active (sshAgentCooldownStatus s t) = sshAgentCooldownActive s t"
proof -
  have "untilMs (cooldown_run os) \<noteq> NaN"
    using cooldown_run_state [of os] num_add_Fin_not_NaN [OF now_of_not_NaN] by (simp split: if_splits)
  then have "num_le (untilMs (cooldown_run os)) (now_of t) \<longleftrightarrow> \<not> num_lt (now_of t) (untilMs (cooldown_run os))"
    using not_num_le now_of_not_NaN by blast
  then show ?thesis
    using cooldown_run_state [of os]
    by (simp add: Let_def sshAgentCooldownActive_def sshAgentCooldownStatus_def)
qed

text \<open>
  A grant announced at time \<open>t0\<close> for \<open>r\<close> seconds is listed at a later time exactly as long
  as that time has not come, with the seconds left rounded up; one that ends with the screen
  lock stays listed.
\<close>

theorem grant_listed_until_expiry:
  assumes "v \<in> set (sshAgentGrantViews grants (jint t0))" and "g_remainingSec v = numi r" and "0 < now"
  shows "sshAgentGrantsAt [v] (jint now) =
    (if g_untilScreenLock v then [v]
     else if now < t0 + 1000 * r
     then [v\<lparr>g_remainingSec := numi \<lceil>(of_int (t0 + 1000 * r - now) :: rat) / 1000\<rceil>,
             g_remainingLabel := formatDuration (numi \<lceil>(of_int (t0 + 1000 * r - now) :: rat) / 1000\<rceil>) @ js '' left''\<rparr>]
     else [])"
proof -
  have now: "now_of (jint k) = numi k" for k by (simp add: now_of_def)
  have v: "g_expiresAtMs v = (if g_untilScreenLock v then None else Some (numi (t0 + 1000 * r)))"
    using assms(1,2) by (auto simp: sshAgentGrantViews_def grant_view_of_def Let_def now split: jsval.splits)
  define c where "c = \<lceil>(of_int (t0 + 1000 * r - now) :: rat) / 1000\<rceil>"
  have rem: "remaining_sec (numi (t0 + 1000 * r)) (numi now) = numi c"
    by (simp add: remaining_sec_def num_ceil_def ceiling_def c_def)
  have le: "rat_of_int t0 + 1000 * rat_of_int r \<le> rat_of_int now \<longleftrightarrow> t0 + 1000 * r \<le> now"
    using of_int_le_iff [of "t0 + 1000 * r" now, where 'a = rat] by simp
  have c: "c \<le> 0 \<longleftrightarrow> \<not> now < t0 + 1000 * r" unfolding c_def using le by (simp add: divide_le_0_iff not_less)
  have late: "\<not> num_le (numi now) (Fin 0)" using assms(3) by simp
  have "grant_at (numi now) v = (if g_untilScreenLock v then Some v else if c \<le> 0 then None
      else Some (v\<lparr>g_remainingSec := numi c, g_remainingLabel := formatDuration (numi c) @ js '' left''\<rparr>))"
    using late rem [unfolded of_int_add of_int_mult of_int_numeral] by (simp add: grant_at_def v Let_def max_def)
  then show ?thesis unfolding c_def [symmetric] c by (simp add: sshAgentGrantsAt_def now List.map_filter_def)
qed

subsection \<open>Concrete prompts\<close>

definition demo_request :: jsval where
  "demo_request = JObj [(js ''requestId'', jint 7), (js ''grantOffered'', JBool True),
     (js ''operation'', JStr (js ''ssh-auth''))]"

theorem grant_offer_safe_witness:
  "grantOffered (sshAgentPromptView demo_request (jint 60) JUndef)
   \<and> get_prop demo_request (js ''forwarded'') \<noteq> JBool True
   \<and> num_lt (Fin 0) (grantSeconds (sshAgentPromptView demo_request (jint 60) JUndef))"
proof -
  have "grantOffered (sshAgentPromptView demo_request (jint 60) JUndef)"
    "\<not> grantUntilScreenLock (sshAgentPromptView demo_request (jint 60) JUndef)"
    by code_simp+
  with grant_offer_safe [of demo_request "jint 60" JUndef] show ?thesis by (simp add: Let_def)
qed

theorem approve_line_bounded_witness:
  "\<exists>m secs. split_on 10 (sshAgentApproveLine (jint 7) (jint 5000) JUndef) = [json_str m, []]
     \<and> get_prop m (js ''requestId'') = jint 7 \<and> get_prop m (js ''grantSeconds'') = JNum secs \<and> grant_range secs"
  using approve_line_bounded [of "jint 7" "jint 5000" JUndef]
  by (auto simp: isRequestId_def is_request_num_def)

definition demo_grants :: jsval where
  "demo_grants = JArr [JObj [(js ''grantId'', jint 1), (js ''expiresInSec'', jint 30)]]"


definition demo_grant :: grant_view where
  "demo_grant = hd (sshAgentGrantViews demo_grants (jint 1000))"

theorem grant_listed_until_expiry_witness:
  "demo_grant \<in> set (sshAgentGrantViews demo_grants (jint 1000)) \<and> sshAgentGrantsAt [demo_grant] (jint 31000) = []"
proof -
  have "sshAgentGrantViews demo_grants (jint 1000) \<noteq> []" by code_simp
  then have v: "demo_grant \<in> set (sshAgentGrantViews demo_grants (jint 1000))" by (simp add: demo_grant_def)
  have r: "g_remainingSec demo_grant = numi 30" "\<not> g_untilScreenLock demo_grant" by code_simp+
  show ?thesis using grant_listed_until_expiry [OF v r(1), of 31000] v r(2) by simp
qed

end
