(* ===== verification/Items.thy ===== *)
theory Items
  imports Json
begin

text \<open>
  The vault list of \<^verbatim>\<open>BitwardenModel.js\<close>: what \<^verbatim>\<open>bw\<close> prints about items, folders, collections and
  organizations becomes typed rows; rows are searched, filtered, replaced after a save and
  shown with their secrets withheld. The order of names is \<^verbatim>\<open>localeCompare\<close> of the running
  system, which is a parameter \<open>collate\<close>. A field that a JavaScript row does not have (such as
  \<^verbatim>\<open>publicKey\<close> of a login) is the empty value here, which every reader of it treats alike.
\<close>

section \<open>Arrays and names\<close>

definition MAX_LIST_ENTRIES :: nat where "MAX_LIST_ENTRIES = 4096"

definition list_length :: "jsval \<Rightarrow> nat option" where
  \<comment> \<open>a whole, non-negative number of entries\<close>
  "list_length v =
     (case v of
        JNum (Fin q) \<Rightarrow> if q < 0 \<or> q \<noteq> of_int \<lfloor>q\<rfloor> then None else Some (min (nat \<lfloor>q\<rfloor>) MAX_LIST_ENTRIES)
      | JNum PosInf \<Rightarrow> Some MAX_LIST_ENTRIES
      | _ \<Rightarrow> None)"

definition toList :: "jsval \<Rightarrow> jsval list" where
  "toList value =
     (case value of
        JArr xs \<Rightarrow> take MAX_LIST_ENTRIES xs
      | JObj ps \<Rightarrow>
          (case list_length (get_prop value (js ''length'')) of
             None \<Rightarrow> []
           | Some n \<Rightarrow> map (\<lambda>i. get_prop value (nat_to_str i)) [0..<n])
      | _ \<Rightarrow> [])"

definition cap_list :: "'a list \<Rightarrow> 'a list" where
  \<comment> \<open>\<open>toList\<close> of a list of rows\<close>
  "cap_list xs = take MAX_LIST_ENTRIES xs"

definition idList :: "jsval \<Rightarrow> jsstr list" where
  "idList ids = map to_str (toList ids)"

definition parseJsonArray :: "jsstr \<Rightarrow> jsval list" where
  "parseJsonArray raw = (case json_parse raw of Some (JArr xs) \<Rightarrow> xs | _ \<Rightarrow> [])"

type_synonym collate = "jsstr \<Rightarrow> jsstr \<Rightarrow> int"

definition opt_str :: "jsval \<Rightarrow> jsstr option" where
  \<comment> \<open>\<^verbatim>\<open>v ? String(v) : null\<close>\<close>
  "opt_str v = (if truthy v then Some (to_str v) else None)"

abbreviation fld :: "jsval \<Rightarrow> string \<Rightarrow> jsval" where
  "fld v f \<equiv> get_prop v (js f)"

abbreviation sfld :: "jsval \<Rightarrow> string \<Rightarrow> jsstr" where
  \<comment> \<open>\<^verbatim>\<open>String(v.f || "")\<close>\<close>
  "sfld v f \<equiv> str_or (get_prop v (js f)) []"

section \<open>Status, organizations, folders, collections\<close>

record vault_status =
  authenticated :: bool
  locked :: bool
  unlocked :: bool
  userEmail :: jsstr
  status_userId :: jsstr
  lastSync :: jsstr
  serverUrl :: jsstr

definition parseStatus :: "jsstr \<Rightarrow> vault_status option" where
  "parseStatus raw =
     (case json_parse raw of
        None \<Rightarrow> None
      | Some st \<Rightarrow>
          (if \<not> is_object st then None
           else Some \<lparr>authenticated = (fld st ''status'' \<noteq> JStr (js ''unauthenticated'')),
                      locked = (fld st ''status'' = JStr (js ''locked'')),
                      unlocked = (fld st ''status'' = JStr (js ''unlocked'')),
                      userEmail = sfld st ''userEmail'', status_userId = sfld st ''userId'',
                      lastSync = sfld st ''lastSync'', serverUrl = sfld st ''serverUrl''\<rparr>))"

record named =
  named_id :: jsstr
  named_name :: jsstr
  named_org :: jsstr
  named_status :: jsnum

definition parseOrganizations :: "jsstr \<Rightarrow> named list" where
  "parseOrganizations raw =
     map (\<lambda>o'. \<lparr>named_id = sfld o' ''id'', named_name = str_or (fld o' ''name'') (js ''Organization''), named_org = [],
               named_status = (if truthy (fld o' ''status'') then to_num (fld o' ''status'') else Fin 0)\<rparr>)
       (filter is_object (parseJsonArray raw))"

definition named_le :: "collate \<Rightarrow> named \<Rightarrow> named \<Rightarrow> bool" where
  \<comment> \<open>\<^verbatim>\<open>compareNames(a, b) <= 0\<close>\<close>
  "named_le collate a b \<longleftrightarrow> collate (named_name a) (named_name b) \<le> 0"

definition parseFolders :: "collate \<Rightarrow> jsstr \<Rightarrow> named list" where
  "parseFolders collate raw =
     sort_by (named_le collate)
       (map (\<lambda>f. \<lparr>named_id = to_str (fld f ''id''), named_name = str_or (fld f ''name'') (js ''Folder''), named_org = [],
                  named_status = Fin 0\<rparr>)
         (filter (\<lambda>f. is_object f \<and> truthy (fld f ''id'')) (parseJsonArray raw)))"

definition parseCollections :: "collate \<Rightarrow> jsstr \<Rightarrow> named list" where
  "parseCollections collate raw =
     sort_by (named_le collate)
       (map (\<lambda>c. \<lparr>named_id = to_str (fld c ''id''), named_name = str_or (fld c ''name'') (js ''Collection''),
                  named_org = sfld c ''organizationId'', named_status = Fin 0\<rparr>)
         (filter (\<lambda>c. is_object c \<and> truthy (fld c ''id'')) (parseJsonArray raw)))"

definition nameById :: "named list \<Rightarrow> jsstr \<Rightarrow> jsstr" where
  "nameById entries i =
     (if i = [] then []
      else case find (\<lambda>e. named_id e = i) entries of Some e \<Rightarrow> named_name e | None \<Rightarrow> [])"

definition folderName :: "named list \<Rightarrow> jsstr \<Rightarrow> jsstr" where
  "folderName folders folderId = nameById folders folderId"

definition collectionNames :: "collate \<Rightarrow> named list \<Rightarrow> jsstr list \<Rightarrow> jsstr list" where
  "collectionNames collate collections ids =
     sort_by (\<lambda>a b. collate a b \<le> 0)
       (filter (\<lambda>n. n \<noteq> []) (map (nameById collections) (cap_list ids)))"

definition orgPlaceLabel :: "collate \<Rightarrow> jsstr option \<Rightarrow> jsstr list \<Rightarrow> named list \<Rightarrow> named list \<Rightarrow> jsstr" where
  \<comment> \<open>the organization and the collections of the item\<close>
  "orgPlaceLabel collate itemOrg ids organizations collections =
     (case itemOrg of
        None \<Rightarrow> []
      | Some oid \<Rightarrow>
          (let org = nameById organizations oid; names = collectionNames collate collections ids
           in case names of
                [] \<Rightarrow> org
              | n # ns \<Rightarrow>
                  (let place = n @ (if ns \<noteq> [] then js '' +'' @ nat_to_str (length ns) else [])
                   in if org \<noteq> [] \<and> 1 < length organizations then org @ js '' / '' @ place else place)))"

section \<open>Item types\<close>

definition ITEM_TYPES :: "(jsstr \<times> jsstr) list" where
  "ITEM_TYPES = [(js ''1'', js ''login''), (js ''2'', js ''secureNote''), (js ''3'', js ''card''),
     (js ''4'', js ''identity''), (js ''5'', js ''sshKey'')]"

definition itemTypeName :: "jsval \<Rightarrow> jsstr" where
  "itemTypeName ty = (case map_of ITEM_TYPES (to_str ty) of Some n \<Rightarrow> n | None \<Rightarrow> js ''login'')"

definition itemTypeGlyph :: "jsval \<Rightarrow> jsstr" where
  \<comment> \<open>characters of the icon font, most of them a surrogate pair\<close>
  "itemTypeGlyph ty =
     (let t = itemTypeName ty in
      if t = js ''login'' then [56192, 57099] else if t = js ''secureNote'' then [56192, 56857]
      else if t = js ''card'' then [56195, 57327] else if t = js ''identity'' then [61447]
      else if t = js ''sshKey'' then [56194, 56512] else [56193, 57216])"

definition itemTypeLabel :: "jsval \<Rightarrow> jsstr" where
  "itemTypeLabel ty =
     (let t = itemTypeName ty in
      if t = js ''login'' then js ''Login'' else if t = js ''secureNote'' then js ''Secure Note''
      else if t = js ''card'' then js ''Card'' else if t = js ''identity'' then js ''Identity''
      else if t = js ''sshKey'' then js ''SSH Key'' else js ''Item'')"

definition repromptValue :: "jsval \<Rightarrow> nat" where
  "repromptValue value = (if to_num value = Fin 1 then 1 else 0)"

section \<open>Attachments\<close>

record attachment =
  att_id :: jsstr
  att_fileName :: jsstr
  att_size :: jsstr
  att_sizeName :: jsstr

definition ATTACHMENT_UNITS :: "jsstr list" where
  "ATTACHMENT_UNITS = map js [''B'', ''KB'', ''MB'', ''GB'', ''TB'']"

fun scale_size :: "nat \<Rightarrow> rat \<Rightarrow> nat \<Rightarrow> rat \<times> nat" where
  \<comment> \<open>the loop; the first argument is \<^verbatim>\<open>ATTACHMENT_UNITS.length - 1 - unit\<close>\<close>
  "scale_size 0 n unit = (n, unit)"
| "scale_size (Suc k) n unit = (if 1024 \<le> n then scale_size k (n / 1024) (Suc unit) else (n, unit))"

definition two_decimals :: "rat \<Rightarrow> jsstr" where
  \<comment> \<open>\<^verbatim>\<open>(Math.round(n * 100) / 100).toFixed(2).replace(/\.?0+$/, "")\<close> for \<open>1 \<le> n\<close>\<close>
  "two_decimals n =
     (let r = nat \<lfloor>n * 100 + 1 / 2\<rfloor>; whole = nat_to_str (r div 100); f = r mod 100
      in if f = 0 then whole
         else if f mod 10 = 0 then whole @ [46, 48 + f div 10]
         else whole @ [46, 48 + f div 10, 48 + f mod 10])"

definition formatAttachmentSize :: "jsval \<Rightarrow> jsstr" where
  "formatAttachmentSize bytes =
     (if nullish bytes \<or> trim (to_str bytes) = [] then []
      else case to_num bytes of
        Fin q \<Rightarrow>
          (if q < 0 then []
           else (let (n, unit) = scale_size 4 q 0
                 in (if unit = 0 then nat_to_str (nat \<lfloor>n + 1 / 2\<rfloor>) else two_decimals n)
                    @ [32] @ ATTACHMENT_UNITS ! unit))
      | _ \<Rightarrow> [])"

definition or_text :: "jsstr \<Rightarrow> jsstr \<Rightarrow> jsstr" where
  \<comment> \<open>\<^verbatim>\<open>a || b\<close> on strings\<close>
  "or_text a b = (if a \<noteq> [] then a else b)"

definition parseAttachments :: "jsval \<Rightarrow> attachment list" where
  "parseAttachments raw =
     map (\<lambda>a. \<lparr>att_id = to_str (fld a ''id''),
               att_fileName = or_text (sfld a ''fileName'') (js ''attachment''),
               att_size = sfld a ''size'',
               att_sizeName = or_text (sfld a ''sizeName'') (formatAttachmentSize (fld a ''size''))\<rparr>)
       (filter (\<lambda>a. truthy a \<and> truthy (fld a ''id'')) (toList raw))"

section \<open>Logins, cards, identities, custom fields\<close>

definition loginUris :: "jsval \<Rightarrow> jsstr list" where
  "loginUris login =
     map (\<lambda>u. to_str (fld u ''uri''))
       (filter (\<lambda>u. truthy u \<and> truthy (fld u ''uri'')) (toList (fld login ''uris'')))"

definition uriMatchValue :: "jsval \<Rightarrow> jsnum option" where
  "uriMatchValue m =
     (if nullish m \<or> m = JStr [] then None
      else (let n = to_num m in
            if num_eq n (num_floor n) \<and> num_le (Fin 0) n \<and> num_le n (Fin 5) then Some n else None))"

record uri_entry =
  entry_uri :: jsstr
  entry_match :: "jsnum option"
  entry_sourceIndex :: nat

definition loginUriEntries :: "jsval \<Rightarrow> uri_entry list" where
  "loginUriEntries login =
     (let rawUris = toList (if truthy login then fld login ''uris'' else login)
      in map (\<lambda>(i, e). \<lparr>entry_uri = text_of (fld e ''uri''), entry_match = uriMatchValue (fld e ''match''),
                        entry_sourceIndex = i\<rparr>)
           (filter (\<lambda>(i, e). is_object e) (List.enumerate 0 rawUris)))"

record card =
  cardholderName :: jsstr
  brand :: jsstr
  card_number :: jsstr
  expMonth :: jsstr
  expYear :: jsstr
  code :: jsstr

definition cardDetail :: "jsval \<Rightarrow> card option" where
  "cardDetail c =
     (if \<not> truthy c then None
      else Some \<lparr>cardholderName = sfld c ''cardholderName'', brand = sfld c ''brand'', card_number = sfld c ''number'',
                 expMonth = sfld c ''expMonth'', expYear = sfld c ''expYear'', code = sfld c ''code''\<rparr>)"

record identity =
  id_title :: jsstr
  firstName :: jsstr
  middleName :: jsstr
  lastName :: jsstr
  id_username :: jsstr
  company :: jsstr
  id_email :: jsstr
  phone :: jsstr
  ssn :: jsstr
  passportNumber :: jsstr
  licenseNumber :: jsstr
  address1 :: jsstr
  address2 :: jsstr
  address3 :: jsstr
  city :: jsstr
  state :: jsstr
  postalCode :: jsstr
  country :: jsstr

definition identityDetail :: "jsval \<Rightarrow> identity option" where
  "identityDetail i =
     (if \<not> truthy i then None
      else Some \<lparr>id_title = sfld i ''title'', firstName = sfld i ''firstName'', middleName = sfld i ''middleName'',
                 lastName = sfld i ''lastName'', id_username = sfld i ''username'', company = sfld i ''company'',
                 id_email = sfld i ''email'', phone = sfld i ''phone'', ssn = sfld i ''ssn'',
                 passportNumber = sfld i ''passportNumber'', licenseNumber = sfld i ''licenseNumber'',
                 address1 = sfld i ''address1'', address2 = sfld i ''address2'', address3 = sfld i ''address3'',
                 city = sfld i ''city'', state = sfld i ''state'', postalCode = sfld i ''postalCode'',
                 country = sfld i ''country''\<rparr>)"

definition nonEmptyParts :: "jsstr list \<Rightarrow> jsstr list" where
  "nonEmptyParts parts = filter (\<lambda>p. p \<noteq> []) (map trim parts)"

definition identity_name :: "identity \<Rightarrow> jsstr" where
  \<comment> \<open>\<open>identityFullName\<close> of a typed identity\<close>
  "identity_name i = join [32] (nonEmptyParts [id_title i, firstName i, middleName i, lastName i])"

definition identityFullName :: "jsval \<Rightarrow> jsstr" where
  "identityFullName i =
     (if \<not> truthy i then []
      else join [32] (nonEmptyParts [sfld i ''title'', sfld i ''firstName'', sfld i ''middleName'', sfld i ''lastName'']))"

definition linked_table :: "(int \<times> string \<times> string) list" where
  \<comment> \<open>Bitwarden's \<^verbatim>\<open>LinkedIdType\<close>: where each id points; 418 is the full name\<close>
  "linked_table =
     [(100, ''login'', ''username''), (101, ''login'', ''password''),
      (300, ''card'', ''cardholderName''), (301, ''card'', ''expMonth''), (302, ''card'', ''expYear''),
      (303, ''card'', ''code''), (304, ''card'', ''brand''), (305, ''card'', ''number''),
      (400, ''identity'', ''title''), (401, ''identity'', ''middleName''), (402, ''identity'', ''address1''),
      (403, ''identity'', ''address2''), (404, ''identity'', ''address3''), (405, ''identity'', ''city''),
      (406, ''identity'', ''state''), (407, ''identity'', ''postalCode''), (408, ''identity'', ''country''),
      (409, ''identity'', ''company''), (410, ''identity'', ''email''), (411, ''identity'', ''phone''),
      (412, ''identity'', ''ssn''), (413, ''identity'', ''username''), (414, ''identity'', ''passportNumber''),
      (415, ''identity'', ''licenseNumber''), (416, ''identity'', ''firstName''), (417, ''identity'', ''lastName'')]"

definition part_of :: "jsval \<Rightarrow> string \<Rightarrow> jsval" where
  \<comment> \<open>\<^verbatim>\<open>item.part || {}\<close>\<close>
  "part_of item p = js_or (fld item p) (JObj [])"

definition int_of_num :: "jsnum \<Rightarrow> int option" where
  "int_of_num n = (case n of Fin q \<Rightarrow> if q = of_int \<lfloor>q\<rfloor> then Some \<lfloor>q\<rfloor> else None | _ \<Rightarrow> None)"

definition linkedCustomFieldValue :: "jsval \<Rightarrow> jsnum option \<Rightarrow> jsstr" where
  \<comment> \<open>no linked id is \<open>None\<close>, and \<^verbatim>\<open>Number(null)\<close> is 0, an id of nothing\<close>
  "linkedCustomFieldValue item linkedId =
     (case Option.bind linkedId int_of_num of
        None \<Rightarrow> []
      | Some k \<Rightarrow>
          (if k = 418 then identityFullName (part_of item ''identity'')
           else case map_of linked_table k of
             None \<Rightarrow> []
           | Some (p, f) \<Rightarrow> text_of (fld (part_of item p) f)))"

definition sensitive_links :: "int list" where
  "sensitive_links = [101, 303, 305, 412, 414, 415]"

definition linkedCustomFieldIsSensitive :: "jsnum option \<Rightarrow> bool" where
  "linkedCustomFieldIsSensitive linkedId =
     (case linkedId of None \<Rightarrow> False | Some n \<Rightarrow> n \<in> set (map numi sensitive_links))"

record custom_field =
  cf_name :: jsstr
  cf_index :: nat
  cf_value :: jsstr
  cf_type :: jsnum
  cf_linkedId :: "jsnum option"
  cf_sensitive :: bool

definition custom_field_of :: "jsval \<Rightarrow> nat \<times> jsval \<Rightarrow> custom_field" where
  "custom_field_of item = (\<lambda>(i, field).
     let ty = (if truthy (fld field ''type'') then to_num (fld field ''type'') else Fin 0);
         linked = (if nullish (fld field ''linkedId'') then None else Some (to_num (fld field ''linkedId'')))
     in \<lparr>cf_name = sfld field ''name'', cf_index = i,
         cf_value = (if ty = Fin 3 then linkedCustomFieldValue item linked else text_of (fld field ''value'')),
         cf_type = ty, cf_linkedId = linked,
         cf_sensitive = (ty = Fin 1 \<or> (ty = Fin 3 \<and> linkedCustomFieldIsSensitive linked))\<rparr>)"

definition itemCustomFields :: "jsval \<Rightarrow> jsval \<Rightarrow> custom_field list" where
  "itemCustomFields raw item =
     map (custom_field_of item)
       (filter (\<lambda>(i, f). truthy f \<and> truthy (fld f ''name'')) (List.enumerate 0 (toList raw)))"

section \<open>Rows\<close>

record item =
  it_id :: jsstr
  it_organizationId :: "jsstr option"
  it_collectionIds :: "jsstr list"
  it_folderId :: "jsstr option"
  it_name :: jsstr
  it_type :: jsstr
  it_typeCode :: jsnum
  it_favorite :: bool
  it_username :: jsstr
  it_password :: jsstr
  it_hasPassword :: bool
  it_hasTotp :: bool
  it_totpKey :: jsstr
  it_uris :: "jsstr list"
  it_reprompt :: nat
  it_attachments :: "attachment list"
  it_subtitle :: jsstr
  it_card :: "card option"
  it_identity :: "identity option"
  it_notes :: jsstr
  it_hasNotes :: bool
  it_fields :: "custom_field list"
  it_heldFlags :: jsval
  it_rawObject :: jsval
  it_secretsHeld :: bool
  it_publicKey :: jsstr
  it_fingerprint :: jsstr
  it_secretsWithheld :: bool
  it_pending :: bool

definition it_hasAttachments :: "item \<Rightarrow> bool" where
  "it_hasAttachments it \<longleftrightarrow> it_attachments it \<noteq> []"

definition item_le :: "collate \<Rightarrow> item \<Rightarrow> item \<Rightarrow> bool" where
  \<comment> \<open>\<^verbatim>\<open>compareItems(a, b) <= 0\<close>\<close>
  "item_le collate a b \<longleftrightarrow>
     (if it_favorite a \<noteq> it_favorite b then it_favorite a else collate (it_name a) (it_name b) \<le> 0)"

definition strip_scheme :: "jsstr \<Rightarrow> jsstr" where
  \<comment> \<open>\<^verbatim>\<open>replace(/^https?:\/\//, "")\<close>\<close>
  "strip_scheme s =
     (if starts_with (js ''https://'') s then drop 8 s
      else if starts_with (js ''http://'') s then drop 7 s else s)"

definition is_line_end :: "nat \<Rightarrow> bool" where
  "is_line_end c \<longleftrightarrow> c = 10 \<or> c = 13 \<or> c = 8232 \<or> c = 8233"

fun strip_path :: "jsstr \<Rightarrow> jsstr" where
  \<comment> \<open>\<^verbatim>\<open>replace(/\/.*$/, "")\<close>\<close>
  "strip_path [] = []"
| "strip_path (c # cs) = (if c = 47 \<and> (\<forall>d\<in>set cs. \<not> is_line_end d) then [] else c # strip_path cs)"

definition last_units :: "nat \<Rightarrow> jsstr \<Rightarrow> jsstr" where
  \<comment> \<open>\<^verbatim>\<open>s.slice(-n)\<close>\<close>
  "last_units n s = drop (length s - n) s"

definition card_subtitle :: "jsval \<Rightarrow> jsstr" where
  "card_subtitle c =
     (if \<not> truthy c then []
      else (let num = sfld c ''number''; last4 = (if 4 \<le> length num then last_units 4 num else num)
            in (if truthy (fld c ''brand'') then to_str (fld c ''brand'') @ [32] else [])
               @ (if last4 \<noteq> [] then [8226, 8226, 8226, 8226, 32] @ last4 else [])))"

definition identity_subtitle :: "jsval \<Rightarrow> jsstr" where
  "identity_subtitle i = (if \<not> truthy i then [] else or_text (identityFullName i) (sfld i ''email''))"

definition item_subtitle :: "jsval \<Rightarrow> jsstr" where
  "item_subtitle it =
     (let login = part_of it ''login''; uris = loginUris login in
      if truthy (fld login ''username'') then to_str (fld login ''username'')
      else if uris \<noteq> [] then strip_path (strip_scheme (hd uris))
      else if card_subtitle (fld it ''card'') \<noteq> [] then card_subtitle (fld it ''card'')
      else if identity_subtitle (fld it ''identity'') \<noteq> [] then identity_subtitle (fld it ''identity'')
      else if fld it ''type'' = JNum (Fin 2) then js ''Secure Note'' else [])"

definition held_of :: "jsval \<Rightarrow> jsval" where
  \<comment> \<open>\<^verbatim>\<open>it.qsbwHeld && typeof it.qsbwHeld === "object" ? it.qsbwHeld : null\<close>\<close>
  "held_of it = (if is_object (fld it ''qsbwHeld'') then fld it ''qsbwHeld'' else JNull)"

definition held_flag :: "jsval \<Rightarrow> string \<Rightarrow> bool" where
  "held_flag held f \<longleftrightarrow> truthy held \<and> truthy (fld held f)"

definition type_code :: "jsval \<Rightarrow> jsnum" where
  \<comment> \<open>\<^verbatim>\<open>Number(type || 1)\<close>\<close>
  "type_code ty = (if truthy ty then to_num ty else Fin 1)"

definition parse_item :: "jsval \<Rightarrow> item" where
  \<comment> \<open>the body of the loop of \<open>parseItems\<close>\<close>
  "parse_item it =
     (let login = part_of it ''login''; held = held_of it in
      \<lparr>it_id = sfld it ''id'', it_organizationId = opt_str (fld it ''organizationId''),
       it_collectionIds = idList (fld it ''collectionIds''), it_folderId = opt_str (fld it ''folderId''),
       it_name = str_or (fld it ''name'') (js ''Untitled''), it_type = itemTypeName (fld it ''type''),
       it_typeCode = type_code (fld it ''type''), it_favorite = truthy (fld it ''favorite''),
       it_username = sfld login ''username'', it_password = sfld login ''password'',
       it_hasPassword = (truthy (fld login ''password'') \<or> held_flag held ''password''),
       it_hasTotp = (truthy (fld login ''totp'') \<or> held_flag held ''totp''),
       it_totpKey = sfld login ''totp'', it_uris = loginUris login,
       it_reprompt = repromptValue (fld it ''reprompt''),
       it_attachments = parseAttachments (fld it ''attachments''),
       it_subtitle = item_subtitle it, it_card = cardDetail (fld it ''card''),
       it_identity = identityDetail (fld it ''identity''), it_notes = sfld it ''notes'',
       it_hasNotes = (truthy (fld it ''notes'') \<or> held_flag held ''notes''),
       it_fields = (if truthy held then itemCustomFields (fld it ''fields'') it else []),
       it_heldFlags = held, it_rawObject = (if truthy held then JNull else it), it_secretsHeld = truthy held,
       it_publicKey = [], it_fingerprint = [], it_secretsWithheld = False, it_pending = False\<rparr>)"

definition parseItems :: "collate \<Rightarrow> jsval list \<Rightarrow> item list" where
  "parseItems collate arr = sort_by (item_le collate) (map parse_item (filter is_object arr))"

definition blank_item :: item where
  "blank_item = \<lparr>it_id = [], it_organizationId = None, it_collectionIds = [], it_folderId = None, it_name = [],
     it_type = [], it_typeCode = Fin 0, it_favorite = False, it_username = [], it_password = [],
     it_hasPassword = False, it_hasTotp = False, it_totpKey = [], it_uris = [], it_reprompt = 0,
     it_attachments = [], it_subtitle = [], it_card = None, it_identity = None, it_notes = [],
     it_hasNotes = False, it_fields = [], it_heldFlags = JNull, it_rawObject = JNull, it_secretsHeld = False,
     it_publicKey = [], it_fingerprint = [], it_secretsWithheld = False, it_pending = False\<rparr>"

definition ssh_public_key :: "jsval \<Rightarrow> jsstr" where
  "ssh_public_key it = str_or (js_or (fld (part_of it ''sshKey'') ''publicKey'') (fld it ''publicKey'')) []"

definition ssh_fingerprint :: "jsval \<Rightarrow> jsstr" where
  "ssh_fingerprint it =
     (let key = part_of it ''sshKey''
      in str_or (js_or (fld key ''fingerprint'') (js_or (fld key ''keyFingerprint'')
           (js_or (fld it ''fingerprint'') (fld it ''keyFingerprint'')))) [])"

definition opt_json :: "jsstr option \<Rightarrow> jsval" where
  "opt_json v = (case v of None \<Rightarrow> JNull | Some s \<Rightarrow> JStr s)"

definition ssh_raw :: "jsval \<Rightarrow> jsval" where
  "ssh_raw it = JObj
     [(js ''id'', JStr (to_str (fld it ''id''))), (js ''name'', JStr (str_or (fld it ''name'') (js ''Untitled''))),
      (js ''type'', jint 5), (js ''organizationId'', opt_json (opt_str (fld it ''organizationId''))),
      (js ''collectionIds'', JArr (map JStr (idList (fld it ''collectionIds'')))),
      (js ''folderId'', opt_json (opt_str (fld it ''folderId''))),
      (js ''favorite'', JBool (truthy (fld it ''favorite''))),
      (js ''reprompt'', JNum (Fin (of_nat (repromptValue (fld it ''reprompt''))))),
      (js ''sshKey'', JObj [(js ''publicKey'', JStr (ssh_public_key it)), (js ''fingerprint'', JStr (ssh_fingerprint it))])]"

definition ssh_row :: "jsval \<Rightarrow> item" where
  "ssh_row it = blank_item
     \<lparr>it_id := to_str (fld it ''id''), it_organizationId := opt_str (fld it ''organizationId''),
      it_collectionIds := idList (fld it ''collectionIds''), it_folderId := opt_str (fld it ''folderId''),
      it_name := str_or (fld it ''name'') (js ''Untitled''), it_type := js ''sshKey'', it_typeCode := Fin 5,
      it_favorite := truthy (fld it ''favorite''), it_reprompt := repromptValue (fld it ''reprompt''),
      it_subtitle := or_text (ssh_fingerprint it) (or_text (ssh_public_key it) (js ''SSH Key'')),
      it_publicKey := ssh_public_key it, it_fingerprint := ssh_fingerprint it, it_rawObject := ssh_raw it\<rparr>"

definition parseSshKeys :: "collate \<Rightarrow> jsval list \<Rightarrow> item list" where
  "parseSshKeys collate keys =
     sort_by (item_le collate) (map ssh_row (filter (\<lambda>it. is_object it \<and> truthy (fld it ''id'')) keys))"

record envelope =
  env_items :: "item list"
  env_sshKeys :: "item list"
  env_confirmed :: bool

definition parseSanitizedEnvelope :: "collate \<Rightarrow> jsstr \<Rightarrow> envelope option" where
  "parseSanitizedEnvelope collate raw =
     (case json_parse raw of
        None \<Rightarrow> None
      | Some env \<Rightarrow>
          (case (is_object env, fld env ''items'', fld env ''sshKeys'') of
             (True, JArr items, JArr keys) \<Rightarrow>
               (let expected = (if keys \<noteq> [] then js ''confirmed'' else js ''unconfirmed'');
                    cap = fld env ''sshCapability''
                in if cap \<noteq> JUndef \<and> cap \<noteq> JStr expected then None
                   else (let sshKeys = parseSshKeys collate keys
                         in Some \<lparr>env_items = sort_by (item_le collate) (parseItems collate items @ sshKeys),
                                  env_sshKeys = sshKeys, env_confirmed = (keys \<noteq> [])\<rparr>))
           | _ \<Rightarrow> None))"

definition parseSanitizedItems :: "collate \<Rightarrow> jsstr \<Rightarrow> item list" where
  "parseSanitizedItems collate raw = (case parseSanitizedEnvelope collate raw of Some e \<Rightarrow> env_items e | None \<Rightarrow> [])"

section \<open>Saving\<close>

definition PENDING_ID_PREFIX :: jsstr where "PENDING_ID_PREFIX = js ''qsbw-pending:''"

definition pendingItemId :: "jsval \<Rightarrow> jsstr" where
  "pendingItemId seed = PENDING_ID_PREFIX @ to_str seed"

definition isPendingItemId :: "jsval \<Rightarrow> bool" where
  "isPendingItemId i \<longleftrightarrow> starts_with PENDING_ID_PREFIX (str_or i [])"

definition findItemById :: "item list \<Rightarrow> jsstr \<Rightarrow> item option" where
  "findItemById items i = find (\<lambda>it. it_id it = i) (cap_list items)"

definition replaceItemById :: "collate \<Rightarrow> item list \<Rightarrow> jsstr \<Rightarrow> item option \<Rightarrow> item list" where
  "replaceItemById collate items i replacement =
     (let existing = cap_list items;
          new = (case replacement of Some r \<Rightarrow> [r] | None \<Rightarrow> []);
          out = concat (map (\<lambda>it. if it_id it = i then new else [it]) existing);
          replaced = list_ex (\<lambda>it. it_id it = i) existing
      in sort_by (item_le collate) (if replaced then out else out @ new))"

definition spliceSavedItem :: "collate \<Rightarrow> item list \<Rightarrow> jsstr \<Rightarrow> jsstr \<Rightarrow> item list option" where
  \<comment> \<open>no id to replace is the empty string\<close>
  "spliceSavedItem collate items raw replacingId =
     (case parseSanitizedEnvelope collate raw of
        None \<Rightarrow> None
      | Some e \<Rightarrow>
          (case env_items e @ env_sshKeys e of
             [one] \<Rightarrow> (if it_id one = [] then None
                       else Some (replaceItemById collate items (or_text replacingId (it_id one)) (Some one)))
           | _ \<Rightarrow> None))"

section \<open>Details\<close>

definition itemDetailFromObject :: "jsval \<Rightarrow> item option" where
  "itemDetailFromObject it =
     (if \<not> is_object it then None
      else if to_num (fld it ''type'') = Fin 5 then
        Some (blank_item
          \<lparr>it_id := sfld it ''id'', it_organizationId := opt_str (fld it ''organizationId''),
           it_collectionIds := idList (fld it ''collectionIds''), it_folderId := opt_str (fld it ''folderId''),
           it_name := str_or (fld it ''name'') (js ''Untitled''), it_type := js ''sshKey'', it_typeCode := Fin 5,
           it_favorite := truthy (fld it ''favorite''), it_reprompt := repromptValue (fld it ''reprompt''),
           it_publicKey := ssh_public_key it, it_fingerprint := ssh_fingerprint it, it_rawObject := it\<rparr>)
      else
        (let login = part_of it ''login'' in
         Some (blank_item
          \<lparr>it_id := sfld it ''id'', it_organizationId := opt_str (fld it ''organizationId''),
           it_collectionIds := idList (fld it ''collectionIds''), it_folderId := opt_str (fld it ''folderId''),
           it_name := str_or (fld it ''name'') (js ''Untitled''), it_type := itemTypeName (fld it ''type''),
           it_typeCode := type_code (fld it ''type''), it_favorite := truthy (fld it ''favorite''),
           it_notes := sfld it ''notes'', it_username := sfld login ''username'', it_password := sfld login ''password'',
           it_hasPassword := truthy (fld login ''password''), it_hasNotes := truthy (fld it ''notes''),
           it_hasTotp := truthy (fld login ''totp''), it_totpKey := sfld login ''totp'', it_uris := loginUris login,
           it_reprompt := repromptValue (fld it ''reprompt''),
           it_attachments := parseAttachments (fld it ''attachments''),
           it_card := cardDetail (fld it ''card''), it_identity := identityDetail (fld it ''identity''),
           it_fields := itemCustomFields (fld it ''fields'') it, it_rawObject := it\<rparr>)))"

definition parseItemDetail :: "jsstr \<Rightarrow> item option" where
  "parseItemDetail raw = Option.bind (json_parse raw) itemDetailFromObject"

definition WITHHELD :: jsstr where "WITHHELD = [8226]"

definition has_secret :: "item \<Rightarrow> string \<Rightarrow> jsstr \<Rightarrow> bool" where
  \<comment> \<open>the local function \<^verbatim>\<open>has\<close> of \<open>publicItemDetail\<close>\<close>
  "has_secret src flag value =
     (let flags = (if is_object (it_heldFlags src) then it_heldFlags src else JObj [])
      in if fld flags flag \<noteq> JUndef then truthy (fld flags flag) else it_secretsHeld src \<or> value \<noteq> [])"

definition withheld_if :: "bool \<Rightarrow> jsstr" where
  "withheld_if b = (if b then WITHHELD else [])"

definition public_card :: "item \<Rightarrow> card \<Rightarrow> card" where
  "public_card src c = c\<lparr>card_number := withheld_if (card_number c \<noteq> []),
     code := withheld_if (has_secret src ''cardCode'' (code c))\<rparr>"

definition public_identity :: "item \<Rightarrow> identity \<Rightarrow> identity" where
  "public_identity src i =
     i\<lparr>ssn := withheld_if (has_secret src ''ssn'' (ssn i)),
       passportNumber := withheld_if (has_secret src ''passportNumber'' (passportNumber i)),
       licenseNumber := withheld_if (has_secret src ''licenseNumber'' (licenseNumber i))\<rparr>"

definition public_field :: "custom_field \<Rightarrow> custom_field" where
  "public_field f = f\<lparr>cf_value := (if cf_sensitive f then WITHHELD else cf_value f)\<rparr>"

definition publicItemDetail :: "item \<Rightarrow> item" where
  "publicItemDetail src = blank_item
     \<lparr>it_id := it_id src, it_organizationId := it_organizationId src,
      it_collectionIds := cap_list (it_collectionIds src), it_folderId := it_folderId src,
      it_name := or_text (it_name src) (js ''Untitled''), it_type := it_type src,
      it_typeCode := (if it_typeCode src \<noteq> NaN \<and> it_typeCode src \<noteq> Fin 0 then it_typeCode src else Fin 1),
      it_favorite := it_favorite src, it_username := it_username src,
      it_hasPassword := it_hasPassword src, it_hasNotes := (it_hasNotes src \<or> it_notes src \<noteq> []),
      it_hasTotp := it_hasTotp src, it_uris := cap_list (it_uris src), it_reprompt := it_reprompt src,
      it_attachments := cap_list (it_attachments src),
      it_card := map_option (public_card src) (it_card src),
      it_identity := map_option (public_identity src) (it_identity src),
      it_fields := map public_field (cap_list (it_fields src)), it_secretsWithheld := True\<rparr>"

definition last_field :: "jsnum \<Rightarrow> custom_field list \<Rightarrow> jsstr option \<Rightarrow> jsstr option" where
  \<comment> \<open>the loop over \<^verbatim>\<open>fields\<close>: the last field of that index wins\<close>
  "last_field i fs v = foldl (\<lambda>v f. if Fin (of_nat (cf_index f)) = i then Some (cf_value f) else v) v fs"

definition named_secret :: "item \<Rightarrow> jsstr \<Rightarrow> jsstr option" where
  \<comment> \<open>the table \<^verbatim>\<open>values\<close> of \<open>detailSecretValue\<close>\<close>
  "named_secret detail key =
     (if key = js ''password'' then Some (it_password detail)
      else if key = js ''notes'' then Some (it_notes detail)
      else if key = js ''cardNumber'' then map_option card_number (it_card detail)
      else if key = js ''cardCode'' then map_option code (it_card detail)
      else if key = js ''ssn'' then map_option ssn (it_identity detail)
      else if key = js ''passportNumber'' then map_option passportNumber (it_identity detail)
      else if key = js ''licenseNumber'' then map_option licenseNumber (it_identity detail)
      else None)"

definition detailSecretValue :: "item \<Rightarrow> jsstr \<Rightarrow> jsstr option" where
  "detailSecretValue detail key =
     (if starts_with (js ''customField:'') key
      then last_field (string_to_number (drop 12 key)) (cap_list (it_fields detail)) (named_secret detail key)
      else named_secret detail key)"

section \<open>Search and filters\<close>

definition has_text :: "jsstr \<Rightarrow> jsstr \<Rightarrow> bool" where
  \<comment> \<open>the local function \<^verbatim>\<open>has\<close> of \<open>matchesQuery\<close>\<close>
  "has_text q value \<longleftrightarrow> contains q (to_lower value)"

definition card_matches :: "jsstr \<Rightarrow> card \<Rightarrow> bool" where
  "card_matches q c \<longleftrightarrow> has_text q (brand c) \<or> has_text q (cardholderName c)
     \<or> (let digits = filter is_digit (card_number c); qd = filter is_digit q
        in 4 \<le> length digits \<and> contains qd (last_units 4 digits) \<and> qd \<noteq> [])"

definition identity_matches :: "jsstr \<Rightarrow> identity \<Rightarrow> bool" where
  "identity_matches q i \<longleftrightarrow> has_text q (identity_name i) \<or> has_text q (id_email i)
     \<or> has_text q (id_username i) \<or> has_text q (company i)"

definition matchesQuery :: "item \<Rightarrow> jsstr \<Rightarrow> bool" where
  "matchesQuery item query \<longleftrightarrow>
     (let q = trim (to_lower query) in
      q = []
      \<or> has_text q (it_name item) \<or> has_text q (it_username item)
      \<or> (it_reprompt item \<noteq> 1 \<and> has_text q (it_notes item))
      \<or> has_text q (it_publicKey item) \<or> has_text q (it_fingerprint item)
      \<or> (case it_card item of Some c \<Rightarrow> card_matches q c | None \<Rightarrow> False)
      \<or> (case it_identity item of Some i \<Rightarrow> identity_matches q i | None \<Rightarrow> False)
      \<or> list_ex (has_text q) (cap_list (it_uris item)))"

definition no_id :: "jsstr option \<Rightarrow> bool" where
  \<comment> \<open>\<^verbatim>\<open>!id\<close>\<close>
  "no_id i \<longleftrightarrow> i = None \<or> i = Some []"

definition matchesOrganizationFilter :: "item \<Rightarrow> jsstr \<Rightarrow> bool" where
  "matchesOrganizationFilter item org =
     (if org = js ''personal'' then no_id (it_organizationId item)
      else org = js ''all'' \<or> it_organizationId item = Some org)"

definition matchesFolderFilter :: "item \<Rightarrow> jsstr \<Rightarrow> bool" where
  "matchesFolderFilter item folder =
     (if folder = js ''none'' then no_id (it_folderId item)
      else folder = js ''all'' \<or> it_folderId item = Some folder)"

definition matchesCategoryFilter :: "item \<Rightarrow> jsstr \<Rightarrow> bool" where
  "matchesCategoryFilter item category =
     (if category = js ''favorite'' then it_favorite item
      else category = js ''all'' \<or> to_lower (it_type item) = to_lower category)"

definition filterItems :: "item list \<Rightarrow> jsstr \<Rightarrow> jsstr \<Rightarrow> jsstr \<Rightarrow> jsstr \<Rightarrow> item list" where
  "filterItems items query category selectedOrg selectedFolder =
     (let q = trim (to_lower query);
          cat = to_lower (or_text category (js ''all''));
          org = or_text selectedOrg (js ''all'');
          folder = or_text selectedFolder (js ''all'')
      in filter (\<lambda>it. matchesOrganizationFilter it org \<and> matchesFolderFilter it folder
                    \<and> matchesCategoryFilter it cat \<and> (q = [] \<or> matchesQuery it q)) items)"

definition MASK :: jsstr where "MASK = replicate 8 8226"

definition maskString :: "jsstr \<Rightarrow> jsstr" where
  "maskString str = (if str = [] then [] else MASK)"

section \<open>Order\<close>

lemma item_le_order:
  assumes "\<And>a b. collate a b \<le> 0 \<or> collate b a \<le> (0::int)"
    and "\<And>a b c. collate a b \<le> 0 \<Longrightarrow> collate b c \<le> 0 \<Longrightarrow> collate a c \<le> 0"
  shows "sort_order (item_le collate)"
  by unfold_locales (use assms in \<open>auto simp: item_le_def split: if_splits\<close>)

lemma replace_mset:
  assumes "length items \<le> 4096"
  shows "mset (replaceItemById collate items i r) =
    (if list_ex (\<lambda>it. it_id it = i) items
     then mset (concat (map (\<lambda>it. if it_id it = i then (case r of Some x \<Rightarrow> [x] | None \<Rightarrow> []) else [it]) items))
     else mset items + (case r of Some x \<Rightarrow> {#x#} | None \<Rightarrow> {#}))"
proof -
  have "concat (map (\<lambda>it. if it_id it = i then xs else [it]) items) = items"
    if "\<not> list_ex (\<lambda>it. it_id it = i) items" for xs
    using that by (induction items) auto
  with assms show ?thesis
    by (auto simp: replaceItemById_def Let_def cap_list_def MAX_LIST_ENTRIES_def split: option.splits)
qed

lemma concat_replace_one:
  assumes "distinct (map it_id items)" and "list_ex (\<lambda>it. it_id it = i) items"
  shows "mset (concat (map (\<lambda>it. if it_id it = i then xs else [it]) items))
    = mset (filter (\<lambda>it. it_id it \<noteq> i) items) + mset xs"
  using assms
proof (induction items)
  case (Cons it items)
  show ?case
  proof (cases "it_id it = i")
    case True
    then have "\<forall>x\<in>set items. it_id x \<noteq> i" using Cons.prems(1)
      by (metis distinct.simps(2) image_eqI list.set_map list.simps(9))
    then have "concat (map (\<lambda>it. if it_id it = i then xs else [it]) items) = items"
      "filter (\<lambda>it. it_id it \<noteq> i) items = items" by (induction items) auto
    with True show ?thesis by simp
  next
    case False
    with Cons show ?thesis by simp
  qed
qed simp

section \<open>Properties\<close>

text \<open>
  Two items that differ only in secret values, with the same secrets present: the password,
  the authenticator key and the stored object; the notes; a card's number and code; an
  identity's three numbers; and the values of sensitive custom fields.
\<close>

definition same_presence :: "jsstr \<Rightarrow> jsstr \<Rightarrow> bool" where
  "same_presence a b \<longleftrightarrow> (a = []) = (b = [])"

definition same_card :: "card \<Rightarrow> card \<Rightarrow> bool" where
  "same_card c d \<longleftrightarrow> d = c\<lparr>card_number := card_number d, code := code d\<rparr>
     \<and> same_presence (card_number c) (card_number d) \<and> same_presence (code c) (code d)"

definition same_identity :: "identity \<Rightarrow> identity \<Rightarrow> bool" where
  "same_identity i j \<longleftrightarrow>
     j = i\<lparr>ssn := ssn j, passportNumber := passportNumber j, licenseNumber := licenseNumber j\<rparr>
     \<and> same_presence (ssn i) (ssn j) \<and> same_presence (passportNumber i) (passportNumber j)
     \<and> same_presence (licenseNumber i) (licenseNumber j)"

definition same_field :: "custom_field \<Rightarrow> custom_field \<Rightarrow> bool" where
  "same_field f g \<longleftrightarrow> g = f\<lparr>cf_value := cf_value g\<rparr> \<and> (cf_sensitive f \<or> cf_value g = cf_value f)"

definition same_public :: "item \<Rightarrow> item \<Rightarrow> bool" where
  "same_public a b \<longleftrightarrow>
     b = a\<lparr>it_password := it_password b, it_totpKey := it_totpKey b, it_rawObject := it_rawObject b,
           it_notes := it_notes b, it_card := it_card b, it_identity := it_identity b, it_fields := it_fields b\<rparr>
     \<and> same_presence (it_notes a) (it_notes b)
     \<and> rel_option same_card (it_card a) (it_card b)
     \<and> rel_option same_identity (it_identity a) (it_identity b)
     \<and> list_all2 same_field (it_fields a) (it_fields b)"

lemma has_secret_cong:
  assumes "it_heldFlags b = it_heldFlags a" and "it_secretsHeld b = it_secretsHeld a" and "same_presence v w"
  shows "has_secret b f w = has_secret a f v"
  using assms by (auto simp: has_secret_def same_presence_def)

lemma public_card_cong:
  assumes "it_heldFlags b = it_heldFlags a" and "it_secretsHeld b = it_secretsHeld a" and "same_card c d"
  shows "public_card b d = public_card a c"
proof -
  have "has_secret b ''cardCode'' (code d) = has_secret a ''cardCode'' (code c)"
    using assms has_secret_cong by (simp add: same_card_def)
  with assms(3) show ?thesis
    by (cases c; cases d) (simp add: public_card_def same_card_def same_presence_def)
qed

lemma public_identity_cong:
  assumes "it_heldFlags b = it_heldFlags a" and "it_secretsHeld b = it_secretsHeld a" and "same_identity i j"
  shows "public_identity b j = public_identity a i"
proof -
  have "has_secret b ''ssn'' (ssn j) = has_secret a ''ssn'' (ssn i)"
    "has_secret b ''passportNumber'' (passportNumber j) = has_secret a ''passportNumber'' (passportNumber i)"
    "has_secret b ''licenseNumber'' (licenseNumber j) = has_secret a ''licenseNumber'' (licenseNumber i)"
    using assms has_secret_cong by (simp_all add: same_identity_def)
  with assms(3) show ?thesis
    by (cases i; cases j) (simp add: public_identity_def same_identity_def same_presence_def)
qed

lemma public_field_cong: "same_field f g \<Longrightarrow> public_field g = public_field f"
  by (cases f; cases g) (auto simp: same_field_def public_field_def)

lemma public_fields_cong: "list_all2 same_field fs gs \<Longrightarrow> map public_field gs = map public_field fs"
  by (induction rule: list_all2_induct) (simp_all add: public_field_cong)

text \<open>
  C10: The view of an item without its secrets says nothing about them but which there are:
  two items that differ only in the values of secrets, with the same secrets present, have the
  same public view.
\<close>

theorem public_detail_hides_secrets:
  assumes "same_public a b"
  shows "publicItemDetail b = publicItemDetail a"
proof -
  have held: "it_heldFlags b = it_heldFlags a" "it_secretsHeld b = it_secretsHeld a"
    using assms by (cases a; cases b; simp add: same_public_def)+
  have "map_option (public_card b) (it_card b) = map_option (public_card a) (it_card a)"
    using assms public_card_cong [OF held] by (auto simp: same_public_def elim!: option.rel_cases)
  moreover have "map_option (public_identity b) (it_identity b) = map_option (public_identity a) (it_identity a)"
    using assms public_identity_cong [OF held] by (auto simp: same_public_def elim!: option.rel_cases)
  moreover have "map public_field (cap_list (it_fields b)) = map public_field (cap_list (it_fields a))"
    using assms by (simp add: same_public_def cap_list_def public_fields_cong)
  ultimately show ?thesis
    using assms by (cases a; cases b) (simp add: publicItemDetail_def same_public_def same_presence_def)
qed

lemma last_field_cases:
  "last_field i fs v = Some x \<Longrightarrow> v = Some x \<or> (\<exists>f\<in>set fs. x = cf_value f)"
  by (induction fs arbitrary: v) (auto simp: last_field_def split: if_splits)

lemma named_secret_public: "named_secret (publicItemDetail src) key \<in> {None, Some [], Some WITHHELD}"
proof -
  let ?d = "publicItemDetail src"
  have "it_password ?d = []" "it_notes ?d = []"
    "map_option card_number (it_card ?d) \<in> {None, Some [], Some WITHHELD}"
    "map_option code (it_card ?d) \<in> {None, Some [], Some WITHHELD}"
    "map_option ssn (it_identity ?d) \<in> {None, Some [], Some WITHHELD}"
    "map_option passportNumber (it_identity ?d) \<in> {None, Some [], Some WITHHELD}"
    "map_option licenseNumber (it_identity ?d) \<in> {None, Some [], Some WITHHELD}"
    by (cases "it_card src"; cases "it_identity src";
        simp add: publicItemDetail_def blank_item_def public_card_def public_identity_def withheld_if_def)+
  then show ?thesis unfolding named_secret_def by (simp split: if_splits)
qed

text \<open>
  Nothing secret can be read out of a public view: whatever key is asked for, the value
  found there is absent, empty, the placeholder, or that of a custom field that is not
  sensitive.
\<close>

theorem public_detail_has_no_secret:
  "case detailSecretValue (publicItemDetail src) key of
     None \<Rightarrow> True
   | Some v \<Rightarrow> v = [] \<or> v = WITHHELD \<or> (\<exists>f\<in>set (it_fields src). \<not> cf_sensitive f \<and> v = cf_value f)"
proof (cases "detailSecretValue (publicItemDetail src) key")
  case (Some v)
  let ?d = "publicItemDetail src"
  have f: "\<exists>g\<in>set (it_fields src). f = public_field g" if "f \<in> set (cap_list (it_fields ?d))" for f
    using that by (auto simp: publicItemDetail_def cap_list_def dest!: in_set_takeD)
  have "v = [] \<or> v = WITHHELD \<or> (\<exists>f\<in>set (cap_list (it_fields ?d)). v = cf_value f)"
    using Some named_secret_public [of src key] unfolding detailSecretValue_def
    by (auto split: if_splits dest!: last_field_cases)
  then have "v = [] \<or> v = WITHHELD \<or> (\<exists>f\<in>set (it_fields src). \<not> cf_sensitive f \<and> v = cf_value f)"
    by (auto dest!: f simp: public_field_def split: if_splits)
  with Some show ?thesis by simp
qed simp

text \<open>
  Searching reveals only what rows show: the result does not depend on the password, the
  authenticator key, a card's code, an identity's numbers or the custom fields; not on the
  notes of an item that asks for the master password; and on a card number only through its
  last four digits.
\<close>

theorem search_ignores_secrets:
  assumes "it_card item = Some c" and "it_identity item = Some i"
    and "length (filter is_digit n) = length (filter is_digit (card_number c))"
    and "last_units 4 (filter is_digit n) = last_units 4 (filter is_digit (card_number c))"
  shows "matchesQuery (item\<lparr>it_password := p, it_totpKey := t, it_fields := fs,
        it_notes := (if it_reprompt item = 1 then nt else it_notes item),
        it_card := Some (c\<lparr>card_number := n, code := cc\<rparr>),
        it_identity := Some (i\<lparr>ssn := s, passportNumber := pn, licenseNumber := lic\<rparr>)\<rparr>) query
    = matchesQuery item query"
  using assms
  by (auto simp: matchesQuery_def Let_def card_matches_def identity_matches_def identity_name_def)

text \<open>
  The filtered list is the sublist, in order, of the items that lie in the selected
  organization and folder and category and match the query as typed; an empty selection means
  all.
\<close>

theorem filter_items_spec:
  "filterItems items query category org folder =
     filter (\<lambda>it. matchesOrganizationFilter it (if org = [] then js ''all'' else org)
        \<and> matchesFolderFilter it (if folder = [] then js ''all'' else folder)
        \<and> matchesCategoryFilter it (if category = [] then js ''all'' else to_lower category)
        \<and> matchesQuery it query) items"
proof -
  have "to_lower (js ''all'') = js ''all''" by (simp add: js_def to_lower_def lower_unit_def)
  moreover have "matchesQuery it (trim (to_lower query)) = matchesQuery it query" for it
    by (simp add: matchesQuery_def trim_to_lower)
  moreover have "trim (to_lower query) = [] \<Longrightarrow> matchesQuery it query" for it
    by (simp add: matchesQuery_def)
  ultimately show ?thesis
    by (auto simp: filterItems_def Let_def or_text_def intro!: filter_cong)
qed

text \<open>
  Putting a saved item into a list of at most 4096 items with different ids replaces the
  item with that id, or adds it, and changes nothing else; removing drops exactly that item;
  and the list stays sorted, favorites first, then by name.
\<close>

theorem replace_item_exact:
  assumes "length items \<le> 4096" and "distinct (map it_id items)"
    and "\<And>a b. collate a b \<le> 0 \<or> collate b a \<le> (0::int)"
    and "\<And>a b c. collate a b \<le> 0 \<Longrightarrow> collate b c \<le> 0 \<Longrightarrow> collate a c \<le> 0"
  shows "mset (replaceItemById collate items i r)
      = mset (filter (\<lambda>it. it_id it \<noteq> i) items) + (case r of Some x \<Rightarrow> {#x#} | None \<Rightarrow> {#})
    \<and> sorted_wrt (item_le collate) (replaceItemById collate items i r)"
proof
  have "filter (\<lambda>it. it_id it \<noteq> i) items = items" if "\<not> list_ex (\<lambda>it. it_id it = i) items"
    using that by (induction items) auto
  then show "mset (replaceItemById collate items i r)
      = mset (filter (\<lambda>it. it_id it \<noteq> i) items) + (case r of Some x \<Rightarrow> {#x#} | None \<Rightarrow> {#})"
    unfolding replace_mset [OF assms(1)] using concat_replace_one [OF assms(2)]
    by (auto split: option.splits simp del: mset_filter)
  show "sorted_wrt (item_le collate) (replaceItemById collate items i r)"
    using sort_order.sorted_sort_by [OF item_le_order [OF assms(3,4)]] by (simp add: replaceItemById_def Let_def)
qed

text \<open>
  A list longer than 4096 items is cut to its first 4096 when an item is put into it or
  removed from it: the other rows disappear from the list until the vault is read again.
\<close>

theorem replace_item_truncates:
  assumes "4096 < length items" and "\<forall>it\<in>set (take 4096 items). it_id it \<noteq> i"
  shows "mset (replaceItemById collate items i (Some r)) = mset (take 4096 items) + {#r#}
    \<and> length (replaceItemById collate items i (Some r)) = 4097"
proof -
  have "concat (map (\<lambda>it. if it_id it = i then [r] else [it]) xs) = xs" if "\<forall>it\<in>set xs. it_id it \<noteq> i" for xs
    using that by (induction xs) auto
  moreover have "\<not> list_ex (\<lambda>it. it_id it = i) (take 4096 items)" using assms(2) by (simp add: list_ex_iff)
  ultimately have "mset (replaceItemById collate items i (Some r)) = mset (take 4096 items) + {#r#}"
    using assms by (simp add: replaceItemById_def Let_def cap_list_def MAX_LIST_ENTRIES_def)
  moreover from this have "length (replaceItemById collate items i (Some r)) = size (mset (take 4096 items) + {#r#})"
    by (metis size_mset)
  ultimately show ?thesis using assms(1) by simp
qed

text \<open>
  The row of an SSH key depends only on the public properties of the item: adding or
  changing any other property of the item, or any property of its key object but the public
  key and the fingerprint (such as the private key), leaves the row as it is.
\<close>

theorem ssh_row_ignores_private_key:
  assumes "k \<notin> set (map js [''id'', ''organizationId'', ''collectionIds'', ''folderId'', ''name'', ''favorite'',
      ''reprompt'', ''sshKey'', ''publicKey'', ''fingerprint'', ''keyFingerprint''])"
    and "j \<notin> set (map js [''publicKey'', ''fingerprint'', ''keyFingerprint''])"
  shows "ssh_row (JObj (obj_put (obj_put ps (js ''sshKey'') (JObj (obj_put ks j w))) k v))
    = ssh_row (JObj (obj_put ps (js ''sshKey'') (JObj ks)))"
proof -
  let ?L = "JObj (obj_put (obj_put ps (js ''sshKey'') (JObj (obj_put ks j w))) k v)"
  let ?R = "JObj (obj_put ps (js ''sshKey'') (JObj ks))"
  have props: "fld ?L ''id'' = fld ?R ''id''" "fld ?L ''organizationId'' = fld ?R ''organizationId''"
    "fld ?L ''collectionIds'' = fld ?R ''collectionIds''" "fld ?L ''folderId'' = fld ?R ''folderId''"
    "fld ?L ''name'' = fld ?R ''name''" "fld ?L ''favorite'' = fld ?R ''favorite''"
    "fld ?L ''reprompt'' = fld ?R ''reprompt''" "fld ?L ''publicKey'' = fld ?R ''publicKey''"
    "fld ?L ''fingerprint'' = fld ?R ''fingerprint''" "fld ?L ''keyFingerprint'' = fld ?R ''keyFingerprint''"
    using assms(1) by auto
  have "part_of ?L ''sshKey'' = JObj (obj_put ks j w)" "part_of ?R ''sshKey'' = JObj ks"
    using assms(1) by (auto simp: part_of_def js_or_def)
  then have key: "fld (part_of ?L ''sshKey'') ''publicKey'' = fld (part_of ?R ''sshKey'') ''publicKey''"
    "fld (part_of ?L ''sshKey'') ''fingerprint'' = fld (part_of ?R ''sshKey'') ''fingerprint''"
    "fld (part_of ?L ''sshKey'') ''keyFingerprint'' = fld (part_of ?R ''sshKey'') ''keyFingerprint''"
    using assms(2) by auto
  show ?thesis
    unfolding ssh_row_def ssh_raw_def ssh_public_key_def ssh_fingerprint_def Let_def props key ..
qed

text \<open>
  A saved item that comes back as an SSH key is never put into the list: its row is
  counted twice, so the list has to be read again.
\<close>

theorem splice_refuses_ssh_keys:
  assumes "parseSanitizedEnvelope collate raw = Some e" and "env_sshKeys e \<noteq> []"
  shows "spliceSavedItem collate items raw replacing = None"
proof -
  have "set (env_sshKeys e) \<subseteq> set (env_items e)"
    using assms(1) by (auto simp: parseSanitizedEnvelope_def Let_def split: option.splits jsval.splits bool.splits if_splits)
  with assms(2) have "env_items e \<noteq> []" by auto
  with assms show ?thesis by (cases "env_items e"; cases "env_sshKeys e") (auto simp: spliceSavedItem_def split: list.splits)
qed

subsection \<open>Concrete items\<close>

definition demo_card :: card where
  "demo_card = \<lparr>cardholderName = js ''Ann'', brand = js ''Visa'', card_number = js ''4111222233334444'',
     expMonth = js ''1'', expYear = js ''2030'', code = js ''123''\<rparr>"

definition demo_identity :: identity where
  "demo_identity = \<lparr>id_title = [], firstName = js ''Ann'', middleName = [], lastName = js ''Lee'', id_username = [],
     company = [], id_email = [], phone = [], ssn = js ''078-05-1120'', passportNumber = [], licenseNumber = [],
     address1 = [], address2 = [], address3 = [], city = [], state = [], postalCode = [], country = []\<rparr>"

definition demo_item :: item where
  "demo_item = blank_item\<lparr>it_id := js ''a'', it_name := js ''Bank'', it_password := js ''hunter2'',
     it_hasPassword := True, it_notes := js ''pin 1234'', it_reprompt := 1, it_card := Some demo_card,
     it_identity := Some demo_identity\<rparr>"

theorem public_detail_hides_secrets_witness:
  "publicItemDetail (demo_item\<lparr>it_password := js ''other'', it_notes := js ''else''\<rparr>) = publicItemDetail demo_item"
  by (rule public_detail_hides_secrets)
    (simp add: same_public_def same_presence_def demo_item_def same_card_def same_identity_def option.rel_refl
      list_all2_same blank_item_def)

theorem search_ignores_secrets_witness:
  "matchesQuery (demo_item\<lparr>it_password := [], it_totpKey := [], it_fields := [], it_notes := js ''nothing'',
      it_card := Some (demo_card\<lparr>card_number := js ''5500999988884444'', code := []\<rparr>),
      it_identity := Some (demo_identity\<lparr>ssn := [], passportNumber := [], licenseNumber := []\<rparr>)\<rparr>) (js ''1234'')
   = matchesQuery demo_item (js ''1234'')"
proof -
  have "length (filter is_digit (js ''5500999988884444'')) = length (filter is_digit (card_number demo_card))"
    "last_units 4 (filter is_digit (js ''5500999988884444'')) = last_units 4 (filter is_digit (card_number demo_card))"
    "it_card demo_item = Some demo_card" "it_identity demo_item = Some demo_identity" "it_reprompt demo_item = 1"
    by code_simp+
  then show ?thesis
    using search_ignores_secrets [where item = demo_item and c = demo_card and i = demo_identity
        and n = "js ''5500999988884444''" and query = "js ''1234''" and p = "[]" and t = "[]" and fs = "[]" and nt = "js ''nothing''" and cc = "[]" and s = "[]"
        and pn = "[]" and lic = "[]"] by simp
qed

definition demo_collate :: collate where
  "demo_collate a b = (if str_less a b then -1 else if a = b then 0 else 1)"

theorem replace_item_exact_witness:
  "mset (replaceItemById demo_collate [demo_item] (js ''a'') None) = {#}"
proof -
  have "demo_collate a b \<le> 0 \<or> demo_collate b a \<le> 0" for a b
    using str_less_linear [of a b] by (auto simp: demo_collate_def)
  moreover have "demo_collate a b \<le> 0 \<Longrightarrow> demo_collate b c \<le> 0 \<Longrightarrow> demo_collate a c \<le> 0" for a b c
    using str_less_trans [of a b c] by (auto simp: demo_collate_def split: if_splits)
  ultimately show ?thesis
    using replace_item_exact [of "[demo_item]" demo_collate "js ''a''" None] by (simp add: demo_item_def)
qed

theorem replace_item_truncates_witness:
  "length (replaceItemById demo_collate (replicate 5000 demo_item) (js ''b'') (Some demo_item)) = 4097"
proof -
  have "it_id demo_item \<noteq> js ''b''" by (simp add: demo_item_def js_def)
  then show ?thesis
    using replace_item_truncates [of "replicate 5000 demo_item" "js ''b''" demo_collate demo_item] by simp
qed

theorem ssh_row_ignores_private_key_witness:
  "ssh_row (JObj (obj_put (obj_put [] (js ''sshKey'') (JObj (obj_put [] (js ''privateKey'') (JStr (js ''PEM'')))))
      (js ''secret'') JNull)) = ssh_row (JObj (obj_put [] (js ''sshKey'') (JObj [])))"
  by (rule ssh_row_ignores_private_key) simp_all

definition demo_envelope :: jsval where
  "demo_envelope = JObj [(js ''items'', JArr []), (js ''sshKeys'', JArr [JObj [(js ''id'', JStr (js ''k1''))]])]"

lemma plain_demo_envelope: "plain demo_envelope"
  unfolding demo_envelope_def by (rule plain_JObj_names) (auto simp: is_digit_def intro!: plain_JObj_names simp del: plain.simps(7))

lemma demo_envelope_keys:
  "map_option (length \<circ> env_sshKeys) (parseSanitizedEnvelope demo_collate (json_str demo_envelope)) = Some 1"
  unfolding parseSanitizedEnvelope_def json_parse_stringify [OF plain_demo_envelope]
  by (simp add: demo_envelope_def obj_get_def Let_def parseSshKeys_def)

theorem splice_refuses_ssh_keys_witness: "spliceSavedItem demo_collate [] (json_str demo_envelope) [] = None"
proof -
  obtain e where e: "parseSanitizedEnvelope demo_collate (json_str demo_envelope) = Some e"
    and "length (env_sshKeys e) = 1"
    using demo_envelope_keys by (auto simp: comp_def)
  then have "env_sshKeys e \<noteq> []" by auto
  with e show ?thesis by (rule splice_refuses_ssh_keys)
qed

end
