(* ===== verification/Edit.thy ===== *)
theory Edit
  imports Items
begin

text \<open>
  The create and edit forms of \<^verbatim>\<open>BitwardenModel.js\<close>: how what the user typed is written over the
  stored item. Whatever the form did not change is written back as it was stored; every
  website but the edited one, and every match rule, is kept; custom fields survive the form.

  Objects are built by assignment (\<open>obj_put\<close>), so a property that is assigned again keeps its
  place. Assigning a property of something that is not an object has no effect.

  The edit form itself is filled by \<^verbatim>\<open>Service.qml\<close>; that part of it is modelled here too.
\<close>

section \<open>Forms\<close>

record form =
  f_name :: jsval
  f_username :: jsval
  f_password :: jsval
  f_totp :: jsval
  f_uri :: jsval
  f_notes :: jsval
  f_favorite :: jsval
  f_organizationId :: jsval
  f_folderId :: jsval
  f_collectionIds :: jsval
  f_typeFields :: jsval
  f_customFields :: jsval

fun set_prop :: "jsval \<Rightarrow> jsstr \<Rightarrow> jsval \<Rightarrow> jsval" where
  "set_prop (JObj ps) k v = JObj (obj_put ps k v)"
| "set_prop x k v = x"


definition validateItemForm :: "jsval \<Rightarrow> jsval \<Rightarrow> jsval \<Rightarrow> jsval \<Rightarrow> jsstr" where
  "validateItemForm name organizationId collectionIds customFields =
     (if trim (str_or name []) = [] then js ''Item title is required''
      else if truthy organizationId \<and> organizationId \<noteq> JStr (js ''personal'') \<and> organizationId \<noteq> JStr (js ''all'')
           \<and> (case collectionIds of JArr xs \<Rightarrow> xs = [] | _ \<Rightarrow> True)
      then js ''Pick at least one collection for an organization item''
      else case find (\<lambda>(i, f). \<not> truthy f \<or> trim (str_or (fld f ''name'') []) = [])
                  (List.enumerate 0 (toList customFields)) of
        Some (i, f) \<Rightarrow> js ''Custom field '' @ nat_to_str (i + 1) @ js '' needs a label''
      | None \<Rightarrow> [])"

definition selectedOrganizationId :: "jsval \<Rightarrow> jsval" where
  "selectedOrganizationId organizationId =
     (if \<not> truthy organizationId \<or> organizationId = JStr (js ''personal'') \<or> organizationId = JStr (js ''all'')
      then JNull else JStr (to_str organizationId))"

definition selectedFolderId :: "jsval \<Rightarrow> jsval" where
  "selectedFolderId folderId =
     (if \<not> truthy folderId \<or> folderId = JStr (js ''all'') \<or> folderId = JStr (js ''none'')
      then JNull else JStr (to_str folderId))"

definition selectedCollectionIds :: "jsval \<Rightarrow> jsval" where
  "selectedCollectionIds collectionIds =
     (case collectionIds of JArr xs \<Rightarrow> if xs = [] then JNull else collectionIds | _ \<Rightarrow> JNull)"

definition formValue :: "jsval \<Rightarrow> jsval \<Rightarrow> (jsstr \<Rightarrow> jsval) \<Rightarrow> jsval" where
  "formValue stored typed clean =
     (if text_of typed = text_of stored then (if stored = JUndef then JStr (text_of typed) else stored)
      else clean (text_of typed))"

definition trimmedText :: "jsstr \<Rightarrow> jsval" where
  "trimmedText value = JStr (trim value)"

definition trimmedOrNull :: "jsstr \<Rightarrow> jsval" where
  "trimmedOrNull value = (if trim value \<noteq> [] then JStr (trim value) else JNull)"

definition update_prop :: "string \<Rightarrow> jsval \<Rightarrow> (jsstr \<Rightarrow> jsval) \<Rightarrow> jsval \<Rightarrow> jsval" where
  \<comment> \<open>\<^verbatim>\<open>o[k] = formValue(o[k], typed, clean)\<close>\<close>
  "update_prop k typed clean obj = set_prop obj (js k) (formValue (fld obj k) typed clean)"

definition updateLoginFields :: "jsval \<Rightarrow> jsval \<Rightarrow> jsval \<Rightarrow> jsval \<Rightarrow> jsval" where
  "updateLoginFields login username password totp =
     update_prop ''totp'' totp trimmedOrNull
       (update_prop ''password'' password JStr (update_prop ''username'' username trimmedText login))"

definition copy_obj :: "jsval \<Rightarrow> jsval" where
  \<comment> \<open>\<^verbatim>\<open>for (var k in first) replaced[k] = first[k]\<close>\<close>
  "copy_obj v = (case v of JObj ps \<Rightarrow> JObj ps
                 | JArr xs \<Rightarrow> JObj (map (\<lambda>(i, x). (nat_to_str i, x)) (List.enumerate 0 xs)) | _ \<Rightarrow> JObj [])"

definition editedUris :: "jsval \<Rightarrow> jsval \<Rightarrow> jsval" where
  "editedUris stored typed =
     (let text = text_of typed; kept = filter is_object (toList stored)
      in case kept of
           [] \<Rightarrow> (if trim text = [] then (if stored = JUndef then JArr [] else stored)
                  else JArr [JObj [(js ''match'', JNull), (js ''uri'', JStr (trim text))]])
         | first # rest \<Rightarrow>
             (if text = text_of (fld first ''uri'') then JArr kept
              else if trim text = [] then JArr rest
              else JArr (set_prop (set_prop (copy_obj first) (js ''match'')
                           (if fld first ''match'' = JUndef then JNull else fld first ''match''))
                           (js ''uri'') (JStr (trim text)) # rest)))"

definition card_keys :: "string list" where
  "card_keys = [''cardholderName'', ''brand'', ''number'', ''expMonth'', ''expYear'', ''code'']"

definition identity_keys :: "string list" where
  "identity_keys = [''title'', ''firstName'', ''middleName'', ''lastName'', ''username'',
     ''company'', ''email'', ''phone'', ''ssn'', ''passportNumber'', ''licenseNumber'', ''address1'', ''address2'', ''address3'',
     ''city'', ''state'', ''postalCode'', ''country'']"

definition update_fields :: "string list \<Rightarrow> jsval \<Rightarrow> jsval \<Rightarrow> jsval" where
  "update_fields keys obj fs =
     (let f = js_or fs (JObj []) in foldl (\<lambda>o' k. update_prop k (fld f k) trimmedText o') obj keys)"

definition updateCardFields :: "jsval \<Rightarrow> jsval \<Rightarrow> jsval" where
  "updateCardFields crd fs = update_fields card_keys crd fs"

definition updateIdentityFields :: "jsval \<Rightarrow> jsval \<Rightarrow> jsval" where
  "updateIdentityFields idn fs = update_fields identity_keys idn fs"

definition field_type :: "jsval \<Rightarrow> jsnum" where
  "field_type v =
     (let ty = to_num v in if num_lt ty (Fin 0) \<or> num_lt (Fin 3) ty \<or> ty = NaN then Fin 0 else ty)"

definition field_payload :: "jsval \<Rightarrow> jsval" where
  "field_payload field =
     (let ty = field_type (fld field ''type'');
          base = [(js ''name'', JStr (to_str (fld field ''name''))), (js ''type'', JNum ty)]
      in if ty = Fin 3 then
           JObj (base @ [(js ''value'', JNull)]
             @ (if nullish (fld field ''linkedId'') then []
                else [(js ''linkedId'', JNum (to_num (fld field ''linkedId'')))]))
         else if ty = Fin 2 then
           JObj (base @ [(js ''value'', JStr (if fld field ''value'' = JBool True
                              \<or> to_lower (to_str (fld field ''value'')) = js ''true''
                            then js ''true'' else js ''false''))])
         else JObj (base @ [(js ''value'', JStr (text_of (fld field ''value'')))]))"

definition customFieldsPayload :: "jsval \<Rightarrow> jsval" where
  "customFieldsPayload fs =
     JArr (map field_payload
       (filter (\<lambda>f. truthy f \<and> trim (str_or (fld f ''name'') []) \<noteq> []) (toList fs)))"

section \<open>Payloads\<close>

definition with_custom_fields :: "form \<Rightarrow> jsval \<Rightarrow> jsval" where
  "with_custom_fields f p =
     (if f_customFields f \<noteq> JUndef then set_prop p (js ''fields'') (customFieldsPayload (f_customFields f)) else p)"

definition create_base :: "jsval \<Rightarrow> form \<Rightarrow> (jsstr \<times> jsval) list" where
  \<comment> \<open>the properties every new item has; an organization item also the chosen collections\<close>
  "create_base typeCode f =
     (let org = selectedOrganizationId (f_organizationId f); collections = selectedCollectionIds (f_collectionIds f)
      in [(js ''type'', JNum (type_code typeCode)),
          (js ''name'', JStr (trim (str_or (f_name f) (js ''Untitled'')))),
          (js ''notes'', JStr (text_of (f_notes f))),
          (js ''favorite'', JBool (truthy (f_favorite f))),
          (js ''organizationId'', org), (js ''folderId'', selectedFolderId (f_folderId f))]
         @ (if truthy org \<and> truthy collections then [(js ''collectionIds'', collections)] else []))"

definition create_login :: "form \<Rightarrow> jsval" where
  "create_login f =
     set_prop (updateLoginFields (JObj []) (f_username f) (f_password f) (f_totp f))
       (js ''uris'') (editedUris JUndef (f_uri f))"

definition buildCreatePayload :: "jsval \<Rightarrow> form \<Rightarrow> jsval option" where
  "buildCreatePayload typeCode f =
     (if to_num typeCode = Fin 5 then None
      else
        (let p = JObj (create_base typeCode f);
             q = (if to_num typeCode = Fin 1 then set_prop p (js ''login'') (create_login f)
                  else if to_num typeCode = Fin 2 then set_prop p (js ''secureNote'') (JObj [(js ''type'', jint 0)])
                  else if to_num typeCode = Fin 3 then
                    set_prop p (js ''card'') (updateCardFields (JObj []) (f_typeFields f))
                  else if to_num typeCode = Fin 4 then
                    set_prop p (js ''identity'') (updateIdentityFields (JObj []) (f_typeFields f))
                  else p)
         in Some (with_custom_fields f q)))"

definition json_clone :: "jsval \<Rightarrow> jsval" where
  \<comment> \<open>\<^verbatim>\<open>JSON.parse(JSON.stringify(v))\<close>; what was written always parses\<close>
  "json_clone v = (case json_parse (json_str v) of Some w \<Rightarrow> w | None \<Rightarrow> v)"








definition optimisticItem :: "collate \<Rightarrow> jsval \<Rightarrow> jsval \<Rightarrow> item option" where
  "optimisticItem collate payload itemId =
     (if \<not> truthy payload then None
      else
        (let draft = set_prop (set_prop (json_clone payload) (js ''id'') (JStr (str_or itemId []))) (js ''object'') (JStr (js ''item''))
         in case parseItems collate [draft] of [x] \<Rightarrow> Some (x\<lparr>it_pending := True\<rparr>) | _ \<Rightarrow> None))"

definition field_json :: "custom_field \<Rightarrow> jsval" where
  \<comment> \<open>a custom field as the form holds it\<close>
  "field_json f = JObj [(js ''name'', JStr (cf_name f)), (js ''index'', JNum (Fin (of_nat (cf_index f)))),
     (js ''value'', JStr (cf_value f)), (js ''type'', JNum (cf_type f)),
     (js ''linkedId'', case cf_linkedId f of None \<Rightarrow> JNull | Some n \<Rightarrow> JNum n), (js ''sensitive'', JBool (cf_sensitive f))]"

section \<open>The form of a stored item\<close>








section \<open>Lookups in what was written\<close>

lemma obj_get_del [simp]:
  "obj_get (filter (\<lambda>(j, v). j \<noteq> k) ps) i = (if i = k then JUndef else obj_get ps i)"
proof -
  have "map_of (filter (\<lambda>(j, v). j \<noteq> k) ps) i = (if i = k then None else map_of ps i)"
    by (induction ps) auto
  then show ?thesis by (simp add: obj_get_def)
qed

lemma update_prop_JObj: "update_prop k t c (JObj ps) = JObj (obj_put ps (js k) (formValue (obj_get ps (js k)) t c))"
  by (simp add: update_prop_def)












definition stored_field :: "jsval \<Rightarrow> bool" where
  \<comment> \<open>a custom field as Bitwarden clients store it\<close>
  "stored_field v \<longleftrightarrow> truthy v
     \<and> (\<exists>n. fld v ''name'' = JStr n \<and> trim n \<noteq> [])
     \<and> ((fld v ''type'' \<in> {jint 0, jint 1} \<and> is_string (fld v ''value''))
        \<or> (fld v ''type'' = jint 2 \<and> fld v ''value'' \<in> {JStr (js ''true''), JStr (js ''false'')})
        \<or> (fld v ''type'' = jint 3 \<and> fld v ''value'' = JNull \<and> (\<exists>k. fld v ''linkedId'' = JNum k)))"

definition same_stored :: "jsval \<Rightarrow> jsval \<Rightarrow> bool" where
  "same_stored v w \<longleftrightarrow> fld w ''name'' = fld v ''name'' \<and> fld w ''type'' = fld v ''type'' \<and> fld w ''value'' = fld v ''value''
     \<and> (fld v ''type'' = jint 3 \<longrightarrow> fld w ''linkedId'' = fld v ''linkedId'')"

lemma field_json_props [simp]:
  "fld (field_json f) ''name'' = JStr (cf_name f)"
  "fld (field_json f) ''value'' = JStr (cf_value f)"
  "fld (field_json f) ''type'' = JNum (cf_type f)"
  "fld (field_json f) ''linkedId'' = (case cf_linkedId f of None \<Rightarrow> JNull | Some n \<Rightarrow> JNum n)"
  by (simp_all add: field_json_def obj_get_def)

lemma trim_not_Nil: "trim n \<noteq> [] \<Longrightarrow> n \<noteq> []"
  by auto

lemma field_payload_stored:
  assumes "stored_field v"
  shows "same_stored v (field_payload (field_json (custom_field_of item (i, v))))"
proof -
  let ?c = "custom_field_of item (i, v)"
  obtain n where n: "fld v ''name'' = JStr n" "n \<noteq> []" using assms trim_not_Nil by (auto simp: stored_field_def)
  then have name: "cf_name ?c = n" by (simp add: custom_field_of_def Let_def)
  from assms consider (words) t x where "t \<in> {0, 1}" "fld v ''type'' = JNum (Fin t)" "fld v ''value'' = JStr x"
    | (bool) x where "fld v ''type'' = JNum (Fin 2)" "fld v ''value'' = JStr x" "x \<in> {js ''true'', js ''false''}"
    | (linked) k where "fld v ''type'' = JNum (Fin 3)" "fld v ''value'' = JNull" "fld v ''linkedId'' = JNum k"
    by (auto simp: stored_field_def is_string_iff)
  then show ?thesis
  proof cases
    case words
    then have "cf_type ?c = Fin t" "cf_value ?c = x" by (auto simp: custom_field_of_def Let_def)
    with words n name show ?thesis
      by (auto simp: same_stored_def field_payload_def field_type_def Let_def obj_get_def)
  next
    case bool
    then have "cf_type ?c = Fin 2" "cf_value ?c = x" by (auto simp: custom_field_of_def Let_def)
    moreover have "to_lower (js ''true'') = js ''true''" "to_lower (js ''false'') = js ''false''"
      by (simp_all add: js_def to_lower_def lower_unit_def)
    ultimately show ?thesis
      using bool n name by (auto simp: same_stored_def field_payload_def field_type_def Let_def obj_get_def)
  next
    case linked
    then have "cf_type ?c = Fin 3" "cf_linkedId ?c = Some k" by (auto simp: custom_field_of_def Let_def)
    with linked n name show ?thesis
      by (auto simp: same_stored_def field_payload_def field_type_def Let_def obj_get_def)
  qed
qed

section \<open>Properties\<close>

subsection \<open>The form shows the stored item\<close>













subsection \<open>An unchanged form keeps the item\<close>





text \<open>
  Editing the first website of a login keeps every other website with its match rule:
  the unchanged address keeps the list, the cleared one drops the first entry only, and a new
  address replaces the address of the first entry, keeping its match rule and all else of it.
\<close>

theorem edited_uris_keep_others:
  assumes "length us < 4096" and "\<forall>v\<in>set us. is_object v"
  shows "editedUris (JArr (JObj u # us)) (JStr text) =
     (if text = text_of (obj_get u (js ''uri'')) then JArr (JObj u # us)
      else if trim text = [] then JArr us
      else JArr (JObj (obj_put (obj_put u (js ''match'') (if obj_get u (js ''match'') = JUndef then JNull
                   else obj_get u (js ''match''))) (js ''uri'') (JStr (trim text))) # us))
   \<and> (\<forall>k. k \<noteq> js ''uri'' \<longrightarrow> k \<noteq> js ''match'' \<longrightarrow>
        obj_get (obj_put (obj_put u (js ''match'') m) (js ''uri'') x) k = obj_get u k)"
proof -
  have "filter is_object (toList (JArr (JObj u # us))) = JObj u # us"
    using assms by (simp add: toList_def MAX_LIST_ENTRIES_def)
  then show ?thesis by (simp add: editedUris_def Let_def copy_obj_def)
qed

text \<open>
  Custom fields survive the edit form: fields as Bitwarden clients store them, read into
  the form and written back, have the same names, types, values and links, in the same order.
\<close>

theorem custom_fields_round_trip:
  assumes "\<forall>v\<in>set fs. stored_field v" and "length fs \<le> 4096"
  shows "\<exists>ws. customFieldsPayload (JArr (map field_json (itemCustomFields (JArr fs) item))) = JArr ws
    \<and> list_all2 same_stored fs ws"
proof -
  let ?rows = "map (custom_field_of item) (List.enumerate 0 fs)"
  have named: "truthy v \<and> truthy (fld v ''name'')" if "v \<in> set fs" for v
    using that assms(1) trim_not_Nil by (fastforce simp: stored_field_def)
  have "filter (\<lambda>(i, f). truthy f \<and> truthy (fld f ''name'')) (List.enumerate 0 fs) = List.enumerate 0 fs"
    using named by (auto simp: filter_id_conv in_set_enumerate_eq)
  then have rows: "itemCustomFields (JArr fs) item = ?rows"
    using assms(2) by (simp add: itemCustomFields_def toList_def MAX_LIST_ENTRIES_def)
  have label: "trim (cf_name (custom_field_of item (i, v))) \<noteq> []" if "v \<in> set fs" for i v
    using that assms(1) trim_not_Nil by (fastforce simp: stored_field_def custom_field_of_def Let_def)
  have "filter (\<lambda>f. truthy f \<and> trim (str_or (fld f ''name'') []) \<noteq> []) (map field_json ?rows) = map field_json ?rows"
    using label by (auto simp: filter_id_conv in_set_enumerate_eq field_json_def obj_get_def)
  moreover have "toList (JArr (map field_json ?rows)) = map field_json ?rows"
    using assms(2) by (simp add: toList_def MAX_LIST_ENTRIES_def)
  ultimately have "customFieldsPayload (JArr (map field_json ?rows)) = JArr (map (field_payload \<circ> field_json) ?rows)"
    by (simp add: customFieldsPayload_def)
  moreover have "list_all2 same_stored fs (map (field_payload \<circ> field_json) ?rows)"
    using assms(1) field_payload_stored by (simp add: list_all2_conv_all_nth nth_enumerate_eq)
  ultimately show ?thesis unfolding rows by blast
qed

text \<open>
  What is typed into a new login is what its row shows: the name, user name, authenticator
  key and website without blanks around them, and the password and the notes exactly as typed.
\<close>

theorem created_login_reads_back:
  assumes "f_name f = JStr nm" and "trim nm \<noteq> []" and "f_username f = JStr u" and "f_password f = JStr p"
    and "f_totp f = JStr t" and "f_uri f = JStr w" and "f_notes f = JStr n"
  shows "\<exists>P. buildCreatePayload (jint 1) f = Some P \<and> (let it = parse_item P in
    it_name it = trim nm \<and> it_username it = trim u \<and> it_password it = p \<and> it_totpKey it = trim t
    \<and> it_uris it = (if trim w = [] then [] else [trim w]) \<and> it_notes it = n
    \<and> it_type it = js ''login'' \<and> it_typeCode it = Fin 1 \<and> it_favorite it = truthy (f_favorite f))"
proof -
  let ?L = "create_login f"
  let ?P = "with_custom_fields f (JObj (obj_put (create_base (JNum (Fin 1)) f) (js ''login'') ?L))"
  have P: "buildCreatePayload (jint 1) f = Some ?P" by (simp add: buildCreatePayload_def Let_def)
  have props: "fld ?P k = obj_get (obj_put (create_base (JNum (Fin 1)) f) (js ''login'') ?L) (js k)" if "k \<noteq> ''fields''" for k
    using that by (simp add: with_custom_fields_def)
  have base: "obj_get (create_base (JNum (Fin 1)) f) (js ''name'') = JStr (trim nm)"
    "obj_get (create_base (JNum (Fin 1)) f) (js ''notes'') = JStr n"
    "obj_get (create_base (JNum (Fin 1)) f) (js ''type'') = JNum (Fin 1)"
    "obj_get (create_base (JNum (Fin 1)) f) (js ''favorite'') = JBool (truthy (f_favorite f))"
    using trim_not_Nil [OF assms(2)] assms(1,7)
    by (simp_all add: create_base_def Let_def obj_get_def type_code_def str_or_def)
  have login: "fld ?P ''login'' = ?L" "fld ?P ''name'' = JStr (trim nm)" "fld ?P ''notes'' = JStr n"
    "fld ?P ''type'' = JNum (Fin 1)" "fld ?P ''favorite'' = JBool (truthy (f_favorite f))"
    by (simp_all add: props base)
  have part: "part_of ?P ''login'' = ?L"
    unfolding part_of_def login by (simp add: js_or_def create_login_def updateLoginFields_def update_prop_JObj)
  have fields: "sfld ?L ''username'' = trim u" "sfld ?L ''password'' = p" "sfld ?L ''totp'' = trim t"
    "fld ?L ''uris'' = editedUris JUndef (f_uri f)"
    using assms(3-5) by (simp_all add: create_login_def updateLoginFields_def update_prop_JObj formValue_def
        trimmedText_def trimmedOrNull_def text_of_def str_or_def obj_get_def)
  have uris: "loginUris ?L = (if trim w = [] then [] else [trim w])"
    unfolding loginUris_def fields(4) assms(6)
    by (simp add: editedUris_def toList_def obj_get_def MAX_LIST_ENTRIES_def)
  have "itemTypeName (JNum (Fin 1)) = js ''login''" by code_simp
  then have "let it = parse_item ?P in
    it_name it = trim nm \<and> it_username it = trim u \<and> it_password it = p \<and> it_totpKey it = trim t
    \<and> it_uris it = (if trim w = [] then [] else [trim w]) \<and> it_notes it = n
    \<and> it_type it = js ''login'' \<and> it_typeCode it = Fin 1 \<and> it_favorite it = truthy (f_favorite f)"
    unfolding parse_item_def Let_def part fields(1-3) uris login using assms(2)
    by (simp add: type_code_def str_or_def)
  with P show ?thesis by blast
qed

subsection \<open>Concrete forms\<close>




definition demo_form :: form where
  "demo_form = \<lparr>f_name = JStr (js ''Mail''), f_username = JStr (js ''ann''), f_password = JStr (js '' pw ''),
     f_totp = JStr [], f_uri = JStr [], f_notes = JStr [], f_favorite = JBool False, f_organizationId = JNull,
     f_folderId = JNull, f_collectionIds = JArr [], f_typeFields = JUndef, f_customFields = JUndef\<rparr>"





theorem edited_uris_keep_others_witness:
  "editedUris (JArr [JObj [(js ''match'', jint 3), (js ''uri'', JStr (js ''a.org''))], JObj []]) (JStr (js ''b.org''))
   = JArr [JObj [(js ''match'', jint 3), (js ''uri'', JStr (js ''b.org''))], JObj []]"
proof -
  have "trim (js ''b.org'') = js ''b.org''" by (simp add: js_unfold)
  then show ?thesis
    using edited_uris_keep_others [of "[JObj []]" "[(js ''match'', jint 3), (js ''uri'', JStr (js ''a.org''))]" "js ''b.org''"]
    by (simp add: obj_get_def key_before_def)
qed

theorem custom_fields_round_trip_witness:
  "\<exists>w. customFieldsPayload (JArr (map field_json (itemCustomFields
        (JArr [JObj [(js ''name'', JStr (js ''pin'')), (js ''value'', JStr (js ''1'')), (js ''type'', jint 1)]]) JNull))) = JArr [w]
     \<and> fld w ''value'' = JStr (js ''1'')"
proof -
  let ?v = "JObj [(js ''name'', JStr (js ''pin'')), (js ''value'', JStr (js ''1'')), (js ''type'', jint 1)]"
  have "trim (js ''pin'') \<noteq> []" by (simp add: js_unfold)
  then have "stored_field ?v" by (simp add: stored_field_def obj_get_def)
  then obtain ws where "customFieldsPayload (JArr (map field_json (itemCustomFields (JArr [?v]) JNull))) = JArr ws"
    "list_all2 same_stored [?v] ws" using custom_fields_round_trip [of "[?v]" JNull] by auto
  moreover have "fld ?v ''value'' = JStr (js ''1'')" by (simp add: obj_get_def)
  ultimately show ?thesis by (auto simp: list_all2_Cons1 same_stored_def)
qed

theorem created_login_reads_back_witness:
  "\<exists>P. buildCreatePayload (jint 1) demo_form = Some P \<and> it_password (parse_item P) = js '' pw ''
     \<and> it_name (parse_item P) = js ''Mail''"
proof -
  have "trim (js ''Mail'') = js ''Mail''" by (simp add: js_unfold)
  then show ?thesis
    using created_login_reads_back [of demo_form "js ''Mail''" "js ''ann''" "js '' pw ''" "[]" "[]" "[]"]
    by (auto simp: demo_form_def Let_def)
qed

end
