(* ===== verification/Uri.thy ===== *)
theory Uri
  imports Json
begin

text \<open>
  \<^verbatim>\<open>decodeURIComponent\<close>: percent escapes are the bytes of UTF-8 sequences, each of which must be
  the shortest encoding of a code point that is not a surrogate; anything else throws
  (\<open>None\<close>). A code point above \<^verbatim>\<open>U+FFFF\<close> becomes a surrogate pair. \<^verbatim>\<open>encodeURIComponent\<close> writes such
  text, and throws on a lone surrogate; what it writes is read back as it was.
\<close>

definition read_escape :: "jsstr \<Rightarrow> (nat \<times> jsstr) option" where
  \<comment> \<open>one escape: its byte and what follows\<close>
  "read_escape s =
     (case s of
        p # h # l # r \<Rightarrow>
          (if p = 37 then
             (case (hex_digit h, hex_digit l) of (Some a, Some b) \<Rightarrow> Some (16 * a + b, r) | _ \<Rightarrow> None)
           else None)
      | _ \<Rightarrow> None)"

fun read_tail :: "nat \<Rightarrow> nat \<Rightarrow> jsstr \<Rightarrow> (nat \<times> jsstr) option" where
  \<comment> \<open>that many continuation bytes, added to the bits read so far\<close>
  "read_tail 0 v s = Some (v, s)"
| "read_tail (Suc n) v s =
     (case read_escape s of
        None \<Rightarrow> None
      | Some (b, r) \<Rightarrow> if 128 \<le> b \<and> b < 192 then read_tail n (64 * v + (b - 128)) r else None)"

definition code_units :: "nat \<Rightarrow> jsstr" where
  "code_units p =
     (if p < 65536 then [p] else [55296 + (p - 65536) div 1024, 56320 + (p - 65536) mod 1024])"

definition read_sequence :: "jsstr \<Rightarrow> (jsstr \<times> jsstr) option" where
  \<comment> \<open>the character an escape starts\<close>
  "read_sequence s =
     (case read_escape s of
        None \<Rightarrow> None
      | Some (b, r) \<Rightarrow>
          (if b < 128 then Some ([b], r)
           else
             (let (n, v, least) =
                (if 192 \<le> b \<and> b < 224 then (1, b - 192, 128)
                 else if 224 \<le> b \<and> b < 240 then (2, b - 224, 2048)
                 else if 240 \<le> b \<and> b < 248 then (3, b - 240, 65536)
                 else (0, 0, 1114112))
              in case read_tail n v r of
                   None \<Rightarrow> None
                 | Some (p, r') \<Rightarrow>
                     (if least \<le> p \<and> p < 1114112 \<and> \<not> (55296 \<le> p \<and> p \<le> 57343)
                      then Some (code_units p, r') else None))))"

lemma read_escape_length: "read_escape s = Some (b, r) \<Longrightarrow> length r < length s"
  by (auto simp: read_escape_def split: list.splits option.splits if_splits)

lemma read_tail_length: "read_tail n v s = Some (p, r) \<Longrightarrow> length r \<le> length s"
proof (induction n v s rule: read_tail.induct)
  case (2 n v s)
  then obtain b t where b: "read_escape s = Some (b, t)" "128 \<le> b \<and> b < 192"
    and "read_tail n (64 * v + (b - 128)) t = Some (p, r)"
    by (auto split: option.splits if_splits)
  with "2.IH" [OF b(1) refl b(2)] read_escape_length [OF b(1)] show ?case by simp
qed simp

lemma read_sequence_length: "read_sequence s = Some (u, r) \<Longrightarrow> length r < length s"
  by (auto simp: read_sequence_def Let_def split: option.splits if_splits prod.splits
      dest!: read_escape_length read_tail_length)

function decodeURIComponent :: "jsstr \<Rightarrow> jsstr option" where
  "decodeURIComponent [] = Some []"
| "decodeURIComponent (c # cs) =
     (if c \<noteq> 37 then map_option ((#) c) (decodeURIComponent cs)
      else case read_sequence (c # cs) of
        None \<Rightarrow> None
      | Some (u, r) \<Rightarrow> map_option ((@) u) (decodeURIComponent r))"
  by pat_completeness auto
termination by (relation "measure length") (auto dest: read_sequence_length)

lemma decode_no_escape: "37 \<notin> set s \<Longrightarrow> decodeURIComponent s = Some s"
  by (induction s) auto

section \<open>Writing\<close>

definition uri_unreserved :: "nat \<Rightarrow> bool" where
  \<comment> \<open>letters, digits and \<^verbatim>\<open>- _ . ! ~ * ' ( )\<close>\<close>
  "uri_unreserved c \<longleftrightarrow> is_alpha c \<or> is_digit c \<or> c = 45 \<or> c = 95 \<or> c = 46 \<or> c = 33 \<or> c = 126
     \<or> c = 42 \<or> c = 39 \<or> c = 40 \<or> c = 41"

definition hex_upper :: "nat \<Rightarrow> nat" where
  "hex_upper d = (if d < 10 then 48 + d else 55 + d)"

definition escape_byte :: "nat \<Rightarrow> jsstr" where
  "escape_byte b = [37, hex_upper (b div 16), hex_upper (b mod 16)]"

definition utf8_bytes :: "nat \<Rightarrow> nat list" where
  \<comment> \<open>the UTF-8 encoding of one code point\<close>
  "utf8_bytes p =
     (if p < 128 then [p]
      else if p < 2048 then [192 + p div 64, 128 + p mod 64]
      else if p < 65536 then [224 + p div 4096, 128 + p div 64 mod 64, 128 + p mod 64]
      else [240 + p div 262144, 128 + p div 4096 mod 64, 128 + p div 64 mod 64, 128 + p mod 64])"

definition escape_point :: "nat \<Rightarrow> jsstr" where
  "escape_point p = concat (map escape_byte (utf8_bytes p))"

fun encodeURIComponent :: "jsstr \<Rightarrow> jsstr option" where
  "encodeURIComponent [] = Some []"
| "encodeURIComponent (c # cs) =
     (if uri_unreserved c then map_option ((#) c) (encodeURIComponent cs)
      else if is_low_surrogate c then None
      else if is_high_surrogate c then
        (case cs of
           d # ds \<Rightarrow>
             if is_low_surrogate d
             then map_option ((@) (escape_point (65536 + 1024 * (c - 55296) + (d - 56320)))) (encodeURIComponent ds)
             else None
         | [] \<Rightarrow> None)
      else map_option ((@) (escape_point c)) (encodeURIComponent cs))"

lemma hex_digit_upper [simp]: "d < 16 \<Longrightarrow> hex_digit (hex_upper d) = Some d"
  by (simp add: hex_digit_def radix_digit_def hex_upper_def is_digit_def)

lemma read_escape_byte [simp]: "b < 256 \<Longrightarrow> read_escape (escape_byte b @ r) = Some (b, r)"
proof -
  assume "b < 256"
  then have "b div 16 < 16" by (simp add: less_mult_imp_div_less)
  then show ?thesis by (simp add: read_escape_def escape_byte_def)
qed

lemma read_tail_Suc_byte:
  assumes "x < 64"
  shows "read_tail (Suc n) v (escape_byte (128 + x) @ r) = read_tail n (64 * v + x) r"
  using assms by simp

lemma split_base64: "64 * (p div 64) + p mod 64 = (p::nat)"
  "64 * (p div 4096) + p div 64 mod 64 = (p::nat) div 64"
  "64 * (p div 262144) + p div 4096 mod 64 = (p::nat) div 4096"
proof -
  show "64 * (p div 64) + p mod 64 = p" by simp
  have "p div 4096 = p div 64 div 64" "p div 262144 = p div 4096 div 64" by (simp_all add: div_mult2_eq [symmetric])
  then show "64 * (p div 4096) + p div 64 mod 64 = p div 64"
    "64 * (p div 262144) + p div 4096 mod 64 = p div 4096"
    using mult_div_mod_eq [of 64 "p div 64"] mult_div_mod_eq [of 64 "p div 4096"] by simp_all
qed

lemma read_sequence_point:
  assumes "p < 1114112" and "\<not> (55296 \<le> p \<and> p \<le> 57343)"
  shows "read_sequence (escape_point p @ r) = Some (code_units p, r)"
proof -
  consider "p < 128" | "128 \<le> p" "p < 2048" | "2048 \<le> p" "p < 65536" | "65536 \<le> p" by linarith
  then show ?thesis
  proof cases
    case 1
    then show ?thesis by (simp add: read_sequence_def escape_point_def utf8_bytes_def code_units_def)
  next
    case 2
    then have "p div 64 < 32" by (simp add: less_mult_imp_div_less)
    with 2 assms show ?thesis
      by (simp add: read_sequence_def escape_point_def utf8_bytes_def read_tail_Suc_byte split_base64
          del: read_tail.simps(2))
  next
    case 3
    then have "p div 4096 < 16" by (simp add: less_mult_imp_div_less)
    with 3 assms show ?thesis
      by (simp add: read_sequence_def escape_point_def utf8_bytes_def numeral_2_eq_2 read_tail_Suc_byte split_base64
          del: read_tail.simps(2))
  next
    case 4
    have "p div 262144 < 5" using assms(1) by (simp add: less_mult_imp_div_less)
    with 4 assms show ?thesis
      by (simp add: read_sequence_def escape_point_def utf8_bytes_def numeral_3_eq_3 read_tail_Suc_byte split_base64
          del: read_tail.simps(2))
  qed
qed

lemma escape_point_starts: "\<exists>t. escape_point p = 37 # t"
  by (simp add: escape_point_def utf8_bytes_def escape_byte_def)

lemma decode_escape_point:
  assumes "p < 1114112" and "\<not> (55296 \<le> p \<and> p \<le> 57343)"
  shows "decodeURIComponent (escape_point p @ r) = map_option ((@) (code_units p)) (decodeURIComponent r)"
proof -
  obtain t where "escape_point p = 37 # t" using escape_point_starts by blast
  with read_sequence_point [OF assms, of r] show ?thesis by simp
qed

lemma code_units_pair:
  assumes "c - 55296 < 1024" "d - 56320 < 1024" "55296 \<le> c" "56320 \<le> d"
  shows "code_units (65536 + 1024 * (c - 55296) + (d - 56320)) = [c, d]"
proof -
  obtain x y where "c = 55296 + x" "d = 56320 + y" using assms le_Suc_ex by blast
  with assms show ?thesis by (simp add: code_units_def)
qed

lemma decode_encode: "\<lbrakk>encodeURIComponent s = Some t; units_ok s\<rbrakk> \<Longrightarrow> decodeURIComponent t = Some s"
proof (induction s arbitrary: t rule: encodeURIComponent.induct)
  case (2 c cs)
  have rest: "units_ok cs" "c < 65536" using "2.prems"(2) by (simp_all add: units_ok_def)
  show ?case
  proof (cases "uri_unreserved c")
    case True
    then have "c \<noteq> 37" by (auto simp: uri_unreserved_def is_alpha_def is_digit_def)
    with True "2.prems"(1) "2.IH"(1) rest show ?thesis by auto
  next
    case nu: False
    show ?thesis
    proof (cases "is_high_surrogate c")
      case True
      with nu "2.prems"(1) obtain d ds u where d: "cs = d # ds" "is_low_surrogate d" "encodeURIComponent ds = Some u"
        and t: "t = escape_point (65536 + 1024 * (c - 55296) + (d - 56320)) @ u"
        by (auto split: list.splits if_splits)
      let ?p = "65536 + 1024 * (c - 55296) + (d - 56320)"
      have b: "c - 55296 < 1024" "d - 56320 < 1024" "55296 \<le> c" "56320 \<le> d"
        using True d(2) by (auto simp: is_high_surrogate_def is_low_surrogate_def)
      then have "code_units ?p = [c, d]" by (intro code_units_pair)
      moreover have "decodeURIComponent u = Some ds"
        using "2.IH"(2) [OF nu _ True d(1,2,3)] True d rest(1) by (auto simp: is_high_surrogate_def is_low_surrogate_def units_ok_def)
      moreover have "?p < 1114112" using b by linarith
      ultimately show ?thesis using decode_escape_point [of ?p u] by (simp add: t d(1))
    next
      case False
      with nu "2.prems"(1) obtain u where u: "encodeURIComponent cs = Some u" "t = escape_point c @ u"
        and nl: "\<not> is_low_surrogate c" by (auto split: if_splits)
      have "decodeURIComponent u = Some cs" using "2.IH"(3) [OF nu nl False u(1)] rest by simp
      moreover have "code_units c = [c]" using rest by (simp add: code_units_def)
      ultimately show ?thesis
        using decode_escape_point [of c u] False nl rest u(2)
        by (auto simp: is_high_surrogate_def is_low_surrogate_def)
    qed
  qed
qed simp

lemma escape_byte_units: "x \<in> set (escape_byte b) \<Longrightarrow> b < 256 \<Longrightarrow> x = 37 \<or> uri_unreserved x"
proof -
  assume "x \<in> set (escape_byte b)" "b < 256"
  then have "b div 16 < 16" "x = 37 \<or> x = hex_upper (b div 16) \<or> x = hex_upper (b mod 16)"
    by (auto simp: escape_byte_def)
  moreover have "d < 16 \<Longrightarrow> uri_unreserved (hex_upper d)" for d
    by (auto simp: hex_upper_def uri_unreserved_def is_alpha_def is_digit_def)
  ultimately show ?thesis by auto
qed

lemma escape_point_units: "x \<in> set (escape_point p) \<Longrightarrow> p < 1114112 \<Longrightarrow> x = 37 \<or> uri_unreserved x"
proof -
  assume "p < 1114112"
  then have "p < 2048 \<Longrightarrow> p div 64 < 32" "p < 65536 \<Longrightarrow> p div 4096 < 16" "p div 262144 < 5"
    by (auto simp: less_mult_imp_div_less)
  moreover have "q mod 64 < 64" for q :: nat by simp
  ultimately have "\<forall>b\<in>set (utf8_bytes p). b < 256"
    by (auto simp: utf8_bytes_def less_Suc_eq_le trans_less_add1 intro: order_less_le_trans [where y = "128 + 64"])
  moreover assume "x \<in> set (escape_point p)"
  ultimately show ?thesis by (auto simp: escape_point_def dest: escape_byte_units)
qed

lemma encode_units:
  "\<lbrakk>encodeURIComponent s = Some t; units_ok s; x \<in> set t\<rbrakk> \<Longrightarrow> x = 37 \<or> uri_unreserved x"
proof (induction s arbitrary: t rule: encodeURIComponent.induct)
  case (2 c cs)
  then show ?case
    by (auto split: if_splits list.splits dest!: escape_point_units
        simp: units_ok_def is_high_surrogate_def is_low_surrogate_def)
qed simp

end
