(* ===== verification/Totp.thy ===== *)
theory Totp
  imports Uri "HOL-Library.Word"
begin

unbundle bit_operations_syntax

text \<open>
  One-time codes, \<^verbatim>\<open>TotpModel.js\<close>: reading a stored key, base32, HMAC with SHA-1 and SHA-256 over
  bytes, and the truncation to digits. Bytes are 8-bit words and the hash state 32-bit words;
  JavaScript adds them as numbers below \<open>2 ^ 53\<close> and cuts the sum back with \<^verbatim>\<open>| 0\<close>, which is
  addition modulo \<open>2 ^ 32\<close>.
\<close>

section \<open>Hashes\<close>

type_synonym byte = "8 word"
type_synonym word32 = "32 word"

definition zeros_to_56 :: "nat \<Rightarrow> nat" where
  \<comment> \<open>how often \<^verbatim>\<open>while (padded.length % 64 !== 56) padded.push(0)\<close> runs\<close>
  "zeros_to_56 n = (if n mod 64 \<le> 56 then 56 - n mod 64 else 120 - n mod 64)"

definition word_bytes :: "word32 \<Rightarrow> byte list" where
  \<comment> \<open>\<^verbatim>\<open>(w >>> (i * 8)) & 0xff\<close> for \<open>i = 3, 2, 1, 0\<close>\<close>
  "word_bytes w = map (\<lambda>i. ucast (drop_bit (8 * i) w AND 255)) [3, 2, 1, 0]"

definition padMessage :: "byte list \<Rightarrow> byte list" where
  "padMessage bytes =
     (let bitLength = length bytes * 8; p = bytes @ [128]
      in p @ replicate (zeros_to_56 (length p)) 0
         @ word_bytes (of_nat (bitLength div 4294967296)) @ word_bytes (of_nat bitLength))"

definition wordsToBytes :: "word32 list \<Rightarrow> byte list" where
  "wordsToBytes words = concat (map word_bytes words)"

definition rotl :: "word32 \<Rightarrow> nat \<Rightarrow> word32" where
  "rotl x n = (push_bit n x OR drop_bit (32 - n) x)"

definition rotr :: "word32 \<Rightarrow> nat \<Rightarrow> word32" where
  "rotr x n = (drop_bit n x OR push_bit (32 - n) x)"

definition be_word :: "byte list \<Rightarrow> word32" where
  "be_word bs = (push_bit 24 (ucast (bs ! 0)) OR push_bit 16 (ucast (bs ! 1)) OR push_bit 8 (ucast (bs ! 2))
     OR ucast (bs ! 3))"

definition block_words :: "byte list \<Rightarrow> word32 list" where
  \<comment> \<open>the first sixteen entries of \<^verbatim>\<open>w\<close> for a block\<close>
  "block_words m = map (\<lambda>i. be_word (drop (4 * i) m)) [0..<16]"

fun blocks :: "nat \<Rightarrow> byte list \<Rightarrow> byte list list" where
  \<comment> \<open>the blocks at the offsets \<^verbatim>\<open>0, 64, ...\<close>\<close>
  "blocks 0 m = []"
| "blocks (Suc n) m = take 64 m # blocks n (drop 64 m)"

definition message_blocks :: "byte list \<Rightarrow> byte list list" where
  "message_blocks m = blocks (length m div 64) m"

definition sha1_schedule :: "word32 list \<Rightarrow> word32 list" where
  "sha1_schedule w16 =
     foldl (\<lambda>w t. w @ [rotl (w ! (t - 3) XOR w ! (t - 8) XOR w ! (t - 14) XOR w ! (t - 16)) 1]) w16 [16..<80]"

type_synonym state5 = "word32 \<times> word32 \<times> word32 \<times> word32 \<times> word32"

definition sha1_round :: "state5 \<Rightarrow> nat \<times> word32 \<Rightarrow> state5" where
  "sha1_round = (\<lambda>(a, b, c, d, e) (s, w).
     let (f, k) =
       (if s < 20 then ((b AND c) OR (NOT b AND d), 0x5a827999)
        else if s < 40 then (b XOR c XOR d, 0x6ed9eba1)
        else if s < 60 then ((b AND c) OR (b AND d) OR (c AND d), 0x8f1bbcdc)
        else (b XOR c XOR d, 0xca62c1d6))
     in (rotl a 5 + f + e + k + w, a, rotl b 30, c, d))"

definition sha1_block :: "state5 \<Rightarrow> byte list \<Rightarrow> state5" where
  "sha1_block h m =
     (let w = sha1_schedule (block_words m);
          (a, b, c, d, e) = foldl sha1_round h (List.enumerate 0 w);
          (h0, h1, h2, h3, h4) = h
      in (h0 + a, h1 + b, h2 + c, h3 + d, h4 + e))"

definition sha1 :: "byte list \<Rightarrow> byte list" where
  "sha1 bytes =
     (case foldl sha1_block (0x67452301, 0xefcdab89, 0x98badcfe, 0x10325476, 0xc3d2e1f0)
             (message_blocks (padMessage bytes)) of
        (a, b, c, d, e) \<Rightarrow> wordsToBytes [a, b, c, d, e])"

definition SHA256_K :: "word32 list" where
  \<comment> \<open>the eight rows of the table in \<^verbatim>\<open>TotpModel.js\<close>\<close>
  "SHA256_K = concat [
     [0x428a2f98, 0x71374491, 0xb5c0fbcf, 0xe9b5dba5, 0x3956c25b, 0x59f111f1, 0x923f82a4, 0xab1c5ed5],
     [0xd807aa98, 0x12835b01, 0x243185be, 0x550c7dc3, 0x72be5d74, 0x80deb1fe, 0x9bdc06a7, 0xc19bf174],
     [0xe49b69c1, 0xefbe4786, 0x0fc19dc6, 0x240ca1cc, 0x2de92c6f, 0x4a7484aa, 0x5cb0a9dc, 0x76f988da],
     [0x983e5152, 0xa831c66d, 0xb00327c8, 0xbf597fc7, 0xc6e00bf3, 0xd5a79147, 0x06ca6351, 0x14292967],
     [0x27b70a85, 0x2e1b2138, 0x4d2c6dfc, 0x53380d13, 0x650a7354, 0x766a0abb, 0x81c2c92e, 0x92722c85],
     [0xa2bfe8a1, 0xa81a664b, 0xc24b8b70, 0xc76c51a3, 0xd192e819, 0xd6990624, 0xf40e3585, 0x106aa070],
     [0x19a4c116, 0x1e376c08, 0x2748774c, 0x34b0bcb5, 0x391c0cb3, 0x4ed8aa4a, 0x5b9cca4f, 0x682e6ff3],
     [0x748f82ee, 0x78a5636f, 0x84c87814, 0x8cc70208, 0x90befffa, 0xa4506ceb, 0xbef9a3f7, 0xc67178f2]]"

definition sha256_schedule :: "word32 list \<Rightarrow> word32 list" where
  "sha256_schedule w16 =
     foldl (\<lambda>w t.
       let s0 = (rotr (w ! (t - 15)) 7 XOR rotr (w ! (t - 15)) 18 XOR drop_bit 3 (w ! (t - 15)));
           s1 = (rotr (w ! (t - 2)) 17 XOR rotr (w ! (t - 2)) 19 XOR drop_bit 10 (w ! (t - 2)))
       in w @ [w ! (t - 16) + s0 + w ! (t - 7) + s1]) w16 [16..<64]"

type_synonym state8 = "word32 \<times> word32 \<times> word32 \<times> word32 \<times> word32 \<times> word32 \<times> word32 \<times> word32"

definition sha256_round :: "state8 \<Rightarrow> word32 \<times> word32 \<Rightarrow> state8" where
  "sha256_round = (\<lambda>(a, b, c, d, e, f, g, hh) (k, w).
     let S1 = (rotr e 6 XOR rotr e 11 XOR rotr e 25);
         ch = ((e AND f) XOR (NOT e AND g));
         temp1 = hh + S1 + ch + k + w;
         S0 = (rotr a 2 XOR rotr a 13 XOR rotr a 22);
         maj = ((a AND b) XOR (a AND c) XOR (b AND c));
         temp2 = S0 + maj
     in (temp1 + temp2, a, b, c, d + temp1, e, f, g))"

definition sha256_block :: "state8 \<Rightarrow> byte list \<Rightarrow> state8" where
  "sha256_block h m =
     (let w = sha256_schedule (block_words m);
          (a, b, c, d, e, f, g, hh) = foldl sha256_round h (zip SHA256_K w);
          (h0, h1, h2, h3, h4, h5, h6, h7) = h
      in (h0 + a, h1 + b, h2 + c, h3 + d, h4 + e, h5 + f, h6 + g, h7 + hh))"

definition sha256 :: "byte list \<Rightarrow> byte list" where
  "sha256 bytes =
     (case foldl sha256_block
             (0x6a09e667, 0xbb67ae85, 0x3c6ef372, 0xa54ff53a, 0x510e527f, 0x9b05688c, 0x1f83d9ab, 0x5be0cd19)
             (message_blocks (padMessage bytes)) of
        (a, b, c, d, e, f, g, hh) \<Rightarrow> wordsToBytes [a, b, c, d, e, f, g, hh])"

definition hmac :: "(byte list \<Rightarrow> byte list) \<Rightarrow> byte list \<Rightarrow> byte list \<Rightarrow> byte list" where
  "hmac hashFn key message =
     (let k0 = (if 64 < length key then hashFn key else key);
          k = k0 @ replicate (64 - length k0) 0;
          inner = map (\<lambda>x. x XOR 0x36) (take 64 k);
          outer = map (\<lambda>x. x XOR 0x5c) (take 64 k)
      in hashFn (outer @ hashFn (inner @ message)))"

section \<open>Base32\<close>

definition BASE32_CHARS :: jsstr where "BASE32_CHARS = js ''ABCDEFGHIJKLMNOPQRSTUVWXYZ234567''"
definition STEAM_CHARS :: jsstr where "STEAM_CHARS = js ''23456789BCDFGHJKMNPQRTVWXY''"

text \<open>
  \<^verbatim>\<open>toUpperCase\<close> as far as it matters here: the alphabet is ASCII, so of the upper case of a
  character only its ASCII letters count. Outside ASCII these are the characters whose upper
  case contains some.
\<close>

definition upper_letters :: "nat \<Rightarrow> jsstr" where
  "upper_letters c =
     (if c < 128 then [upper_unit c]
      else if c = 223 then js ''SS'' else if c = 305 then js ''I'' else if c = 329 then js ''N''
      else if c = 383 then js ''S'' else if c = 496 then js ''J'' else if c = 7830 then js ''H''
      else if c = 7831 then js ''T'' else if c = 7832 then js ''W'' else if c = 7833 then js ''Y''
      else if c = 7834 then js ''A'' else if c = 64256 then js ''FF'' else if c = 64257 then js ''FI''
      else if c = 64258 then js ''FL'' else if c = 64259 then js ''FFI'' else if c = 64260 then js ''FFL''
      else if c = 64261 then js ''ST'' else if c = 64262 then js ''ST'' else [])"

fun position :: "nat \<Rightarrow> jsstr \<Rightarrow> nat option" where
  "position c [] = None"
| "position c (d # ds) = (if c = d then Some 0 else map_option Suc (position c ds))"

fun decode_step :: "byte list \<times> nat \<times> nat \<Rightarrow> nat \<Rightarrow> byte list \<times> nat \<times> nat" where
  \<comment> \<open>one turn for a character of the alphabet: bytes, buffer, bits. \<^verbatim>\<open>idx\<close> is below 32, so
     \<^verbatim>\<open>(buffer << 5) | idx\<close> is a sum\<close>
  "decode_step (bytes, buffer, bits) idx =
     (let buffer' = (buffer * 32 + idx) mod 65536; bits' = bits + 5
      in if 8 \<le> bits' then (bytes @ [of_nat (buffer' div 2 ^ (bits' - 8))], buffer', bits' - 8)
         else (bytes, buffer', bits'))"

definition base32_indices :: "jsstr \<Rightarrow> nat list" where
  "base32_indices s = List.map_filter (\<lambda>c. position c BASE32_CHARS) (concat (map upper_letters s))"

definition decodeBase32 :: "jsstr \<Rightarrow> byte list" where
  "decodeBase32 s = fst (foldl decode_step ([], 0, 0) (base32_indices s))"

section \<open>Keys\<close>

datatype algorithm = SHA1 | SHA256 | STEAM

record totp_params =
  algorithm :: algorithm
  digits :: nat
  period :: nat
  secret :: "byte list"

definition DEFAULT_DIGITS :: nat where "DEFAULT_DIGITS = 6"
definition DEFAULT_PERIOD :: nat where "DEFAULT_PERIOD = 30"

definition formDecode :: "jsstr \<Rightarrow> jsstr option" where
  "formDecode s = decodeURIComponent (map (\<lambda>c. if c = 43 then 32 else c) s)"

definition parseU32 :: "jsstr option \<Rightarrow> nat option" where
  "parseU32 v =
     (case v of
        None \<Rightarrow> None
      | Some s \<Rightarrow>
          (let ds = (case s of c # r \<Rightarrow> if c = 43 then r else s | [] \<Rightarrow> [])
           in if ds \<noteq> [] \<and> (\<forall>c\<in>set ds. is_digit c) \<and> digits_val ds \<le> 4294967295
              then Some (digits_val ds) else None))"

definition split_first :: "nat \<Rightarrow> jsstr \<Rightarrow> jsstr \<times> jsstr option" where
  \<comment> \<open>before the first occurrence of a unit, and after it if there is one\<close>
  "split_first d s =
     (let a = takeWhile (\<lambda>c. c \<noteq> d) s
      in (a, if length a < length s then Some (drop (Suc (length a)) s) else None))"

fun read_pairs :: "jsstr list \<Rightarrow> (jsstr \<times> jsstr) list \<Rightarrow> (jsstr \<times> jsstr) list option" where
  "read_pairs [] parts = Some parts"
| "read_pairs (p # ps) parts =
     (if p = [] then read_pairs ps parts
      else case split_first 61 p of
        (n, v) \<Rightarrow>
          (case (formDecode n, formDecode (case v of Some x \<Rightarrow> x | None \<Rightarrow> [])) of
             (Some name, Some val) \<Rightarrow> read_pairs ps (obj_put parts name val)
           | _ \<Rightarrow> None))"

definition authority_unit :: "nat \<Rightarrow> bool" where
  \<comment> \<open>the class \<^verbatim>\<open>[a-z0-9._~-]\<close>\<close>
  "authority_unit c \<longleftrightarrow> (97 \<le> c \<and> c \<le> 122) \<or> is_digit c \<or> c = 46 \<or> c = 95 \<or> c = 126 \<or> c = 45"

definition otpauth_params :: "(jsstr \<times> jsstr) list \<Rightarrow> totp_params option" where
  \<comment> \<open>the second half of \<open>parseOtpauth\<close>, from the collected pairs on\<close>
  "otpauth_params parts =
     (case map_of parts (js ''secret'') of
        None \<Rightarrow> None
      | Some sec \<Rightarrow>
          (let alg = map_of parts (js ''algorithm'');
               d = (case parseU32 (map_of parts (js ''digits'')) of None \<Rightarrow> DEFAULT_DIGITS | Some n \<Rightarrow> min n 10);
               per = (case parseU32 (map_of parts (js ''period'')) of None \<Rightarrow> DEFAULT_PERIOD | Some n \<Rightarrow> max n 1)
           in if alg \<noteq> Some (js ''sha256'') \<and> alg = Some (js ''sha512'') then None
              else if d < 1 \<or> 9 < d then None
              else Some \<lparr>algorithm = (if alg = Some (js ''sha256'') then SHA256 else SHA1), digits = d, period = per,
                         secret = decodeBase32 sec\<rparr>))"

definition parseOtpauth :: "jsstr \<Rightarrow> totp_params option" where
  "parseOtpauth k =
     (let rest = fst (split_first 35 (drop 10 k));
          (head, query) = split_first 63 rest;
          authority = fst (split_first 47 head)
      in if \<not> (\<forall>c\<in>set authority. authority_unit c) then None
         else if \<exists>c\<in>set rest. is_ws c \<or> is_control c then None
         else Option.bind (read_pairs (split_on 38 (case query of Some q \<Rightarrow> q | None \<Rightarrow> [])) []) otpauth_params)"

definition parseKey :: "jsval \<Rightarrow> totp_params option" where
  "parseKey key =
     (case key of
        JStr s \<Rightarrow>
          (if s = [] \<or> (\<exists>c\<in>set s. 127 < c) then None
           else
             (let k = to_lower s in
              if starts_with (js ''otpauth://'') k then parseOtpauth k
              else if starts_with (js ''steam://'') k then
                Some \<lparr>algorithm = STEAM, digits = 5, period = DEFAULT_PERIOD, secret = decodeBase32 (drop 8 k)\<rparr>
              else Some \<lparr>algorithm = SHA1, digits = DEFAULT_DIGITS, period = DEFAULT_PERIOD, secret = decodeBase32 k\<rparr>))
      | _ \<Rightarrow> None)"

section \<open>Codes\<close>

definition time_bytes :: "nat \<Rightarrow> byte list" where
  "time_bytes counter = word_bytes (of_nat (counter div 4294967296)) @ word_bytes (of_nat (counter mod 4294967296))"

definition truncate_hash :: "byte list \<Rightarrow> nat" where
  "truncate_hash hash =
     (let offset = unat (hash ! (length hash - 1) AND 15)
      in unat (hash ! offset AND 127) * 16777216 + unat (hash ! (offset + 1)) * 65536
         + unat (hash ! (offset + 2)) * 256 + unat (hash ! (offset + 3)))"

fun steam_code :: "nat \<Rightarrow> nat \<Rightarrow> jsstr" where
  "steam_code 0 full = []"
| "steam_code (Suc n) full = STEAM_CHARS ! (full mod length STEAM_CHARS) # steam_code n (full div length STEAM_CHARS)"

definition pad_zeros :: "nat \<Rightarrow> jsstr \<Rightarrow> jsstr" where
  \<comment> \<open>\<^verbatim>\<open>while (otp.length < digits) otp = "0" + otp\<close>\<close>
  "pad_zeros n s = replicate (n - length s) 48 @ s"

definition deriveOtp :: "totp_params \<Rightarrow> nat \<Rightarrow> jsstr" where
  "deriveOtp params counter =
     (let hash = hmac (if algorithm params = SHA256 then sha256 else sha1) (secret params) (time_bytes counter);
          binary = truncate_hash hash
      in if algorithm params = STEAM then steam_code (digits params) binary
         else pad_zeros (digits params) (nat_to_str (binary mod 10 ^ digits params)))"

definition totp_counter :: "jsval \<Rightarrow> nat \<Rightarrow> nat option" where
  \<comment> \<open>\<^verbatim>\<open>Math.floor(Math.floor(Number(nowMs) / 1000) / period)\<close>, when finite and not negative\<close>
  "totp_counter nowMs per =
     (case to_num nowMs of
        Fin q \<Rightarrow> (let c = \<lfloor>of_int \<lfloor>q / 1000\<rfloor> / of_nat per :: rat\<rfloor> in if c < 0 then None else Some (nat c))
      | _ \<Rightarrow> None)"

definition generate :: "jsval \<Rightarrow> jsval \<Rightarrow> (jsstr \<times> nat) option" where
  "generate key nowMs =
     (case parseKey key of
        None \<Rightarrow> None
      | Some params \<Rightarrow> map_option (\<lambda>c. (deriveOtp params c, period params)) (totp_counter nowMs (period params)))"

section \<open>What HMAC needs of a hash\<close>

locale hash_function =
  fixes hash :: "byte list \<Rightarrow> byte list" and hash_size :: nat
  assumes hash_length: "length (hash m) = hash_size"
    and room_to_truncate: "20 \<le> hash_size"
    and fits_block: "hash_size \<le> 64"
begin

lemma hmac_length: "length (hmac hash key m) = hash_size"
  by (simp add: hmac_def Let_def hash_length)

lemma hmac_long_key: "64 < length key \<Longrightarrow> hmac hash key m = hmac hash (hash key) m"
  using fits_block by (simp add: hmac_def Let_def hash_length)

lemma offset_in_range: "unat (hmac hash key m ! i AND 15) + 3 < length (hmac hash key m)"
proof -
  have "(x :: 8 word) AND 15 = take_bit 4 x" for x by (simp add: take_bit_eq_mask mask_eq_exp_minus_1)
  then have "unat ((x :: 8 word) AND 15) < 16" for x using take_bit_nat_less_exp [of 4 "unat x"] by (simp add: unsigned_take_bit_eq)
  from this [of "hmac hash key m ! i"] show ?thesis using room_to_truncate by (simp add: hmac_length)
qed

end

lemma length_word_bytes [simp]: "length (word_bytes w) = 4"
  by (simp add: word_bytes_def)

lemma length_wordsToBytes: "length (wordsToBytes ws) = 4 * length ws"
  by (induction ws) (simp_all add: wordsToBytes_def)

lemma sha1_length: "length (sha1 m) = 20"
  by (simp add: sha1_def length_wordsToBytes split: prod.splits)

lemma sha256_length: "length (sha256 m) = 32"
  by (simp add: sha256_def length_wordsToBytes split: prod.splits)

interpretation sha1_hash: hash_function sha1 20
  by unfold_locales (simp_all add: sha1_length)

interpretation sha256_hash: hash_function sha256 32
  by unfold_locales (simp_all add: sha256_length)

definition hash_of :: "algorithm \<Rightarrow> byte list \<Rightarrow> byte list" where
  "hash_of a = (if a = SHA256 then sha256 else sha1)"

lemma padMessage_blocks: "length (padMessage m) mod 64 = 0"
proof -
  have "(n + zeros_to_56 n) mod 64 = 56" for n
  proof -
    have "n mod 64 < 64" by simp
    then have "n mod 64 + zeros_to_56 n = 56 \<or> n mod 64 + zeros_to_56 n = 120" unfolding zeros_to_56_def by arith
    then have "(n mod 64 + zeros_to_56 n) mod 64 = 56" by auto
    then show ?thesis by (simp add: mod_add_left_eq)
  qed
  from this [of "length m + 1"] have "(length m + 1 + zeros_to_56 (length m + 1) + 8) mod 64 = 0"
    by (metis (no_types, lifting) mod_add_left_eq numeral_plus_numeral add_num_simps mod_self)
  then show ?thesis by (simp add: padMessage_def Let_def ac_simps)
qed

section \<open>Base32 against its definition\<close>

text \<open>The number a list of base32 digits denotes, and the big-endian number of bytes.\<close>

definition digits32 :: "nat list \<Rightarrow> nat" where
  "digits32 xs = foldl (\<lambda>n d. n * 32 + d) 0 xs"

definition be_val :: "byte list \<Rightarrow> nat" where
  "be_val bs = foldl (\<lambda>n b. n * 256 + unat b) 0 bs"

lemma digits32_snoc: "digits32 (xs @ [d]) = digits32 xs * 32 + d"
  by (simp add: digits32_def)

lemma be_val_snoc: "be_val (bs @ [b]) = be_val bs * 256 + unat b"
  by (simp add: be_val_def)

definition decode_inv :: "nat list \<Rightarrow> byte list \<times> nat \<times> nat \<Rightarrow> bool" where
  "decode_inv xs st = (case st of (bytes, buffer, bits) \<Rightarrow>
     bits = 5 * length xs mod 8 \<and> length bytes = 5 * length xs div 8
     \<and> be_val bytes = digits32 xs div 2 ^ bits \<and> buffer mod 2 ^ bits = digits32 xs mod 2 ^ bits)"

lemma div_mod_shift:
  fixes N B d :: nat
  assumes "bits < 8" and "d < 32" and "B mod 2 ^ bits = N mod 2 ^ bits"
  shows "((B * 32 + d) mod 65536) mod 2 ^ (bits + 5) = (N * 32 + d) mod 2 ^ (bits + 5)"
proof -
  have dvd: "(2::nat) ^ (bits + 5) dvd 65536"
    using assms(1) le_imp_power_dvd [of "bits + 5" 16 "2::nat"] by simp
  have "(B * 32) mod (2 ^ bits * 32) = (N * 32) mod (2 ^ bits * 32)"
    using assms(3) by (simp add: mult_mod_left [symmetric])
  then have "(B * 32) mod 2 ^ (bits + 5) = (N * 32) mod 2 ^ (bits + 5)"
    by (simp add: power_add)
  then have "(B * 32 + d) mod 2 ^ (bits + 5) = (N * 32 + d) mod 2 ^ (bits + 5)"
    by (metis mod_add_left_eq)
  with dvd show ?thesis by (simp add: mod_mod_cancel)
qed

lemma mod_div_shift:
  fixes n :: nat
  shows "(n mod 2 ^ (k + 8)) div 2 ^ k = (n div 2 ^ k) mod 256"
proof -
  have "n mod (2 ^ k * 256) = 2 ^ k * (n div 2 ^ k mod 256) + n mod 2 ^ k" by (rule mod_mult2_eq)
  then show ?thesis by (simp add: power_add)
qed

lemma digit_div:
  fixes N d :: nat
  assumes "d < 32"
  shows "(N * 32 + d) div 2 ^ (b + 5) = N div 2 ^ b"
proof -
  have "(N * 32 + d) div (32 * 2 ^ b) = (N * 32 + d) div 32 div 2 ^ b" by (rule div_mult2_eq)
  moreover have "(N * 32 + d) div 32 = N" using assms by simp
  ultimately show ?thesis by (simp add: power_add mult.commute)
qed

lemma decode_inv_step:
  assumes "decode_inv xs st" and "d < 32"
  shows "decode_inv (xs @ [d]) (decode_step st d)"
proof -
  obtain bytes buffer bits where st: "st = (bytes, buffer, bits)" by (cases st)
  let ?N = "digits32 xs" and ?B = "(buffer * 32 + d) mod 65536"
  have i: "bits = 5 * length xs mod 8" "length bytes = 5 * length xs div 8" "be_val bytes = ?N div 2 ^ bits"
    "buffer mod 2 ^ bits = ?N mod 2 ^ bits" using assms(1) by (auto simp: decode_inv_def st)
  have "bits < 8" unfolding i(1) by simp
  note shift = div_mod_shift [OF this assms(2) i(4)]
  note top = digit_div [OF assms(2), of ?N bits]
  show ?thesis
  proof (cases "8 \<le> bits + 5")
    case False
    have sum: "5 * (length xs + 1) = (bits + 5) + 8 * (5 * length xs div 8)"
      using mult_div_mod_eq [of 8 "5 * length xs"] i(1) by simp
    have "5 * (length xs + 1) mod 8 = bits + 5" "5 * (length xs + 1) div 8 = 5 * length xs div 8"
      unfolding sum using False by simp_all
    with False i shift top show ?thesis
      by (simp add: st decode_inv_def Let_def digits32_snoc)
  next
    case True
    define k where "k = bits + 5 - 8"
    have k: "bits + 5 = k + 8" using True k_def by simp
    have small: "k < 8" using k \<open>bits < 8\<close> by simp
    have "5 * (length xs + 1) = (bits + 5) + 8 * (5 * length xs div 8)"
      using mult_div_mod_eq [of 8 "5 * length xs"] i(1) by simp
    then have sum: "5 * (length xs + 1) = k + 8 * (5 * length xs div 8 + 1)" unfolding k by simp
    have len: "5 * (length xs + 1) mod 8 = k" "5 * (length xs + 1) div 8 = 5 * length xs div 8 + 1"
      unfolding sum using small
      by (simp_all only: mod_mult_self2 mod_less div_mult_self2 div_less numeral_neq_zero not_False_eq_True add_0_right)
    have byte: "?B div 2 ^ k mod 256 = (?N * 32 + d) div 2 ^ k mod 256"
      using shift mod_div_shift [of ?B k] mod_div_shift [of "?N * 32 + d" k] k by simp
    have "(?N * 32 + d) div 2 ^ k div 256 = ?N div 2 ^ bits"
      using top k by (simp add: div_mult2_eq [symmetric] power_add)
    then have val: "?N div 2 ^ bits * 256 + ?B div 2 ^ k mod 256 = (?N * 32 + d) div 2 ^ k"
      unfolding byte by (metis div_mult_mod_eq)
    have dvd: "(2::nat) ^ k dvd 2 ^ (bits + 5)" unfolding k by (simp add: le_imp_power_dvd)
    have "?B mod 2 ^ k = ?B mod 2 ^ (bits + 5) mod 2 ^ k" by (rule mod_mod_cancel [OF dvd, symmetric])
    also have "\<dots> = (?N * 32 + d) mod 2 ^ (bits + 5) mod 2 ^ k" by (simp only: shift)
    also have "\<dots> = (?N * 32 + d) mod 2 ^ k" by (rule mod_mod_cancel [OF dvd])
    finally have low: "?B mod 2 ^ k = (?N * 32 + d) mod 2 ^ k" .
    have "decode_step st d = (bytes @ [of_nat (?B div 2 ^ k)], ?B, k)"
      using True by (simp add: st Let_def k_def)
    moreover have "unat (of_nat (?B div 2 ^ k) :: 8 word) = ?B div 2 ^ k mod 256"
      by (simp add: unat_of_nat)
    ultimately show ?thesis
      using i(2,3) val low len by (simp add: decode_inv_def digits32_snoc be_val_snoc)
  qed
qed

lemma position_less: "position c xs = Some n \<Longrightarrow> n < length xs"
  by (induction xs arbitrary: n) (auto split: if_splits)

lemma base32_index_less: "d \<in> set (base32_indices s) \<Longrightarrow> d < 32"
proof -
  assume "d \<in> set (base32_indices s)"
  then obtain c where "position c BASE32_CHARS = Some d" by (auto simp: base32_indices_def List.map_filter_def)
  moreover have "length BASE32_CHARS = 32" by (simp add: BASE32_CHARS_def)
  ultimately show ?thesis using position_less by metis
qed

lemma decode_inv_run: "\<forall>d\<in>set xs. d < 32 \<Longrightarrow> decode_inv xs (foldl decode_step ([], 0, 0) xs)"
proof (induction xs rule: rev_induct)
  case Nil
  then show ?case by (simp add: decode_inv_def be_val_def digits32_def)
next
  case (snoc d xs)
  then show ?case by (simp add: decode_inv_step)
qed

section \<open>Codes\<close>

lemma nat_to_str_length: "n < 10 ^ d \<Longrightarrow> 1 \<le> d \<Longrightarrow> length (nat_to_str n) \<le> d"
proof (induction n arbitrary: d rule: less_induct)
  case (less n)
  show ?case
  proof (cases "n < 10")
    case True
    with less.prems show ?thesis by (simp add: nat_to_str_unfold [of n])
  next
    case False
    with less.prems obtain e where e: "d = Suc e" "1 \<le> e" by (cases d; cases "d - 1") auto
    then have "n div 10 < 10 ^ e" using less.prems by (simp add: less_mult_imp_div_less mult.commute)
    with less.IH [of "n div 10" e] False e show ?thesis by (simp add: nat_to_str_unfold [of n])
  qed
qed

lemma digits_val_zeros: "digits_val (replicate k 48 @ s) = digits_val s"
  by (induction k) (simp_all add: digits_val_def digit_val_def)

lemma steam_code_shape: "length (steam_code n full) = n \<and> set (steam_code n full) \<subseteq> set STEAM_CHARS"
proof (induction n full rule: steam_code.induct)
  case (2 n full)
  have "full mod length STEAM_CHARS < length STEAM_CHARS" by (simp add: STEAM_CHARS_def)
  with 2 show ?case using nth_mem [of "full mod length STEAM_CHARS" STEAM_CHARS] by auto
qed simp

definition wf_params :: "totp_params \<Rightarrow> bool" where
  "wf_params p \<longleftrightarrow> 1 \<le> digits p \<and> digits p \<le> 9 \<and> 1 \<le> period p \<and> period p \<le> 4294967295
     \<and> (algorithm p = STEAM \<longrightarrow> digits p = 5 \<and> period p = 30)"

lemma parseU32_bound: "parseU32 v = Some n \<Longrightarrow> n \<le> 4294967295"
  by (auto simp: parseU32_def Let_def split: option.splits if_splits list.splits)

lemma otpauth_params_wf: "otpauth_params parts = Some p \<Longrightarrow> wf_params p"
  by (auto simp: otpauth_params_def Let_def wf_params_def DEFAULT_PERIOD_def not_less
      split: option.splits if_splits dest: parseU32_bound)

lemma parseKey_wf: "parseKey key = Some p \<Longrightarrow> wf_params p"
proof -
  assume "parseKey key = Some p"
  moreover have "parseOtpauth k = Some p \<Longrightarrow> wf_params p" for k
    by (auto simp: parseOtpauth_def Let_def otpauth_params_wf split: prod.splits if_splits bind_splits)
  ultimately show ?thesis
    by (auto simp: parseKey_def Let_def wf_params_def DEFAULT_DIGITS_def DEFAULT_PERIOD_def
        split: jsval.splits if_splits)
qed

section \<open>Properties\<close>

text \<open>
  C37: Base32 decoding is exact: with \<open>n\<close> characters of the alphabet in the text, upper case or
  lower, it yields \<open>5 n div 8\<close> bytes, which are the big-endian number the characters denote
  without the trailing bits that do not fill a byte.
\<close>

theorem base32_exact:
  "let xs = base32_indices s in
   length (decodeBase32 s) = 5 * length xs div 8
   \<and> be_val (decodeBase32 s) = digits32 xs div 2 ^ (5 * length xs mod 8)"
  using decode_inv_run [of "base32_indices s"] base32_index_less
  by (auto simp: decode_inv_def decodeBase32_def Let_def split: prod.splits)

text \<open>
  For every key and counter the four bytes the truncation reads lie inside the hash, for
  both hash functions; a key longer than a block is used through its hash; and the padded
  message is a whole number of blocks.
\<close>

theorem hmac_in_bounds:
  "let hash = hmac (hash_of a) key m in
   unat (hash ! (length hash - 1) AND 15) + 3 < length hash
   \<and> (64 < length key \<longrightarrow> hash = hmac (hash_of a) (hash_of a key) m)
   \<and> length (padMessage m) mod 64 = 0"
  using sha1_hash.offset_in_range sha256_hash.offset_in_range sha1_hash.hmac_long_key sha256_hash.hmac_long_key
  by (simp add: hash_of_def Let_def padMessage_blocks)

text \<open>
  A code has exactly the number of digits its key asks for, between 1 and 9, and is the
  decimal of the truncated hash modulo that power of ten, with leading zeros; a Steam code is
  five characters of Steam's alphabet. The period is at least a second.
\<close>

theorem code_shape:
  assumes "generate key nowMs = Some (code, per)"
  shows "\<exists>p c. parseKey key = Some p \<and> wf_params p \<and> per = period p \<and> code = deriveOtp p c \<and> length code = digits p
    \<and> (if algorithm p = STEAM then set code \<subseteq> set STEAM_CHARS
       else (\<forall>x\<in>set code. is_digit x)
         \<and> digits_val code = truncate_hash (hmac (hash_of (algorithm p)) (secret p) (time_bytes c)) mod 10 ^ digits p)"
proof -
  from assms obtain p c where p: "parseKey key = Some p" "per = period p" "code = deriveOtp p c"
    by (auto simp: generate_def split: option.splits)
  have wf: "wf_params p" by (rule parseKey_wf [OF p(1)])
  let ?b = "truncate_hash (hmac (hash_of (algorithm p)) (secret p) (time_bytes c))"
  show ?thesis
  proof (cases "algorithm p = STEAM")
    case True
    with p wf show ?thesis
      using steam_code_shape by (auto simp: deriveOtp_def Let_def)
  next
    case False
    then have code: "code = pad_zeros (digits p) (nat_to_str (?b mod 10 ^ digits p))"
      using p(3) by (simp add: deriveOtp_def Let_def hash_of_def)
    have "length (nat_to_str (?b mod 10 ^ digits p)) \<le> digits p"
      using wf by (intro nat_to_str_length) (simp_all add: wf_params_def)
    moreover have "\<forall>x\<in>set code. is_digit x"
      unfolding code pad_zeros_def using nat_to_str_digits by (auto simp: is_digit_def)
    ultimately have "length code = digits p" "digits_val code = ?b mod 10 ^ digits p" "\<forall>x\<in>set code. is_digit x"
      by (simp_all add: code pad_zeros_def digits_val_zeros)
    with p wf False show ?thesis by (intro exI [of _ p] exI [of _ c]) simp
  qed
qed

text \<open>
  A code stays the same for its whole period: two times in the same period, counted from
  the epoch, give the same answer.
\<close>

theorem code_constant_in_period:
  assumes "parseKey key = Some p" and "t div (1000 * int (period p)) = u div (1000 * int (period p))"
  shows "generate key (jint t) = generate key (jint u)"
proof -
  have "totp_counter (jint t) (period p) = totp_counter (jint u) (period p)"
  proof -
    have "\<lfloor>rat_of_int \<lfloor>rat_of_int x / 1000\<rfloor> / rat_of_nat n\<rfloor> = x div (1000 * int n)" for x n
    proof -
      have "\<lfloor>rat_of_int x / 1000\<rfloor> = x div 1000"
        using floor_divide_of_int_eq [of x 1000, where 'a = rat] by simp
      moreover have "\<lfloor>rat_of_int (x div 1000) / rat_of_nat n\<rfloor> = x div 1000 div int n"
        using floor_divide_of_int_eq [of "x div 1000" "int n", where 'a = rat] by simp
      ultimately show ?thesis by (simp add: zdiv_zmult2_eq)
    qed
    then show ?thesis using assms(2) by (simp add: totp_counter_def)
  qed
  then show ?thesis using assms(1) by (simp add: generate_def)
qed

subsection \<open>A concrete key\<close>

definition demo_key :: jsval where "demo_key = JStr (js ''GEZDGNBVGY3TQOJQ'')"

lemma demo_key_params:
  "parseKey demo_key = Some \<lparr>algorithm = SHA1, digits = 6, period = 30, secret = decodeBase32 (to_lower (js ''GEZDGNBVGY3TQOJQ''))\<rparr>"
  by (simp add: parseKey_def demo_key_def js_def to_lower_def lower_unit_def DEFAULT_DIGITS_def DEFAULT_PERIOD_def)

theorem hmac_in_bounds_witness:
  "hmac (hash_of SHA1) (replicate 65 7) [] = hmac (hash_of SHA1) (hash_of SHA1 (replicate 65 7)) []"
  using hmac_in_bounds [of SHA1 "replicate 65 7" "[]"] by (simp add: Let_def)

theorem code_shape_witness: "\<exists>code. generate demo_key (jint 59000) = Some (code, 30) \<and> length code = 6"
proof -
  have "\<lfloor>59 / 30 :: rat\<rfloor> = 1" by (rule floor_unique) simp_all
  then have "totp_counter (jint 59000) 30 = Some 1" by (simp add: totp_counter_def)
  then obtain code where g: "generate demo_key (jint 59000) = Some (code, 30)"
    by (simp add: generate_def demo_key_params)
  with code_shape [OF g] show ?thesis by (auto simp: demo_key_params)
qed

theorem code_constant_in_period_witness: "generate demo_key (jint 30000) = generate demo_key (jint 59999)"
  by (rule code_constant_in_period [OF demo_key_params]) simp

end
