(* ===== verification/Login.thy ===== *)
theory Login
  imports Json
begin

text \<open>
  Signing in, as \<^verbatim>\<open>BitwardenModel.js\<close> does it around \<^verbatim>\<open>bw\<close>: which two-step method an account used last,
  the session key in what \<^verbatim>\<open>bw\<close> prints, whether a server may be given the master password, which
  URIs may be opened, how long an unfinished login is kept, what of \<^verbatim>\<open>bw\<close>'s error output may be
  shown, and the queue of output buffers still to be emptied after a lock.
\<close>

section \<open>Two-step methods\<close>

definition TWO_FACTOR_METHODS :: "(int \<times> jsstr) list" where
  \<comment> \<open>method and label; the hints are not used by the code\<close>
  "TWO_FACTOR_METHODS = [(0, js ''Authenticator app''), (3, js ''YubiKey OTP''), (1, js ''Email'')]"

definition isTwoFactorMethod :: "jsval \<Rightarrow> bool" where
  "isTwoFactorMethod m = (case m of JNum n \<Rightarrow> n \<in> set (map (numi \<circ> fst) TWO_FACTOR_METHODS) | _ \<Rightarrow> False)"

definition twoFactorMethodLabel :: "jsval \<Rightarrow> jsstr" where
  "twoFactorMethodLabel m =
     (case find (\<lambda>(k, l). m = jint k) TWO_FACTOR_METHODS of Some (k, l) \<Rightarrow> l | None \<Rightarrow> [])"

definition MAX_REMEMBERED_ACCOUNTS :: nat where "MAX_REMEMBERED_ACCOUNTS = 10"

definition twoFactorAccountKey :: "jsstr \<Rightarrow> jsstr" where
  "twoFactorAccountKey email = to_lower (trim email)"

definition stored_method :: "jsval \<Rightarrow> jsval option" where
  \<comment> \<open>a number, or text that is not blank, that is a method of the table\<close>
  "stored_method raw =
     (let m = (case raw of JNum n \<Rightarrow> num_floor n
               | JStr s \<Rightarrow> if trim s \<noteq> [] then num_floor (string_to_number s) else NaN
               | _ \<Rightarrow> NaN)
      in if is_finite m \<and> isTwoFactorMethod (JNum m) then Some (JNum m) else None)"

definition rememberedTwoFactorMethodFor :: "jsval \<Rightarrow> jsstr \<Rightarrow> jsval option" where
  \<comment> \<open>\<open>-1\<close>, for not remembered, is \<open>None\<close>\<close>
  "rememberedTwoFactorMethodFor store email =
     (let key = twoFactorAccountKey email
      in if key = [] \<or> \<not> is_object store then None else stored_method (get_prop store key))"

definition own_keys :: "jsval \<Rightarrow> jsstr list" where
  \<comment> \<open>the keys of \<^verbatim>\<open>for (var k in store)\<close>\<close>
  "own_keys v = (case v of JObj ps \<Rightarrow> map fst ps | JArr xs \<Rightarrow> map nat_to_str [0..<length xs] | _ \<Rightarrow> [])"

fun keep_methods :: "jsval \<Rightarrow> jsstr \<Rightarrow> nat \<Rightarrow> jsstr list \<Rightarrow> nat \<Rightarrow> (jsstr \<times> jsval) list \<Rightarrow> (jsstr \<times> jsval) list" where
  \<comment> \<open>the loop over the stored accounts; \<open>room\<close> is how many may be kept\<close>
  "keep_methods store key room [] kept nxt = nxt"
| "keep_methods store key room (k # ks) kept nxt =
     (let other = twoFactorAccountKey k in
      if other = [] \<or> other = key then keep_methods store key room ks kept nxt
      else case rememberedTwoFactorMethodFor store k of
        None \<Rightarrow> keep_methods store key room ks kept nxt
      | Some m \<Rightarrow>
          (if room \<le> kept then keep_methods store key room ks kept nxt
           else keep_methods store key room ks (Suc kept) (obj_put nxt other m)))"

definition rememberTwoFactorMethodIn :: "jsval \<Rightarrow> jsstr \<Rightarrow> jsval \<Rightarrow> jsval option" where
  "rememberTwoFactorMethodIn store email m =
     (let key = twoFactorAccountKey email in
      if key = [] \<or> \<not> isTwoFactorMethod m then None
      else Some (JObj (obj_put
        (keep_methods store key (MAX_REMEMBERED_ACCOUNTS - 1) (own_keys store) 0 []) key m)))"

definition forgetTwoFactorMethodIn :: "jsval \<Rightarrow> jsstr \<Rightarrow> jsval option" where
  "forgetTwoFactorMethodIn store email =
     (let key = twoFactorAccountKey email in
      if key = [] \<or> \<not> is_object store then None
      else Some (JObj (keep_methods store key (length (own_keys store)) (own_keys store) 0 [])))"

section \<open>The session key\<close>

definition token_unit :: "nat \<Rightarrow> bool" where
  \<comment> \<open>the class \<^verbatim>\<open>[A-Za-z0-9+/=_-]\<close>\<close>
  "token_unit c \<longleftrightarrow> is_alpha c \<or> is_digit c \<or> c = 43 \<or> c = 47 \<or> c = 61 \<or> c = 95 \<or> c = 45"

definition SESSION_TOKEN_RE :: "jsstr \<Rightarrow> bool" where
  "SESSION_TOKEN_RE s \<longleftrightarrow> 32 \<le> length s \<and> (\<forall>c\<in>set s. token_unit c)"

definition isSessionToken :: "jsstr \<Rightarrow> bool" where
  "isSessionToken value \<longleftrightarrow> SESSION_TOKEN_RE (trim value)"

definition session_value :: "jsstr \<Rightarrow> jsstr" where
  \<comment> \<open>the group of \<^verbatim>\<open>/BW_SESSION="?([^"\n\r]+)"?/\<close> after the equals sign, empty when it does not match\<close>
  "session_value r =
     takeWhile (\<lambda>c. c \<noteq> 34 \<and> c \<noteq> 10 \<and> c \<noteq> 13) (case r of c # r' \<Rightarrow> if c = 34 then r' else r | [] \<Rightarrow> [])"

fun match_session :: "jsstr \<Rightarrow> jsstr option" where
  \<comment> \<open>the group of the first match\<close>
  "match_session [] = None"
| "match_session (c # cs) =
     (if starts_with (js ''BW_SESSION='') (c # cs) \<and> session_value (drop 11 (c # cs)) \<noteq> []
      then Some (session_value (drop 11 (c # cs))) else match_session cs)"

definition token_line :: "jsstr \<Rightarrow> jsstr" where
  "token_line s = (case find isSessionToken (map trim (split_on 10 s)) of Some l \<Rightarrow> l | None \<Rightarrow> [])"

definition extractSessionToken :: "jsstr \<Rightarrow> jsstr" where
  "extractSessionToken raw =
     (let s = trim raw in
      case match_session s of
        Some g \<Rightarrow> if isSessionToken g then trim g else token_line s
      | None \<Rightarrow> token_line s)"

definition vaultReadIsStale :: "jsval \<Rightarrow> jsval \<Rightarrow> bool \<Rightarrow> bool" where
  "vaultReadIsStale startedEpoch currentEpoch hasSession =
     (if \<not> hasSession then True else \<not> num_eq (to_num startedEpoch) (to_num currentEpoch))"

section \<open>Scrubbing\<close>

record proc =
  proc_id :: nat
  running :: bool
  command :: "jsstr list"

definition SCRUB_COMMAND :: "jsstr list" where "SCRUB_COMMAND = [js ''bash'', js ''-c'', []]"

definition isScrubCommand :: "jsstr list \<Rightarrow> bool" where
  "isScrubCommand cmd \<longleftrightarrow> length cmd = length SCRUB_COMMAND
     \<and> (\<forall>i<length SCRUB_COMMAND. cmd ! i = SCRUB_COMMAND ! i)"

fun scrubPass :: "proc list \<Rightarrow> proc list \<times> proc list" where
  \<comment> \<open>the processes to scrub now, and those to look at again\<close>
  "scrubPass [] = ([], [])"
| "scrubPass (p # ps) =
     (case scrubPass ps of
        (start, waiting) \<Rightarrow>
          if running p then (start, p # waiting)
          else if isScrubCommand (command p) then (start, waiting)
          else (p # start, p # waiting))"

definition finishScrub :: "proc list \<Rightarrow> nat \<Rightarrow> proc list" where
  \<comment> \<open>a process is the same object, hence the same \<open>proc_id\<close>\<close>
  "finishScrub procs finished = filter (\<lambda>p. proc_id p \<noteq> finished) procs"

section \<open>Servers and URLs\<close>

definition BITWARDEN_US :: jsstr where "BITWARDEN_US = js ''https://vault.bitwarden.com''"
definition BITWARDEN_EU :: jsstr where "BITWARDEN_EU = js ''https://vault.bitwarden.eu''"

definition loginServerUrlFor :: "jsstr \<Rightarrow> jsstr \<Rightarrow> jsstr" where
  "loginServerUrlFor region customUrl =
     (let choice = to_lower region in
      if choice = js ''eu'' then BITWARDEN_EU
      else if choice = js ''custom'' then trim customUrl else BITWARDEN_US)"

definition scheme_unit :: "nat \<Rightarrow> bool" where
  "scheme_unit c \<longleftrightarrow> is_alpha c \<or> is_digit c \<or> c = 43 \<or> c = 46 \<or> c = 45"

definition read_scheme :: "jsstr \<Rightarrow> (jsstr \<times> jsstr) option" where
  \<comment> \<open>\<^verbatim>\<open>/^([a-zA-Z][a-zA-Z0-9+.-]*):/\<close>: the scheme and what follows the colon\<close>
  "read_scheme s =
     (case s of
        [] \<Rightarrow> None
      | c # cs \<Rightarrow>
          (if \<not> is_alpha c then None
           else (case dropWhile scheme_unit s of
                   d # r \<Rightarrow> if d = 58 then Some (takeWhile scheme_unit s, r) else None
                 | [] \<Rightarrow> None)))"

definition SERVER_SCHEME_RE :: "jsstr \<Rightarrow> (jsstr \<times> jsstr) option" where
  "SERVER_SCHEME_RE s =
     (case read_scheme s of
        Some (scheme, r) \<Rightarrow> if starts_with [47, 47] r then Some (scheme, drop 2 r) else None
      | None \<Rightarrow> None)"

definition octet :: "jsstr \<Rightarrow> bool" where
  \<comment> \<open>\<^verbatim>\<open>\d{1,3}\<close>\<close>
  "octet s \<longleftrightarrow> 1 \<le> length s \<and> length s \<le> 3 \<and> (\<forall>c\<in>set s. is_digit c)"

definition LOOPBACK_HOST_RE :: "jsstr \<Rightarrow> bool" where
  "LOOPBACK_HOST_RE h \<longleftrightarrow> to_lower h = js ''localhost''
     \<or> (case split_on 46 h of [a, b, c, d] \<Rightarrow> a = js ''127'' \<and> octet b \<and> octet c \<and> octet d | _ \<Rightarrow> False)
     \<or> h = js ''[::1]'' \<or> h = js ''::1''"

definition drop_port :: "jsstr \<Rightarrow> jsstr" where
  \<comment> \<open>\<^verbatim>\<open>host.replace(/:\d*$/, "")\<close>\<close>
  "drop_port h =
     (case rev (dropWhile is_digit (rev h)) of
        [] \<Rightarrow> h
      | x # xs \<Rightarrow> if last (x # xs) = 58 then butlast (x # xs) else h)"

definition in_authority :: "nat \<Rightarrow> bool" where
  \<comment> \<open>\<^verbatim>\<open>[^/?#]\<close>\<close>
  "in_authority c \<longleftrightarrow> c \<noteq> 47 \<and> c \<noteq> 63 \<and> c \<noteq> 35"

definition url_host :: "jsstr \<Rightarrow> jsstr" where
  \<comment> \<open>the host in what follows \<^verbatim>\<open>://\<close>\<close>
  "url_host rest =
     (let auth = takeWhile in_authority rest
      in drop_port (case last_index_of 64 auth of Some i \<Rightarrow> drop (Suc i) auth | None \<Rightarrow> auth))"

definition validateServerUrl :: "jsstr \<Rightarrow> jsstr" where
  "validateServerUrl raw =
     (let url = trim raw in
      if url = [] then []
      else if 92 \<in> set url then js ''Server URL must not contain backslashes''
      else case SERVER_SCHEME_RE url of
        None \<Rightarrow> js ''Server URL must start with https:// (or http:// for localhost)''
      | Some (sch, rest) \<Rightarrow>
          (let scheme = to_lower sch; host = url_host rest in
           if scheme \<noteq> js ''http'' \<and> scheme \<noteq> js ''https''
           then js ''Server URL must be http or https, not '' @ scheme @ js '':''
           else if host = [] then js ''Server URL is missing a host name''
           else if scheme = js ''http'' \<and> \<not> LOOPBACK_HOST_RE host
           then js ''Refusing to send your master password over plain http to '' @ host
                @ js ''. Use https:// (http is allowed only for localhost).''
           else []))"

datatype openable = OpenUrl jsstr | RefuseScheme jsstr | RefuseAmbiguous

definition is_http_url :: "jsstr \<Rightarrow> bool" where
  \<comment> \<open>\<open>HTTP_URL_RE\<close>\<close>
  "is_http_url s \<longleftrightarrow> starts_with (js ''http://'') (to_lower s) \<or> starts_with (js ''https://'') (to_lower s)"

definition url_scheme :: "jsstr \<Rightarrow> jsstr option" where
  \<comment> \<open>\<open>URL_SCHEME_RE\<close>: no digit after the colon\<close>
  "url_scheme s =
     (case read_scheme s of
        Some (scheme, r) \<Rightarrow> (case r of d # _ \<Rightarrow> if is_digit d then None else Some scheme | [] \<Rightarrow> Some scheme)
      | None \<Rightarrow> None)"

definition normalizeOpenableUrl :: "jsstr \<Rightarrow> openable" where
  "normalizeOpenableUrl raw =
     (let target = trim raw in
      if target = [] then RefuseScheme []
      else if 92 \<in> set target then RefuseAmbiguous
      else if \<exists>c\<in>set target. c \<le> 32 \<or> c = 127 then RefuseAmbiguous
      else if is_http_url target then OpenUrl target
      else case url_scheme target of
        Some scheme \<Rightarrow> RefuseScheme (to_lower scheme)
      | None \<Rightarrow> OpenUrl (js ''https://'' @ target))"

section \<open>Windows\<close>

definition HANDOFF_WINDOW_MS :: int where "HANDOFF_WINDOW_MS = 10 * 60 * 1000"
definition SECOND_FACTOR_WINDOW_MS :: int where "SECOND_FACTOR_WINDOW_MS = 5 * 60 * 1000"

definition windowOpen :: "jsval \<Rightarrow> jsval \<Rightarrow> int \<Rightarrow> bool" where
  "windowOpen startedAt now windowMs =
     (let began = to_num startedAt in
      if \<not> is_finite began \<or> num_le began (Fin 0) then False
      else (let elapsed = num_sub (to_num now) began in
            if \<not> is_finite elapsed \<or> num_lt elapsed (Fin 0) then False else num_le elapsed (numi windowMs)))"

definition secondFactorWindowOpen :: "jsval \<Rightarrow> jsval \<Rightarrow> bool" where
  "secondFactorWindowOpen startedAt now = windowOpen startedAt now SECOND_FACTOR_WINDOW_MS"

definition handoffWindowOpen :: "jsval \<Rightarrow> jsval \<Rightarrow> bool" where
  "handoffWindowOpen startedAt now = windowOpen startedAt now HANDOFF_WINDOW_MS"


section \<open>Error output\<close>

definition csi_param :: "nat \<Rightarrow> bool" where
  "csi_param c \<longleftrightarrow> is_digit c \<or> c = 59 \<or> c = 63"

function strip_csi :: "jsstr \<Rightarrow> jsstr" where
  \<comment> \<open>\<^verbatim>\<open>replace(/\x1b\[[0-9;?]*[A-Za-z]/g, "")\<close>\<close>
  "strip_csi [] = []"
| "strip_csi (c # cs) =
     (if c = 27 \<and> cs \<noteq> [] \<and> hd cs = 91 then
        (case dropWhile csi_param (tl cs) of
           d # r \<Rightarrow> if is_alpha d then strip_csi r else c # strip_csi cs
         | [] \<Rightarrow> c # strip_csi cs)
      else c # strip_csi cs)"
  by pat_completeness auto
termination
proof (relation "measure length")
  fix c d :: nat and cs r :: jsstr
  assume "c = 27 \<and> cs \<noteq> [] \<and> hd cs = 91" and "dropWhile csi_param (tl cs) = d # r"
  then show "(r, c # cs) \<in> measure length"
    using length_dropWhile_le [of csi_param "tl cs"] by (cases cs) auto
qed auto

fun strip_escape :: "jsstr \<Rightarrow> jsstr" where
  \<comment> \<open>\<^verbatim>\<open>replace(/\x1b[@-Z\\-_]/g, "")\<close>\<close>
  "strip_escape [] = []"
| "strip_escape [c] = [c]"
| "strip_escape (c # d # cs) =
     (if c = 27 \<and> ((64 \<le> d \<and> d \<le> 90) \<or> (92 \<le> d \<and> d \<le> 95)) then strip_escape cs else c # strip_escape (d # cs))"

definition sanitizeInteractiveStderr :: "jsstr \<Rightarrow> jsstr \<Rightarrow> jsstr" where
  "sanitizeInteractiveStderr raw secret =
     (let text = map (\<lambda>c. if c = 13 then 10 else c) (strip_escape (strip_csi raw));
          code = trim secret;
          kept = filter (\<lambda>l. l \<noteq> [] \<and> hd l \<noteq> 63 \<and> \<not> (code \<noteq> [] \<and> contains code l)) (map trim (split_on 10 text))
      in take 300 (join [32] kept))"

section \<open>Remembered methods\<close>

lemma twoFactorAccountKey_idem [simp]: "twoFactorAccountKey (twoFactorAccountKey e) = twoFactorAccountKey e"
  by (simp add: twoFactorAccountKey_def trim_to_lower)

lemma remembered_normalized: "rememberedTwoFactorMethodFor store (twoFactorAccountKey e) = rememberedTwoFactorMethodFor store e"
  by (simp add: rememberedTwoFactorMethodFor_def)

lemma stored_method_stable: "stored_method raw = Some m \<Longrightarrow> isTwoFactorMethod m \<and> stored_method m = Some m"
  by (auto simp: stored_method_def Let_def isTwoFactorMethod_def TWO_FACTOR_METHODS_def split: if_splits)

lemma remembered_stable: "rememberedTwoFactorMethodFor store e = Some m \<Longrightarrow> isTwoFactorMethod m \<and> stored_method m = Some m"
  by (auto simp: rememberedTwoFactorMethodFor_def Let_def stored_method_stable split: if_splits)

lemma method_stored: "isTwoFactorMethod m \<Longrightarrow> stored_method m = Some m"
  by (cases m) (auto simp: stored_method_def Let_def isTwoFactorMethod_def TWO_FACTOR_METHODS_def)

definition kept_ok :: "jsval \<Rightarrow> jsstr \<Rightarrow> (jsstr \<times> jsval) list \<Rightarrow> bool" where
  "kept_ok store key nxt \<longleftrightarrow>
     (\<forall>k v. map_of nxt k = Some v \<longrightarrow> k \<noteq> [] \<and> k \<noteq> key \<and> twoFactorAccountKey k = k
        \<and> rememberedTwoFactorMethodFor store k = Some v)"

lemma length_obj_put: "length (obj_put ps k v) \<le> Suc (length ps)"
  by (induction ps k v rule: obj_put.induct) auto

lemma keep_methods_ok:
  "kept_ok store key nxt \<Longrightarrow> kept_ok store key (keep_methods store key room ks kept nxt)"
proof (induction store key room ks kept nxt rule: keep_methods.induct)
  case (2 store key room k ks kept nxt)
  have "kept_ok store key (obj_put nxt (twoFactorAccountKey k) m)"
    if "rememberedTwoFactorMethodFor store k = Some m" "twoFactorAccountKey k \<noteq> []" "twoFactorAccountKey k \<noteq> key" for m
    using that "2.prems" by (auto simp: kept_ok_def remembered_normalized)
  with 2 show ?case by (simp add: Let_def split: option.splits)
qed simp

lemma keep_methods_length:
  "length nxt \<le> kept \<Longrightarrow> kept \<le> room \<Longrightarrow> length (keep_methods store key room ks kept nxt) \<le> room"
proof (induction store key room ks kept nxt rule: keep_methods.induct)
  case (2 store key room k ks kept nxt)
  have "length (obj_put nxt (twoFactorAccountKey k) m) \<le> Suc kept" for m
    using length_obj_put [of nxt "twoFactorAccountKey k" m] "2.prems"(1) by linarith
  with 2 show ?case by (simp add: Let_def split: option.splits)
qed simp

section \<open>Error output\<close>

lemma contains_join:
  assumes "d \<notin> set p" and "p \<noteq> []" and "contains p (join [d] ls)"
  shows "\<exists>l\<in>set ls. contains p l"
  using assms(3)
proof (induction "[d]" ls rule: join.induct)
  case 1
  with assms(2) show ?case by (auto simp: contains_iff)
next
  case (2 x)
  then show ?case by simp
next
  case (3 x y ys)
  from "3.prems" obtain a b where ab: "x @ d # join [d] (y # ys) = a @ p @ b" by (auto simp: contains_iff)
  let ?r = "join [d] (y # ys)"
  consider u where "x = a @ u" "u @ d # ?r = p @ b" | u where "a = x @ u" "d # ?r = u @ p @ b"
    using ab by (auto simp: append_eq_append_conv2)
  then show ?case
  proof cases
    case (1 u)
    then have "\<exists>w. u = p @ w"
    proof -
      from 1(2) obtain w where "u = p @ w \<or> (u @ w = p \<and> d # ?r = w @ b)"
        unfolding append_eq_append_conv2 by blast
      then show ?thesis
      proof
        assume w: "u @ w = p \<and> d # ?r = w @ b"
        then have "w = []" using assms(1) by (cases w) auto
        with w show ?thesis by (metis append_Nil2)
      qed blast
    qed
    with 1(1) have "contains p x" by (auto simp: contains_iff)
    then show ?thesis by simp
  next
    case (2 u)
    then have "u \<noteq> []" using assms(1,2) by (cases p) auto
    with 2(2) have "contains p ?r" by (cases u) (auto simp: contains_iff)
    with "3.hyps" show ?thesis by auto
  qed
qed

lemma contains_take: "contains p (take n s) \<Longrightarrow> contains p s"
  by (metis append.assoc append_take_drop_id contains_iff)

section \<open>Servers\<close>

lemma last_index_of_append: "last_index_of x (a @ b) = (case last_index_of x b of Some n \<Rightarrow> Some (length a + n)
    | None \<Rightarrow> last_index_of x a)"
  by (induction a) (auto split: option.splits)

lemma last_index_of_None: "x \<notin> set s \<Longrightarrow> last_index_of x s = None"
  by (induction s) auto

lemma drop_port_id: "58 \<notin> set h \<Longrightarrow> drop_port h = h"
proof -
  assume "58 \<notin> set h"
  then have "58 \<notin> set (rev (dropWhile is_digit (rev h)))" by (auto dest: set_dropWhileD)
  then have "rev (dropWhile is_digit (rev h)) = x # xs \<Longrightarrow> last (x # xs) \<noteq> 58" for x xs
    by (metis last_in_set list.distinct(1))
  then show ?thesis by (auto simp: drop_port_def split: list.splits)
qed

lemma takeWhile_before: "list_all P xs \<Longrightarrow> \<not> P y \<Longrightarrow> takeWhile P (xs @ y # ys) = xs"
  by (induction xs) auto

lemma url_host_userinfo:
  assumes "list_all in_authority u" and "list_all in_authority h" and "64 \<notin> set h" and "58 \<notin> set h"
  shows "url_host (u @ 64 # h @ 47 # p) = h"
proof -
  have "takeWhile in_authority ((u @ 64 # h) @ 47 # p) = u @ 64 # h"
    using assms(1,2) by (intro takeWhile_before) (simp_all add: in_authority_def [of 64] in_authority_def [of 47])
  moreover have "last_index_of 64 (u @ 64 # h) = Some (length u)"
    by (simp add: last_index_of_append last_index_of_None [OF assms(3)])
  ultimately show ?thesis
    using drop_port_id [OF assms(4)] by (simp add: url_host_def Let_def)
qed

section \<open>The session key in what bw prints\<close>

lemma token_unit_not_ws: "token_unit c \<Longrightarrow> \<not> is_ws c \<and> c \<noteq> 34 \<and> c \<noteq> 10 \<and> c \<noteq> 13"
  by (auto simp: token_unit_def is_alpha_def is_digit_def is_ws_def)

lemma trim_no_ws: "(\<And>c. c \<in> set s \<Longrightarrow> \<not> is_ws c) \<Longrightarrow> trim s = s"
  unfolding trim_def trim_start_def trim_end_def
  by (metis dropWhile_eq_self_iff in_set_conv_decomp list.set_sel(1) rev_is_Nil_conv rev_rev_ident set_rev)

lemma token_trim: "SESSION_TOKEN_RE t \<Longrightarrow> trim t = t"
  by (rule trim_no_ws) (auto simp: SESSION_TOKEN_RE_def dest: token_unit_not_ws)

lemma token_line_ok: "token_line s = [] \<or> SESSION_TOKEN_RE (token_line s)"
proof (cases "find isSessionToken (map trim (split_on 10 s))")
  case (Some l)
  then have "isSessionToken l" and "l \<in> set (map trim (split_on 10 s))"
    by (auto simp: find_Some_iff)
  then show ?thesis using Some by (auto simp: token_line_def isSessionToken_def)
qed (simp add: token_line_def)

text \<open>C40: What is taken for a session key never is anything but one: whatever bw printed, the
  result is empty or at least 32 characters of the token alphabet.\<close>
theorem session_token_safe:
  "extractSessionToken raw = [] \<or> SESSION_TOKEN_RE (extractSessionToken raw)"
  using token_line_ok [of "trim raw"]
  by (auto simp: extractSessionToken_def Let_def isSessionToken_def split: option.splits)

lemma trim_around:
  assumes "\<not> is_ws a" and "\<not> is_ws b"
  shows "trim (pre @ a # m @ b # post) = trim_start pre @ a # m @ b # trim_end post"
proof -
  have "trim_start (pre @ a # m @ b # post) = trim_start pre @ a # m @ b # post"
    using assms(1) by (induction pre) (auto simp: trim_start_def)
  moreover have "trim_end (xs @ b # post) = xs @ b # trim_end post" for xs
    using assms(2) by (induction post rule: rev_induct) (auto simp: trim_end_def)
  from this [of "trim_start pre @ a # m"] have "trim_end (trim_start pre @ a # m @ b # post) = trim_start pre @ a # m @ b # trim_end post"
    by simp
  ultimately show ?thesis by (simp add: trim_def)
qed

lemma contains_suffix: "contains p b \<Longrightarrow> contains p (a @ b)"
  unfolding contains_iff by (metis append.assoc)

lemma starts_with_take: "starts_with p s \<longleftrightarrow> take (length p) s = p"
  by (induction p s rule: starts_with.induct) auto

lemma match_session_first:
  assumes "\<not> contains (js ''BW_SESSION='') (pre @ js ''BW_SESSION'')" and "session_value r \<noteq> []"
  shows "match_session (pre @ js ''BW_SESSION='' @ r) = Some (session_value r)"
  using assms(1)
proof (induction pre)
  case Nil
  then show ?case using assms(2) by (simp add: js_unfold)
next
  case (Cons c pre)
  let ?x = "js ''BW_SESSION=''" and ?y = "js ''BW_SESSION''"
  have len: "length ?x = 11" "length ?y = 10" and x: "?x = ?y @ [61]" by (simp_all add: js_def)
  have "\<not> starts_with ?x ((c # pre) @ ?x @ r)"
  proof
    assume "starts_with ?x ((c # pre) @ ?x @ r)"
    then have "take 11 ((c # pre) @ ?x @ r) = ?x" by (simp only: starts_with_take len)
    then have "take 11 ((c # pre) @ ?y) = ?x" unfolding x by (simp add: len)
    then have "contains ?x ((c # pre) @ ?y)" by (metis append_take_drop_id append_Nil contains_iff)
    with Cons.prems show False by simp
  qed
  moreover have "\<not> contains ?x (pre @ ?y)"
    using Cons.prems contains_suffix [of ?x "pre @ ?y" "[c]"] by auto
  ultimately show ?case using Cons.IH by simp
qed

lemma match_session_None: "\<not> contains (js ''BW_SESSION='') s \<Longrightarrow> match_session s = None"
proof (induction s)
  case (Cons c s)
  then have "\<not> starts_with (js ''BW_SESSION='') (c # s)" and "\<not> contains (js ''BW_SESSION='') s"
    by (simp_all add: contains_def split: if_splits)
  with Cons.IH show ?case by simp
qed simp

lemma session_value_quoted:
  assumes "SESSION_TOKEN_RE t"
  shows "session_value (34 # t @ 34 # post) = t"
proof -
  have "list_all (\<lambda>c. c \<noteq> 34 \<and> c \<noteq> 10 \<and> c \<noteq> 13) t"
    using assms by (auto simp: SESSION_TOKEN_RE_def list_all_iff dest: token_unit_not_ws)
  then show ?thesis by (simp add: session_value_def takeWhile_before)
qed

lemma trim_newline: "trim (s @ [10]) = trim s"
  unfolding trim_def trim_start_def trim_end_def by (induction s) (auto simp: is_ws_def)

text \<open>Both things bw prints are read back: the raw key on a line of its own, and the key
  between the quotes of the first \<^verbatim>\<open>BW_SESSION="..."\<close>, whatever stands before and after it.\<close>
theorem session_token_read_back:
  assumes "SESSION_TOKEN_RE t"
    and "\<not> contains (js ''BW_SESSION='') t"
    and "\<not> contains (js ''BW_SESSION='') (pre @ js ''BW_SESSION'')"
  shows "extractSessionToken (t @ [10]) = t
    \<and> extractSessionToken (pre @ js ''BW_SESSION='' @ 34 # t @ 34 # post) = t"
proof
  have t: "trim t = t" "t \<noteq> []" "isSessionToken t"
    using token_trim [OF assms(1)] assms(1) by (auto simp: isSessionToken_def SESSION_TOKEN_RE_def)
  have "10 \<notin> set t" using assms(1) by (auto simp: SESSION_TOKEN_RE_def dest: token_unit_not_ws)
  then have "token_line t = t" using t by (simp add: token_line_def split_on_no_sep)
  then show "extractSessionToken (t @ [10]) = t"
    using t(1) by (simp add: extractSessionToken_def trim_newline Let_def match_session_None [OF assms(2)])
  have pre: "\<not> contains (js ''BW_SESSION='') (trim_start pre @ js ''BW_SESSION'')"
    using assms(3) contains_suffix [of "js ''BW_SESSION=''" "trim_start pre @ js ''BW_SESSION''" "takeWhile is_ws pre"]
    by (metis append.assoc takeWhile_dropWhile_id trim_start_def)
  have "trim (pre @ js ''BW_SESSION='' @ 34 # t @ 34 # post)
      = trim_start pre @ js ''BW_SESSION='' @ 34 # t @ 34 # trim_end post"
    using trim_around [of 66 34 pre "js ''W_SESSION='' @ 34 # t" post] by (simp add: js_def is_ws_def)
  then show "extractSessionToken (pre @ js ''BW_SESSION='' @ 34 # t @ 34 # post) = t"
    using match_session_first [OF pre, of "34 # t @ 34 # trim_end post"] t
    by (simp add: extractSessionToken_def Let_def session_value_quoted [OF assms(1)])
qed

theorem session_token_read_back_witness:
  "extractSessionToken (js ''0123456789abcdefABCDEF0123456789+/=='' @ [10]) = js ''0123456789abcdefABCDEF0123456789+/==''
    \<and> extractSessionToken (js ''$ export '' @ js ''BW_SESSION='' @ 34 # js ''0123456789abcdefABCDEF0123456789+/=='' @ 34 # [10, 62])
        = js ''0123456789abcdefABCDEF0123456789+/==''"
  by (rule session_token_read_back)
    (simp_all add: js_def SESSION_TOKEN_RE_def token_unit_def is_alpha_def is_digit_def contains_def)

section \<open>What is remembered\<close>

lemma remembered_lookup:
  "rememberedTwoFactorMethodFor (JObj ps) e = Some v \<longleftrightarrow>
     (\<exists>w. twoFactorAccountKey e \<noteq> [] \<and> map_of ps (twoFactorAccountKey e) = Some w \<and> stored_method w = Some v)"
proof -
  have "stored_method JUndef = None" by (simp add: stored_method_def Let_def)
  then show ?thesis
    by (auto simp: rememberedTwoFactorMethodFor_def Let_def obj_get_def split: option.splits)
qed

lemma kept_remembered:
  assumes "kept_ok store key nxt" and "rememberedTwoFactorMethodFor (JObj nxt) other = Some v"
  shows "rememberedTwoFactorMethodFor store other = Some v"
proof -
  from assms(2) obtain w where w: "map_of nxt (twoFactorAccountKey other) = Some w" "stored_method w = Some v"
    by (auto simp: remembered_lookup)
  with assms(1) have "rememberedTwoFactorMethodFor store other = Some w"
    by (metis kept_ok_def remembered_normalized)
  with w(2) remembered_stable show ?thesis by fastforce
qed

lemma kept_nothing: "kept_ok store key []"
  by (simp add: kept_ok_def)

text \<open>Remembering the two-step method an account signed in with: the method is read back for
  every spelling of the address, at most ten accounts are kept, and any other account keeps the
  method it had or is forgotten, so no account is ever given another one's method.\<close>
theorem remember_two_factor:
  assumes "rememberTwoFactorMethodIn store email m = Some next"
  shows "rememberedTwoFactorMethodFor next email = Some m
    \<and> length (own_keys next) \<le> MAX_REMEMBERED_ACCOUNTS
    \<and> (twoFactorAccountKey other = twoFactorAccountKey email
       \<or> rememberedTwoFactorMethodFor next other = None
       \<or> rememberedTwoFactorMethodFor next other = rememberedTwoFactorMethodFor store other)"
proof -
  let ?key = "twoFactorAccountKey email"
  define kept where "kept = keep_methods store ?key 9 (own_keys store) 0 []"
  have nxt: "next = JObj (obj_put kept ?key m)" and m: "isTwoFactorMethod m" "?key \<noteq> []"
    using assms by (auto simp: rememberTwoFactorMethodIn_def Let_def kept_def MAX_REMEMBERED_ACCOUNTS_def split: if_splits)
  have ok: "kept_ok store ?key kept" unfolding kept_def by (rule keep_methods_ok) (rule kept_nothing)
  have "length kept \<le> 9" unfolding kept_def by (rule keep_methods_length) simp_all
  then have "length (own_keys next) \<le> MAX_REMEMBERED_ACCOUNTS"
    using length_obj_put [of kept ?key m] by (simp add: nxt own_keys_def MAX_REMEMBERED_ACCOUNTS_def)
  moreover have "rememberedTwoFactorMethodFor next email = Some m"
    using m by (simp add: nxt remembered_lookup method_stored)
  moreover have "rememberedTwoFactorMethodFor next other \<in> {None, rememberedTwoFactorMethodFor store other}"
    if "twoFactorAccountKey other \<noteq> ?key"
  proof (cases "rememberedTwoFactorMethodFor next other")
    case (Some v)
    with that have "rememberedTwoFactorMethodFor (JObj kept) other = Some v"
      by (auto simp: nxt remembered_lookup)
    with Some show ?thesis using kept_remembered [OF ok] by simp
  qed simp
  ultimately show ?thesis by auto
qed

lemmas remember_simps = rememberedTwoFactorMethodFor_def twoFactorAccountKey_def stored_method_def isTwoFactorMethod_def
  TWO_FACTOR_METHODS_def MAX_REMEMBERED_ACCOUNTS_def own_keys_def obj_get_def key_before_def is_index_key_def
  Let_def js_unfold

theorem remember_two_factor_witness:
  "rememberedTwoFactorMethodFor (JObj [(js ''a@b.c'', jint 3), (js ''x@y.z'', jint 0)]) (js '' X@Y.z'') = Some (jint 0)
    \<and> rememberedTwoFactorMethodFor (JObj [(js ''a@b.c'', jint 3), (js ''x@y.z'', jint 0)]) (js ''A@b.c'') = Some (jint 3)"
proof -
  have "rememberTwoFactorMethodIn (JObj [(js ''a@b.c'', jint 3)]) (js '' X@Y.z'') (jint 0)
      = Some (JObj [(js ''a@b.c'', jint 3), (js ''x@y.z'', jint 0)])"
    by (simp add: rememberTwoFactorMethodIn_def remember_simps)
  from remember_two_factor [OF this, of "js ''A@b.c''"] show ?thesis
    by (simp add: remember_simps)
qed

section \<open>Where the master password may go\<close>

lemma http_scheme: "SERVER_SCHEME_RE (js ''http://'' @ r) = Some (js ''http'', r)"
  by (simp add: SERVER_SCHEME_RE_def read_scheme_def js_unfold scheme_unit_def)

lemma trim_outer:
  assumes "\<not> is_ws a" and "\<not> is_ws (last (a # m))"
  shows "trim (a # m) = a # m"
proof -
  have "trim_start (a # m) = a # m" using assms(1) by (simp add: trim_start_def)
  moreover obtain b c where b: "a # m = b @ [c]" by (metis list.distinct(1) rev_exhaust)
  with assms(2) have "trim_end (a # m) = a # m" unfolding b by (simp add: trim_end_def)
  ultimately show ?thesis by (simp add: trim_def)
qed

text \<open>User info in front of the host does not make a plain http server look like a local one:
  for \<^verbatim>\<open>http://user@host/path\<close> the check judges the host behind the last \<^verbatim>\<open>@\<close>, and refuses it with a
  message naming it unless it is a loopback host.\<close>
theorem plain_http_refused:
  assumes "list_all in_authority u" and "list_all in_authority h" and "64 \<notin> set h" and "58 \<notin> set h"
    and "h \<noteq> []" and "\<not> LOOPBACK_HOST_RE h" and "92 \<notin> set (u @ h @ p)"
    and "\<not> is_ws (last (47 # p))"
  shows "validateServerUrl (js ''http://'' @ u @ 64 # h @ 47 # p) =
    js ''Refusing to send your master password over plain http to '' @ h
      @ js ''. Use https:// (http is allowed only for localhost).''"
proof -
  let ?r = "u @ 64 # h @ 47 # p"
  have "trim (104 # js ''ttp://'' @ ?r) = 104 # js ''ttp://'' @ ?r"
    using assms(8) by (intro trim_outer) (simp_all add: is_ws_def)
  moreover have x: "js ''http://'' @ ?r = 104 # js ''ttp://'' @ ?r" by (simp add: js_def)
  ultimately have "trim (js ''http://'' @ ?r) = js ''http://'' @ ?r" by metis
  moreover have "92 \<notin> set (js ''http://'' @ ?r)" using assms(7) by (simp add: js_def)
  moreover have "to_lower (js ''http'') = js ''http''" "js ''http'' \<noteq> js ''https''" "js ''http://'' @ ?r \<noteq> []"
    by (simp_all add: js_unfold)
  ultimately show ?thesis
    using assms(5,6) url_host_userinfo [OF assms(1-4)]
    by (simp add: validateServerUrl_def Let_def http_scheme)
qed

theorem plain_http_refused_witness:
  "validateServerUrl (js ''http://'' @ js ''localhost'' @ 64 # js ''evil.example'' @ 47 # []) =
    js ''Refusing to send your master password over plain http to '' @ js ''evil.example''
      @ js ''. Use https:// (http is allowed only for localhost).''"
  by (rule plain_http_refused)
    (simp_all add: js_unfold in_authority_def LOOPBACK_HOST_RE_def)

section \<open>What may be opened, shown and kept\<close>

lemma http_lower: "is_http_url (js ''https://'' @ t)"
  by (simp add: is_http_url_def js_unfold)

text \<open>What a click on a stored URI opens is an http or https URL with no backslash, no blank and no
  control character, and it is the stored text, trimmed, or \<^verbatim>\<open>https://\<close> in front of it.\<close>
theorem openable_url_safe:
  assumes "normalizeOpenableUrl raw = OpenUrl url"
  shows "is_http_url url \<and> list_all (\<lambda>c. c \<noteq> 92 \<and> 32 < c \<and> c \<noteq> 127) url
    \<and> (url = trim raw \<or> url = js ''https://'' @ trim raw)"
proof -
  have "92 \<notin> set (trim raw)" "\<not> (\<exists>c\<in>set (trim raw). c \<le> 32 \<or> c = 127)"
    and url: "url = trim raw \<and> is_http_url (trim raw) \<or> url = js ''https://'' @ trim raw"
    using assms by (auto simp: normalizeOpenableUrl_def Let_def split: if_splits option.splits)
  then have "list_all (\<lambda>c. c \<noteq> 92 \<and> 32 < c \<and> c \<noteq> 127) (trim raw)"
    by (auto simp: list_all_iff not_le)
  moreover have "list_all (\<lambda>c. c \<noteq> 92 \<and> 32 < c \<and> c \<noteq> (127::nat)) (js ''https://'')" by (simp add: js_def)
  ultimately show ?thesis using url http_lower by auto
qed

theorem openable_url_safe_witness:
  "is_http_url (js ''https://example.com:8080/a'') \<and> normalizeOpenableUrl (js '' example.com:8080/a'') = OpenUrl (js ''https://example.com:8080/a'')"
proof -
  have n: "normalizeOpenableUrl (js '' example.com:8080/a'') = OpenUrl (js ''https://example.com:8080/a'')"
    by (simp add: normalizeOpenableUrl_def Let_def js_unfold is_http_url_def url_scheme_def read_scheme_def scheme_unit_def)
  with openable_url_safe [OF n] show ?thesis by blast
qed

text \<open>The text shown from bw's error output is at most 300 characters and never holds the one-time
  code that was just submitted, whatever bw printed around it.\<close>
theorem error_output_hides_code:
  assumes "trim secret \<noteq> []" and "32 \<notin> set (trim secret)"
  shows "\<not> contains (trim secret) (sanitizeInteractiveStderr raw secret)
    \<and> length (sanitizeInteractiveStderr raw secret) \<le> 300"
proof
  let ?kept = "filter (\<lambda>l. l \<noteq> [] \<and> hd l \<noteq> 63 \<and> \<not> (trim secret \<noteq> [] \<and> contains (trim secret) l))
    (map trim (split_on 10 (map (\<lambda>c. if c = 13 then 10 else c) (strip_escape (strip_csi raw)))))"
  have s: "sanitizeInteractiveStderr raw secret = take 300 (join [32] ?kept)"
    by (simp add: sanitizeInteractiveStderr_def Let_def)
  show "\<not> contains (trim secret) (sanitizeInteractiveStderr raw secret)"
  proof
    assume "contains (trim secret) (sanitizeInteractiveStderr raw secret)"
    then have "contains (trim secret) (join [32] ?kept)" unfolding s by (rule contains_take)
    with contains_join [OF assms(2,1)] obtain l where "l \<in> set ?kept" "contains (trim secret) l" by blast
    with assms(1) show False by simp
  qed
  show "length (sanitizeInteractiveStderr raw secret) \<le> 300" by (simp add: s)
qed

theorem error_output_hides_code_witness:
  "\<not> contains (js ''123456'') (sanitizeInteractiveStderr (js ''? Two-step login code: 123456'' @ 10 # js ''code 123456 invalid'') (js ''123456''))"
proof -
  have "trim (js ''123456'') = js ''123456''" "js ''123456'' \<noteq> []" "32 \<notin> set (js ''123456'')" by (simp_all add: js_unfold)
  with error_output_hides_code [of "js ''123456''"] show ?thesis by simp
qed

text \<open>The window an unfinished login is kept for is closed by a clock that went backwards too.\<close>
lemma windowOpen_exact:
  "windowOpen (jint began) (jint now) w \<longleftrightarrow> 0 < began \<and> began \<le> now \<and> now - began \<le> w"
proof -
  have "num_sub (numi now) (numi began) = numi (now - began)" by simp
  moreover have "num_le (numi a) (numi b) \<longleftrightarrow> a \<le> b" "num_lt (numi a) (numi b) \<longleftrightarrow> a < b" for a b by simp_all
  moreover have "Fin 0 = numi 0" by simp
  ultimately have "windowOpen (jint began) (jint now) w \<longleftrightarrow>
      (if began \<le> 0 then False else if now - began < 0 then False else now - began \<le> w)"
    unfolding windowOpen_def Let_def by (simp only: to_num.simps is_finite.simps not_True_eq_False simp_thms)
  then show ?thesis by auto
qed

text \<open>A process leaves the queue of output buffers only once it is idle and has run the scrub command.\<close>
lemma scrubPass_queue:
  "set (snd (scrubPass ps)) = {p \<in> set ps. running p \<or> \<not> isScrubCommand (command p)}
     \<and> set (fst (scrubPass ps)) = {p \<in> set ps. \<not> running p \<and> \<not> isScrubCommand (command p)}"
proof (induction ps)
  case (Cons p ps)
  obtain a b where "scrubPass ps = (a, b)" by fastforce
  with Cons.IH show ?case
    by (cases "running p"; cases "isScrubCommand (command p)") auto
qed simp

end
