(* ===== verification/Regex.thy ===== *)
theory Regex
  imports Prelude
begin

text \<open>
  Regular expressions as JavaScript runs them: a backtracking search that yields the ends of
  its matches in order of preference, greedy repetition first. A position is the text before
  it, reversed, and the text after it. The title clean-up of \<^verbatim>\<open>BitwardenModel.js\<close> is written with
  these, expression by expression.
\<close>

type_synonym pos = "jsstr \<times> jsstr"

datatype re = Eps | Unit "nat \<Rightarrow> bool" | Cat re re | Alt re re | Star re | Begin | End | WordEdge

definition word_unit :: "nat \<Rightarrow> bool" where
  \<comment> \<open>\<^verbatim>\<open>\w\<close>\<close>
  "word_unit c \<longleftrightarrow> is_alpha c \<or> is_digit c \<or> c = 95"

definition at_word_edge :: "pos \<Rightarrow> bool" where
  \<comment> \<open>\<^verbatim>\<open>\b\<close>\<close>
  "at_word_edge p \<longleftrightarrow> (fst p \<noteq> [] \<and> word_unit (hd (fst p))) \<noteq> (snd p \<noteq> [] \<and> word_unit (hd (snd p)))"

function run :: "re \<Rightarrow> pos \<Rightarrow> pos list" where
  "run Eps p = [p]"
| "run (Unit f) p = (case snd p of [] \<Rightarrow> [] | c # cs \<Rightarrow> if f c then [(c # fst p, cs)] else [])"
| "run (Cat r s) p = concat (map (run s) (run r p))"
| "run (Alt r s) p = run r p @ run s p"
| "run (Star r) p =
     concat (map (\<lambda>q. if length (snd q) < length (snd p) then run (Star r) q else []) (run r p)) @ [p]"
| "run Begin p = (if fst p = [] then [p] else [])"
| "run End p = (if snd p = [] then [p] else [])"
| "run WordEdge p = (if at_word_edge p then [p] else [])"
  by pat_completeness auto
termination
  by (relation "measures [\<lambda>(r, p). size r, \<lambda>(r, p). length (snd p)]") auto

lemmas run_Star = run.simps(5)
declare run.simps(5) [simp del]

definition ci_unit :: "nat \<Rightarrow> nat \<Rightarrow> bool" where
  "ci_unit c d \<longleftrightarrow> lower_unit d = lower_unit c"

definition lit_ci :: "jsstr \<Rightarrow> re" where
  \<comment> \<open>the text itself, under the flag \<^verbatim>\<open>i\<close>\<close>
  "lit_ci s = foldr (\<lambda>c r. Cat (Unit (ci_unit c)) r) s Eps"

definition one_of :: "re list \<Rightarrow> re" where
  "one_of rs = (case rs of [] \<Rightarrow> Unit (\<lambda>c. False) | r # rs' \<Rightarrow> foldl Alt r rs')"

definition words_ci :: "string list \<Rightarrow> re" where
  "words_ci ws = one_of (map (\<lambda>w. lit_ci (js w)) ws)"

definition opt :: "re \<Rightarrow> re" where "opt r = Alt r Eps"
definition plus :: "re \<Rightarrow> re" where "plus r = Cat r (Star r)"
definition any_ws :: re where "any_ws = Star (Unit is_ws)"

fun cats :: "re list \<Rightarrow> re" where
  "cats [] = Eps"
| "cats [r] = r"
| "cats (r # s # rs) = Cat r (cats (s # rs))"

fun search :: "re \<Rightarrow> jsstr \<Rightarrow> jsstr \<Rightarrow> (pos \<times> pos) option" where
  \<comment> \<open>the leftmost match, as where it starts and where its first choice ends\<close>
  "search r b [] = (case run r (b, []) of q # _ \<Rightarrow> Some ((b, []), q) | [] \<Rightarrow> None)"
| "search r b (c # cs) =
     (case run r (b, c # cs) of q # _ \<Rightarrow> Some ((b, c # cs), q) | [] \<Rightarrow> search r (c # b) cs)"

definition re_test :: "re \<Rightarrow> jsstr \<Rightarrow> bool" where
  "re_test r s \<longleftrightarrow> search r [] s \<noteq> None"

definition replace_first :: "re \<Rightarrow> jsstr \<Rightarrow> jsstr \<Rightarrow> jsstr" where
  "replace_first r new s =
     (case search r [] s of None \<Rightarrow> s | Some (p, q) \<Rightarrow> rev (fst p) @ new @ snd q)"

definition taken :: "pos \<Rightarrow> pos \<Rightarrow> jsstr" where
  \<comment> \<open>the text between two positions of one subject\<close>
  "taken p q = take (length (snd p) - length (snd q)) (snd p)"

fun match_last_group :: "re \<Rightarrow> re \<Rightarrow> jsstr \<Rightarrow> jsstr \<Rightarrow> jsstr option" where
  \<comment> \<open>the group of the leftmost match of \<^verbatim>\<open>pre(grp)\<close>\<close>
  "match_last_group pre grp b [] =
     (case concat (map (\<lambda>p. map (taken p) (run grp p)) (run pre (b, []))) of g # _ \<Rightarrow> Some g | [] \<Rightarrow> None)"
| "match_last_group pre grp b (c # cs) =
     (case concat (map (\<lambda>p. map (taken p) (run grp p)) (run pre (b, c # cs))) of
        g # _ \<Rightarrow> Some g
      | [] \<Rightarrow> match_last_group pre grp (c # b) cs)"

function split_re :: "re \<Rightarrow> jsstr \<Rightarrow> pos \<Rightarrow> jsstr list" where
  \<comment> \<open>\<^verbatim>\<open>s.split(r)\<close>, for an expression without groups that matches no empty text;
     \<open>acc\<close> is the piece read so far, reversed\<close>
  "split_re r acc p =
     (case snd p of
        [] \<Rightarrow> [rev acc]
      | c # cs \<Rightarrow>
          (case run r p of
             q # _ \<Rightarrow> if length (snd q) < length (snd p) then rev acc # split_re r [] q
                      else split_re r (c # acc) (c # fst p, cs)
           | [] \<Rightarrow> split_re r (c # acc) (c # fst p, cs)))"
  by pat_completeness auto
termination
  by (relation "measure (\<lambda>(r, acc, p). length (snd p))") auto

declare split_re.simps [simp del]

fun split_runs :: "(nat \<Rightarrow> bool) \<Rightarrow> jsstr \<Rightarrow> jsstr list" where
  \<comment> \<open>\<^verbatim>\<open>s.split(/[sep]+/)\<close>, with the empty piece before a separator at the start and after one at the end\<close>
  "split_runs sep [] = [[]]"
| "split_runs sep (c # cs) =
     (if sep c then (if cs \<noteq> [] \<and> sep (hd cs) then split_runs sep cs else [] # split_runs sep cs)
      else (case split_runs sep cs of [] \<Rightarrow> [[c]] | w # ws \<Rightarrow> (c # w) # ws))"

section \<open>Matches lie in the subject\<close>

definition advance :: "pos \<Rightarrow> pos \<Rightarrow> bool" where
  \<comment> \<open>the second position is reached from the first by reading text\<close>
  "advance p q \<longleftrightarrow> (\<exists>m. snd p = m @ snd q \<and> fst q = rev m @ fst p)"

lemma advance_refl [simp]: "advance p p"
  by (simp add: advance_def)

lemma advance_trans: "advance p q \<Longrightarrow> advance q t \<Longrightarrow> advance p t"
  unfolding advance_def by (metis append.assoc rev_append)

lemma advance_unit: "snd p = c # cs \<Longrightarrow> advance p (c # fst p, cs)"
  unfolding advance_def by (rule exI [of _ "[c]"]) simp

lemma run_advance: "q \<in> set (run r p) \<Longrightarrow> advance p q"
proof (induction r p arbitrary: q rule: run.induct)
  case (2 f p)
  then show ?case by (auto simp: advance_unit split: list.splits if_splits)
next
  case (3 r s p)
  from "3.prems" obtain t where "t \<in> set (run r p)" "q \<in> set (run s t)" by auto
  with 3 show ?case by (blast intro: advance_trans)
next
  case (5 r p)
  from "5.prems" consider "q = p"
    | t where "t \<in> set (run r p)" "length (snd t) < length (snd p)" "q \<in> set (run (Star r) t)"
    unfolding run_Star [of r p] by (auto split: if_splits)
  then show ?case
  proof cases
    case (2 t)
    with "5.IH" have "advance p t" "advance t q" by blast+
    then show ?thesis by (rule advance_trans)
  qed simp
qed (auto split: if_splits)

lemma taken_prefix: "advance p q \<Longrightarrow> snd p = taken p q @ snd q"
  by (auto simp: advance_def taken_def)

lemma first_group_inside:
  assumes "concat (map (\<lambda>p. map (taken p) (run grp p)) (run pre p0)) = g # gs"
  shows "contains g (snd p0)"
proof -
  have "g \<in> set (concat (map (\<lambda>p. map (taken p) (run grp p)) (run pre p0)))"
    unfolding assms by simp
  then obtain p q where "p \<in> set (run pre p0)" "q \<in> set (run grp p)" "g = taken p q" by auto
  then have "advance p0 p" "snd p = g @ snd q" by (auto intro: taken_prefix run_advance)
  then show ?thesis by (auto simp: advance_def contains_iff)
qed

lemma contains_tl: "contains g cs \<Longrightarrow> contains g (c # cs)"
  unfolding contains_iff by (metis append_Cons)

lemma match_last_group_inside:
  "match_last_group pre grp b s = Some g \<Longrightarrow> contains g s"
proof (induction pre grp b s rule: match_last_group.induct)
  case (1 pre grp b)
  then show ?case using first_group_inside [of grp pre "(b, [])" g] by (auto split: list.splits)
next
  case (2 pre grp b c cs)
  then show ?case
    using first_group_inside [of grp pre "(b, c # cs)" g] by (auto intro: contains_tl split: list.splits)
qed

lemma split_runs_not_Nil [simp]: "split_runs sep s \<noteq> []"
  by (induction s) (auto split: list.splits)

lemma split_runs_parts: "w \<in> set (split_runs sep s) \<Longrightarrow> c \<in> set w \<Longrightarrow> \<not> sep c"
proof (induction s arbitrary: w)
  case (Cons a s)
  obtain v vs where v: "split_runs sep s = v # vs" by (meson neq_Nil_conv split_runs_not_Nil)
  show ?case
  proof (cases "sep a")
    case False
    with Cons.prems v consider "w = a # v" | "w \<in> set vs" by auto
    then show ?thesis using Cons.prems(2) False Cons.IH [of v] Cons.IH [of w] v by cases auto
  qed (use Cons in \<open>auto split: if_splits\<close>)
qed simp

lemma split_runs_sep: "s \<noteq> [] \<Longrightarrow> sep (hd s) \<Longrightarrow> hd (split_runs sep s) = []"
  by (induction s) auto

lemma split_runs_prefix:
  "split_runs sep s = v # vs \<Longrightarrow> (\<exists>t. s = v @ t) \<and> (\<forall>w\<in>set vs. contains w s)"
proof (induction s arbitrary: v vs)
  case (Cons a s)
  obtain u us where u: "split_runs sep s = u # us" by (meson neq_Nil_conv split_runs_not_Nil)
  have "contains w (a # s)" if "w \<in> set us" for w
    using Cons.IH [OF u] that by (auto intro: contains_tl)
  moreover have "contains u (a # s)" "\<exists>t. s = u @ t"
    using Cons.IH [OF u] by (auto simp: contains_iff intro: exI [of _ "[a]"])
  moreover have "sep a \<Longrightarrow> v = []"
    using Cons.prems split_runs_sep [of "a # s" sep] by simp
  moreover have "set vs \<subseteq> insert u (set us)"
    using Cons.prems by (simp add: u split: if_splits) auto
  ultimately show ?case using Cons.prems u by (cases "sep a") auto
qed simp

lemma split_runs_inside: "w \<in> set (split_runs sep s) \<Longrightarrow> contains w s"
proof (cases "split_runs sep s")
  case (Cons v vs)
  assume "w \<in> set (split_runs sep s)"
  with split_runs_prefix [OF Cons] Cons show ?thesis
    by (auto simp: contains_iff intro: exI [of _ "[]"])
qed simp

section \<open>The engine against the relation it implements\<close>

text \<open>
  What it means to match, without an order of attempts: an iteration of a star reads something.
  The engine finds exactly these ends, so whether an expression matches does not depend on the order.
\<close>

inductive matches :: "re \<Rightarrow> pos \<Rightarrow> pos \<Rightarrow> bool" where
  m_eps: "matches Eps p p"
| m_unit: "f c \<Longrightarrow> matches (Unit f) (b, c # cs) (c # b, cs)"
| m_cat: "matches r p q \<Longrightarrow> matches s q t \<Longrightarrow> matches (Cat r s) p t"
| m_alt1: "matches r p q \<Longrightarrow> matches (Alt r s) p q"
| m_alt2: "matches s p q \<Longrightarrow> matches (Alt r s) p q"
| m_stop: "matches (Star r) p p"
| m_again: "matches r p q \<Longrightarrow> length (snd q) < length (snd p) \<Longrightarrow> matches (Star r) q t \<Longrightarrow> matches (Star r) p t"
| m_begin: "matches Begin ([], s) ([], s)"
| m_end: "matches End (b, []) (b, [])"
| m_edge: "at_word_edge p \<Longrightarrow> matches WordEdge p p"

declare matches.intros [intro]

inductive_cases matches_catE [elim!]: "matches (Cat r s) p q"
inductive_cases matches_altE [elim!]: "matches (Alt r s) p q"
inductive_cases matches_unitE [elim!]: "matches (Unit f) p q"

inductive_simps matches_simps [simp]:
  "matches Eps p q" "matches (Unit f) p q" "matches Begin p q" "matches End p q" "matches WordEdge p q"

lemma matches_Alt: "matches (Alt r s) p q \<longleftrightarrow> matches r p q \<or> matches s p q"
  by blast

lemma matches_Cat: "matches (Cat r s) p t \<longleftrightarrow> (\<exists>q. matches r p q \<and> matches s q t)"
  by blast

lemma run_matches: "q \<in> set (run r p) \<Longrightarrow> matches r p q"
proof (induction r p arbitrary: q rule: run.induct)
  case (3 r s p)
  from "3.prems" obtain t where "t \<in> set (run r p)" "q \<in> set (run s t)" unfolding run.simps set_concat set_map by blast
  with "3.IH" show ?case by blast
next
  case (5 r p)
  from "5.prems" consider "q = p"
    | t where "t \<in> set (run r p)" "length (snd t) < length (snd p)" "q \<in> set (run (Star r) t)"
    unfolding run_Star [of r p] by (auto split: if_splits)
  then show ?case
  proof cases
    case (2 t)
    then have "matches r p t" "matches (Star r) t q" using "5.IH" by blast+
    with 2(2) show ?thesis by blast
  qed blast
next
  case (6 p)
  then show ?case by (cases p) (auto split: if_splits)
next
  case (7 p)
  then show ?case by (cases p) (auto split: if_splits)
qed (auto split: list.splits if_splits)

lemma matches_run: "matches r p q \<Longrightarrow> q \<in> set (run r p)"
proof (induction rule: matches.induct)
  case (m_stop r p)
  show ?case unfolding run_Star [of r p] by simp
next
  case (m_again r p q t)
  then have "t \<in> set (if length (snd q) < length (snd p) then run (Star r) q else [])" by simp
  with m_again.IH(1) show ?case unfolding run_Star [of r p] set_append set_concat set_map by blast
next
  case (m_cat r p q s t)
  then show ?case unfolding run.simps set_concat set_map by blast
qed auto

lemma run_iff_matches: "q \<in> set (run r p) \<longleftrightarrow> matches r p q"
  by (blast intro: run_matches matches_run)

lemma search_iff:
  "search r b s \<noteq> None \<longleftrightarrow> (\<exists>u v q. s = u @ v \<and> matches r (rev u @ b, v) q)"
proof (induction r b s rule: search.induct)
  case (1 r b)
  have "run r (b, []) \<noteq> [] \<longleftrightarrow> (\<exists>q. matches r (b, []) q)"
    using run_iff_matches [of _ r "(b, [])"] by (metis list.set_intros(1) neq_Nil_conv list.distinct(1) list.set(1) empty_iff)
  then show ?case by (auto split: list.splits)
next
  case (2 r b c cs)
  have run: "run r (b, c # cs) \<noteq> [] \<longleftrightarrow> (\<exists>q. matches r (b, c # cs) q)"
    using run_iff_matches [of _ r "(b, c # cs)"] by (metis list.set_intros(1) neq_Nil_conv list.distinct(1) list.set(1) empty_iff)
  have split: "(\<exists>u v q. c # cs = u @ v \<and> matches r (rev u @ b, v) q) \<longleftrightarrow>
      (\<exists>q. matches r (b, c # cs) q) \<or> (\<exists>u v q. cs = u @ v \<and> matches r (rev u @ c # b, v) q)" (is "?l \<longleftrightarrow> ?r")
  proof
    assume ?l
    then obtain u v q where u: "c # cs = u @ v" "matches r (rev u @ b, v) q" by blast
    show ?r
    proof (cases u)
      case Nil
      with u have "matches r (b, c # cs) q" by simp
      then show ?r by blast
    next
      case (Cons d u')
      with u have "cs = u' @ v \<and> matches r (rev u' @ c # b, v) q" by simp
      then show ?r by blast
    qed
  next
    assume ?r
    then show ?l
    proof
      assume "\<exists>q. matches r (b, c # cs) q"
      then show ?l by (metis append_Nil rev.simps(1))
    next
      assume "\<exists>u v q. cs = u @ v \<and> matches r (rev u @ c # b, v) q"
      then obtain u v q where "c # cs = (c # u) @ v" "matches r (rev (c # u) @ b, v) q" by auto
      then show ?l by blast
    qed
  qed
  show ?case using 2 run split by (cases "run r (b, c # cs)") auto
qed

lemma matches_lit:
  "matches (lit_ci w) p q \<longleftrightarrow> (\<exists>m. snd p = m @ snd q \<and> fst q = rev m @ fst p \<and> to_lower m = to_lower w)"
proof (induction w arbitrary: p)
  case Nil
  then show ?case by (cases p; cases q) (auto simp: lit_ci_def to_lower_def)
next
  case (Cons c w)
  have "matches (lit_ci (c # w)) p q \<longleftrightarrow> (\<exists>d. \<exists>ds. snd p = d # ds \<and> ci_unit c d \<and> matches (lit_ci w) (d # fst p, ds) q)"
    by (cases p) (auto simp: lit_ci_def)
  also have "\<dots> \<longleftrightarrow> (\<exists>d ds m. snd p = d # ds \<and> lower_unit d = lower_unit c \<and> ds = m @ snd q
      \<and> fst q = rev m @ d # fst p \<and> to_lower m = to_lower w)"
    by (auto simp: Cons.IH ci_unit_def)
  also have "\<dots> \<longleftrightarrow> (\<exists>m. snd p = m @ snd q \<and> fst q = rev m @ fst p \<and> to_lower m = to_lower (c # w))"
    (is "?a \<longleftrightarrow> ?b")
  proof
    assume ?a
    then obtain d m where "snd p = (d # m) @ snd q" "fst q = rev (d # m) @ fst p" "to_lower (d # m) = to_lower (c # w)"
      by (auto simp: to_lower_def)
    then show ?b by blast
  next
    assume ?b
    then obtain m where m: "snd p = m @ snd q" "fst q = rev m @ fst p" "to_lower m = to_lower (c # w)" by blast
    then obtain d m' where "m = d # m'" by (cases m) (auto simp: to_lower_def)
    with m show ?a by (auto simp: to_lower_def)
  qed
  finally show ?case .
qed

end
