(* ===== verification/Context.thy ===== *)
theory Context
  imports Items Login Regex
begin

text \<open>
  Context matching, as \<^verbatim>\<open>BitwardenModel.js\<close> does it: what the focused window says about the site or
  the application it shows, the score of a vault item against it, and the items suggested for it.
  The window is what the compositor reports, a JSON value. A plain object used as a table also has
  the names it inherits; of these only \<^verbatim>\<open>constructor\<close> and \<^verbatim>\<open>__proto__\<close> can be lower-case labels.
\<close>

section \<open>Tables\<close>

definition GENERIC_LABELS :: "jsstr list" where
  "GENERIC_LABELS = map js [
     ''www'', ''www2'', ''web'', ''app'', ''apps'', ''mobile'', ''my'', ''secure'', ''login'', ''signin'',
     ''sign'', ''logon'', ''auth'', ''oauth'', ''sso'', ''idp'', ''account'', ''accounts'', ''portal'',
     ''admin'', ''dash'', ''dashboard'', ''console'', ''home'', ''welcome'', ''overview'', ''page'',
     ''site'', ''online'', ''cloud'', ''server'', ''service'', ''services'', ''api'', ''cdn'', ''static'',
     ''assets'', ''local'', ''localhost'', ''localdomain'', ''internal'', ''intranet'', ''lan'', ''dev'',
     ''test'', ''staging'', ''prod'', ''the'', ''and'', ''for'', ''with'', ''your'', ''new'', ''inbox'',
     ''settings'']"

definition TLDS :: "jsstr list" where
  "TLDS = map js [
     ''com'', ''org'', ''net'', ''edu'', ''gov'', ''mil'', ''int'', ''io'', ''co'', ''ai'', ''app'',
     ''dev'', ''me'', ''tv'', ''cc'', ''info'', ''biz'', ''name'', ''pro'', ''xyz'', ''online'', ''site'',
     ''shop'', ''store'', ''tech'', ''cloud'', ''page'', ''blog'', ''wiki'', ''news'', ''media'',
     ''email'', ''chat'', ''social'', ''games'', ''software'', ''systems'', ''network'', ''digital'',
     ''finance'', ''bank'', ''money'', ''health'', ''life'', ''world'', ''space'', ''link'', ''click'',
     ''one'', ''run'', ''sh'', ''gg'', ''fm'', ''to'', ''ly'', ''us'', ''uk'', ''ca'', ''au'', ''nz'',
     ''de'', ''fr'', ''es'', ''it'', ''nl'', ''be'', ''ch'', ''at'', ''se'', ''no'', ''dk'', ''fi'',
     ''pl'', ''cz'', ''pt'', ''ie'', ''gr'', ''ru'', ''ua'', ''tr'', ''il'', ''in'', ''jp'', ''cn'',
     ''kr'', ''hk'', ''tw'', ''sg'', ''my'', ''id'', ''th'', ''vn'', ''ph'', ''br'', ''mx'', ''ar'',
     ''cl'', ''za'', ''eu'', ''local'', ''lan'', ''home'', ''internal'', ''arpa'', ''localdomain'']"

definition MULTI_SLD :: "jsstr list" where
  "MULTI_SLD = map js [
     ''co'', ''com'', ''net'', ''org'', ''ac'', ''gov'', ''edu'', ''or'', ''ne'']"

definition BRAND_ALIASES :: "(jsstr \<times> jsstr) list" where
  "BRAND_ALIASES = map (\<lambda>(a, b). (js a, js b)) [
     (''gmail'', ''google''), (''googlemail'', ''google''), (''youtube'', ''google''),
     (''hotmail'', ''microsoft''), (''outlook'', ''microsoft''), (''live'', ''microsoft''),
     (''onedrive'', ''microsoft''), (''office'', ''microsoft''), (''microsoft365'', ''microsoft''),
     (''icloud'', ''apple''), (''appleid'', ''apple''), (''fb'', ''facebook''),
     (''messenger'', ''facebook''), (''instagram'', ''facebook'')]"

definition in_table :: "jsstr list \<Rightarrow> jsstr \<Rightarrow> bool" where
  \<comment> \<open>\<^verbatim>\<open>TABLE[w]\<close> is truthy\<close>
  "in_table tbl w \<longleftrightarrow> w \<in> set tbl \<or> w = js ''constructor'' \<or> w = js ''__proto__''"

definition MAX_TITLE_CHARS :: nat where "MAX_TITLE_CHARS = 512"

section \<open>Expressions\<close>

definition unit_in :: "nat list \<Rightarrow> re" where
  "unit_in cs = Unit (\<lambda>c. c \<in> set cs)"

definition digit_run :: re where "digit_run = plus (Unit is_digit)"

definition alnum :: "nat \<Rightarrow> bool" where
  \<comment> \<open>\<^verbatim>\<open>[a-z0-9]\<close> under the flag \<^verbatim>\<open>i\<close>, \<^verbatim>\<open>[a-zA-Z0-9]\<close> without\<close>
  "alnum c \<longleftrightarrow> is_alpha c \<or> is_digit c"

definition lower_alnum :: "nat \<Rightarrow> bool" where
  "lower_alnum c \<longleftrightarrow> (97 \<le> c \<and> c \<le> 122) \<or> is_digit c"

definition BROWSER_CLASS_RE :: re where
  "BROWSER_CLASS_RE = words_ci [''chrome'', ''chromium'', ''firefox'', ''brave'', ''zen'', ''vivaldi'', ''edge'',
     ''opera'', ''epiphany'', ''qutebrowser'', ''librewolf'', ''floorp'', ''waterfox'', ''thorium'', ''helium'']"

definition TERMINAL_CLASS_RE :: re where
  "TERMINAL_CLASS_RE = words_ci [''foot'', ''alacritty'', ''kitty'', ''ghostty'', ''terminal'', ''konsole'',
     ''wezterm'', ''xterm'', ''rxvt'', ''tilix'', ''st-256color'']"

definition SHELL_CLASS_RE :: re where
  "SHELL_CLASS_RE = cats [Begin, words_ci [''quickshell'', ''dms'', ''dankmaterialshell'', ''omarchy'',
     ''omarchy-shell'', ''omarchy-menu''], End]"

definition REMOTE_SESSION_PRE :: re where
  \<comment> \<open>\<open>REMOTE_SESSION_RE\<close> up to its group\<close>
  "REMOTE_SESSION_PRE = cats [Alt Begin (Unit is_ws), words_ci [''ssh'', ''mosh'', ''sftp''], plus (Unit is_ws),
     Star (cats [unit_in [45], plus (Unit (\<lambda>c. \<not> is_ws c)), plus (Unit is_ws)]),
     opt (cats [plus (Unit (\<lambda>c. alnum c \<or> c \<in> {95, 46, 45})), unit_in [64]])]"

definition REMOTE_SESSION_HOST :: re where
  \<comment> \<open>the group of \<open>REMOTE_SESSION_RE\<close>\<close>
  "REMOTE_SESSION_HOST =
     (let label = plus (Unit (\<lambda>c. alnum c \<or> c = 45)) in cats [label, plus (cats [unit_in [46], label])])"

definition BROWSER_BRAND_RE :: re where
  \<comment> \<open>the separators are - and the em dash, en dash, bar, middle dot and bullet\<close>
  "BROWSER_BRAND_RE = cats [any_ws, unit_in [45, 8212, 8211, 124, 183, 8226], any_ws,
     one_of (map (\<lambda>w. lit_ci (js w)) [''Google Chrome'', ''Chromium'', ''Mozilla Firefox'', ''Firefox Developer Edition'', ''Firefox'']
       @ [cats [lit_ci (js ''Brave''), opt (cats [any_ws, lit_ci (js ''Browser'')])],
          cats [lit_ci (js ''Zen''), opt (cats [any_ws, lit_ci (js ''Browser'')])],
          lit_ci (js ''Vivaldi''),
          cats [lit_ci (js ''Microsoft''), Unit (\<lambda>c. c \<notin> {10, 13, 8232, 8233}), unit_in [8203], lit_ci (js ''Edge'')],
          lit_ci (js ''Microsoft Edge''), lit_ci (js ''Edge''),
          cats [lit_ci (js ''Opera''), opt (cats [any_ws, lit_ci (js ''GX'')])]]
       @ map (\<lambda>w. lit_ci (js w)) [''LibreWolf'', ''Floorp'', ''Waterfox'', ''Thorium'', ''Helium'', ''Epiphany'',
            ''GNOME Web'', ''qutebrowser'']),
     any_ws, End]"

definition TITLE_SEPARATOR_RE :: re where
  "TITLE_SEPARATOR_RE = one_of [
     cats [any_ws, unit_in [124, 183, 8226, 8212, 8211], any_ws],
     cats [plus (Unit is_ws), unit_in [45], plus (Unit is_ws)],
     cats [any_ws, lit_ci (js ''::''), any_ws]]"

definition edge_unit :: "nat \<Rightarrow> bool" where
  \<comment> \<open>white space, colon, middle dot, dashes and bar\<close>
  "edge_unit c \<longleftrightarrow> is_ws c \<or> c \<in> {58, 183, 8212, 8211, 124, 45}"

section \<open>Titles\<close>

definition drop_first :: "re \<Rightarrow> jsstr \<Rightarrow> jsstr" where
  "drop_first r t = replace_first r [] t"

definition stripTitleNoise :: "jsstr \<Rightarrow> jsstr" where
  "stripTitleNoise title =
     (let t = trim title;
          t = trim (drop_first BROWSER_BRAND_RE t);
          t = trim (drop_first (cats [any_ws, opt (unit_in [45, 8212, 8211, 124]), any_ws, unit_in [40],
                words_ci [''Private Browsing'', ''Incognito'', ''Private''], unit_in [41], any_ws, End]) t);
          t = trim (drop_first (cats [any_ws, unit_in [45, 8212, 8211, 124], any_ws,
                words_ci [''Audio playing'', ''Muted'', ''Playing'', ''Paused''], any_ws, End]) t);
          t = trim (drop_first (cats [Begin, any_ws, unit_in [40, 91], any_ws, digit_run, opt (unit_in [43]), any_ws,
                unit_in [41, 93], any_ws]) t);
          t = trim (drop_first (cats [Begin, any_ws, digit_run, any_ws, unit_in [45, 8212, 8211, 124, 183], any_ws]) t);
          t = trim (drop_first (cats [Begin, words_ci [''Sign in to'', ''Sign into'', ''Sign in'', ''Sign In'',
                ''Log in to'', ''Log into'', ''Log in'', ''Login to'', ''Login'', ''Welcome to'', ''Welcome back to'',
                ''Welcome'', ''Authenticate to'', ''Authenticate''], WordEdge, Star (Unit edge_unit)]) t)
      in trim (drop_first (Cat (plus (Unit edge_unit)) End) (drop_first (Cat Begin (plus (Unit edge_unit))) t)))"

definition squash :: "jsstr \<Rightarrow> jsstr" where
  "squash str = filter lower_alnum (to_lower str)"

definition splitSegments :: "jsstr \<Rightarrow> jsstr list" where
  "splitSegments title = filter (\<lambda>s. s \<noteq> []) (map trim (split_re TITLE_SEPARATOR_RE [] ([], title)))"

definition token_ok :: "jsstr \<Rightarrow> bool" where
  "token_ok w \<longleftrightarrow> 3 \<le> length w \<and> \<not> in_table GENERIC_LABELS w \<and> \<not> in_table TLDS w \<and> \<not> (\<forall>c\<in>set w. is_digit c)"

fun fresh_tokens :: "jsstr list \<Rightarrow> jsstr list \<Rightarrow> jsstr list" where
  \<comment> \<open>the loop of \<open>extractTokens\<close>; \<open>seen\<close> are the words already taken\<close>
  "fresh_tokens seen [] = []"
| "fresh_tokens seen (w0 # ws) =
     (let w = trim w0 in
      if \<not> token_ok w \<or> w \<in> set seen then fresh_tokens seen ws else w # fresh_tokens (w # seen) ws)"

definition extractTokens :: "jsstr \<Rightarrow> jsstr list" where
  "extractTokens str =
     (let clean = join [32] (split_runs (\<lambda>c. \<not> lower_alnum c) (to_lower str))
      in if str = [] then [] else fresh_tokens [] (split_runs is_ws clean))"

fun alias_loop :: "jsstr list \<Rightarrow> jsstr list \<Rightarrow> jsstr list \<Rightarrow> jsstr list" where
  "alias_loop tokens seen [] = []"
| "alias_loop tokens seen (t # ts) =
     (case map_of BRAND_ALIASES t of
        Some a \<Rightarrow> if a \<notin> set tokens \<and> a \<notin> set seen then a # alias_loop tokens (a # seen) ts else alias_loop tokens seen ts
      | None \<Rightarrow> alias_loop tokens seen ts)"

definition aliasesFor :: "jsstr list \<Rightarrow> jsstr list" where
  "aliasesFor tokens = alias_loop tokens [] tokens"

section \<open>Hosts\<close>

record host_info =
  host :: jsstr
  baseDomain :: jsstr
  rootName :: "jsstr option"
  isIp :: bool

definition isIpAddress :: "jsstr \<Rightarrow> bool" where
  "isIpAddress h \<longleftrightarrow> (let parts = split_on 46 h in length parts = 4 \<and> list_all octet parts)"

definition strip_port :: "jsstr \<Rightarrow> jsstr" where
  \<comment> \<open>\<^verbatim>\<open>replace(/:\d+$/, "")\<close>\<close>
  "strip_port h =
     (let r = rev (dropWhile is_digit (rev h))
      in if length r < length h \<and> r \<noteq> [] \<and> last r = 58 then butlast r else h)"

definition strip_dot :: "jsstr \<Rightarrow> jsstr" where
  \<comment> \<open>\<^verbatim>\<open>replace(/\.$/, "")\<close>\<close>
  "strip_dot h = (if h \<noteq> [] \<and> last h = 46 then butlast h else h)"

definition root_index :: "jsstr list \<Rightarrow> nat" where
  \<comment> \<open>\<^verbatim>\<open>rootIdx\<close>; the subtraction stops at zero as the code does\<close>
  "root_index parts =
     length parts - (if 3 \<le> length parts \<and> in_table MULTI_SLD (parts ! (length parts - 2)) then 2 else 1) - 1"

definition parseHost :: "jsstr \<Rightarrow> host_info option" where
  "parseHost raw =
     (let h = strip_dot (strip_port (to_lower raw)); parts = split_on 46 h in
      if h = [] then None
      else if isIpAddress h then Some \<lparr>host = h, baseDomain = h, rootName = None, isIp = True\<rparr>
      else if length parts = 1 then Some \<lparr>host = h, baseDomain = h, rootName = Some (parts ! 0), isIp = False\<rparr>
      else Some \<lparr>host = h, baseDomain = join [46] (drop (root_index parts) parts),
                 rootName = Some (parts ! root_index parts), isIp = False\<rparr>)"

definition url_prefix :: re where
  \<comment> \<open>the expression of \<open>parseDomain\<close> up to its group\<close>
  "url_prefix = cats [Begin,
     opt (cats [Unit is_alpha, Star (Unit (\<lambda>c. alnum c \<or> c \<in> {43, 46, 45})), lit_ci (js ''://'')]),
     opt (cats [plus (Unit (\<lambda>c. c \<noteq> 47 \<and> c \<noteq> 64 \<and> \<not> is_ws c)), unit_in [64]])]"

definition url_host_group :: re where
  "url_host_group = cats [plus (Unit (\<lambda>c. alnum c \<or> c \<in> {46, 95, 45})), opt (cats [unit_in [58], digit_run])]"

definition parseDomain :: "jsstr \<Rightarrow> host_info option" where
  "parseDomain urlStr =
     (if urlStr = [] then None
      else case match_last_group url_prefix url_host_group [] (to_lower (trim urlStr)) of
        None \<Rightarrow> None
      | Some h \<Rightarrow> parseHost h)"

definition accept_host :: "jsstr list \<Rightarrow> host_info option" where
  \<comment> \<open>one group of labels without an empty one\<close>
  "accept_host labels =
     (if length labels < 2 \<or> \<not> in_table TLDS (last labels) then None
      else case parseHost (join [46] labels) of
        None \<Rightarrow> None
      | Some p \<Rightarrow>
          (case rootName p of
             None \<Rightarrow> None
           | Some r \<Rightarrow> if length r < 2 \<or> in_table GENERIC_LABELS r then None else Some p))"

fun host_in_labels :: "jsstr list \<Rightarrow> jsstr list \<Rightarrow> host_info option" where
  "host_in_labels labels [] = accept_host labels"
| "host_in_labels labels (l # ls) =
     (if l \<noteq> [] then host_in_labels (labels @ [l]) ls
      else case accept_host labels of Some p \<Rightarrow> Some p | None \<Rightarrow> host_in_labels [] ls)"

fun host_in_runs :: "jsstr list \<Rightarrow> host_info option" where
  "host_in_runs [] = None"
| "host_in_runs (r # rs) =
     (case host_in_labels [] (split_on 46 r) of Some p \<Rightarrow> Some p | None \<Rightarrow> host_in_runs rs)"

definition host_unit :: "nat \<Rightarrow> bool" where
  "host_unit c \<longleftrightarrow> lower_alnum c \<or> c = 46 \<or> c = 45"

definition detectDomainInText :: "jsstr \<Rightarrow> host_info option" where
  "detectDomainInText txt = host_in_runs (split_runs (\<lambda>c. \<not> host_unit c) (to_lower txt))"

definition itemDomains :: "item \<Rightarrow> host_info list" where
  "itemDomains it = List.map_filter parseDomain (cap_list (it_uris it))"

definition hasWholeWord :: "jsstr \<Rightarrow> jsstr \<Rightarrow> bool" where
  "hasWholeWord haystack word \<longleftrightarrow> haystack \<noteq> [] \<and> word \<noteq> []
     \<and> re_test (cats [Alt Begin (Unit (\<lambda>c. \<not> alnum c)), lit_ci word, Alt End (Unit (\<lambda>c. \<not> alnum c))]) haystack"

section \<open>The focused window\<close>

definition window_text :: "jsval \<Rightarrow> string \<Rightarrow> string \<Rightarrow> jsstr" where
  \<comment> \<open>\<^verbatim>\<open>String(w.a || w.b || "")\<close>\<close>
  "window_text w a b = str_or (if truthy (fld w a) then fld w a else fld w b) []"

definition is_shell :: "jsval \<Rightarrow> bool" where
  "is_shell w \<longleftrightarrow> re_test SHELL_CLASS_RE (window_text w ''class'' ''initialClass'')"

definition focus_order :: "jsval \<Rightarrow> jsnum" where
  "focus_order w = (if fld w ''focusHistoryID'' = JUndef then Fin 999 else to_num (fld w ''focusHistoryID''))"

definition focus_le :: "jsval \<Rightarrow> jsval \<Rightarrow> bool" where
  \<comment> \<open>the comparison is not positive; a difference that is not a number counts as zero\<close>
  "focus_le a b \<longleftrightarrow> \<not> num_lt (Fin 0) (num_sub (focus_order a) (focus_order b))"

definition activeWindowCommand :: "jsstr \<Rightarrow> jsstr \<Rightarrow> jsstr" where
  \<comment> \<open>what is printed, from the active window and the clients that \<^verbatim>\<open>hyprctl\<close> prints; \<^verbatim>\<open>grep\<close> looks for a class that is not empty\<close>
  \<open>activeWindowCommand active clients =
     (if \<exists>l\<in>set (split_on 10 active). re_test (Cat (foldr (\<lambda>c r. Cat (Unit (\<lambda>d. d = c)) r) (js ''"class": "'') Eps) (Unit (\<lambda>d. d \<noteq> 34))) l
      then take 65536 active else take 1048576 clients)\<close>

definition getActiveWindowFromData :: "jsval \<Rightarrow> jsval option" where
  "getActiveWindowFromData windowData =
     (if \<not> truthy windowData then None
      else case windowData of
        JArr xs \<Rightarrow>
          (let clients = sort_by focus_le (filter (\<lambda>c. truthy c \<and> fld c ''mapped'' \<noteq> JBool False
                 \<and> trim (window_text c ''class'' ''initialClass'') \<noteq> []) xs)
           in case find (\<lambda>c. \<not> is_shell c) clients of
                Some c \<Rightarrow> Some c
              | None \<Rightarrow> (case clients of c # _ \<Rightarrow> Some c | [] \<Rightarrow> None))
      | _ \<Rightarrow>
          (if \<not> truthy (fld windowData ''class'') \<and> \<not> truthy (fld windowData ''initialClass'')
              \<and> \<not> truthy (fld windowData ''title'') then None
           else if is_shell windowData then None else Some windowData))"

record window_identity =
  wi_cleanTitle :: jsstr
  wi_detectedDomain :: "host_info option"
  wi_displayName :: jsstr
  wi_isBrowser :: bool
  wi_isTerminal :: bool

definition windowIdentity :: "jsstr \<Rightarrow> jsstr \<Rightarrow> window_identity option" where
  "windowIdentity cls title =
     (let isBrowser = re_test BROWSER_CLASS_RE cls; isTerminal = re_test TERMINAL_CLASS_RE cls in
      if isBrowser then
        (let t = stripTitleNoise title; d = detectDomainInText t in
         Some \<lparr>wi_cleanTitle = t, wi_detectedDomain = d,
               wi_displayName = (case d of Some h \<Rightarrow> baseDomain h | None \<Rightarrow> t),
               wi_isBrowser = isBrowser, wi_isTerminal = isTerminal\<rparr>)
      else if isTerminal then
        (case match_last_group REMOTE_SESSION_PRE REMOTE_SESSION_HOST [] title of
           None \<Rightarrow> None
         | Some h \<Rightarrow> Some \<lparr>wi_cleanTitle = h, wi_detectedDomain = parseHost h, wi_displayName = js ''SSH: '' @ h,
                          wi_isBrowser = isBrowser, wi_isTerminal = isTerminal\<rparr>)
      else
        (let appTitle = (case splitSegments (stripTitleNoise title) of s # _ \<Rightarrow> s | [] \<Rightarrow> []) in
         Some \<lparr>wi_cleanTitle = appTitle, wi_detectedDomain = None, wi_displayName = or_text appTitle cls,
               wi_isBrowser = isBrowser, wi_isTerminal = isTerminal\<rparr>))"

record ctx =
  cx_cls :: jsstr
  cx_clsSquashed :: jsstr
  cx_title :: jsstr
  cx_rawTitle :: jsstr
  cx_matchText :: jsstr
  cx_squashedTitle :: jsstr
  cx_squashedMatchText :: jsstr
  cx_segments :: "jsstr list"
  cx_titleTokens :: "jsstr list"
  cx_aliasTokens :: "jsstr list"
  cx_displayName :: jsstr
  cx_detectedDomain :: "host_info option"
  cx_isBrowser :: bool
  cx_isTerminal :: bool

function replace_all_ci :: "jsstr \<Rightarrow> jsstr \<Rightarrow> jsstr \<Rightarrow> jsstr" where
  \<comment> \<open>\<^verbatim>\<open>s.replace(new RegExp(escapeRegExp(word), "gi"), new)\<close> for a word that is not empty\<close>
  "replace_all_ci word new s =
     (case s of
        [] \<Rightarrow> []
      | c # cs \<Rightarrow>
          (if word \<noteq> [] \<and> starts_with (to_lower word) (to_lower s)
           then new @ replace_all_ci word new (drop (length word) s) else c # replace_all_ci word new cs))"
  by pat_completeness auto
termination
  by (relation "measure (\<lambda>(word, new, s). length s)") auto

declare replace_all_ci.simps [simp del]

definition short_name :: "jsstr \<Rightarrow> jsstr" where
  "short_name n = (if 40 < length n then take 37 n @ js ''...'' else n)"

definition raw_tokens :: "jsstr \<Rightarrow> host_info option \<Rightarrow> jsstr list" where
  "raw_tokens matchText d =
     (let ts = extractTokens matchText in
      case Option.bind d rootName of
        Some r \<Rightarrow> if r \<noteq> [] \<and> \<not> in_table GENERIC_LABELS r \<and> r \<notin> set ts then ts @ [r] else ts
      | None \<Rightarrow> ts)"

definition context_of :: "jsstr \<Rightarrow> jsstr \<Rightarrow> window_identity \<Rightarrow> ctx" where
  \<comment> \<open>the record \<open>cleanWindowContext\<close> returns\<close>
  "context_of cls title i =
     (let cleanTitle = wi_cleanTitle i; d = wi_detectedDomain i;
          matchText = (case d of Some h \<Rightarrow> trim (replace_all_ci (host h) [32] cleanTitle) | None \<Rightarrow> cleanTitle);
          raw = raw_tokens matchText d; aliasTokens = aliasesFor raw
      in \<lparr>cx_cls = cls, cx_clsSquashed = squash cls, cx_title = cleanTitle, cx_rawTitle = title,
          cx_matchText = matchText, cx_squashedTitle = squash cleanTitle, cx_squashedMatchText = squash matchText,
          cx_segments = splitSegments cleanTitle, cx_titleTokens = raw @ aliasTokens, cx_aliasTokens = aliasTokens,
          cx_displayName = short_name (wi_displayName i), cx_detectedDomain = d,
          cx_isBrowser = wi_isBrowser i, cx_isTerminal = wi_isTerminal i\<rparr>)"

definition cleanWindowContext :: "jsval \<Rightarrow> ctx option" where
  "cleanWindowContext windowData =
     (case getActiveWindowFromData windowData of
        None \<Rightarrow> None
      | Some w \<Rightarrow>
          (let cls = take MAX_TITLE_CHARS (trim (to_lower (window_text w ''class'' ''initialClass'')));
               title = take MAX_TITLE_CHARS (trim (window_text w ''title'' ''initialTitle''))
           in if cls = [] \<and> title = [] then None
              else case windowIdentity cls title of
                None \<Rightarrow> None
              | Some i \<Rightarrow> if wi_cleanTitle i = [] \<and> cls = [] then None else Some (context_of cls title i)))"

section \<open>Scores\<close>

fun direct_loop :: "host_info list \<Rightarrow> host_info \<Rightarrow> nat \<Rightarrow> nat" where
  "direct_loop [] d score = score"
| "direct_loop (x # xs) d score =
     (if host x = host d then 100
      else direct_loop xs d (if baseDomain x \<noteq> [] \<and> baseDomain x = baseDomain d then max score 96 else score))"

definition directDomainScore :: "host_info list \<Rightarrow> host_info option \<Rightarrow> nat" where
  "directDomainScore domains detected = (case detected of None \<Rightarrow> 0 | Some d \<Rightarrow> direct_loop domains d 0)"

definition root_score :: "ctx \<Rightarrow> jsstr \<Rightarrow> nat" where
  \<comment> \<open>what one root name adds in \<open>domainTitleScore\<close>\<close>
  "root_score c r =
     (if length r < 3 \<or> in_table GENERIC_LABELS r \<or> in_table TLDS r then 0
      else if hasWholeWord (cx_matchText c) r then 90
      else if 5 \<le> length r \<and> contains r (cx_squashedMatchText c) then 88
      else if r \<in> set (cx_aliasTokens c) then 86 else 0)"

definition domainTitleScore :: "host_info list \<Rightarrow> ctx \<Rightarrow> nat" where
  "domainTitleScore domains c =
     foldl (\<lambda>score d. case rootName d of None \<Rightarrow> score | Some r \<Rightarrow> max score (root_score c r)) 0 domains"

definition itemNameTitleScore :: "jsstr \<Rightarrow> ctx \<Rightarrow> nat" where
  "itemNameTitleScore nameSquashed c =
     (if length nameSquashed < 3 then 0
      else (let score = (if list_ex (\<lambda>s. squash s = nameSquashed) (cx_segments c) then 92 else 0)
            in if 5 \<le> length nameSquashed \<and> contains nameSquashed (cx_squashedTitle c) then max score 84 else score))"

definition sharedTitleTokenScore :: "jsstr list \<Rightarrow> jsstr list \<Rightarrow> nat" where
  "sharedTitleTokenScore nameTokens titleTokens =
     (let overlap = length (filter (\<lambda>t. t \<in> set titleTokens) nameTokens)
      in if 0 < overlap then 78 + min overlap 3 * 2 else 0)"

definition nativeAppScore :: "host_info list \<Rightarrow> jsstr \<Rightarrow> ctx \<Rightarrow> nat" where
  "nativeAppScore domains nameSquashed c =
     (let cs = cx_clsSquashed c in
      if cx_isBrowser c \<or> cx_isTerminal c \<or> length cs < 3 then 0
      else (let score = (if list_ex (\<lambda>d. case rootName d of None \<Rightarrow> False
                   | Some r \<Rightarrow> 3 \<le> length r \<and> \<not> in_table GENERIC_LABELS r \<and> r = cs) domains then 92 else 0)
            in if 3 \<le> length nameSquashed
                  \<and> (nameSquashed = cs \<or> contains cs nameSquashed \<or> contains nameSquashed cs)
               then max score 88 else score))"

definition matchItem :: "item \<Rightarrow> ctx \<Rightarrow> nat" where
  "matchItem it c =
     (if cx_isTerminal c \<and> cx_detectedDomain c = None then 0
      else (let domains = itemDomains it; nameSquashed = squash (it_name it); nameTokens = extractTokens (it_name it);
                score = directDomainScore domains (cx_detectedDomain c)
            in if score = 100 then score
               else max (max (max (max score (domainTitleScore domains c)) (itemNameTitleScore nameSquashed c))
                         (sharedTitleTokenScore nameTokens (cx_titleTokens c)))
                      (nativeAppScore domains nameSquashed c)))"

section \<open>Labels\<close>

lemma join_append: "xs \<noteq> [] \<Longrightarrow> ys \<noteq> [] \<Longrightarrow> join d (xs @ ys) = join d xs @ d @ join d ys"
proof (induction xs)
  case (Cons x xs)
  obtain y ys' where "ys = y # ys'" using Cons.prems(2) by (cases ys) auto
  with Cons show ?case by (cases xs) auto
qed simp

lemma join_drop_suffix: "n < length ls \<Longrightarrow> \<exists>a. join d ls = a @ join d (drop n ls)"
proof (cases "n = 0")
  case False
  assume "n < length ls"
  with False have "join d (take n ls @ drop n ls) = join d (take n ls) @ d @ join d (drop n ls)"
    by (intro join_append) auto
  then show ?thesis by (simp only: append_take_drop_id append.assoc [symmetric]) blast
qed auto

lemma host_unit_lower: "host_unit c \<Longrightarrow> lower_unit c = c \<and> c \<noteq> 58"
  by (auto simp: host_unit_def lower_alnum_def is_digit_def lower_unit_def)

lemma strip_port_no_colon: "58 \<notin> set h \<Longrightarrow> strip_port h = h"
proof -
  let ?r = "rev (dropWhile is_digit (rev h))"
  assume "58 \<notin> set h"
  then have "58 \<notin> set ?r" by (auto dest: set_dropWhileD)
  then have "?r \<noteq> [] \<Longrightarrow> last ?r \<noteq> 58" by (metis last_in_set)
  then show ?thesis by (auto simp: strip_port_def Let_def)
qed

definition host_label :: "jsstr \<Rightarrow> bool" where
  "host_label l \<longleftrightarrow> l \<noteq> [] \<and> 46 \<notin> set l \<and> list_all host_unit l"

lemma set_join_labels: "list_all host_label ls \<Longrightarrow> list_all host_unit (join [46] ls)"
  by (induction "[46::nat]" ls rule: join.induct) (auto simp: host_label_def host_unit_def)

lemma last_join: "ls \<noteq> [] \<Longrightarrow> last ls \<noteq> [] \<Longrightarrow> join d ls \<noteq> [] \<and> last (join d ls) = last (last ls)"
  by (induction d ls rule: join.induct) auto

lemma clean_host:
  assumes "list_all host_label ls" and "ls \<noteq> []"
  shows "strip_dot (strip_port (to_lower (join [46] ls))) = join [46] ls"
proof -
  have u: "list_all host_unit (join [46] ls)" using assms(1) by (rule set_join_labels)
  then have "to_lower (join [46] ls) = join [46] ls"
    by (auto simp: to_lower_def list_all_iff host_unit_lower intro: map_idI)
  moreover have "58 \<notin> set (join [46] ls)" using u by (auto simp: list_all_iff dest: host_unit_lower)
  moreover have "host_label (last ls)" using assms by (auto simp: list_all_iff)
  then have "last (join [46] ls) \<noteq> 46"
    using last_join [OF assms(2)] by (metis host_label_def last_in_set)
  ultimately show ?thesis by (simp add: strip_port_no_colon strip_dot_def)
qed

lemma root_index_less: "ls \<noteq> [] \<Longrightarrow> root_index ls < length ls"
  by (cases ls) (auto simp: root_index_def)

lemma accepted_host:
  assumes "accept_host ls = Some h" and "list_all host_label ls"
  shows "host h = join [46] ls \<and> \<not> isIp h \<and> in_table TLDS (last ls) \<and> (\<exists>a. host h = a @ baseDomain h)
    \<and> (\<exists>r. rootName h = Some r \<and> r \<in> set ls \<and> 2 \<le> length r \<and> \<not> in_table GENERIC_LABELS r)"
proof -
  let ?j = "join [46] ls"
  have ls: "2 \<le> length ls" "ls \<noteq> []" "in_table TLDS (last ls)"
    using assms(1) by (auto simp: accept_host_def split: if_splits)
  have h: "parseHost ?j = Some h" and r: "\<exists>r. rootName h = Some r \<and> 2 \<le> length r \<and> \<not> in_table GENERIC_LABELS r"
    using assms(1) ls by (auto simp: accept_host_def split: if_splits option.splits)
  have "split_on 46 ?j = ls" using assms(2) ls(2) by (intro split_on_join) (auto simp: list_all_iff host_label_def)
  with h r ls have "h = \<lparr>host = ?j, baseDomain = join [46] (drop (root_index ls) ls),
      rootName = Some (ls ! root_index ls), isIp = False\<rparr>"
    by (auto simp: parseHost_def Let_def clean_host [OF assms(2) ls(2)] split: if_splits)
  then show ?thesis
    using r ls root_index_less [OF ls(2)] join_drop_suffix by auto
qed

lemma contains_mid: "contains m (a @ m @ b)"
  unfolding contains_iff by blast

lemma contains_trans: "contains a b \<Longrightarrow> contains b c \<Longrightarrow> contains a c"
  unfolding contains_iff by (metis append.assoc)

lemma host_in_labels_sound:
  assumes "host_in_labels ls ms = Some h" and "list_all host_label ls"
    and "list_all (\<lambda>l. 46 \<notin> set l \<and> list_all host_unit l) ms"
  shows "\<exists>gs. accept_host gs = Some h \<and> list_all host_label gs \<and> contains (join [46] gs) (join [46] (ls @ ms))"
  using assms
proof (induction ls ms rule: host_in_labels.induct)
  case (1 ls)
  then show ?case using contains_mid [of "join [46] ls" "[]" "[]"] by auto
next
  case (2 ls l ms)
  show ?case
  proof (cases "l = []")
    case False
    with 2 show ?thesis by (auto simp: host_label_def)
  next
    case True
    show ?thesis
    proof (cases "accept_host ls")
      case (Some p)
      then have "ls \<noteq> []" by (auto simp: accept_host_def)
      then have "join [46] (ls @ l # ms) = [] @ join [46] ls @ [46] @ join [46] (l # ms)"
        by (simp add: join_append)
      then have "contains (join [46] ls) (join [46] (ls @ l # ms))" by (metis contains_mid)
      with Some True "2.prems" show ?thesis by auto
    next
      case None
      with 2 True obtain gs where "accept_host gs = Some h" "list_all host_label gs"
        "contains (join [46] gs) (join [46] ms)" by auto
      moreover have "contains (join [46] ms) (join [46] (ls @ l # ms))"
      proof (cases "ms = []")
        case False
        then have "join [46] ((ls @ [l]) @ ms) = (join [46] (ls @ [l]) @ [46]) @ join [46] ms @ []"
          by (subst join_append) simp_all
        then show ?thesis using contains_mid by (metis append.assoc append_Cons append_Nil)
      qed (use contains_mid [of "[]" "[]"] in simp)
      ultimately show ?thesis using contains_trans by blast
    qed
  qed
qed

lemma set_join_split: "l \<in> set (split_on d s) \<Longrightarrow> c \<in> set l \<Longrightarrow> c \<in> set s"
proof (induction d s arbitrary: l rule: split_on.induct)
  case (2 d x cs)
  obtain w ws where w: "split_on d cs = w # ws" by (meson neq_Nil_conv split_on_not_Nil)
  show ?case
  proof (cases "x = d")
    case False
    with "2.prems" w consider "l = x # w" | "l \<in> set ws" by auto
    then show ?thesis using "2.IH"(2) [OF False] w "2.prems"(2) by cases auto
  qed (use 2 in auto)
qed simp

lemma host_in_runs_sound:
  assumes "host_in_runs rs = Some h" and "\<forall>r\<in>set rs. list_all host_unit r"
  shows "\<exists>r\<in>set rs. \<exists>gs. accept_host gs = Some h \<and> list_all host_label gs \<and> contains (join [46] gs) r"
  using assms
proof (induction rs)
  case (Cons r rs)
  show ?case
  proof (cases "host_in_labels [] (split_on 46 r)")
    case (Some p)
    have "list_all (\<lambda>l. 46 \<notin> set l \<and> list_all host_unit l) (split_on 46 r)"
      using Cons.prems(2) set_join_split by (auto simp: list_all_iff split_on_parts)
    with Some Cons.prems(1) host_in_labels_sound [of "[]" "split_on 46 r" h] show ?thesis
      by (auto simp: join_split_on)
  qed (use Cons in auto)
qed simp

text \<open>A domain read out of a page title stands in it, letter for letter in lower case; it ends in a
  known suffix, is no IP address, and the name it is filed under is one of its own labels, at least
  two characters long and no generic word. What groups its accounts is a suffix of it.\<close>
theorem detected_domain_sound:
  assumes "detectDomainInText txt = Some h"
  shows "contains (host h) (to_lower txt) \<and> in_table TLDS (last (split_on 46 (host h))) \<and> \<not> isIp h
    \<and> (\<exists>a. host h = a @ baseDomain h)
    \<and> (\<exists>r. rootName h = Some r \<and> r \<in> set (split_on 46 (host h)) \<and> 2 \<le> length r \<and> \<not> in_table GENERIC_LABELS r)"
proof -
  let ?rs = "split_runs (\<lambda>c. \<not> host_unit c) (to_lower txt)"
  have "\<forall>r\<in>set ?rs. list_all host_unit r" using split_runs_parts by (fastforce simp: list_all_iff)
  with assms obtain r gs where r: "r \<in> set ?rs" "accept_host gs = Some h" "list_all host_label gs" "contains (join [46] gs) r"
    unfolding detectDomainInText_def using host_in_runs_sound by metis
  have "contains (join [46] gs) (to_lower txt)" using r(1,4) split_runs_inside contains_trans by blast
  moreover have "gs \<noteq> []" using r(2) by (auto simp: accept_host_def)
  then have "split_on 46 (join [46] gs) = gs"
    using r(3) by (intro split_on_join) (auto simp: list_all_iff host_label_def)
  moreover have acc: "host h = join [46] gs" using accepted_host [OF r(2,3)] by blast
  ultimately have "contains (host h) (to_lower txt)" "split_on 46 (host h) = gs" by simp_all
  then show ?thesis using accepted_host [OF r(2,3)] by metis
qed

theorem detected_domain_sound_witness:
  "contains (js ''news.bbc.co.uk'') (to_lower (js ''News.BBC.co.uk (v1.2)''))
    \<and> map_option rootName (detectDomainInText (js ''News.BBC.co.uk (v1.2)'')) = Some (Some (js ''bbc''))"
proof -
  have d: "detectDomainInText (js ''News.BBC.co.uk (v1.2)'') = Some \<lparr>host = js ''news.bbc.co.uk'', baseDomain = js ''bbc.co.uk'',
      rootName = Some (js ''bbc''), isIp = False\<rparr>"
    by code_simp
  with detected_domain_sound [OF d] show ?thesis by simp
qed

section \<open>Bands\<close>

definition same_site :: "host_info \<Rightarrow> host_info \<Rightarrow> bool" where
  "same_site x d \<longleftrightarrow> host x = host d \<or> (baseDomain x \<noteq> [] \<and> baseDomain x = baseDomain d)"

lemma direct_loop_band:
  "score = 0 \<or> score = 96 \<Longrightarrow> direct_loop xs d score \<in> {0, 96, 100}
     \<and> (96 \<le> direct_loop xs d score \<longleftrightarrow> score = 96 \<or> (\<exists>x\<in>set xs. same_site x d))"
proof (induction xs arbitrary: score)
  case (Cons x xs)
  define s' where "s' = (if baseDomain x \<noteq> [] \<and> baseDomain x = baseDomain d then max score 96 else score)"
  have s': "s' = 0 \<or> s' = 96" "s' = 96 \<longleftrightarrow> score = 96 \<or> (baseDomain x \<noteq> [] \<and> baseDomain x = baseDomain d)"
    using Cons.prems by (auto simp: s'_def)
  show ?case
  proof (cases "host x = host d")
    case False
    then have "direct_loop (x # xs) d score = direct_loop xs d s'" by (simp add: s'_def)
    moreover have "same_site x d \<longleftrightarrow> baseDomain x \<noteq> [] \<and> baseDomain x = baseDomain d" using False by (simp add: same_site_def)
    ultimately show ?thesis using Cons.IH [OF s'(1)] s'(2) by (simp only: list.set bex_simps) blast
  qed (simp add: same_site_def)
qed auto

lemma title_score_low: "domainTitleScore ds c \<le> 90"
proof -
  have "foldl (\<lambda>score d. case rootName d of None \<Rightarrow> score | Some r \<Rightarrow> max score (root_score c r)) n ds \<le> 90"
    if "n \<le> 90" for n
    using that by (induction ds arbitrary: n) (auto simp: root_score_def split: option.splits)
  then show ?thesis by (simp add: domainTitleScore_def)
qed

lemma other_scores_low:
  "itemNameTitleScore n c \<le> 92" "sharedTitleTokenScore ns ts \<le> 84" "nativeAppScore ds n c \<le> 92"
  by (auto simp: itemNameTitleScore_def sharedTitleTokenScore_def nativeAppScore_def Let_def)

text \<open>The bands never mix: an item scores 96 or more against a window exactly when one of its URIs
  is on the site the title spelled out; every match by words, by name or by application class scores
  less.\<close>
lemma band_domain:
  "96 \<le> matchItem it c \<longleftrightarrow>
     (\<exists>d x. cx_detectedDomain c = Some d \<and> x \<in> set (itemDomains it) \<and> same_site x d)"
proof (cases "cx_detectedDomain c")
  case None
  then have "matchItem it c \<le> 92"
    using title_score_low [of "itemDomains it" c] other_scores_low(1) [of "squash (it_name it)" c]
      other_scores_low(2) [of "extractTokens (it_name it)" "cx_titleTokens c"]
      other_scores_low(3) [of "itemDomains it" "squash (it_name it)" c]
    by (simp add: matchItem_def directDomainScore_def Let_def)
  with None show ?thesis by simp
next
  case (Some d)
  let ?s = "direct_loop (itemDomains it) d 0"
  have "96 \<le> matchItem it c \<longleftrightarrow> 96 \<le> ?s"
    using title_score_low [of "itemDomains it" c] other_scores_low(1) [of "squash (it_name it)" c]
      other_scores_low(2) [of "extractTokens (it_name it)" "cx_titleTokens c"]
      other_scores_low(3) [of "itemDomains it" "squash (it_name it)" c]
    by (auto simp: matchItem_def directDomainScore_def Let_def Some le_max_iff_disj)
  then show ?thesis using direct_loop_band [of 0 "itemDomains it" d] Some by auto
qed

section \<open>Whole words\<close>

lemma matches_left_edge:
  "(\<exists>u v. s = u @ v \<and> matches (Alt Begin (Unit (\<lambda>c. \<not> alnum c))) (rev u, v) q)
     \<longleftrightarrow> s = rev (fst q) @ snd q \<and> (fst q = [] \<or> \<not> alnum (hd (fst q)))" (is "?l \<longleftrightarrow> ?r")
proof
  assume ?l
  then show ?r by auto
next
  assume r: ?r
  show ?l
  proof (cases "fst q")
    case Nil
    with r show ?thesis by (intro exI [of _ "[]"] exI [of _ s]) (cases q, auto)
  next
    case (Cons c b)
    with r show ?thesis by (intro exI [of _ "rev b"] exI [of _ "c # snd q"]) (cases q, auto)
  qed
qed

lemma matches_right_edge:
  "(\<exists>q. matches (Alt End (Unit (\<lambda>c. \<not> alnum c))) p q) \<longleftrightarrow> snd p = [] \<or> \<not> alnum (hd (snd p))"
proof (cases "snd p")
  case (Cons c s)
  then show ?thesis by (cases p) (simp add: matches_Alt)
qed (cases p, simp add: matches_Alt)

text \<open>The expression built from an item's name finds it exactly as a whole word: there is a stretch
  of the text equal to the name up to case, with no letter or digit directly before or after it.\<close>
theorem whole_word_exact:
  "hasWholeWord s w \<longleftrightarrow> w \<noteq> [] \<and> (\<exists>a m b. s = a @ m @ b \<and> to_lower m = to_lower w
     \<and> (a = [] \<or> \<not> alnum (last a)) \<and> (b = [] \<or> \<not> alnum (hd b)))"
proof -
  let ?L = "Alt Begin (Unit (\<lambda>c. \<not> alnum c))" and ?R = "Alt End (Unit (\<lambda>c. \<not> alnum c))"
  have "re_test (cats [?L, lit_ci w, ?R]) s \<longleftrightarrow>
      (\<exists>p. (\<exists>u v. s = u @ v \<and> matches ?L (rev u, v) p) \<and> (\<exists>t. matches (lit_ci w) p t \<and> (\<exists>q. matches ?R t q)))"
    unfolding re_test_def search_iff cats.simps matches_Cat append_Nil2 by (rule iffI; elim exE conjE; intro exI conjI)
  also have "\<dots> \<longleftrightarrow> (\<exists>p. (s = rev (fst p) @ snd p \<and> (fst p = [] \<or> \<not> alnum (hd (fst p))))
      \<and> (\<exists>t. (\<exists>m. snd p = m @ snd t \<and> fst t = rev m @ fst p \<and> to_lower m = to_lower w)
            \<and> (snd t = [] \<or> \<not> alnum (hd (snd t)))))"
    unfolding matches_left_edge matches_right_edge matches_lit ..
  also have "\<dots> \<longleftrightarrow> (\<exists>a m b. s = a @ m @ b \<and> to_lower m = to_lower w
     \<and> (a = [] \<or> \<not> alnum (last a)) \<and> (b = [] \<or> \<not> alnum (hd b)))" (is "?x \<longleftrightarrow> ?y")
  proof
    assume ?x
    then obtain p m and t :: pos where p: "s = rev (fst p) @ snd p" "snd p = m @ snd t" "to_lower m = to_lower w"
      "fst p = [] \<or> \<not> alnum (hd (fst p))" "snd t = [] \<or> \<not> alnum (hd (snd t))" by blast
    then show ?y by (intro exI [of _ "rev (fst p)"] exI [of _ m] exI [of _ "snd t"]) (auto simp: last_rev)
  next
    assume ?y
    then obtain a m b where a: "s = a @ m @ b" "to_lower m = to_lower w"
      "a = [] \<or> \<not> alnum (last a)" "b = [] \<or> \<not> alnum (hd b)" by blast
    then show ?x
      by (intro exI [of _ "(rev a, m @ b)"] conjI exI [of _ "(rev m @ rev a, b)"] exI [of _ m]) (auto simp: hd_rev)
  qed
  moreover have "s \<noteq> []" if "w \<noteq> []" "s = a @ m @ b" "to_lower m = to_lower w" for a m b
    using that by (auto simp: to_lower_def)
  ultimately show ?thesis unfolding hasWholeWord_def by blast
qed

theorem whole_word_exact_witness: "hasWholeWord (js ''go GitHub'') (js ''github'')"
  unfolding whole_word_exact
  by (intro conjI exI [of _ "js ''go ''"] exI [of _ "js ''GitHub''"] exI [of _ "[]"])
    (simp_all add: js_unfold alnum_def)

end
