(* ===== verification/Associations.thy ===== *)
theory Associations
  imports Context Accounts
begin

text \<open>
  Learned associations, as \<^verbatim>\<open>BitwardenModel.js\<close> keeps them: which item was picked in which window,
  filed under the window's keys (its domain, its application class and, only when the user pinned
  the item, the words of its title). A store is the object \<^verbatim>\<open>keys\<close>, in enumeration order.
\<close>

section \<open>The store\<close>

definition ASSOC_VERSION :: int where "ASSOC_VERSION = 1"
definition MAX_ASSOC_BYTES :: nat where "MAX_ASSOC_BYTES = 1024 * 1024"
definition MAX_ASSOC_WRITE_BYTES :: nat where "MAX_ASSOC_WRITE_BYTES = MAX_ASSOC_BYTES div 2"

record assoc_entry =
  ae_itemId :: jsstr
  ae_weight :: nat
  ae_count :: nat
  ae_updated :: jsstr
  ae_pinned :: bool

type_synonym assoc = "(jsstr \<times> assoc_entry) list"

definition associationsFileName :: "jsval \<Rightarrow> jsstr" where
  "associationsFileName sl =
     (let s = accountSlot sl in
      if s = DEFAULT_ACCOUNT_SLOT then js ''associations.json'' else js ''associations@'' @ s @ js ''.json'')"

definition emptyAssociations :: assoc where "emptyAssociations = []"

definition associationKeyWeight :: "jsstr \<Rightarrow> nat" where
  "associationKeyWeight value =
     (if MAX_TITLE_CHARS + 16 < length value then 0
      else if starts_with (js ''domain:'') value \<and> drop 7 value \<noteq> [] \<and> lower_alnum (hd (drop 7 value))
        \<and> list_all host_unit (drop 7 value) then 3
      else if starts_with (js ''app:'') value \<and> drop 4 value \<noteq> [] \<and> list_all lower_alnum (drop 4 value) then 2
      else if starts_with (js ''word:'') value \<and> drop 5 value \<noteq> [] \<and> list_all lower_alnum (drop 5 value) then 1
      else 0)"

definition id_ok :: "jsstr \<Rightarrow> bool" where
  "id_ok i \<longleftrightarrow> i \<noteq> [] \<and> length i \<le> 256 \<and> list_all (\<lambda>c. \<not> is_control c) i"

definition clean_count :: "jsval \<Rightarrow> nat" where
  "clean_count v =
     (case to_num v of Fin q \<Rightarrow> if q < 1 then 1 else min 1000000 (nat \<lfloor>q\<rfloor>) | _ \<Rightarrow> 1)"

definition clean_updated :: "jsval \<Rightarrow> jsstr" where
  "clean_updated v =
     (case v of JStr s \<Rightarrow> if 64 < length s \<or> list_ex is_control s then [] else s | _ \<Rightarrow> [])"

definition cleanAssociationEntry :: "jsstr \<Rightarrow> jsval \<Rightarrow> assoc_entry option" where
  "cleanAssociationEntry key entry =
     (case entry of
        JObj ps \<Rightarrow>
          (case fld entry ''itemId'' of
             JStr i \<Rightarrow>
               (if associationKeyWeight key = 0 \<or> \<not> id_ok i then None
                else Some \<lparr>ae_itemId = i, ae_weight = associationKeyWeight key,
                           ae_count = clean_count (fld entry ''count''), ae_updated = clean_updated (fld entry ''updated''),
                           ae_pinned = (fld entry ''pinned'' = JBool True)\<rparr>)
           | _ \<Rightarrow> None)
      | _ \<Rightarrow> None)"

fun clean_entries :: "(jsstr \<times> jsval) list \<Rightarrow> assoc \<Rightarrow> assoc" where
  "clean_entries [] acc = acc"
| "clean_entries ((k, v) # ps) acc =
     clean_entries ps (case cleanAssociationEntry k v of Some e \<Rightarrow> obj_put acc k e | None \<Rightarrow> acc)"

definition assoc_of_json :: "jsval \<Rightarrow> assoc option" where
  \<comment> \<open>\<open>None\<close> is the type error of reading \<^verbatim>\<open>version\<close> of null\<close>
  "assoc_of_json parsed =
     (if parsed = JNull then None
      else (let v = fld parsed ''version'';
                version = (if truthy parsed \<and> v = JUndef then numi ASSOC_VERSION else to_num v)
            in case parsed of
                 JObj ps \<Rightarrow>
                   (case fld parsed ''keys'' of
                      JObj ks \<Rightarrow> Some (if num_eq version (numi ASSOC_VERSION) then clean_entries ks [] else emptyAssociations)
                    | _ \<Rightarrow> Some emptyAssociations)
               | _ \<Rightarrow> Some emptyAssociations))"

definition parseAssociations :: "jsstr \<Rightarrow> assoc option" where
  "parseAssociations raw =
     (case json_parse (or_text (trim raw) (js ''{}'')) of
        None \<Rightarrow> Some emptyAssociations
      | Some parsed \<Rightarrow> assoc_of_json parsed)"

definition entry_json :: "assoc_entry \<Rightarrow> jsval" where
  "entry_json e = JObj ([(js ''itemId'', JStr (ae_itemId e)), (js ''weight'', jint (int (ae_weight e))),
     (js ''count'', jint (int (ae_count e))), (js ''updated'', JStr (ae_updated e))]
     @ (if ae_pinned e then [(js ''pinned'', JBool True)] else []))"

definition assoc_json :: "assoc \<Rightarrow> jsval" where
  "assoc_json a = JObj [(js ''version'', jint ASSOC_VERSION), (js ''keys'', JObj (map (\<lambda>(k, e). (k, entry_json e)) a))]"

definition serializeAssociations :: "assoc \<Rightarrow> jsstr" where
  "serializeAssociations a = json_str (assoc_json a)"

section \<open>Keys\<close>

definition contextKeys :: "ctx option \<Rightarrow> bool \<Rightarrow> (jsstr \<times> nat) list" where
  "contextKeys c withWords =
     (case c of
        None \<Rightarrow> []
      | Some c \<Rightarrow>
          (case cx_detectedDomain c of
             Some d \<Rightarrow> if baseDomain d \<noteq> [] \<and> \<not> isIp d then [(js ''domain:'' @ baseDomain d, 3)] else []
           | None \<Rightarrow> [])
          @ (if \<not> cx_isBrowser c \<and> \<not> cx_isTerminal c \<and> 3 \<le> length (cx_clsSquashed c)
             then [(js ''app:'' @ cx_clsSquashed c, 2)] else [])
          @ (if withWords then map (\<lambda>t. (js ''word:'' @ t, 1)) (cx_titleTokens c) else []))"

definition isWordKey :: "jsstr \<Rightarrow> bool" where
  "isWordKey key \<longleftrightarrow> starts_with (js ''word:'') key"

definition associationEntryCounts :: "jsstr \<Rightarrow> assoc_entry option \<Rightarrow> bool" where
  "associationEntryCounts key entry =
     (case entry of None \<Rightarrow> False | Some e \<Rightarrow> \<not> isWordKey key \<or> ae_pinned e)"

section \<open>Operations\<close>

definition newer_le :: "(jsstr \<times> assoc_entry) \<Rightarrow> (jsstr \<times> assoc_entry) \<Rightarrow> bool" where
  "newer_le a b =
     (if ae_updated (snd a) \<noteq> ae_updated (snd b) then str_less (ae_updated (snd b)) (ae_updated (snd a))
      else \<not> str_less (fst a) (fst b))"

definition entry_cost :: "(jsstr \<times> assoc_entry) \<Rightarrow> nat" where
  "entry_cost p = length (fst p) + length (json_str (entry_json (snd p))) + 4"

fun keep_budget :: "nat \<Rightarrow> assoc \<Rightarrow> assoc" where
  "keep_budget used [] = []"
| "keep_budget used (p # ps) =
     (if MAX_ASSOC_WRITE_BYTES < used + entry_cost p then [] else p # keep_budget (used + entry_cost p) ps)"

definition trimAssociations :: "assoc \<Rightarrow> assoc" where
  "trimAssociations a =
     (let kept = keep_budget 0 (sort_by newer_le a)
      in if length kept = length a then a else put_all [] kept)"

definition picked_entry :: "assoc \<Rightarrow> jsstr \<Rightarrow> nat \<Rightarrow> jsstr \<Rightarrow> jsstr \<Rightarrow> bool \<Rightarrow> assoc_entry" where
  \<comment> \<open>the entry \<open>recordAssociation\<close> writes under one key\<close>
  "picked_entry a key w itemId timestamp pinned =
     (let same = (case map_of a key of Some e \<Rightarrow> ae_itemId e = itemId | None \<Rightarrow> False);
          old = (case map_of a key of Some e \<Rightarrow> ae_count e | None \<Rightarrow> 0);
          oldPin = (case map_of a key of Some e \<Rightarrow> ae_pinned e | None \<Rightarrow> False)
      in \<lparr>ae_itemId = itemId, ae_weight = w, ae_count = (if same then old + 1 else 1), ae_updated = timestamp,
          ae_pinned = (pinned \<or> (same \<and> oldPin))\<rparr>)"

definition record_keys :: "(jsstr \<times> nat) list \<Rightarrow> assoc \<Rightarrow> jsstr \<Rightarrow> jsstr \<Rightarrow> bool \<Rightarrow> assoc" where
  "record_keys ks a itemId timestamp pinned =
     foldl (\<lambda>a (key, w). obj_put a key (picked_entry a key w itemId timestamp pinned)) a ks"

definition recordAssociation :: "assoc \<Rightarrow> ctx option \<Rightarrow> jsstr \<Rightarrow> jsstr \<Rightarrow> bool \<Rightarrow> assoc" where
  "recordAssociation a c itemId timestamp pinned =
     (if contextKeys c pinned = [] \<or> itemId = [] then a
      else trimAssociations (record_keys (contextKeys c pinned) a itemId timestamp pinned))"

definition forgetAssociation :: "assoc \<Rightarrow> ctx option \<Rightarrow> jsstr \<Rightarrow> assoc" where
  "forgetAssociation a c itemId =
     filter (\<lambda>(k, e). \<not> (k \<in> fst ` set (contextKeys c True) \<and> (itemId = [] \<or> ae_itemId e = itemId))) a"

definition isAssociated :: "assoc \<Rightarrow> ctx option \<Rightarrow> jsstr \<Rightarrow> bool" where
  "isAssociated a c itemId \<longleftrightarrow> c \<noteq> None \<and> itemId \<noteq> []
     \<and> list_ex (\<lambda>(k, w). associationEntryCounts k (map_of a k) \<and> map_option ae_itemId (map_of a k) = Some itemId)
         (contextKeys c True)"

definition note_rank :: "assoc \<Rightarrow> (jsstr \<times> nat) list \<Rightarrow> (jsstr \<times> nat) \<Rightarrow> (jsstr \<times> nat) list" where
  \<comment> \<open>one round of the loop of \<open>learnedMatchIds\<close> over the keys\<close>
  "note_rank a best kw =
     (case map_of a (fst kw) of
        None \<Rightarrow> best
      | Some e \<Rightarrow>
          (let rank = snd kw * 1000 + (if ae_count e = 0 then 1 else ae_count e) in
           if \<not> associationEntryCounts (fst kw) (Some e) \<or> ae_itemId e = [] then best
           else (case map_of best (ae_itemId e) of
                   Some r \<Rightarrow> if r < rank then obj_put best (ae_itemId e) rank else best
                 | None \<Rightarrow> obj_put best (ae_itemId e) rank)))"

definition rank_le :: "(jsstr \<times> nat) \<Rightarrow> (jsstr \<times> nat) \<Rightarrow> bool" where
  "rank_le a b \<longleftrightarrow> snd b \<le> snd a"

definition learnedMatchIds :: "assoc \<Rightarrow> ctx option \<Rightarrow> (jsstr \<times> nat) list" where
  "learnedMatchIds a c = sort_by rank_le (foldl (note_rank a) [] (contextKeys c True))"

interpretation learned_order: sort_order rank_le
  by unfold_locales (auto simp: rank_le_def)

section \<open>Where an entry comes from\<close>

datatype assoc_event = Pick "ctx option" jsstr jsstr bool | Forget "ctx option" jsstr

fun assoc_step :: "assoc \<Rightarrow> assoc_event \<Rightarrow> assoc" where
  "assoc_step a (Pick c i t p) = recordAssociation a c i t p"
| "assoc_step a (Forget c i) = forgetAssociation a c i"

abbreviation keys_of :: "ctx option \<Rightarrow> bool \<Rightarrow> jsstr set" where
  "keys_of c w \<equiv> fst ` set (contextKeys c w)"

definition picked :: "assoc_event list \<Rightarrow> jsstr \<Rightarrow> jsstr \<Rightarrow> bool \<Rightarrow> bool" where
  \<comment> \<open>the item was picked in a window with that key, by a pick that recorded it\<close>
  "picked es k i pin \<longleftrightarrow> (\<exists>c t p. Pick c i t p \<in> set es \<and> k \<in> keys_of c p \<and> (pin \<longrightarrow> p))"

definition from_picks :: "assoc_event list \<Rightarrow> assoc \<Rightarrow> bool" where
  "from_picks es a \<longleftrightarrow>
     (\<forall>k e. (k, e) \<in> set a \<longrightarrow> picked es k (ae_itemId e) (ae_pinned e))"

lemma from_picksD: "from_picks es a \<Longrightarrow> map_of a k = Some e \<Longrightarrow> picked es k (ae_itemId e) (ae_pinned e)"
  unfolding from_picks_def by (blast dest: map_of_SomeD)

lemma picked_weaken: "picked es k i pin \<Longrightarrow> (pin' \<Longrightarrow> pin) \<Longrightarrow> picked es k i pin'"
  unfolding picked_def by blast

lemma picked_mono: "picked es k i pin \<Longrightarrow> picked (es @ fs) k i pin"
  unfolding picked_def by auto

lemma set_obj_put: "set (obj_put ps k v) \<subseteq> insert (k, v) (set ps)"
  by (induction ps k v rule: obj_put.induct) auto

lemma set_put_all: "set (put_all acc ps) \<subseteq> set acc \<union> set ps"
proof (induction ps arbitrary: acc)
  case (Cons p ps)
  obtain k v where p: "p = (k, v)" by fastforce
  have "put_all acc (p # ps) = put_all (obj_put acc k v) ps" by (simp add: put_all_def p)
  with Cons.IH [of "obj_put acc k v"] set_obj_put [of acc k v] show ?case by (auto simp: p)
qed (simp add: put_all_def)

lemma set_keep_budget: "set (keep_budget u ps) \<subseteq> set ps"
  by (induction u ps rule: keep_budget.induct) auto

lemma set_trimAssociations: "set (trimAssociations a) \<subseteq> set a"
  using set_keep_budget [of 0 "sort_by newer_le a"] set_put_all [of "[]" "keep_budget 0 (sort_by newer_le a)"]
  by (auto simp: trimAssociations_def Let_def)

lemma from_picks_mono: "from_picks es a \<Longrightarrow> set a' \<subseteq> set a \<Longrightarrow> from_picks (es @ fs) a'"
  unfolding from_picks_def by (blast intro: picked_mono)

lemma from_picks_put:
  "from_picks es a \<Longrightarrow> picked es k (ae_itemId e) (ae_pinned e) \<Longrightarrow> from_picks es (obj_put a k e)"
  using set_obj_put [of a k e] unfolding from_picks_def by blast

lemma from_picks_record:
  assumes "from_picks es a" and "Pick c i t p \<in> set es" and "set ks \<subseteq> set (contextKeys c p)"
  shows "from_picks es (record_keys ks a i t p)"
  using assms(1,3)
proof (induction ks arbitrary: a)
  case (Cons kw ks)
  obtain k w where kw: "kw = (k, w)" by fastforce
  let ?e = "picked_entry a k w i t p"
  have "k \<in> keys_of c p" using Cons.prems(2) kw by (force simp: image_iff)
  then have now: "picked es k i p" unfolding picked_def using assms(2) by blast
  have "picked es k i (ae_pinned ?e)"
  proof (cases "p \<or> \<not> ae_pinned ?e")
    case True
    then show ?thesis using picked_weaken [OF now] by blast
  next
    case False
    then obtain e where "map_of a k = Some e" "ae_itemId e = i" "ae_pinned e"
      by (auto simp: picked_entry_def Let_def split: option.splits)
    with from_picksD [OF Cons.prems(1)] show ?thesis by (auto intro: picked_weaken)
  qed
  then have "from_picks es (obj_put a k ?e)"
    using Cons.prems(1) by (intro from_picks_put) (simp_all add: picked_entry_def Let_def)
  with Cons.IH Cons.prems(2) show ?case by (simp add: record_keys_def kw)
qed (simp add: record_keys_def)

lemma from_picks_step: "from_picks es a \<Longrightarrow> from_picks (es @ [ev]) (assoc_step a ev)"
proof (cases ev)
  case (Pick c i t p)
  assume a: "from_picks es a"
  then have a': "from_picks (es @ [ev]) a" by (rule from_picks_mono) simp
  have "Pick c i t p \<in> set (es @ [ev])" by (simp add: Pick)
  from from_picks_record [OF a' this order_refl]
  have "from_picks ((es @ [ev]) @ []) (trimAssociations (record_keys (contextKeys c p) a i t p))"
    using set_trimAssociations by (rule from_picks_mono)
  with a' show ?thesis by (simp add: Pick recordAssociation_def)
next
  case (Forget c i)
  assume "from_picks es a"
  then show ?thesis by (rule from_picks_mono) (auto simp: Forget forgetAssociation_def)
qed

lemma from_picks_run: "from_picks es (foldl assoc_step emptyAssociations es)"
  by (induction es rule: rev_induct) (simp_all add: from_picks_step, simp add: from_picks_def emptyAssociations_def)

section \<open>What is suggested\<close>

lemma note_rank_source:
  assumes "x \<in> set (note_rank a best kw)"
  shows "x \<in> set best \<or> (\<exists>e. map_of a (fst kw) = Some e \<and> ae_itemId e = fst x \<and> associationEntryCounts (fst kw) (Some e))"
proof (cases "map_of a (fst kw)")
  case (Some e)
  let ?rank = "snd kw * 1000 + (if ae_count e = 0 then 1 else ae_count e)"
  have "note_rank a best kw = best
    \<or> (note_rank a best kw = obj_put best (ae_itemId e) ?rank \<and> associationEntryCounts (fst kw) (Some e))"
    by (simp add: note_rank_def Some Let_def split: option.splits)
  then show ?thesis using assms set_obj_put [of best "ae_itemId e" ?rank] Some by auto
qed (use assms in \<open>simp add: note_rank_def\<close>)

lemma learned_source:
  assumes "x \<in> set (learnedMatchIds a c)"
  obtains k e where "k \<in> keys_of c True" "map_of a k = Some e" "ae_itemId e = fst x" "associationEntryCounts k (Some e)"
proof -
  have "\<exists>kw\<in>set ks. \<exists>e. map_of a (fst kw) = Some e \<and> ae_itemId e = fst x \<and> associationEntryCounts (fst kw) (Some e)"
    if "x \<in> set (foldl (note_rank a) best ks)" "x \<notin> set best" for best ks
    using that
  proof (induction ks arbitrary: best)
    case (Cons kw ks)
    then show ?case using note_rank_source [of x a best kw] by auto
  qed simp
  from this [of "[]" "contextKeys c True"] assms show ?thesis
    by (auto simp: learnedMatchIds_def intro: that)
qed

text \<open>However items were picked and forgotten before, an item is a learned suggestion for a
  window only if that very item was picked in a window with the same domain or the same application
  class, or was pinned by the user in a window with a common key.\<close>
lemma learned_from_pick:
  assumes "x \<in> set (learnedMatchIds (foldl assoc_step emptyAssociations es) c)"
  shows "\<exists>k c' t p. Pick c' (fst x) t p \<in> set es \<and> k \<in> keys_of c True \<and> k \<in> keys_of c' p
    \<and> (p \<or> \<not> isWordKey k)"
proof -
  let ?a = "foldl assoc_step emptyAssociations es"
  obtain k e where k: "k \<in> keys_of c True" "map_of ?a k = Some e" "ae_itemId e = fst x"
    "associationEntryCounts k (Some e)"
    using learned_source [OF assms] by metis
  have "picked es k (fst x) (isWordKey k)"
    using from_picksD [OF from_picks_run k(2)] k(3,4)
    by (auto simp: associationEntryCounts_def intro: picked_weaken)
  with k(1) show ?thesis unfolding picked_def by blast
qed

text \<open>Forgetting an item for a window takes effect at once, whatever the store holds.\<close>
theorem forget_unassociates: "\<not> isAssociated (forgetAssociation a c i) c i"
proof
  assume "isAssociated (forgetAssociation a c i) c i"
  then obtain k e where "k \<in> keys_of c True" "map_of (forgetAssociation a c i) k = Some e" "ae_itemId e = i"
    by (fastforce simp: isAssociated_def list_ex_iff)
  then have "k \<in> keys_of c True \<and> (k, e) \<in> set (forgetAssociation a c i) \<and> ae_itemId e = i"
    by (blast dest: map_of_SomeD)
  then show False unfolding forgetAssociation_def by (simp, blast)
qed

section \<open>The file\<close>

definition entry_ok :: "jsstr \<Rightarrow> assoc_entry \<Rightarrow> bool" where
  "entry_ok k e \<longleftrightarrow> associationKeyWeight k \<noteq> 0 \<and> ae_weight e = associationKeyWeight k \<and> id_ok (ae_itemId e)
     \<and> units_ok (ae_itemId e) \<and> 1 \<le> ae_count e \<and> ae_count e \<le> 1000000
     \<and> length (ae_updated e) \<le> 64 \<and> \<not> list_ex is_control (ae_updated e) \<and> units_ok (ae_updated e)"

definition assoc_ok :: "assoc \<Rightarrow> bool" where
  "assoc_ok a \<longleftrightarrow> distinct (map fst a) \<and> (\<forall>(k, e)\<in>set a. entry_ok k e)"

definition key_unit :: "nat \<Rightarrow> bool" where
  "key_unit c \<longleftrightarrow> host_unit c \<or> c = 58"

lemma key_units: "associationKeyWeight k \<noteq> 0 \<Longrightarrow> k \<noteq> [] \<and> \<not> is_digit (hd k) \<and> list_all key_unit k"
proof -
  have ok: "list_all key_unit (p @ r) \<and> p @ r \<noteq> [] \<and> \<not> is_digit (hd (p @ r))"
    if "p \<in> {js ''domain:'', js ''app:'', js ''word:''}" "list_all host_unit r" for p r
    using that by (auto simp: js_unfold key_unit_def host_unit_def lower_alnum_def list_all_iff)
  assume "associationKeyWeight k \<noteq> 0"
  then obtain p r where "k = p @ r" "p \<in> {js ''domain:'', js ''app:'', js ''word:''}" "list_all host_unit r"
    by (auto simp: associationKeyWeight_def starts_with_iff list_all_iff host_unit_def split: if_splits)
  with ok [of p r] show ?thesis by simp
qed

lemma key_unit_range: "key_unit c \<Longrightarrow> 45 \<le> c \<and> c \<le> 122 \<and> c \<noteq> 92"
  by (auto simp: key_unit_def host_unit_def lower_alnum_def is_digit_def)

lemma key_not_index: "associationKeyWeight k \<noteq> 0 \<Longrightarrow> \<not> is_index_key k"
  using key_units [of k] by (cases k) (auto simp: is_index_key_def)

lemma key_units_ok: "associationKeyWeight k \<noteq> 0 \<Longrightarrow> units_ok k"
  using key_units [of k] by (fastforce simp: units_ok_def list_all_iff dest: key_unit_range)

lemma entry_fields [simp]:
  "get_prop (entry_json e) (js ''itemId'') = JStr (ae_itemId e)"
  "get_prop (entry_json e) (js ''count'') = jint (int (ae_count e))"
  "get_prop (entry_json e) (js ''updated'') = JStr (ae_updated e)"
  "get_prop (entry_json e) (js ''pinned'') = (if ae_pinned e then JBool True else JUndef)"
  by (simp_all add: entry_json_def obj_get_def)

lemma clean_count_int: "1 \<le> n \<Longrightarrow> n \<le> 1000000 \<Longrightarrow> clean_count (jint (int n)) = n"
  by (simp add: clean_count_def)

lemma clean_entry_json: "entry_ok k e \<Longrightarrow> cleanAssociationEntry k (entry_json e) = Some e"
proof -
  assume e: "entry_ok k e"
  obtain ps where ps: "entry_json e = JObj ps" by (simp add: entry_json_def)
  have "cleanAssociationEntry k (JObj ps) = Some e"
    using e clean_count_int [of "ae_count e"] entry_fields [of e] unfolding ps
    by (cases e) (simp add: cleanAssociationEntry_def entry_ok_def clean_updated_def del: get_prop.simps)
  then show ?thesis by (simp add: ps)
qed

lemma clean_entries_json:
  "\<lbrakk>distinct (map fst (acc @ a)); \<forall>(k, e)\<in>set a. entry_ok k e\<rbrakk>
   \<Longrightarrow> clean_entries (map (\<lambda>(k, e). (k, entry_json e)) a) acc = acc @ a"
proof (induction a arbitrary: acc)
  case (Cons p a)
  obtain k e where p: "p = (k, e)" by fastforce
  have "entry_ok k e" "k \<notin> fst ` set acc" using Cons.prems p by auto
  then have "obj_put acc k e = acc @ [p]" by (simp add: p obj_put_name key_not_index entry_ok_def)
  with Cons.IH [of "acc @ [p]"] Cons.prems \<open>entry_ok k e\<close> show ?case by (simp add: p clean_entry_json)
qed simp

lemma plain_small: "n \<le> 1000000 \<Longrightarrow> plain (jint (int n))"
proof -
  assume "n \<le> 1000000"
  then have "(of_int (int n) :: rat) \<le> of_int 1000000" by (simp only: of_int_le_iff)
  then show ?thesis by simp
qed

lemma weight_small: "associationKeyWeight k \<le> 3"
  by (simp add: associationKeyWeight_def)

lemma plain_entry: "entry_ok k e \<Longrightarrow> plain (entry_json e)"
proof -
  assume e: "entry_ok k e"
  then have "plain (jint (int (ae_weight e)))" "plain (jint (int (ae_count e)))"
    using weight_small [of k] by (intro plain_small; simp add: entry_ok_def)+
  with e show ?thesis
    unfolding entry_json_def by (intro plain_JObj_names) (simp_all add: entry_ok_def is_digit_def del: plain_num.simps)
qed

lemma entry_plain_member: "entry_ok k e \<Longrightarrow> \<not> is_index_key k \<and> units_ok k \<and> plain (entry_json e)"
  using plain_entry [of k e] by (simp add: entry_ok_def key_not_index key_units_ok)

lemma plain_assoc: "assoc_ok a \<Longrightarrow> plain (assoc_json a)"
proof -
  assume a: "assoc_ok a"
  have "plain (JObj (map (\<lambda>(k, e). (k, entry_json e)) a))"
    using a by (intro plain_JObj_names) (auto simp: assoc_ok_def comp_def case_prod_beta dest!: bspec entry_plain_member)
  then show ?thesis
    unfolding assoc_json_def by (intro plain_JObj_names) (simp_all add: is_digit_def ASSOC_VERSION_def del: plain.simps(7))
qed

lemma assoc_of_json_json: "assoc_ok a \<Longrightarrow> assoc_of_json (assoc_json a) = Some a"
  using clean_entries_json [of "[]" a]
  by (simp add: assoc_ok_def assoc_json_def assoc_of_json_def Let_def obj_get_def num_eq_def)

interpretation assoc_file: json_codec assoc_json "\<lambda>v. the (assoc_of_json v)" assoc_ok
  by unfold_locales (simp_all add: plain_assoc assoc_of_json_json)

text \<open>The associations file is read back as it was written: parsing the serialized store gives
  the store, for every store whose entries are in the ranges the reader accepts.\<close>
theorem associations_round_trip:
  assumes "assoc_ok a"
  shows "parseAssociations (serializeAssociations a) = Some a"
proof -
  obtain m where m: "json_str (assoc_json a) = 123 # m @ [125]" by (simp add: assoc_json_def)
  have "trim (123 # m @ [125]) = 123 # m @ [125]" by (rule trim_outer) (simp_all add: is_ws_def)
  then show ?thesis
    using json_parse_stringify [OF plain_assoc [OF assms]] assoc_of_json_json [OF assms] m
    by (simp add: parseAssociations_def serializeAssociations_def or_text_def)
qed

text \<open>Reading the associations file never fails on what it holds, whatever it holds, with one
  exception: a file that is the JSON value null, for which the version is read of null.\<close>
theorem parse_fails_only_on_null:
  "parseAssociations raw = None \<longleftrightarrow> json_parse (trim raw) = Some JNull"
proof -
  have none: "assoc_of_json v = None \<longleftrightarrow> v = JNull" for v
    by (simp add: assoc_of_json_def Let_def split: jsval.split)
  have "json_parse (js ''{}'') = Some (JObj [])"
    using json_parse_stringify [of "JObj []"] by (simp add: put_all_def js_def)
  moreover have "json_parse [] = None" by (simp add: json_parse_def skip_ws_def)
  ultimately show ?thesis
    by (cases "trim raw = []") (simp_all add: parseAssociations_def or_text_def none split: option.split)
qed

section \<open>The write budget\<close>

definition total_cost :: "assoc \<Rightarrow> nat" where
  "total_cost a = sum_list (map entry_cost a)"

lemma total_cost_mset: "mset a = mset b \<Longrightarrow> total_cost a = total_cost b"
  unfolding total_cost_def by (metis mset_map sum_mset_sum_list)

lemma keep_budget_cost: "u \<le> MAX_ASSOC_WRITE_BYTES \<Longrightarrow> u + total_cost (keep_budget u a) \<le> MAX_ASSOC_WRITE_BYTES"
  by (induction u a rule: keep_budget.induct) (simp_all add: total_cost_def add.assoc)

lemma keep_budget_all: "u + total_cost a \<le> MAX_ASSOC_WRITE_BYTES \<Longrightarrow> keep_budget u a = a"
  by (induction u a rule: keep_budget.induct) (auto simp: total_cost_def)

lemma trim_small: "total_cost a \<le> MAX_ASSOC_WRITE_BYTES \<Longrightarrow> trimAssociations a = a"
  using keep_budget_all [of 0 "sort_by newer_le a"] total_cost_mset [of "sort_by newer_le a" a] by (simp add: trimAssociations_def Let_def)

lemma keep_budget_prefix: "\<exists>r. a = keep_budget u a @ r"
  by (induction u a rule: keep_budget.induct) auto

lemma trim_cost:
  assumes "distinct (map fst a)" and "\<forall>k\<in>set (map fst a). \<not> is_index_key k"
  shows "total_cost (trimAssociations a) \<le> MAX_ASSOC_WRITE_BYTES"
proof -
  define kept where "kept = keep_budget 0 (sort_by newer_le a)"
  have cost: "total_cost kept \<le> MAX_ASSOC_WRITE_BYTES" using keep_budget_cost [of 0] by (simp add: kept_def)
  obtain r where r: "sort_by newer_le a = kept @ r" unfolding kept_def using keep_budget_prefix by blast
  have m: "mset (kept @ r) = mset a" by (metis mset_sort_by r)
  show ?thesis
  proof (cases "length kept = length a")
    case True
    with m have "r = []" by (metis add_cancel_right_right length_0_conv length_append size_mset)
    with m have "total_cost a = total_cost kept" by (intro total_cost_mset) simp
    with cost True show ?thesis by (simp add: trimAssociations_def Let_def kept_def)
  next
    case False
    have "distinct (map fst (kept @ r))" using assms(1) distinct_map_mset_eq [OF m] by blast
    moreover have "set kept \<subseteq> set a" using m by (metis Un_upper1 set_append set_mset_mset)
    ultimately have "put_all [] kept = kept" using assms(2) by (intro put_all_names [of "[]", simplified]) auto
    with cost False show ?thesis by (simp add: trimAssociations_def Let_def kept_def)
  qed
qed

lemma key_quote_length: "list_all key_unit k \<Longrightarrow> length (quote_units k) = length k"
proof (induction k rule: quote_units.induct)
  case (2 c cs)
  then have "quote_unit c = [c]" "\<not> is_high_surrogate c"
    using key_unit_range [of c] by (auto simp: quote_unit_def is_high_surrogate_def is_low_surrogate_def)
  with 2 show ?case by (cases cs) auto
qed simp

lemma length_join_le: "length (join [d] xs) \<le> sum_list (map (\<lambda>x. length x + 1) xs)"
  by (induction "[d]" xs rule: join.induct) auto

lemma serialized_keys_length:
  assumes "\<forall>k\<in>set (map fst a). associationKeyWeight k \<noteq> 0"
  shows "length (json_str (JObj (map (\<lambda>(k, e). (k, entry_json e)) a))) \<le> total_cost a + 2"
proof -
  let ?mem = "\<lambda>p. json_quote (fst p) @ 58 # json_str (entry_json (snd p))"
  have "concat (map (\<lambda>(k, v). if v = JUndef then [] else [json_quote k @ 58 # json_str v]) (map (\<lambda>(k, e). (k, entry_json e)) a))
      = map ?mem a"
    by (induction a) (auto simp: entry_json_def)
  then have "json_str (JObj (map (\<lambda>(k, e). (k, entry_json e)) a)) = 123 # join [44] (map ?mem a) @ [125]"
    by (simp only: json_str.simps)
  moreover have "map (\<lambda>x. length x + 1) (map ?mem a) = map entry_cost a"
    using assms key_units by (auto simp: entry_cost_def json_quote_def key_quote_length)
  then have "length (join [44] (map ?mem a)) \<le> total_cost a"
    using length_join_le [of 44 "map ?mem a"] by (simp only: total_cost_def)
  ultimately show ?thesis by (simp only: length_append list.size)
qed

lemma serialized_frame:
  "length (json_str (JObj [(js ''version'', jint ASSOC_VERSION), (js ''keys'', JObj ps)])) = 21 + length (json_str (JObj ps))"
proof -
  have one: "num_to_str (numi ASSOC_VERSION) = [49]"
    using num_to_str_int [of 1] by (simp add: ASSOC_VERSION_def int_to_str_def nat_to_str_def nat_digits_acc.simps)
  have "list_all key_unit (js ''version'')" "list_all key_unit (js ''keys'')"
    by (simp_all add: js_def key_unit_def host_unit_def lower_alnum_def)
  then have "length (json_quote (js ''version'')) = 9" "length (json_quote (js ''keys'')) = 6"
    by (simp_all add: json_quote_def key_quote_length)
  moreover have "json_str (JObj [(js ''version'', jint ASSOC_VERSION), (js ''keys'', JObj ps)])
      = 123 # (json_quote (js ''version'') @ 58 # [49]) @ [44] @ (json_quote (js ''keys'') @ 58 # json_str (JObj ps)) @ [125]"
    using one by (subst json_str.simps) (simp del: json_str.simps(7))
  ultimately show ?thesis by simp
qed

lemma record_keys_fst: "fst ` set (record_keys ks a i t p) = fst ` set ks \<union> fst ` set a"
  by (induction ks arbitrary: a) (simp_all add: record_keys_def case_prod_beta insert_commute)

lemma record_keys_distinct: "distinct (map fst a) \<Longrightarrow> distinct (map fst (record_keys ks a i t p))"
  by (induction ks arbitrary: a) (auto simp: record_keys_def distinct_obj_put)

text \<open>Learning never grows the file past what is read back: after a pick is recorded, in whatever
  store, the text to write has at most half of \<open>MAX_ASSOC_BYTES\<close> code units plus its fixed frame of 23,
  so the read cap does not cut it off.\<close>
theorem recorded_store_fits:
  assumes "distinct (map fst a)" and "\<forall>k\<in>set (map fst a). associationKeyWeight k \<noteq> 0"
    and "\<forall>k\<in>keys_of c pinned. associationKeyWeight k \<noteq> 0" and "contextKeys c pinned \<noteq> []" and "itemId \<noteq> []"
  shows "length (serializeAssociations (recordAssociation a c itemId t pinned)) \<le> MAX_ASSOC_WRITE_BYTES + 23"
proof -
  let ?b = "record_keys (contextKeys c pinned) a itemId t pinned" and ?r = "recordAssociation a c itemId t pinned"
  have r: "?r = trimAssociations ?b" using assms(4,5) by (simp add: recordAssociation_def)
  have w: "associationKeyWeight k \<noteq> 0" if "k \<in> set (map fst ?b)" for k
    using that assms(2,3) record_keys_fst [of "contextKeys c pinned" a itemId t pinned] by auto
  then have "total_cost ?r \<le> MAX_ASSOC_WRITE_BYTES"
    unfolding r using assms(1) by (intro trim_cost) (auto simp: record_keys_distinct key_not_index)
  moreover have "\<forall>k\<in>set (map fst ?r). associationKeyWeight k \<noteq> 0"
    using w set_trimAssociations [of ?b] unfolding r by auto
  from serialized_keys_length [OF this]
  have "length (serializeAssociations ?r) \<le> total_cost ?r + 23"
    by (simp add: serializeAssociations_def assoc_json_def serialized_frame del: json_str.simps)
  ultimately show ?thesis by linarith
qed

section \<open>An example\<close>

definition demo_host :: host_info where
  "demo_host = \<lparr>host = js ''login.example.com'', baseDomain = js ''example.com'', rootName = Some (js ''example''), isIp = False\<rparr>"

definition demo_ctx :: ctx where
  "demo_ctx = \<lparr>cx_cls = js ''firefox'', cx_clsSquashed = js ''firefox'', cx_title = js ''login.example.com'',
     cx_rawTitle = js ''login.example.com'', cx_matchText = [], cx_squashedTitle = js ''loginexamplecom'',
     cx_squashedMatchText = [], cx_segments = [js ''login.example.com''], cx_titleTokens = [js ''example''],
     cx_aliasTokens = [], cx_displayName = js ''example.com'', cx_detectedDomain = Some demo_host,
     cx_isBrowser = True, cx_isTerminal = False\<rparr>"

definition demo_entry :: assoc_entry where
  "demo_entry = \<lparr>ae_itemId = js ''i1'', ae_weight = 3, ae_count = 1, ae_updated = js ''2024'', ae_pinned = False\<rparr>"

lemma demo_keys: "contextKeys (Some demo_ctx) p = (js ''domain:example.com'', 3) # (if p then [(js ''word:example'', 1)] else [])"
  by (simp add: contextKeys_def demo_ctx_def demo_host_def js_def)

lemma demo_weight: "associationKeyWeight (js ''domain:example.com'') = 3"
  by (simp add: associationKeyWeight_def MAX_TITLE_CHARS_def host_unit_def lower_alnum_def js_unfold)

lemma demo_word: "\<not> isWordKey (js ''domain:example.com'')"
  by (simp add: isWordKey_def js_def)

lemma demo_recorded: "recordAssociation [] (Some demo_ctx) (js ''i1'') (js ''2024'') False = [(js ''domain:example.com'', demo_entry)]"
proof -
  have "record_keys [(js ''domain:example.com'', 3)] [] (js ''i1'') (js ''2024'') False = [(js ''domain:example.com'', demo_entry)]"
    by (simp add: record_keys_def picked_entry_def demo_entry_def)
  moreover have "trimAssociations [p] = [p]" if "entry_cost p \<le> MAX_ASSOC_WRITE_BYTES" for p
    using that by (simp add: trimAssociations_def Let_def sort_by_def put_all_def)
  moreover have "entry_cost (js ''domain:example.com'', demo_entry) \<le> MAX_ASSOC_WRITE_BYTES"
    by (simp add: entry_cost_def entry_json_def demo_entry_def json_quote_def js_def quote_unit_def is_high_surrogate_def
        is_low_surrogate_def num_to_str_int int_to_str_def nat_to_str_def nat_digits_acc.simps MAX_ASSOC_WRITE_BYTES_def MAX_ASSOC_BYTES_def)
  ultimately show ?thesis by (simp add: recordAssociation_def demo_keys)
qed

lemma demo_learned: "learnedMatchIds [(js ''domain:example.com'', demo_entry)] (Some demo_ctx) = [(js ''i1'', 3001)]"
  by (simp add: learnedMatchIds_def demo_keys note_rank_def Let_def associationEntryCounts_def demo_word)
    (simp add: demo_entry_def sort_by_def)

theorem associations_round_trip_witness:
  "parseAssociations (serializeAssociations [(js ''domain:example.com'', demo_entry)]) = Some [(js ''domain:example.com'', demo_entry)]"
  by (rule associations_round_trip)
    (simp add: assoc_ok_def entry_ok_def demo_weight demo_entry_def id_ok_def, simp add: js_unfold)

theorem recorded_store_fits_witness:
  "length (serializeAssociations (recordAssociation [] (Some demo_ctx) (js ''i1'') (js ''2024'') False)) \<le> MAX_ASSOC_WRITE_BYTES + 23"
  by (rule recorded_store_fits) (simp_all add: demo_keys demo_weight)

end
