(* ===== verification/Suggestions.thy ===== *)
theory Suggestions
  imports Associations "HOL-Library.Sublist"
begin

text \<open>
  The items suggested for the focused window: the learned ones first, then the best-scoring logins of
  the strongest band, at most six.
\<close>

section \<open>Definitions\<close>

definition MATCH_THRESHOLD :: nat where "MATCH_THRESHOLD = 80"
definition MAX_SUGGESTIONS :: nat where "MAX_SUGGESTIONS = 6"

record scored =
  sc_item :: item
  sc_score :: nat
  sc_index :: nat

record suggestions =
  sg_matches :: "item list"
  sg_context :: "ctx option"
  sg_learnedIds :: "jsstr list"

definition isLoginItem :: "item \<Rightarrow> bool" where
  \<comment> \<open>a row always has a type and a type code\<close>
  "isLoginItem it \<longleftrightarrow> it_typeCode it = Fin 1 \<or> it_type it = js ''login''"

definition by_id :: "item list \<Rightarrow> jsstr \<Rightarrow> item option" where
  \<comment> \<open>the object \<^verbatim>\<open>byId\<close>: a later row of the same id wins\<close>
  "by_id items = map_of (rev (map (\<lambda>it. (it_id it, it)) (filter (\<lambda>it. it_id it \<noteq> []) items)))"

definition resolveLearnedMatches :: "item list \<Rightarrow> assoc \<Rightarrow> ctx \<Rightarrow> item list" where
  \<comment> \<open>\<^verbatim>\<open>ids\<close> are the ids of the result\<close>
  "resolveLearnedMatches items a c =
     List.map_filter (\<lambda>(i, r). case by_id items i of Some hit \<Rightarrow> if isLoginItem hit then Some hit else None | None \<Rightarrow> None)
       (learnedMatchIds a (Some c))"

definition scoreContextualMatches :: "item list \<Rightarrow> ctx \<Rightarrow> scored list" where
  "scoreContextualMatches items c =
     filter (\<lambda>x. MATCH_THRESHOLD \<le> sc_score x)
       (map (\<lambda>(i, it). \<lparr>sc_item = it, sc_score = matchItem it c, sc_index = i\<rparr>)
         (filter (\<lambda>(i, it). isLoginItem it) (enumerate 0 items)))"

definition compareContextualMatches :: "scored \<Rightarrow> scored \<Rightarrow> bool" where
  \<comment> \<open>the comparison is not positive\<close>
  "compareContextualMatches a b =
     (if sc_score b \<noteq> sc_score a then sc_score b < sc_score a
      else if it_favorite (sc_item a) \<noteq> it_favorite (sc_item b) then it_favorite (sc_item a)
      else sc_index a \<le> sc_index b)"

fun fill_matches :: "nat \<Rightarrow> jsstr list \<Rightarrow> scored list \<Rightarrow> item list \<Rightarrow> item list" where
  "fill_matches cutoff ids [] acc = acc"
| "fill_matches cutoff ids (x # xs) acc =
     (if MAX_SUGGESTIONS \<le> length acc then acc
      else if cutoff \<le> sc_score x \<and> it_id (sc_item x) \<notin> set ids
        then fill_matches cutoff ids xs (acc @ [sc_item x])
      else fill_matches cutoff ids xs acc)"

definition no_suggestions :: suggestions where
  "no_suggestions = \<lparr>sg_matches = [], sg_context = None, sg_learnedIds = []\<rparr>"

definition suggest :: "item list \<Rightarrow> ctx \<Rightarrow> assoc \<Rightarrow> suggestions" where
  \<comment> \<open>what \<open>findContextualMatches\<close> does once the window is understood\<close>
  "suggest items c a =
     (let learned = resolveLearnedMatches items a c; ids = map it_id learned;
          scored = sort_by compareContextualMatches (scoreContextualMatches items c)
      in case scored of
           [] \<Rightarrow> if learned = [] then no_suggestions
                 else \<lparr>sg_matches = take MAX_SUGGESTIONS learned, sg_context = Some c, sg_learnedIds = ids\<rparr>
         | x # xs \<Rightarrow>
             (let best = sc_score x; cutoff = (if 96 \<le> best then 96 else max MATCH_THRESHOLD (best - 8))
              in \<lparr>sg_matches = take MAX_SUGGESTIONS (fill_matches cutoff ids scored learned),
                  sg_context = Some c, sg_learnedIds = ids\<rparr>))"

definition findContextualMatches :: "item list \<Rightarrow> jsval \<Rightarrow> assoc \<Rightarrow> suggestions" where
  "findContextualMatches items windowData a =
     (case cleanWindowContext windowData of
        None \<Rightarrow> no_suggestions
      | Some c \<Rightarrow>
          (if items = [] \<or> (cx_isTerminal c \<and> cx_detectedDomain c = None)
              \<or> (cx_title c = [] \<and> cx_detectedDomain c = None \<and> cx_clsSquashed c = [])
           then no_suggestions else suggest items c a))"

section \<open>The ranking\<close>

interpretation match_order: sort_order compareContextualMatches
  by unfold_locales (auto simp: compareContextualMatches_def split: if_splits)

lemma fill_matches_shape:
  "\<exists>ys. fill_matches cutoff ids xs acc = acc @ map sc_item ys \<and> subseq ys xs
     \<and> (\<forall>y\<in>set ys. cutoff \<le> sc_score y \<and> it_id (sc_item y) \<notin> set ids)"
proof (induction cutoff ids xs acc rule: fill_matches.induct)
  case (2 cutoff ids x xs acc)
  show ?case
  proof (cases "MAX_SUGGESTIONS \<le> length acc")
    case False
    show ?thesis
    proof (cases "cutoff \<le> sc_score x \<and> it_id (sc_item x) \<notin> set ids")
      case True
      with False 2 obtain ys where ys: "fill_matches cutoff ids xs (acc @ [sc_item x]) = (acc @ [sc_item x]) @ map sc_item ys"
        "subseq ys xs" "\<forall>y\<in>set ys. cutoff \<le> sc_score y \<and> it_id (sc_item y) \<notin> set ids" by blast
      with True False show ?thesis by (intro exI [of _ "x # ys"]) auto
    next
      case c: False
      with False 2 obtain ys where "fill_matches cutoff ids xs acc = acc @ map sc_item ys"
        "subseq ys xs" "\<forall>y\<in>set ys. cutoff \<le> sc_score y \<and> it_id (sc_item y) \<notin> set ids" by blast
      with c False show ?thesis by (intro exI [of _ ys]) auto
    qed
  qed (intro exI [of _ "[]"], simp)
qed (intro exI [of _ "[]"], simp)

lemma by_id_item: "by_id items i = Some it \<Longrightarrow> it \<in> set items \<and> it_id it = i \<and> i \<noteq> []"
  by (auto simp: by_id_def dest!: map_of_SomeD)

lemma learned_item:
  assumes "it \<in> set (resolveLearnedMatches items a c)"
  shows "it \<in> set items \<and> isLoginItem it \<and> it_id it \<in> fst ` set (learnedMatchIds a (Some c))"
proof -
  from assms obtain i r where ir: "(i, r) \<in> set (learnedMatchIds a (Some c))"
    and hit: "by_id items i = Some it" "isLoginItem it"
    by (auto simp: resolveLearnedMatches_def map_filter_def split: option.splits if_splits)
  from by_id_item [OF hit(1)] ir hit(2) show ?thesis by force
qed

lemma scored_item:
  "x \<in> set (scoreContextualMatches items c) \<Longrightarrow>
    sc_item x \<in> set items \<and> isLoginItem (sc_item x) \<and> sc_score x = matchItem (sc_item x) c \<and> MATCH_THRESHOLD \<le> sc_score x"
  by (auto simp: scoreContextualMatches_def in_set_enumerate_eq)

lemma scored_complete:
  assumes "it \<in> set items" and "isLoginItem it" and "MATCH_THRESHOLD \<le> matchItem it c"
  shows "\<exists>x\<in>set (scoreContextualMatches items c). sc_item x = it \<and> sc_score x = matchItem it c"
proof -
  from assms(1) obtain i where "i < length items" "items ! i = it" by (auto simp: in_set_conv_nth)
  then have "(i, it) \<in> set (enumerate 0 items)" by (auto simp: in_set_enumerate_eq)
  with assms(2,3) show ?thesis
    by (intro bexI [of _ "\<lparr>sc_item = it, sc_score = matchItem it c, sc_index = i\<rparr>"])
      (auto simp: scoreContextualMatches_def intro!: image_eqI [of _ _ "(i, it)"])
qed

text \<open>How the result is put together: the learned items, then a part of the ranking above the cutoff.\<close>

lemma suggest_shape:
  obtains ys where "subseq ys (sort_by compareContextualMatches (scoreContextualMatches items c))"
    and "sg_matches (suggest items c a) = take MAX_SUGGESTIONS (resolveLearnedMatches items a c @ map sc_item ys)"
    and "\<forall>y\<in>set ys. \<forall>x\<in>set (scoreContextualMatches items c). 96 \<le> sc_score x \<longrightarrow> 96 \<le> sc_score y"
proof (cases "sort_by compareContextualMatches (scoreContextualMatches items c)")
  case Nil
  show ?thesis
    by (rule that [of "[]"]) (simp_all add: suggest_def Let_def Nil no_suggestions_def)
next
  case (Cons x xs)
  let ?cutoff = "if 96 \<le> sc_score x then 96 else max MATCH_THRESHOLD (sc_score x - 8)"
  obtain ys where ys: "fill_matches ?cutoff (map it_id (resolveLearnedMatches items a c)) (x # xs) (resolveLearnedMatches items a c)
      = resolveLearnedMatches items a c @ map sc_item ys" "subseq ys (x # xs)" "\<forall>y\<in>set ys. ?cutoff \<le> sc_score y"
    using fill_matches_shape by blast
  have top: "sc_score z \<le> sc_score x" if "z \<in> set (scoreContextualMatches items c)" for z
  proof -
    have "sorted_wrt compareContextualMatches (x # xs)" using match_order.sorted_sort_by Cons by metis
    moreover have "z \<in> set (x # xs)" using that by (simp flip: Cons)
    ultimately show ?thesis by (auto simp: compareContextualMatches_def split: if_splits)
  qed
  show ?thesis
  proof (rule that [of ys])
    show "subseq ys (sort_by compareContextualMatches (scoreContextualMatches items c))" using ys(2) Cons by simp
    show "sg_matches (suggest items c a) = take MAX_SUGGESTIONS (resolveLearnedMatches items a c @ map sc_item ys)"
      using ys(1) by (simp add: suggest_def Let_def Cons del: fill_matches.simps)
    show "\<forall>y\<in>set ys. \<forall>z\<in>set (scoreContextualMatches items c). 96 \<le> sc_score z \<longrightarrow> 96 \<le> sc_score y"
      using ys(3) top by fastforce
  qed
qed

section \<open>Where a suggestion comes from\<close>

lemma suggested:
  assumes "it \<in> set (sg_matches (findContextualMatches items w a))"
  obtains c where "cleanWindowContext w = Some c" and "it \<in> set (sg_matches (suggest items c a))"
  using assms that
  by (auto simp: findContextualMatches_def no_suggestions_def split: option.splits if_splits)

lemma subseq_subset: "subseq xs ys \<Longrightarrow> set xs \<subseteq> set ys"
  by (induction rule: list_emb.induct) auto

lemma suggest_cases:
  assumes "it \<in> set (sg_matches (suggest items c a))"
  shows "it \<in> set items \<and> isLoginItem it
    \<and> (it_id it \<in> fst ` set (learnedMatchIds a (Some c)) \<or> MATCH_THRESHOLD \<le> matchItem it c)"
proof -
  obtain ys where ys: "subseq ys (sort_by compareContextualMatches (scoreContextualMatches items c))"
    "sg_matches (suggest items c a) = take MAX_SUGGESTIONS (resolveLearnedMatches items a c @ map sc_item ys)"
    "\<forall>y\<in>set ys. \<forall>x\<in>set (scoreContextualMatches items c). 96 \<le> sc_score x \<longrightarrow> 96 \<le> sc_score y"
    by (rule suggest_shape [of items c a])
  from assms have "it \<in> set (resolveLearnedMatches items a c) \<or> it \<in> sc_item ` set ys"
    unfolding ys(2) by (auto dest: in_set_takeD)
  moreover have "set ys \<subseteq> set (scoreContextualMatches items c)"
    using subseq_subset [OF ys(1)] by simp
  ultimately show ?thesis using learned_item scored_item by fastforce
qed

lemma suggest_length: "length (sg_matches (findContextualMatches items w a)) \<le> MAX_SUGGESTIONS"
proof (cases "cleanWindowContext w")
  case (Some c)
  obtain ys where ys: "subseq ys (sort_by compareContextualMatches (scoreContextualMatches items c))"
    "sg_matches (suggest items c a) = take MAX_SUGGESTIONS (resolveLearnedMatches items a c @ map sc_item ys)"
    "\<forall>y\<in>set ys. \<forall>x\<in>set (scoreContextualMatches items c). 96 \<le> sc_score x \<longrightarrow> 96 \<le> sc_score y"
    by (rule suggest_shape [of items c a])
  have "length (sg_matches (suggest items c a)) \<le> MAX_SUGGESTIONS" unfolding ys(2) length_take by simp
  with Some show ?thesis by (simp add: findContextualMatches_def no_suggestions_def)
qed (simp add: findContextualMatches_def no_suggestions_def)

text \<open>C8: A page cannot have a login suggested by sharing title words with a site the user once picked
  it on. Whatever was picked, pinned and forgotten before, and whatever the window says, at most six
  logins of the vault are suggested, and each of them scores at least 80 against the window itself or
  was picked in a window of the same domain or application class, or pinned in one with a common key.\<close>
theorem suggestion_sources:
  assumes "it \<in> set (sg_matches (findContextualMatches items w (foldl assoc_step emptyAssociations es)))"
  shows "it \<in> set items \<and> isLoginItem it
    \<and> length (sg_matches (findContextualMatches items w (foldl assoc_step emptyAssociations es))) \<le> 6
    \<and> (\<exists>c. cleanWindowContext w = Some c \<and> (80 \<le> matchItem it c
          \<or> (\<exists>k c' t p. Pick c' (it_id it) t p \<in> set es \<and> k \<in> keys_of (Some c) True \<and> k \<in> keys_of c' p
               \<and> (p \<or> \<not> isWordKey k))))"
proof -
  let ?a = "foldl assoc_step emptyAssociations es"
  obtain c where c: "cleanWindowContext w = Some c" "it \<in> set (sg_matches (suggest items c ?a))"
    using suggested [OF assms] by blast
  note it = suggest_cases [OF c(2)]
  have "80 \<le> matchItem it c \<or> (\<exists>k c' t p. Pick c' (it_id it) t p \<in> set es \<and> k \<in> keys_of (Some c) True
      \<and> k \<in> keys_of c' p \<and> (p \<or> \<not> isWordKey k))"
  proof (cases "80 \<le> matchItem it c")
    case False
    with it obtain x where "x \<in> set (learnedMatchIds ?a (Some c))" "fst x = it_id it"
      by (auto simp: MATCH_THRESHOLD_def)
    with learned_from_pick [of x es "Some c"] show ?thesis by metis
  qed blast
  with it c(1) suggest_length [of items w ?a] show ?thesis by (auto simp: MAX_SUGGESTIONS_def)
qed

text \<open>C26: When the title spells out a site the vault has a login for, nothing else is guessed: every
  suggestion that was not learned is for that very site, by host or by registrable domain.\<close>
theorem suggestions_stay_on_site:
  assumes "cleanWindowContext w = Some c" and "here \<in> set items" and "isLoginItem here" and "96 \<le> matchItem here c"
    and "it \<in> set (sg_matches (findContextualMatches items w a))"
  shows "it_id it \<in> fst ` set (learnedMatchIds a (Some c))
    \<or> (\<exists>d x. cx_detectedDomain c = Some d \<and> x \<in> set (itemDomains it) \<and> same_site x d)"
proof -
  have it: "it \<in> set (sg_matches (suggest items c a))"
    using suggested [OF assms(5)] assms(1) by (metis option.inject)
  obtain ys where ys: "subseq ys (sort_by compareContextualMatches (scoreContextualMatches items c))"
    "sg_matches (suggest items c a) = take MAX_SUGGESTIONS (resolveLearnedMatches items a c @ map sc_item ys)"
    "\<forall>y\<in>set ys. \<forall>x\<in>set (scoreContextualMatches items c). 96 \<le> sc_score x \<longrightarrow> 96 \<le> sc_score y"
    by (rule suggest_shape [of items c a])
  obtain x where "x \<in> set (scoreContextualMatches items c)" "96 \<le> sc_score x"
    using scored_complete [OF assms(2,3), of c] assms(4) by (auto simp: MATCH_THRESHOLD_def)
  with ys(3) have high: "\<forall>y\<in>set ys. 96 \<le> sc_score y" by blast
  from it have "it \<in> set (resolveLearnedMatches items a c) \<or> it \<in> sc_item ` set ys"
    unfolding ys(2) by (auto dest: in_set_takeD)
  then show ?thesis
  proof
    assume "it \<in> sc_item ` set ys"
    then obtain y where y: "y \<in> set ys" "it = sc_item y" by blast
    then have "y \<in> set (scoreContextualMatches items c)" using subseq_subset [OF ys(1)] by auto
    with high y have "96 \<le> matchItem it c" using scored_item by fastforce
    then show ?thesis using band_domain by blast
  qed (use learned_item in blast)
qed

section \<open>A pick is suggested first\<close>

lemma record_keys_snoc:
  "record_keys (ks @ [(k, w)]) a i t p = obj_put (record_keys ks a i t p) k (picked_entry (record_keys ks a i t p) k w i t p)"
  by (simp add: record_keys_def)

lemma record_keys_other: "k \<notin> fst ` set ks \<Longrightarrow> map_of (record_keys ks a i t p) k = map_of a k"
proof (induction ks rule: rev_induct)
  case (snoc kw ks)
  then show ?case by (cases kw) (simp add: record_keys_snoc)
qed (simp add: record_keys_def)

lemma record_keys_picked: "k \<in> fst ` set ks \<Longrightarrow> \<exists>e. map_of (record_keys ks a i t p) k = Some e \<and> ae_itemId e = i"
proof (induction ks rule: rev_induct)
  case (snoc kw ks)
  then show ?case by (cases kw) (auto simp: record_keys_snoc picked_entry_def Let_def)
qed simp

lemma context_keys_words:
  "contextKeys (Some c) True = contextKeys (Some c) False @ map (\<lambda>t. (js ''word:'' @ t, 1)) (cx_titleTokens c)"
  by (simp add: contextKeys_def)

lemma context_key_kinds: "kw \<in> set (contextKeys (Some c) False) \<Longrightarrow> \<not> isWordKey (fst kw)"
  by (auto simp: contextKeys_def isWordKey_def js_def split: option.splits if_splits)

lemma note_rank_picked:
  assumes "best = [] \<or> (\<exists>r. best = [(i, r)])" and "map_of a (fst kw) = Some e" and "ae_itemId e = i" and "i \<noteq> []" and "\<not> isWordKey (fst kw)"
  shows "\<exists>r. note_rank a best kw = [(i, r)]"
  using assms by (auto simp: note_rank_def Let_def associationEntryCounts_def)

lemma fold_ranks_picked:
  "\<lbrakk>\<forall>kw\<in>set ks. \<not> isWordKey (fst kw) \<and> (\<exists>e. map_of a (fst kw) = Some e \<and> ae_itemId e = i); i \<noteq> [];
    best = [] \<or> (\<exists>r. best = [(i, r)]); ks \<noteq> [] \<or> best \<noteq> []\<rbrakk> \<Longrightarrow> \<exists>r. foldl (note_rank a) best ks = [(i, r)]"
proof (induction ks arbitrary: best)
  case (Cons kw ks)
  then obtain e where "map_of a (fst kw) = Some e" "ae_itemId e = i" "\<not> isWordKey (fst kw)" by auto
  with note_rank_picked [OF Cons.prems(3)] Cons.prems(2) obtain r where r: "note_rank a best kw = [(i, r)]" by blast
  with Cons.IH [of "[(i, r)]"] Cons.prems show ?case by auto
qed auto

lemma fold_ranks_words:
  "\<forall>kw\<in>set ks. isWordKey (fst kw) \<and> (\<forall>e. map_of a (fst kw) = Some e \<longrightarrow> \<not> ae_pinned e) \<Longrightarrow> foldl (note_rank a) best ks = best"
proof (induction ks)
  case (Cons kw ks)
  then have "note_rank a best kw = best"
    by (auto simp: note_rank_def Let_def associationEntryCounts_def split: option.splits)
  with Cons show ?case by simp
qed simp

lemma picked_learned:
  assumes "contextKeys (Some c) False \<noteq> []" and "i \<noteq> []" and "\<forall>x\<in>set (cx_titleTokens c). \<forall>e. map_of a (js ''word:'' @ x) = Some e \<longrightarrow> \<not> ae_pinned e"
  shows "\<exists>r. learnedMatchIds (record_keys (contextKeys (Some c) False) a i t False) (Some c) = [(i, r)]"
proof -
  let ?ks = "contextKeys (Some c) False" and ?a = "record_keys (contextKeys (Some c) False) a i t False"
  have "\<forall>kw\<in>set ?ks. \<not> isWordKey (fst kw) \<and> (\<exists>e. map_of ?a (fst kw) = Some e \<and> ae_itemId e = i)"
    using context_key_kinds record_keys_picked [of _ ?ks a i t False] by blast
  from fold_ranks_picked [OF this assms(2), of "[]"] assms(1) obtain r where r: "foldl (note_rank ?a) [] ?ks = [(i, r)]" by auto
  have w: "isWordKey (js ''word:'' @ x)" for x by (simp add: isWordKey_def)
  then have "js ''word:'' @ x \<notin> fst ` set ?ks" for x using context_key_kinds by fastforce
  then have "map_of ?a (js ''word:'' @ x) = map_of a (js ''word:'' @ x)" for x by (rule record_keys_other)
  then have "foldl (note_rank ?a) [(i, r)] (map (\<lambda>t. (js ''word:'' @ t, 1)) (cx_titleTokens c)) = [(i, r)]"
    using assms(3) w by (intro fold_ranks_words) auto
  then show ?thesis by (simp add: learnedMatchIds_def context_keys_words r sort_by_def)
qed

lemma learned_first:
  assumes "learnedMatchIds a (Some c) = [(i, r)]" and "by_id items i = Some it" and "isLoginItem it"
  shows "\<exists>more. sg_matches (suggest items c a) = it # more"
proof -
  have "resolveLearnedMatches items a c = [it]" using assms by (simp add: resolveLearnedMatches_def map_filter_def)
  moreover obtain ys where "subseq ys (sort_by compareContextualMatches (scoreContextualMatches items c))"
    "sg_matches (suggest items c a) = take MAX_SUGGESTIONS (resolveLearnedMatches items a c @ map sc_item ys)"
    "\<forall>y\<in>set ys. \<forall>x\<in>set (scoreContextualMatches items c). 96 \<le> sc_score x \<longrightarrow> 96 \<le> sc_score y"
    by (rule suggest_shape [of items c a])
  ultimately show ?thesis by (simp add: MAX_SUGGESTIONS_def)
qed

section \<open>An example\<close>

lemma foldl_idle: "(\<And>x. f a x = a) \<Longrightarrow> foldl f a xs = a"
  by (induction xs) auto

lemma nothing_ranked: "note_rank [] best kw = best"
  by (simp add: note_rank_def)

definition site_window :: jsval where
  "site_window = JObj [(js ''class'', JStr (js ''firefox'')), (js ''title'', JStr (js ''ab.io''))]"

definition site_host :: host_info where
  "site_host = \<lparr>host = js ''ab.io'', baseDomain = js ''ab.io'', rootName = Some (js ''ab''), isIp = False\<rparr>"

definition site_login :: item where
  "site_login = blank_item \<lparr>it_id := js ''i1'', it_name := js ''AB'', it_type := js ''login'', it_typeCode := Fin 1,
     it_uris := [js ''ab.io/x'']\<rparr>"

lemmas re_eval = run_Star re_test_def replace_first_def drop_first_def any_ws_def unit_in_def opt_def
  plus_def one_of_def words_ci_def lit_ci_def ci_unit_def digit_run_def edge_unit_def at_word_edge_def word_unit_def
  js_unfold

lemma site_title_steps:
  "drop_first BROWSER_BRAND_RE (js ''ab.io'') = js ''ab.io''"
  "drop_first (cats [any_ws, opt (unit_in [45, 8212, 8211, 124]), any_ws, unit_in [40],
     words_ci [''Private Browsing'', ''Incognito'', ''Private''], unit_in [41], any_ws, End]) (js ''ab.io'') = js ''ab.io''"
  "drop_first (cats [any_ws, unit_in [45, 8212, 8211, 124], any_ws,
     words_ci [''Audio playing'', ''Muted'', ''Playing'', ''Paused''], any_ws, End]) (js ''ab.io'') = js ''ab.io''"
  "drop_first (cats [Begin, any_ws, unit_in [40, 91], any_ws, digit_run, opt (unit_in [43]), any_ws,
     unit_in [41, 93], any_ws]) (js ''ab.io'') = js ''ab.io''"
  "drop_first (cats [Begin, any_ws, digit_run, any_ws, unit_in [45, 8212, 8211, 124, 183], any_ws]) (js ''ab.io'') = js ''ab.io''"
  "drop_first (cats [Begin, words_ci [''Sign in to'', ''Sign into'', ''Sign in'', ''Sign In'',
     ''Log in to'', ''Log into'', ''Log in'', ''Login to'', ''Login'', ''Welcome to'', ''Welcome back to'',
     ''Welcome'', ''Authenticate to'', ''Authenticate''], WordEdge, Star (Unit edge_unit)]) (js ''ab.io'') = js ''ab.io''"
  "drop_first (Cat (plus (Unit edge_unit)) End) (js ''ab.io'') = js ''ab.io''"
  "drop_first (Cat Begin (plus (Unit edge_unit))) (js ''ab.io'') = js ''ab.io''"
  "trim (js ''ab.io'') = js ''ab.io''"
  by (simp add: re_eval BROWSER_BRAND_RE_def, simp_all add: re_eval)

lemma site_title: "stripTitleNoise (js ''ab.io'') = js ''ab.io''"
  unfolding stripTitleNoise_def Let_def site_title_steps ..

lemma site_detected: "detectDomainInText (js ''ab.io'') = Some site_host"
  by code_simp

lemma site_uri: "parseDomain (js ''ab.io/x'') = Some site_host"
proof -
  have "match_last_group url_prefix url_host_group [] (js ''ab.io/x'') = Some (js ''ab.io'')"
    by (simp add: url_prefix_def url_host_group_def alnum_def taken_def re_eval)
  moreover have "to_lower (trim (js ''ab.io/x'')) = js ''ab.io/x''" by (simp add: js_unfold)
  moreover have "parseHost (js ''ab.io'') = Some site_host" by code_simp
  ultimately show ?thesis by (simp add: parseDomain_def)
qed

lemma site_context:
  obtains c where "cleanWindowContext site_window = Some c" and "cx_detectedDomain c = Some site_host"
    and "cx_isTerminal c = False" and "cx_title c = js ''ab.io''" and "cx_isBrowser c"
proof -
  have "getActiveWindowFromData site_window = Some site_window" by code_simp
  moreover have "window_text site_window ''class'' ''initialClass'' = js ''firefox''"
    "window_text site_window ''title'' ''initialTitle'' = js ''ab.io''"
    by (simp_all add: window_text_def site_window_def obj_get_def)
  moreover have "take MAX_TITLE_CHARS (trim (to_lower (js ''firefox''))) = js ''firefox''"
    "take MAX_TITLE_CHARS (trim (js ''ab.io'')) = js ''ab.io''"
    by (simp_all add: js_unfold MAX_TITLE_CHARS_def)
  moreover have "re_test BROWSER_CLASS_RE (js ''firefox'')" "\<not> re_test TERMINAL_CLASS_RE (js ''firefox'')"
    by code_simp+
  ultimately have "cleanWindowContext site_window = Some (context_of (js ''firefox'') (js ''ab.io'')
      \<lparr>wi_cleanTitle = js ''ab.io'', wi_detectedDomain = Some site_host, wi_displayName = baseDomain site_host,
       wi_isBrowser = True, wi_isTerminal = False\<rparr>)"
    by (simp add: cleanWindowContext_def windowIdentity_def Let_def site_title site_detected)
  then show ?thesis by (rule that) (simp_all add: context_of_def Let_def)
qed

lemma site_suggested:
  "findContextualMatches [site_login] site_window [] = \<lparr>sg_matches = [site_login],
     sg_context = cleanWindowContext site_window, sg_learnedIds = []\<rparr>"
proof -
  obtain c where c: "cleanWindowContext site_window = Some c" "cx_detectedDomain c = Some site_host"
    "cx_isTerminal c = False" "cx_title c = js ''ab.io''" "cx_isBrowser c" by (rule site_context)
  have domains: "itemDomains site_login = [site_host]"
    by (simp add: itemDomains_def site_login_def cap_list_def MAX_LIST_ENTRIES_def map_filter_def site_uri)
  then have score: "matchItem site_login c = 100"
    by (simp add: matchItem_def c directDomainScore_def Let_def)
  have "learnedMatchIds [] (Some c) = []"
    by (simp add: learnedMatchIds_def foldl_idle nothing_ranked)
  then have "resolveLearnedMatches [site_login] [] c = []" by (simp add: resolveLearnedMatches_def map_filter_def)
  moreover have "isLoginItem site_login" by (simp add: isLoginItem_def site_login_def)
  then have "scoreContextualMatches [site_login] c = [\<lparr>sc_item = site_login, sc_score = 100, sc_index = 0\<rparr>]"
    by (simp add: scoreContextualMatches_def score MATCH_THRESHOLD_def)
  ultimately show ?thesis
    by (simp add: findContextualMatches_def c suggest_def Let_def sort_by_def MAX_SUGGESTIONS_def)
qed

theorem suggestion_sources_witness:
  "site_login \<in> set [site_login] \<and> length (sg_matches (findContextualMatches [site_login] site_window [])) \<le> 6"
  using suggestion_sources [of site_login "[site_login]" site_window "[]"] site_suggested
  by (simp add: emptyAssociations_def)

theorem suggestions_stay_on_site_witness:
  "\<exists>c d x. cleanWindowContext site_window = Some c \<and> cx_detectedDomain c = Some d
     \<and> x \<in> set (itemDomains site_login) \<and> same_site x d"
proof -
  obtain c where c: "cleanWindowContext site_window = Some c" "cx_detectedDomain c = Some site_host"
    "cx_isTerminal c = False" "cx_title c = js ''ab.io''" "cx_isBrowser c" by (rule site_context)
  have "isLoginItem site_login" by (simp add: isLoginItem_def site_login_def)
  moreover have "96 \<le> matchItem site_login c"
    by (simp add: matchItem_def c directDomainScore_def Let_def itemDomains_def site_login_def cap_list_def
        MAX_LIST_ENTRIES_def map_filter_def site_uri)
  moreover have "site_login \<in> set (sg_matches (findContextualMatches [site_login] site_window []))"
    by (simp add: site_suggested)
  moreover have "learnedMatchIds [] (Some c) = []"
    by (simp add: learnedMatchIds_def foldl_idle nothing_ranked)
  ultimately show ?thesis
    using suggestions_stay_on_site [OF c(1), of site_login "[site_login]" site_login "[]"] c(1) by auto
qed

end
