(* ===== verification/Dependencies.thy ===== *)
theory Dependencies
  imports Items Shell Login
begin

text \<open>
  The setup checks of \<^verbatim>\<open>BitwardenModel.js\<close>: what the dependency probe printed, Bitwarden CLI versions
  and their order, what the vault list may do, whether the SSH features and the setup screen are
  shown, and the packages an install asks for. A release is its three numbers, a linear order; the
  code compares the texts.
\<close>

section \<open>Releases\<close>

datatype release = Release (year: nat) (month: nat) (build: nat)

instantiation release :: linorder
begin

definition less_eq_release :: "release \<Rightarrow> release \<Rightarrow> bool" where
  "r \<le> s \<longleftrightarrow> year r < year s \<or> (year r = year s \<and> (month r < month s \<or> (month r = month s \<and> build r \<le> build s)))"

definition less_release :: "release \<Rightarrow> release \<Rightarrow> bool" where
  "r < s \<longleftrightarrow> year r < year s \<or> (year r = year s \<and> (month r < month s \<or> (month r = month s \<and> build r < build s)))"

instance
proof
  fix r s t :: release
  show "(r < s) = (r \<le> s \<and> \<not> s \<le> r)" by (auto simp: less_release_def less_eq_release_def)
  show "r \<le> r" by (simp add: less_eq_release_def)
  show "r \<le> s \<Longrightarrow> s \<le> t \<Longrightarrow> r \<le> t" by (auto simp: less_eq_release_def)
  show "r \<le> s \<Longrightarrow> s \<le> r \<Longrightarrow> r = s" by (cases r; cases s) (auto simp: less_eq_release_def)
  show "r \<le> s \<or> s \<le> r" by (auto simp: less_eq_release_def)
qed

end

definition digits_between :: "nat \<Rightarrow> nat \<Rightarrow> jsstr \<Rightarrow> bool" where
  \<comment> \<open>\<^verbatim>\<open>\d{a,b}\<close>\<close>
  "digits_between a b s \<longleftrightarrow> a \<le> length s \<and> length s \<le> b \<and> list_all is_digit s"

definition release_of :: "jsstr \<Rightarrow> release option" where
  \<comment> \<open>\<^verbatim>\<open>/^v?(\d{4})\.(\d{1,2})\.(\d{1,6})$/\<close> on the trimmed text\<close>
  "release_of raw =
     (let s = trim raw; s' = (case s of c # cs \<Rightarrow> if c = 118 then cs else s | [] \<Rightarrow> [])
      in case split_on 46 s' of
           [y, m, p] \<Rightarrow>
             (if digits_between 4 4 y \<and> digits_between 1 2 m \<and> digits_between 1 6 p
              then Some (Release (digits_val y) (digits_val m) (digits_val p)) else None)
         | _ \<Rightarrow> None)"

definition release_str :: "release \<Rightarrow> jsstr" where
  "release_str r = nat_to_str (year r) @ 46 # nat_to_str (month r) @ 46 # nat_to_str (build r)"

definition normalizeReleaseVersion :: "jsstr \<Rightarrow> jsstr" where
  "normalizeReleaseVersion raw = (case release_of raw of Some r \<Rightarrow> release_str r | None \<Rightarrow> [])"

fun compare_parts :: "nat \<Rightarrow> jsstr list \<Rightarrow> jsstr list \<Rightarrow> int" where
  \<comment> \<open>the loop over the three parts; a part that is missing counts as zero\<close>
  "compare_parts 0 la ra = 0"
| "compare_parts (Suc n) la ra =
     (let part = (\<lambda>xs. case xs of x # _ \<Rightarrow> if x = [] then Fin 0 else string_to_number x | [] \<Rightarrow> Fin 0);
          lv = part la; rv = part ra
      in if num_lt lv rv then - 1 else if num_lt rv lv then 1 else compare_parts n (tl la) (tl ra))"

definition compareReleaseVersions :: "jsstr \<Rightarrow> jsstr \<Rightarrow> int option" where
  "compareReleaseVersions a b =
     (let left = normalizeReleaseVersion a; right = normalizeReleaseVersion b in
      if left = [] \<or> right = [] then None else Some (compare_parts 3 (split_on 46 left) (split_on 46 right)))"

definition SSH_CLI_MIN_VERSION :: jsstr where "SSH_CLI_MIN_VERSION = js ''2025.1.2''"
definition SSH_MALFORMED_ITEM_FIX_VERSION :: jsstr where "SSH_MALFORMED_ITEM_FIX_VERSION = js ''2026.8.0''"

datatype cli_status = CliMissing | CliChecking | CliUnknown | CliUnsupported | CliSupported

definition below_zero :: "int option \<Rightarrow> bool" where
  \<comment> \<open>\<^verbatim>\<open>x < 0\<close>, where null counts as zero\<close>
  "below_zero x = (case x of Some n \<Rightarrow> n < 0 | None \<Rightarrow> False)"

definition sshCliSupport :: "jsstr \<Rightarrow> cli_status" where
  "sshCliSupport version =
     (let normalized = normalizeReleaseVersion version in
      if normalized = [] then CliUnknown
      else if below_zero (compareReleaseVersions normalized SSH_CLI_MIN_VERSION) then CliUnsupported else CliSupported)"

section \<open>The probe\<close>

record dependency =
  dp_key :: jsstr
  dp_label :: jsstr
  dp_binary :: jsstr
  dp_pkg :: jsstr
  dp_required :: bool
  dp_purpose :: jsstr
  dp_setup :: bool

definition DEPENDENCIES :: "dependency list" where
  "DEPENDENCIES = [
     \<lparr>dp_key = js ''wlcopy'', dp_label = js ''Wayland clipboard'', dp_binary = js ''wl-copy'', dp_pkg = js ''wl-clipboard'',
      dp_required = False, dp_purpose = js ''Copies and safely clears clipboard values using wl-copy and wl-paste.'', dp_setup = False\<rparr>,
     \<lparr>dp_key = js ''bw'', dp_label = js ''Bitwarden CLI'', dp_binary = js ''bw'', dp_pkg = js ''bitwarden-cli'',
      dp_required = True, dp_purpose = js ''Reads and writes your vault. The panel installs it for you on first run.'', dp_setup = False\<rparr>,
     \<lparr>dp_key = js ''jq'', dp_label = js ''jq'', dp_binary = js ''jq'', dp_pkg = js ''jq'',
      dp_required = True, dp_purpose = js ''Safely strips SSH private keys before the panel reads your vault.'', dp_setup = False\<rparr>,
     \<lparr>dp_key = js ''cargo'', dp_label = js ''Rust/Cargo'', dp_binary = js ''cargo'', dp_pkg = js ''rust'',
      dp_required = False, dp_purpose = js ''Builds all three local helpers after installation or an update.'', dp_setup = False\<rparr>,
     \<lparr>dp_key = js ''fprintd'', dp_label = js ''Fingerprint unlock'', dp_binary = js ''fprintd-list'', dp_pkg = js ''fprintd'',
      dp_required = False, dp_purpose = js ''Unlock with an enrolled fingerprint using the DMS PAM configuration.'', dp_setup = True\<rparr>]"

fun probe_lines :: "jsstr list \<Rightarrow> (jsstr \<times> jsstr) list \<Rightarrow> (jsstr \<times> jsstr) list" where
  "probe_lines [] found = found"
| "probe_lines (l # ls) found =
     (let line = trim l in
      case index_of [61] line of
        Some k \<Rightarrow> if k = 0 then probe_lines ls found
                    else probe_lines ls (obj_put found (take k line) (drop (Suc k) line))
      | None \<Rightarrow> probe_lines ls found)"

definition probeFields :: "jsstr \<Rightarrow> (jsstr \<times> jsstr) list" where
  "probeFields raw = probe_lines (split_on 10 raw) []"

definition field_or_empty :: "(jsstr \<times> jsstr) list \<Rightarrow> string \<Rightarrow> jsstr" where
  \<comment> \<open>\<^verbatim>\<open>String(found[k] || "")\<close>\<close>
  "field_or_empty found k = (case map_of found (js k) of Some v \<Rightarrow> v | None \<Rightarrow> [])"

definition dependencyBwId :: "jsstr \<Rightarrow> jsstr" where
  "dependencyBwId raw =
     (let i = trim (field_or_empty (probeFields raw) ''bw_id''); parts = split_on 58 i
      in if length parts = 4 \<and> list_all (digits_between 1 20) parts then i else [])"

definition parseBwVersionProbe :: "jsstr \<Rightarrow> jsstr" where
  "parseBwVersionProbe raw = normalizeReleaseVersion (field_or_empty (probeFields raw) ''bw_version'')"

record dep_row =
  dr_dep :: dependency
  dr_applicable :: bool
  dr_installed :: bool
  dr_ready :: bool
  dr_version :: jsstr
  dr_note :: jsstr

record deps =
  ds_items :: "dep_row list"
  ds_hasOmarchy :: bool
  ds_hasFingerprintReader :: bool
  ds_hasClipboard :: bool
  ds_bwVersion :: jsstr
  ds_bwId :: jsstr
  ds_sshCliStatus :: cli_status

definition bw_note :: "cli_status \<Rightarrow> jsstr \<Rightarrow> jsstr" where
  "bw_note status version =
     (case status of
        CliUnsupported \<Rightarrow> js ''SSH keys need Bitwarden CLI '' @ SSH_CLI_MIN_VERSION @ js '' or newer''
          @ (if version \<noteq> [] then js ''; found '' @ version @ js ''.'' else js ''.'')
      | CliUnknown \<Rightarrow> js ''Could not read the Bitwarden CLI version. SSH support stays unconfirmed until that is fixed.''
      | _ \<Rightarrow> [])"

definition dep_row_of :: "(jsstr \<times> jsstr) list \<Rightarrow> cli_status \<Rightarrow> jsstr \<Rightarrow> dependency \<Rightarrow> dep_row" where
  "dep_row_of found status version d =
     (let yes = (\<lambda>k. map_of found k = Some (js ''1'')); installed = yes (dp_key d); fp = dp_key d = js ''fprintd'' in
      \<lparr>dr_dep = d, dr_applicable = (if fp then yes (js ''fingerprint_hw'') else True), dr_installed = installed,
       dr_ready = (if fp then yes (js ''fingerprint_ready'') else installed),
       dr_version = (if dp_key d = js ''bw'' then version else []),
       dr_note = (if dp_key d = js ''bw'' \<and> installed then bw_note status version else [])\<rparr>)"

definition parseDependencies :: "jsstr \<Rightarrow> jsstr option \<Rightarrow> deps" where
  \<comment> \<open>no version probed yet is \<open>None\<close>\<close>
  "parseDependencies raw probedVersion =
     (let found = probeFields raw;
          inlined = map_of found (js ''bw_version'');
          pending = (inlined = None \<and> probedVersion = None);
          versionRaw = trim (case inlined of Some v \<Rightarrow> v | None \<Rightarrow> (case probedVersion of Some v \<Rightarrow> v | None \<Rightarrow> []));
          version = normalizeReleaseVersion versionRaw;
          yes = (\<lambda>k. map_of found (js k) = Some (js ''1''));
          status = (if yes ''bw'' then (if pending then CliChecking else sshCliSupport version) else CliMissing)
      in \<lparr>ds_items = map (dep_row_of found status version) DEPENDENCIES, ds_hasOmarchy = yes ''omarchy'',
          ds_hasFingerprintReader = yes ''fingerprint_hw'', ds_hasClipboard = yes ''wlcopy'',
          ds_bwVersion = version, ds_bwId = dependencyBwId raw, ds_sshCliStatus = status\<rparr>)"

section \<open>What setup makes of it\<close>

text \<open>No probe result yet is \<open>None\<close>.\<close>

definition dep_items :: "deps option \<Rightarrow> dep_row list" where
  "dep_items d = (case d of Some d \<Rightarrow> ds_items d | None \<Rightarrow> [])"

definition applicableDependencies :: "deps option \<Rightarrow> dep_row list" where
  "applicableDependencies d = filter dr_applicable (dep_items d)"

definition missingRequired :: "deps option \<Rightarrow> dep_row list" where
  "missingRequired d = filter (\<lambda>r. dp_required (dr_dep r) \<and> \<not> dr_installed r) (dep_items d)"

definition dependencyByKey :: "deps option \<Rightarrow> jsstr \<Rightarrow> dep_row option" where
  "dependencyByKey d key = find (\<lambda>r. dp_key (dr_dep r) = key) (dep_items d)"

definition dependencyInstalled :: "deps option \<Rightarrow> jsstr \<Rightarrow> bool" where
  "dependencyInstalled d key = (case dependencyByKey d key of Some r \<Rightarrow> dr_installed r | None \<Rightarrow> False)"

definition vaultListMode :: "deps option \<Rightarrow> jsstr" where
  "vaultListMode d =
     (if dependencyInstalled d (js ''bw'') \<and> dependencyInstalled d (js ''jq'') then js ''sanitized'' else js ''blocked'')"

definition vaultListBlockedMessage :: "deps option \<Rightarrow> jsstr" where
  "vaultListBlockedMessage d =
     (if \<not> dependencyInstalled d (js ''bw'') then js ''Bitwarden CLI is not installed yet.''
      else if \<not> dependencyInstalled d (js ''jq'') then js ''jq is required to safely read vault items. Finish setup to continue.''
      else js ''Could not determine how to safely read vault items.'')"

definition clipboardCopyBlocked :: "deps option \<Rightarrow> bool \<Rightarrow> bool" where
  "clipboardCopyBlocked d checked \<longleftrightarrow> checked \<and> (case d of Some d \<Rightarrow> \<not> ds_hasClipboard d | None \<Rightarrow> False)"

definition sshUiAvailable :: "deps option \<Rightarrow> bool \<Rightarrow> bool" where
  "sshUiAvailable d checked \<longleftrightarrow> checked \<and> (case d of Some d \<Rightarrow> ds_sshCliStatus d = CliSupported | None \<Rightarrow> False)"


definition SANITIZED_LIST_SSH_FIX_HINT :: jsstr where
  "SANITIZED_LIST_SSH_FIX_HINT = js '' Bitwarden CLI before '' @ SSH_MALFORMED_ITEM_FIX_VERSION
     @ js '' can fail on malformed SSH key items. Upgrading to '' @ SSH_MALFORMED_ITEM_FIX_VERSION
     @ js '' or newer may fix this.''"

definition vaultListFailureMessage :: "jsstr \<Rightarrow> deps option \<Rightarrow> jsstr \<Rightarrow> jsstr" where
  "vaultListFailureMessage stderrText d mode =
     (if mode = js ''blocked'' then vaultListBlockedMessage d
      else (let version = (case d of Some d \<Rightarrow> ds_bwVersion d | None \<Rightarrow> []) in
            if version \<noteq> [] \<and> below_zero (compareReleaseVersions version SSH_MALFORMED_ITEM_FIX_VERSION)
            then SANITIZED_LIST_ERROR @ SANITIZED_LIST_SSH_FIX_HINT else SANITIZED_LIST_ERROR))"

datatype ssh_capability = SshCapability (cap_state: jsstr) (cap_keyCount: nat) (cap_message: jsstr)

definition defaultSshCapability :: ssh_capability where
  "defaultSshCapability = SshCapability (js ''unknown'') 0 (js ''SSH key availability has not been checked yet.'')"

definition sshCapabilityOf :: "envelope option \<Rightarrow> ssh_capability" where
  "sshCapabilityOf parsed =
     (case parsed of
        None \<Rightarrow> defaultSshCapability
      | Some e \<Rightarrow>
          (if env_confirmed e then
             SshCapability (js ''confirmed'') (length (env_sshKeys e))
               (if length (env_sshKeys e) = 1 then js ''1 SSH key found.''
                else nat_to_str (length (env_sshKeys e)) @ js '' SSH keys found.'')
           else SshCapability (js ''unconfirmed'') 0
             (js ''No SSH keys were returned. Server support remains unconfirmed.'')))"

definition inspectSanitizedVault :: "collate \<Rightarrow> jsstr \<Rightarrow> ssh_capability" where
  "inspectSanitizedVault collate raw = sshCapabilityOf (parseSanitizedEnvelope collate raw)"

definition readSanitizedVault :: "collate \<Rightarrow> jsstr \<Rightarrow> item list \<times> ssh_capability" where
  \<comment> \<open>the items and the SSH capability, from one parse\<close>
  "readSanitizedVault collate raw =
     (let envelope = parseSanitizedEnvelope collate raw
      in (case envelope of Some e \<Rightarrow> env_items e | None \<Rightarrow> [], sshCapabilityOf envelope))"

definition setupGateActive :: "deps option \<Rightarrow> bool \<Rightarrow> bool \<Rightarrow> bool" where
  "setupGateActive d checked dismissed =
     (if \<not> checked \<or> dismissed then False else 0 < length (missingRequired d))"

datatype probe_outcome = Setup | Probe | Idle

definition dependencyProbeOutcome :: "deps option \<Rightarrow> bool \<Rightarrow> bool \<Rightarrow> bool \<Rightarrow> probe_outcome" where
  "dependencyProbeOutcome d dismissed probeStarted wasGated =
     (if 0 < length (missingRequired d) then (if dismissed then Idle else Setup)
      else if \<not> probeStarted \<or> wasGated then Probe else Idle)"

fun missing_loop :: "dep_row list \<Rightarrow> jsstr list \<Rightarrow> jsstr list" where
  "missing_loop [] pkgs = pkgs"
| "missing_loop (r # rs) pkgs =
     (if \<not> dr_applicable r \<or> dp_setup (dr_dep r) \<or> dr_installed r \<or> dp_pkg (dr_dep r) \<in> set pkgs
      then missing_loop rs pkgs else missing_loop rs (pkgs @ [dp_pkg (dr_dep r)]))"

definition missingPackages :: "deps option \<Rightarrow> jsstr list" where
  "missingPackages d = missing_loop (dep_items d) []"

definition package_unit :: "nat \<Rightarrow> bool" where
  "package_unit c \<longleftrightarrow> is_alpha c \<or> is_digit c \<or> c = 46 \<or> c = 95 \<or> c = 43 \<or> c = 45"

definition isPlainPackageName :: "jsstr \<Rightarrow> bool" where
  "isPlainPackageName n \<longleftrightarrow> n \<noteq> [] \<and> (is_alpha (hd n) \<or> is_digit (hd n)) \<and> list_all package_unit n"

definition installPackagesScript :: "jsstr list \<Rightarrow> (jsstr \<Rightarrow> jsstr) \<Rightarrow> jsstr" where
  "installPackagesScript pkgs tr =
     js ''if command -v pacman >/dev/null 2>&1; then sudo pacman -S --needed '' @ join [32] (map shellQuote pkgs)
     @ js ''; else printf '' @ [39] @ js ''%s'' @ [92] @ js ''n'' @ [39, 32]
     @ shellQuote (tr (js ''Install these packages with your distribution package manager: '') @ join [32] pkgs)
     @ js ''; false; fi''"

definition terminalScript :: "jsstr \<Rightarrow> jsstr" where
  "terminalScript inner =
     (let command = js ''bash -c '' @ shellQuote inner in
      js ''if command -v xdg-terminal-exec >/dev/null 2>&1; then exec xdg-terminal-exec '' @ command
      @ js ''; elif command -v kitty >/dev/null 2>&1; then exec kitty '' @ command
      @ js ''; elif command -v alacritty >/dev/null 2>&1; then exec alacritty -e '' @ command
      @ js ''; elif command -v foot >/dev/null 2>&1; then exec foot '' @ command
      @ js ''; else printf '' @ [39] @ js ''%s'' @ [10, 39, 32, 39] @ js ''No supported terminal found'' @ [39]
      @ js '' >&2; exit 1; fi'')"

definition installPackagesCommand :: "jsstr list \<Rightarrow> jsstr list option" where
  \<comment> \<open>the display name is not used by the code\<close>
  "installPackagesCommand pkgs =
     (if pkgs = [] \<or> \<not> list_all isPlainPackageName pkgs then None
      else Some [js ''bash'', js ''-c'', terminalScript (installPackagesScript pkgs id
        @ js ''; printf '' @ [39, 92] @ js ''nPress Enter to close'' @ [39] @ js ''; read -r _answer'')])"

definition fingerprintSetupCommand :: "jsstr list" where
  "fingerprintSetupCommand = [js ''bash'', js ''-c'', terminalScript (js ''fprintd-enroll; printf '' @ [39, 92]
     @ js ''nPress Enter to close'' @ [39] @ js ''; read -r _answer'')]"

section \<open>Versions are ordered as releases\<close>

lemma nat_to_str_all_digits: "list_all is_digit (nat_to_str n)"
  using nat_to_str_digits by (auto simp: list_all_iff)

lemma span_digits: "list_all is_digit ds \<Longrightarrow> span is_digit ds = (ds, [])"
  by (simp add: span_def list_all_iff takeWhile_eq_all_conv dropWhile_eq_Nil_conv)

lemma digits_not_prefix:
  assumes "list_all is_digit ds" and "\<not> is_digit x"
  shows "\<not> starts_with (48 # x # xs) ds"
  using assms by (auto simp: starts_with_iff)

lemma number_of_nat_str:
  assumes "n < 10 ^ 21"
  shows "string_to_number (nat_to_str n) = Fin (of_nat n)"
proof -
  let ?s = "nat_to_str n"
  have d: "list_all is_digit ?s" by (rule nat_to_str_all_digits)
  have "trim ?s = ?s" using d by (intro trim_no_ws) (auto simp: list_all_iff is_digit_def is_ws_def)
  moreover have "is_digit (hd ?s)" using d by (metis hd_in_set list_all_iff nat_to_str_not_Nil)
  then have "hd ?s \<noteq> 45" "hd ?s \<noteq> 43" "hd ?s \<noteq> 73" by (auto simp: is_digit_def)
  moreover from this(3) have "?s \<noteq> js ''Infinity''" by (auto simp: js_def)
  moreover have "parse_decimal ?s = Some (Fin (of_nat n))"
    using assms by (simp add: parse_decimal_def span_digits [OF d] read_exponent_def decimal_value_nat)
  moreover have "\<not> starts_with (js ''0x'') ?s" "\<not> starts_with (js ''0X'') ?s" "\<not> starts_with (js ''0o'') ?s"
    "\<not> starts_with (js ''0O'') ?s" "\<not> starts_with (js ''0b'') ?s" "\<not> starts_with (js ''0B'') ?s"
    using digits_not_prefix [OF d] by (simp_all add: js_def is_digit_def)
  ultimately show ?thesis by (simp add: string_to_number_def Let_def)
qed

definition small_release :: "release \<Rightarrow> bool" where
  "small_release r \<longleftrightarrow> year r < 10 ^ 21 \<and> month r < 10 ^ 21 \<and> build r < 10 ^ 21"

lemma split_release_str: "split_on 46 (release_str r) = [nat_to_str (year r), nat_to_str (month r), nat_to_str (build r)]"
proof -
  have no: "46 \<notin> set (nat_to_str n)" for n using nat_to_str_digits [of 46 n] by (auto simp: is_digit_def)
  have "split_on 46 (x @ 46 # y) = x # split_on 46 y" if "46 \<notin> set x" for x y
    using that by (induction x) auto
  then show ?thesis by (simp add: release_str_def no split_on_no_sep)
qed

lemma compare_release_str:
  assumes "small_release r" and "small_release s"
  shows "compare_parts 3 (split_on 46 (release_str r)) (split_on 46 (release_str s))
    = (if r < s then - 1 else if r = s then 0 else 1)"
proof -
  have "(r = s) = (year r = year s \<and> month r = month s \<and> build r = build s)" by (cases r; cases s) simp
  then show ?thesis
    using assms
    by (simp add: split_release_str numeral_3_eq_3 Let_def number_of_nat_str small_release_def less_release_def)
qed

lemma digits_val_bound: "list_all is_digit ds \<Longrightarrow> digits_val ds < 10 ^ length ds"
proof (induction ds rule: rev_induct)
  case (snoc c ds)
  then have "digits_val ds < 10 ^ length ds" "digit_val c \<le> 9" by (auto simp: digit_val_def is_digit_def)
  then show ?case by (simp add: digits_val_snoc)
qed (simp add: digits_val_def)

lemma release_of_bounds:
  assumes "release_of raw = Some r"
  shows "year r < 10 ^ 4 \<and> month r < 10 ^ 2 \<and> build r < 10 ^ 6"
proof -
  have "digits_val s < 10 ^ b" if "digits_between a b s" for a b s
  proof -
    have "(10::nat) ^ length s \<le> 10 ^ b" using that by (intro power_increasing) (auto simp: digits_between_def)
    moreover have "digits_val s < 10 ^ length s" using that by (intro digits_val_bound) (simp add: digits_between_def)
    ultimately show ?thesis by (rule less_le_trans [rotated])
  qed
  with assms show ?thesis by (fastforce simp: release_of_def Let_def split: list.splits if_splits)
qed

lemma release_of_small: "release_of raw = Some r \<Longrightarrow> small_release r"
  using release_of_bounds [of raw r] by (simp add: small_release_def)

lemma compare_by_release:
  "compareReleaseVersions a b =
     (case (release_of a, release_of b) of
        (Some r, Some s) \<Rightarrow> Some (if r < s then - 1 else if r = s then 0 else 1)
      | _ \<Rightarrow> None)"
proof -
  have "release_str r \<noteq> []" for r by (simp add: release_str_def)
  then show ?thesis
    by (auto simp: compareReleaseVersions_def normalizeReleaseVersion_def Let_def compare_release_str release_of_small
        split: option.splits)
qed

text \<open>Versions compare as releases do: the comparison of two version texts answers exactly when both
  are releases, and then by the linear order of their year, month and number.\<close>
theorem compare_versions_by_release:
  "compareReleaseVersions a b =
     (case (release_of a, release_of b) of
        (Some r, Some s) \<Rightarrow> Some (if r < s then - 1 else if r = s then 0 else 1)
      | _ \<Rightarrow> None)"
  by (rule compare_by_release)

lemma release_of_str: "release_of (release_str r) = Some r' \<Longrightarrow> r' = r"
proof -
  have d: "\<not> is_ws c \<and> c \<noteq> 118" if "c \<in> set (release_str r)" for c
  proof -
    have "is_digit c \<or> c = 46" using that by (auto simp: release_str_def dest: nat_to_str_digits)
    then show ?thesis by (auto simp: is_digit_def is_ws_def)
  qed
  then have "trim (release_str r) = release_str r" by (intro trim_no_ws) blast
  moreover have "(case release_str r of c # cs \<Rightarrow> if c = 118 then cs else release_str r | [] \<Rightarrow> []) = release_str r"
    using d by (auto split: list.splits)
  ultimately have "release_of (release_str r) = (if digits_between 4 4 (nat_to_str (year r)) \<and> digits_between 1 2 (nat_to_str (month r))
      \<and> digits_between 1 6 (nat_to_str (build r)) then Some r else None)"
    by (simp add: release_of_def Let_def split_release_str)
  then show "release_of (release_str r) = Some r' \<Longrightarrow> r' = r" by (simp split: if_splits)
qed

text \<open>The SSH features show only after the probe found a Bitwarden CLI whose version, as shown, is a
  release from 2025.1.2 on; a version that is missing, not yet read or not a release never enables them.\<close>
theorem ssh_ui_needs_release:
  assumes "sshUiAvailable (Some (parseDependencies raw probed)) checked"
  shows "checked \<and> map_of (probeFields raw) (js ''bw'') = Some (js ''1'')
    \<and> (\<exists>r. release_of (ds_bwVersion (parseDependencies raw probed)) = Some r \<and> Release 2025 1 2 \<le> r)"
proof -
  let ?v = "ds_bwVersion (parseDependencies raw probed)"
  have st: "checked" "map_of (probeFields raw) (js ''bw'') = Some (js ''1'')" "sshCliSupport ?v = CliSupported"
    using assms by (auto simp: sshUiAvailable_def parseDependencies_def Let_def split: if_splits)
  obtain x where x: "?v = normalizeReleaseVersion x" by (simp add: parseDependencies_def Let_def)
  have "normalizeReleaseVersion ?v \<noteq> []" using st(3) by (auto simp: sshCliSupport_def Let_def)
  then obtain r where r: "release_of ?v = Some r" by (auto simp: normalizeReleaseVersion_def split: option.splits)
  then have "?v \<noteq> []" by (auto simp: release_of_def)
  then obtain r0 where "release_of x = Some r0" "?v = release_str r0"
    using x by (auto simp: normalizeReleaseVersion_def split: option.splits)
  with r have "normalizeReleaseVersion ?v = ?v" using release_of_str by (metis normalizeReleaseVersion_def option.simps(5))
  with st(3) r have "\<not> below_zero (compareReleaseVersions ?v SSH_CLI_MIN_VERSION)"
    by (auto simp: sshCliSupport_def Let_def split: if_splits)
  moreover have "release_of SSH_CLI_MIN_VERSION = Some (Release 2025 1 2)"
    by (simp add: release_of_def SSH_CLI_MIN_VERSION_def js_unfold digits_between_def digits_val_def digit_val_def)
  ultimately have "\<not> r < Release 2025 1 2"
    using r by (auto simp: compare_by_release below_zero_def)
  with st(1,2) r show ?thesis by (simp add: not_less)
qed

definition demo_probe :: jsstr where
  "demo_probe = js ''bw=1'' @ 10 # js ''bw_version=v2025.10.0''"

lemma demo_fields: "probeFields demo_probe = [(js ''bw'', js ''1''), (js ''bw_version'', js ''v2025.10.0'')]"
  by (simp add: probeFields_def demo_probe_def js_unfold key_before_def is_index_key_def Let_def)

lemma demo_version: "release_of (js ''v2025.10.0'') = Some (Release 2025 10 0)"
  "release_of (js ''2025.10.0'') = Some (Release 2025 10 0)" "release_of SSH_CLI_MIN_VERSION = Some (Release 2025 1 2)"
  by (simp_all add: release_of_def SSH_CLI_MIN_VERSION_def js_unfold digits_between_def digits_val_def digit_val_def)

theorem ssh_ui_needs_release_witness:
  "map_of (probeFields demo_probe) (js ''bw'') = Some (js ''1'')
    \<and> (\<exists>r. release_of (ds_bwVersion (parseDependencies demo_probe None)) = Some r \<and> Release 2025 1 2 \<le> r)"
proof -
  have t: "trim (js ''v2025.10.0'') = js ''v2025.10.0''" by (simp add: js_unfold)
  have n: "normalizeReleaseVersion (js ''v2025.10.0'') = js ''2025.10.0''"
    unfolding normalizeReleaseVersion_def demo_version
    by (simp add: release_str_def nat_to_str_def nat_digits_acc.simps js_def)
  have "normalizeReleaseVersion (js ''2025.10.0'') = js ''2025.10.0''"
    unfolding normalizeReleaseVersion_def demo_version
    by (simp add: release_str_def nat_to_str_def nat_digits_acc.simps js_def)
  then have "sshCliSupport (js ''2025.10.0'') = CliSupported"
    by (simp add: sshCliSupport_def Let_def compare_by_release demo_version below_zero_def less_release_def)
  then have "sshUiAvailable (Some (parseDependencies demo_probe None)) True"
    by (simp add: sshUiAvailable_def parseDependencies_def Let_def demo_fields t n)
  from ssh_ui_needs_release [OF this] show ?thesis by blast
qed

end
