(* ===== verification/Settings.thy ===== *)
theory Settings
  imports Dependencies
begin

text \<open>
  The plugin's settings in \<^verbatim>\<open>BitwardenModel.js\<close>: the schema, the rows of the settings screen, how a
  stored value that nothing validated is read, and the auto-lock deadline.
\<close>

section \<open>Schema\<close>

definition SSH_AGENT_APPROVAL_WINDOW_MAX :: int where "SSH_AGENT_APPROVAL_WINDOW_MAX = 900"

datatype setting_kind =
  IntSetting (set_min: int) (set_max: int) (set_step: int) (set_default: int)
| BoolSetting bool

record setting =
  st_key :: jsstr
  st_group :: jsstr
  st_kind :: setting_kind
  st_shownWhen :: "((jsstr \<Rightarrow> bool) \<Rightarrow> bool) option"

definition SETTINGS_GROUPS :: "(jsstr \<times> jsstr) list" where
  "SETTINGS_GROUPS = [(js ''general'', js ''General''), (js ''security'', js ''Security''), (js ''sshAgent'', js ''SSH Agent'')]"

definition plain_setting :: "string \<Rightarrow> string \<Rightarrow> setting_kind \<Rightarrow> setting" where
  "plain_setting key grp kind = \<lparr>st_key = js key, st_group = js grp, st_kind = kind, st_shownWhen = None\<rparr>"

definition SETTINGS_SCHEMA :: "setting list" where
  \<comment> \<open>labels, units and descriptions are only drawn, and are left out\<close>
  "SETTINGS_SCHEMA = [
     plain_setting ''autoLockMinutes'' ''security'' (IntSetting 0 1440 5 15),
     plain_setting ''clearClipboardSec'' ''security'' (IntSetting 0 300 5 30),
     plain_setting ''lockOnScreenLock'' ''security'' (BoolSetting True),
     plain_setting ''lockOnSuspend'' ''security'' (BoolSetting True),
     plain_setting ''rememberSession'' ''security'' (BoolSetting True),
     plain_setting ''fingerprintUnlock'' ''security'' (BoolSetting False),
     plain_setting ''fidoUnlock'' ''security'' (BoolSetting False),
     plain_setting ''pinUnlock'' ''security'' (BoolSetting False),
     plain_setting ''usePinentry'' ''security'' (BoolSetting True),
     plain_setting ''sshAgentEnabled'' ''sshAgent'' (BoolSetting False),
     plain_setting ''sshAgentUnlockOnDemand'' ''sshAgent'' (BoolSetting False),
     plain_setting ''sshAgentApprovalPopup'' ''sshAgent'' (BoolSetting True),
     plain_setting ''sshAgentApprovalUntilScreenLock'' ''sshAgent'' (BoolSetting False),
     (plain_setting ''sshAgentApprovalWindowSec'' ''sshAgent'' (IntSetting 0 SSH_AGENT_APPROVAL_WINDOW_MAX 30 120))
       \<lparr>st_shownWhen := Some (\<lambda>val. val (js ''sshAgentEnabled'') \<and> \<not> val (js ''sshAgentApprovalUntilScreenLock''))\<rparr>,
     plain_setting ''closeOnCopy'' ''general'' (BoolSetting True),
     plain_setting ''colorizeIcon'' ''general'' (BoolSetting False),
     plain_setting ''autoCopyTotpSec'' ''general'' (IntSetting 0 30 1 3),
     plain_setting ''suggestOnOpen'' ''general'' (BoolSetting True)]"

section \<open>The screen\<close>

definition groupedSettings :: "setting list" where
  \<comment> \<open>the group label of the first entry is cleared again by \<open>visibleSettings\<close>\<close>
  "groupedSettings = concat (map (\<lambda>g. filter (\<lambda>e. st_group e = fst g) SETTINGS_SCHEMA) SETTINGS_GROUPS)"

definition groupLabelFor :: "jsstr \<Rightarrow> jsstr" where
  "groupLabelFor i = (case map_of SETTINGS_GROUPS i of Some l \<Rightarrow> l | None \<Rightarrow> [])"

datatype setting_row = GroupRow jsstr jsstr | SettingRow setting bool

definition shown :: "bool \<Rightarrow> (jsstr \<Rightarrow> bool) option \<Rightarrow> setting \<Rightarrow> bool" where
  "shown showSsh val e \<longleftrightarrow> \<not> (\<not> showSsh \<and> st_group e = js ''sshAgent'')
     \<and> (case (st_shownWhen e, val) of (Some w, Some v) \<Rightarrow> w v | _ \<Rightarrow> True)"

fun setting_rows :: "jsstr list \<Rightarrow> setting list \<Rightarrow> setting_row list" where
  \<comment> \<open>the loop of \<open>visibleSettings\<close>; \<open>seen\<close> are the groups with a heading\<close>
  "setting_rows seen [] = []"
| "setting_rows seen (e # es) =
     (if st_group e \<notin> set seen then [GroupRow (st_group e) (groupLabelFor (st_group e))] else [])
     @ SettingRow e (case es of [] \<Rightarrow> True | e' # _ \<Rightarrow> st_group e' \<noteq> st_group e)
     # setting_rows (if st_group e \<notin> set seen then st_group e # seen else seen) es"

definition visibleSettings :: "deps option \<Rightarrow> bool \<Rightarrow> (jsstr \<Rightarrow> bool) option \<Rightarrow> setting_row list" where
  "visibleSettings d checked val = setting_rows [] (filter (shown (sshUiAvailable d checked) val) groupedSettings)"

section \<open>Values\<close>

definition settingSchemaEntry :: "jsstr \<Rightarrow> setting option" where
  "settingSchemaEntry key = find (\<lambda>e. st_key e = key) SETTINGS_SCHEMA"

definition int_value :: "jsval \<Rightarrow> jsnum" where
  \<comment> \<open>a number, or text that is not blank, rounded down\<close>
  "int_value raw =
     (case raw of JNum n \<Rightarrow> num_floor n | JStr s \<Rightarrow> if trim s \<noteq> [] then num_floor (string_to_number s) else NaN | _ \<Rightarrow> NaN)"

definition intSetting :: "jsstr \<Rightarrow> jsval \<Rightarrow> jsnum" where
  \<comment> \<open>the default of an entry is a whole number\<close>
  "intSetting key raw =
     (let n = int_value raw in
      case settingSchemaEntry key of
        Some e \<Rightarrow>
          (case st_kind e of
             IntSetting mn mx _ df \<Rightarrow>
               (let n' = (if \<not> is_finite n \<or> num_lt n (numi mn) then numi df else n)
                in num_max (numi mn) (num_min (numi mx) n'))
           | BoolSetting _ \<Rightarrow> if is_finite n then n else Fin 0)
      | None \<Rightarrow> if is_finite n then n else Fin 0)"

definition boolSetting :: "jsstr \<Rightarrow> jsval \<Rightarrow> bool" where
  "boolSetting key raw =
     (case raw of
        JBool b \<Rightarrow> b
      | _ \<Rightarrow> (case settingSchemaEntry key of
                Some e \<Rightarrow> (case st_kind e of BoolSetting df \<Rightarrow> df | IntSetting _ _ _ _ \<Rightarrow> False)
              | None \<Rightarrow> False))"

definition settingWriteValue :: "jsstr \<Rightarrow> jsval \<Rightarrow> jsval" where
  "settingWriteValue key v =
     (if key = js ''twoFactorMethods'' then
        (case v of JObj ps \<Rightarrow> JObj (put_all [] (filter (\<lambda>(k, m). isTwoFactorMethod m) ps)) | _ \<Rightarrow> JUndef)
      else case settingSchemaEntry key of
        None \<Rightarrow> JUndef
      | Some e \<Rightarrow> (case st_kind e of BoolSetting _ \<Rightarrow> JBool (boolSetting key v) | IntSetting _ _ _ _ \<Rightarrow> JNum (intSetting key v)))"

section \<open>Auto-lock\<close>

definition AUTO_LOCK_POLL_MS :: int where "AUTO_LOCK_POLL_MS = 30000"

definition autoLockPollMs :: "jsval \<Rightarrow> jsnum" where
  "autoLockPollMs minutes =
     (let m = num_floor (to_num minutes) in
      if \<not> is_finite m \<or> num_le m (Fin 0) then numi AUTO_LOCK_POLL_MS
      else num_max (Fin 1000) (num_min (num_scale 60000 m) (numi AUTO_LOCK_POLL_MS)))"

definition autoLockExpired :: "jsval \<Rightarrow> jsval \<Rightarrow> jsval \<Rightarrow> bool" where
  "autoLockExpired armedAt minutes now =
     (let m = num_floor (to_num minutes); start = to_num armedAt; t = to_num now in
      if \<not> is_finite m \<or> num_le m (Fin 0) then False
      else if \<not> is_finite start \<or> num_le start (Fin 0) \<or> \<not> is_finite t then False
      else num_le (num_scale 60000 m) (num_sub t start))"

section \<open>Stored values\<close>

lemma int_value_whole: "is_finite (int_value raw) \<Longrightarrow> \<exists>n. int_value raw = numi n"
proof -
  have whole: "is_finite (num_floor x) \<Longrightarrow> \<exists>n. num_floor x = numi n" for x by (cases x) auto
  assume "is_finite (int_value raw)"
  then show ?thesis using whole by (auto simp: int_value_def split: jsval.splits if_splits)
qed

lemma schema_ranges:
  "list_all (\<lambda>e. case st_kind e of IntSetting mn mx _ df \<Rightarrow> mn \<le> df \<and> df \<le> mx | BoolSetting _ \<Rightarrow> True) SETTINGS_SCHEMA"
  by (simp add: SETTINGS_SCHEMA_def plain_setting_def SSH_AGENT_APPROVAL_WINDOW_MAX_def)

lemma schema_entry_range:
  assumes "settingSchemaEntry key = Some e" and "st_kind e = IntSetting mn mx stp df"
  shows "mn \<le> df \<and> df \<le> mx"
proof -
  have "e \<in> set SETTINGS_SCHEMA" using assms(1) by (auto simp: settingSchemaEntry_def find_Some_iff)
  with schema_ranges assms(2) show ?thesis by (auto simp: list_all_iff)
qed

lemma clamp_numi: "num_max (numi mn) (num_min (numi mx) (numi n)) = numi (max mn (min mx n))"
proof -
  have "num_min (numi mx) (numi n) = numi (min mx n)" by (auto simp: num_min_def min_def)
  moreover have "num_max (numi mn) (numi k) = numi (max mn k)" for k by (auto simp: num_max_def max_def)
  ultimately show ?thesis by metis
qed

lemma intSetting_cases:
  assumes "settingSchemaEntry key = Some e" and "st_kind e = IntSetting mn mx stp df"
  shows "intSetting key raw = numi df
    \<or> (\<exists>n. int_value raw = numi n \<and> mn \<le> n \<and> intSetting key raw = numi (min mx n))"
proof (cases "is_finite (int_value raw) \<and> \<not> num_lt (int_value raw) (numi mn)")
  case True
  then obtain n where n: "int_value raw = numi n" using int_value_whole by blast
  with True have "mn \<le> n" by simp
  moreover have "mn \<le> mx" using schema_entry_range [OF assms] by linarith
  ultimately have "intSetting key raw = numi (min mx n)"
    using assms n by (simp add: intSetting_def Let_def clamp_numi max_def)
  with n \<open>mn \<le> n\<close> show ?thesis by blast
next
  case False
  then have "intSetting key raw = numi (max mn (min mx df))"
    using assms by (auto simp: intSetting_def Let_def clamp_numi)
  then show ?thesis using schema_entry_range [OF assms] by (simp add: min_absorb2 max_absorb2)
qed

text \<open>Whatever the settings file holds for a whole-number setting, the value used is a whole number in
  the range of the schema. It is the default, the stored number, or the largest allowed value when the
  stored number is larger; in particular nothing unreadable reads as zero, which means off, unless
  zero is the default. Writing the value back does not change it.\<close>
theorem int_setting_sound:
  assumes "settingSchemaEntry key = Some e" and "st_kind e = IntSetting mn mx stp df"
  shows "\<exists>n. intSetting key raw = numi n \<and> mn \<le> n \<and> n \<le> mx
    \<and> (n = df \<or> int_value raw = numi n \<or> (n = mx \<and> num_lt (numi mx) (int_value raw)))
    \<and> intSetting key (settingWriteValue key raw) = numi n"
proof -
  have r: "mn \<le> df" "df \<le> mx" using schema_entry_range [OF assms] by auto
  have "key \<noteq> js ''twoFactorMethods''"
    using assms(1) by (auto simp: settingSchemaEntry_def find_Some_iff SETTINGS_SCHEMA_def plain_setting_def)
  then have w: "settingWriteValue key raw = JNum (intSetting key raw)"
    using assms by (simp add: settingWriteValue_def)
  have same: "intSetting key (JNum (numi n)) = numi n" if "mn \<le> n" "n \<le> mx" for n
    using assms that by (simp add: intSetting_def Let_def int_value_def clamp_numi min_absorb2 max_absorb2)
  from intSetting_cases [OF assms, of raw] show ?thesis
  proof
    assume "intSetting key raw = numi df"
    with r w same show ?thesis by auto
  next
    assume "\<exists>n. int_value raw = numi n \<and> mn \<le> n \<and> intSetting key raw = numi (min mx n)"
    then obtain n where n: "int_value raw = numi n" "mn \<le> n" "intSetting key raw = numi (min mx n)" by blast
    with r w same [of "min mx n"] show ?thesis by (intro exI [of _ "min mx n"]) (auto simp: min_def)
  qed
qed

theorem int_setting_sound_witness:
  "\<exists>n. intSetting (js ''autoLockMinutes'') (JStr (js ''soon'')) = numi n \<and> 0 \<le> n \<and> n \<le> 1440
    \<and> intSetting (js ''autoLockMinutes'') (settingWriteValue (js ''autoLockMinutes'') (JStr (js ''soon''))) = numi n"
  using int_setting_sound [of "js ''autoLockMinutes''" "plain_setting ''autoLockMinutes'' ''security'' (IntSetting 0 1440 5 15)"
      0 1440 5 15 "JStr (js ''soon'')"]
  by (auto simp: settingSchemaEntry_def SETTINGS_SCHEMA_def plain_setting_def)

section \<open>The rows of the screen\<close>

fun group_rows :: "setting list \<Rightarrow> setting_row list" where
  "group_rows [] = []"
| "group_rows [e] = [SettingRow e True]"
| "group_rows (e # e' # es) = SettingRow e False # group_rows (e' # es)"

definition group_section :: "setting list \<Rightarrow> jsstr \<times> jsstr \<Rightarrow> setting_row list" where
  \<comment> \<open>a heading and the settings under it, the last of them marked; nothing for an empty group\<close>
  "group_section es g =
     (let rows = filter (\<lambda>e. st_group e = fst g) es
      in if rows = [] then [] else GroupRow (fst g) (snd g) # group_rows rows)"

lemma setting_rows_seen:
  assumes "\<forall>e\<in>set xs. st_group e = g" and "g \<in> set seen" and "\<forall>e\<in>set rest. st_group e \<noteq> g" and "xs \<noteq> []"
  shows "setting_rows seen (xs @ rest) = group_rows xs @ setting_rows seen rest"
  using assms(1,4)
proof (induction xs rule: group_rows.induct)
  case (2 e)
  then show ?case using assms(2,3) by (cases rest) auto
next
  case (3 e e' es)
  then show ?case using assms(2) by auto
qed simp

lemma setting_rows_group:
  assumes "\<forall>e\<in>set xs. st_group e = g" and "g \<notin> set seen" and "\<forall>e\<in>set rest. st_group e \<noteq> g" and "xs \<noteq> []"
  shows "setting_rows seen (xs @ rest) = GroupRow g (groupLabelFor g) # group_rows xs @ setting_rows (g # seen) rest"
proof -
  obtain e es where xs: "xs = e # es" using assms(4) by (cases xs) auto
  have "setting_rows seen (xs @ rest) = GroupRow g (groupLabelFor g) # setting_rows (g # seen) (xs @ rest)"
    using assms(1,2) by (simp add: xs)
  then show ?thesis using setting_rows_seen [of xs g "g # seen" rest] assms by simp
qed

lemma setting_rows_sections:
  assumes "distinct (map fst gs)" and "\<forall>g\<in>set gs. snd g = groupLabelFor (fst g)"
    and "fst ` set gs \<inter> set seen = {}"
  shows "setting_rows seen (concat (map (\<lambda>g. filter (\<lambda>e. st_group e = fst g) es) gs)) = concat (map (group_section es) gs)"
  using assms
proof (induction gs arbitrary: seen)
  case (Cons g gs)
  let ?xs = "filter (\<lambda>e. st_group e = fst g) es"
  let ?rest = "concat (map (\<lambda>g. filter (\<lambda>e. st_group e = fst g) es) gs)"
  have rest: "\<forall>e\<in>set ?rest. st_group e \<noteq> fst g" using Cons.prems(1) by force
  show ?case
  proof (cases "?xs = []")
    case True
    then show ?thesis using Cons by (simp add: group_section_def)
  next
    case False
    have "setting_rows seen (?xs @ ?rest)
        = GroupRow (fst g) (groupLabelFor (fst g)) # group_rows ?xs @ setting_rows (fst g # seen) ?rest"
      using Cons.prems(3) rest False by (intro setting_rows_group) auto
    moreover have "setting_rows (fst g # seen) ?rest = concat (map (group_section es) gs)"
      using Cons.prems by (intro Cons.IH) auto
    ultimately show ?thesis using Cons.prems(2) False by (simp add: group_section_def [of es g] Let_def)
  qed
qed simp

lemma filter_grouped:
  "filter P (concat (map (\<lambda>g. filter (\<lambda>e. st_group e = fst g) es) gs))
     = concat (map (\<lambda>g. filter (\<lambda>e. st_group e = fst g) (filter P es)) gs)"
  by (induction gs) (simp_all add: conj_commute)

text \<open>The settings screen is what it is meant to be: for each group, in order, its heading once and
  under it exactly its settings that are shown, the last of them marked; a group with nothing to show
  has no heading. Settings of the SSH agent are shown only while the SSH features are available.\<close>
theorem settings_screen_exact:
  "visibleSettings d checked val =
     concat (map (group_section (filter (shown (sshUiAvailable d checked) val) SETTINGS_SCHEMA)) SETTINGS_GROUPS)"
proof -
  have "distinct (map fst SETTINGS_GROUPS)" "\<forall>g\<in>set SETTINGS_GROUPS. snd g = groupLabelFor (fst g)"
    by (simp_all add: SETTINGS_GROUPS_def groupLabelFor_def)
  then show ?thesis
    unfolding visibleSettings_def groupedSettings_def filter_grouped by (intro setting_rows_sections) auto
qed

section \<open>The deadline\<close>

lemma autoLock_exact:
  "autoLockExpired (jint start) (jint m) (jint t) \<longleftrightarrow> 0 < m \<and> 0 < start \<and> start + m * 60000 \<le> t"
proof -
  have "num_scale 60000 (numi m) = numi (60000 * m)" "num_sub (numi t) (numi start) = numi (t - start)" by simp_all
  moreover have "num_le (numi a) (numi b) \<longleftrightarrow> a \<le> b" for a b by simp
  moreover have "Fin 0 = numi 0" by simp
  ultimately have "autoLockExpired (jint start) (jint m) (jint t) \<longleftrightarrow>
      (if m \<le> 0 then False else if start \<le> 0 then False else 60000 * m \<le> t - start)"
    unfolding autoLockExpired_def Let_def by (simp only: to_num.simps num_floor.simps floor_of_int is_finite.simps not_True_eq_False simp_thms)
  then show ?thesis by auto
qed

end
