(* ===== verification/Generator.thy ===== *)
theory Generator
  imports Shell Uri Agent Login
begin

text \<open>
  The password generator of \<^verbatim>\<open>BitwardenModel.js\<close>: the options, which come from a form and from
  stored settings and are brought into range before use, the two ways they reach \<^verbatim>\<open>bw\<close> (flags of
  \<^verbatim>\<open>bw generate\<close>, query parameters of \<^verbatim>\<open>bw serve\<close>), the answer of the server, and what to do when
  the server was not ours. An options object is its list of properties.
\<close>

section \<open>Options\<close>

type_synonym options = "(jsstr \<times> jsval) list"

abbreviation opt :: "options \<Rightarrow> string \<Rightarrow> jsval" where
  "opt o' k \<equiv> obj_get o' (js k)"

abbreviation set_opt :: "string \<Rightarrow> jsval \<Rightarrow> options \<Rightarrow> options" where
  "set_opt k v o' \<equiv> obj_put o' (js k) v"

definition GENERATOR_DEFAULTS :: options where
  "GENERATOR_DEFAULTS = [
     (js ''type'', JStr (js ''password'')), (js ''length'', jint 14), (js ''uppercase'', JBool True),
     (js ''lowercase'', JBool True), (js ''numbers'', JBool True), (js ''special'', JBool False),
     (js ''minNumber'', jint 1), (js ''minSpecial'', jint 1), (js ''ambiguous'', JBool False),
     (js ''words'', jint 3), (js ''separator'', JStr (js ''-'')), (js ''capitalize'', JBool False),
     (js ''includeNumber'', JBool False)]"

definition GENERATOR_LIMITS :: "string \<Rightarrow> int \<times> int" where
  "GENERATOR_LIMITS k = (if k = ''length'' then (5, 128) else if k = ''words'' then (3, 20) else (0, 9))"

definition generatorDefaults :: options where
  "generatorDefaults = foldl (\<lambda>out (k, v). obj_put out k v) [] GENERATOR_DEFAULTS"

definition clampInt :: "jsval \<Rightarrow> int \<times> int \<Rightarrow> jsnum" where
  "clampInt v limit =
     (let n = num_floor (to_num v); n' = (if n = NaN then numi (fst limit) else n)
      in num_max (numi (fst limit)) (num_min (numi (snd limit)) n'))"

definition over_defaults :: "jsval \<Rightarrow> options" where
  \<comment> \<open>\<^verbatim>\<open>for (var k in opts) if (opts[k] !== undefined) o[k] = opts[k]\<close>\<close>
  "over_defaults opts =
     foldl (\<lambda>out k. if get_prop opts k = JUndef then out else obj_put out k (get_prop opts k))
       generatorDefaults (own_keys opts)"

definition clamp_opt :: "string \<Rightarrow> options \<Rightarrow> options" where
  "clamp_opt k o' = set_opt k (JNum (clampInt (opt o' k) (GENERATOR_LIMITS k))) o'"

definition required_chars :: "options \<Rightarrow> jsnum" where
  "required_chars o' =
     num_add (if truthy (opt o' ''numbers'') then to_num (opt o' ''minNumber'') else Fin 0)
       (if truthy (opt o' ''special'') then to_num (opt o' ''minSpecial'') else Fin 0)"

definition update_if :: "bool \<Rightarrow> (options \<Rightarrow> options) \<Rightarrow> options \<Rightarrow> options" where
  "update_if b f o' = (if b then f o' else o')"

definition normalizeGeneratorOptions :: "jsval \<Rightarrow> options" where
  "normalizeGeneratorOptions opts =
     (let o1 = clamp_opt ''minSpecial'' (clamp_opt ''minNumber'' (clamp_opt ''words'' (clamp_opt ''length'' (over_defaults opts))));
          o2 = update_if (\<not> truthy (opt o1 ''uppercase'') \<and> \<not> truthy (opt o1 ''lowercase'')
                     \<and> \<not> truthy (opt o1 ''numbers'') \<and> \<not> truthy (opt o1 ''special''))
                 (set_opt ''lowercase'' (JBool True)) o1;
          o3 = update_if (\<not> truthy (opt o2 ''numbers'')) (set_opt ''minNumber'' (jint 0)) o2;
          o4 = update_if (\<not> truthy (opt o3 ''special'')) (set_opt ''minSpecial'' (jint 0)) o3;
          o5 = update_if (num_lt (to_num (opt o4 ''length'')) (required_chars o4))
                 (set_opt ''length'' (JNum (num_min (numi (snd (GENERATOR_LIMITS ''length''))) (required_chars o4)))) o4
      in update_if (\<not> truthy (opt o5 ''separator'')) (set_opt ''separator'' (JStr (js ''-''))) o5)"

section \<open>The options as parameters\<close>

definition flag :: "string \<Rightarrow> jsval \<Rightarrow> (jsstr \<times> jsval) list" where
  "flag name v = (if truthy v then [(js name, JBool True)] else [])"

definition generatorParams :: "jsval \<Rightarrow> (jsstr \<times> jsval) list" where
  "generatorParams opts =
     (let o' = normalizeGeneratorOptions opts in
      if opt o' ''type'' = JStr (js ''passphrase'') then
        [(js ''passphrase'', JBool True), (js ''words'', opt o' ''words''), (js ''separator'', opt o' ''separator'')]
        @ flag ''capitalize'' (opt o' ''capitalize'') @ flag ''includeNumber'' (opt o' ''includeNumber'')
      else
        flag ''uppercase'' (opt o' ''uppercase'') @ flag ''lowercase'' (opt o' ''lowercase'')
        @ flag ''number'' (opt o' ''numbers'') @ flag ''special'' (opt o' ''special'')
        @ [(js ''length'', opt o' ''length'')]
        @ (if truthy (opt o' ''numbers'') then [(js ''minNumber'', opt o' ''minNumber'')] else [])
        @ (if truthy (opt o' ''special'') then [(js ''minSpecial'', opt o' ''minSpecial'')] else [])
        @ flag ''ambiguous'' (opt o' ''ambiguous''))"

definition GENERATE_HOST :: jsstr where "GENERATE_HOST = js ''localhost''"

fun query_texts :: "(jsstr \<times> jsval) list \<Rightarrow> jsstr list option" where
  \<comment> \<open>\<open>None\<close>: \<^verbatim>\<open>encodeURIComponent\<close> threw\<close>
  "query_texts [] = Some []"
| "query_texts ((n, v) # ps) =
     (case (if v = JBool True then Some (js ''true'') else encodeURIComponent (to_str v), query_texts ps) of
        (Some t, Some ts) \<Rightarrow> Some ((n @ js ''='' @ t) # ts)
      | _ \<Rightarrow> None)"

definition generateServeUrl :: "jsval \<Rightarrow> jsstr option" where
  "generateServeUrl opts =
     map_option (\<lambda>q. js ''http://'' @ GENERATE_HOST @ js ''/generate?'' @ join (js ''&'') q)
       (query_texts (generatorParams opts))"

definition param_args :: "jsstr \<times> jsval \<Rightarrow> jsstr list" where
  "param_args p = (if snd p = JBool True then [js ''--'' @ fst p] else [js ''--'' @ fst p, to_str (snd p)])"

definition generateCommand :: "jsval \<Rightarrow> jsstr list" where
  "generateCommand opts =
     buildCappedCommand (js ''generate'' # concat (map param_args (generatorParams opts))) MAX_TOKEN_BYTES 0"

section \<open>The server\<close>

definition GENERATE_SOCKET_NAME :: jsstr where "GENERATE_SOCKET_NAME = js ''generator.sock''"

definition GENERATE_RESPONSE_CAP :: nat where "GENERATE_RESPONSE_CAP = 64 * 1024"
definition GENERATE_REQUEST_TIMEOUT_MS :: nat where "GENERATE_REQUEST_TIMEOUT_MS = 2000"

definition generatorSocketPrelude :: "nat \<Rightarrow> jsstr" where
  \<open>generatorSocketPrelude missingExit =
     js ''test -n "${XDG_RUNTIME_DIR:-}" || exit '' @ nat_to_str missingExit @ js ''; ''
     @ js ''__gen_dir="$XDG_RUNTIME_DIR/'' @ RUNTIME_SUBDIR @ js ''"; ''
     @ js ''__gen_sock="$__gen_dir/'' @ GENERATE_SOCKET_NAME @ js ''"; ''\<close>

definition generateServeCommand :: "jsstr list" where
  \<open>generateServeCommand =
     [js ''bash'', js ''-c'',
      generatorSocketPrelude 1 @ privateDirScript (js ''__gen_dir'')
      @ js ''rm -f -- "$__gen_sock" || exit 1; ''
      @ js ''exec bw serve --hostname "unix://$__gen_sock"'']\<close>

definition generateServeRequestCommand :: "jsval \<Rightarrow> jsstr list option" where
  \<comment> \<open>the timeout is \<^verbatim>\<open>Math.round\<close> of the milliseconds, at least one second\<close>
  \<open>generateServeRequestCommand opts =
     map_option (\<lambda>url.
       let timeoutSecs = nat_to_str (max 1 ((GENERATE_REQUEST_TIMEOUT_MS + 500) div 1000));
           script = generatorSocketPrelude 7
             @ js ''if [ -L "$__gen_dir" ]; then exit 2; fi; ''
             @ js ''[ -d "$__gen_dir" ] && [ -S "$__gen_sock" ] || exit 7; ''
             @ js ''curl -q -s -S --noproxy '*' --unix-socket "$__gen_sock" --max-time '' @ timeoutSecs
             @ js '' --connect-timeout '' @ timeoutSecs
             @ js '' '' @ shellQuote url @ js '' | head -c '' @ nat_to_str GENERATE_RESPONSE_CAP
       in [js ''bash'', js ''-c'', cappedScript script MAX_STDERR_BYTES]) (generateServeUrl opts)\<close>

definition generatorProbeIsForeign :: "jsnum \<Rightarrow> jsstr \<Rightarrow> bool" where
  "generatorProbeIsForeign exitCode stdout \<longleftrightarrow> \<not> (exitCode = Fin 7 \<and> trim stdout = [])"

record serve_state =
  sv_stopping :: bool
  sv_wasReady :: bool
  sv_busy :: bool
  sv_onGeneratorScreen :: bool

record exit_action =
  ex_giveUp :: bool
  ex_dropValue :: bool
  ex_useCli :: bool

definition generatorServeExitAction :: "serve_state \<Rightarrow> exit_action" where
  "generatorServeExitAction st =
     (if sv_stopping st then \<lparr>ex_giveUp = False, ex_dropValue = False, ex_useCli = False\<rparr>
      else \<lparr>ex_giveUp = True, ex_dropValue = sv_wasReady st,
             ex_useCli = (sv_wasReady st \<or> sv_busy st) \<and> sv_onGeneratorScreen st\<rparr>)"

definition parseServeGenerated :: "jsstr \<Rightarrow> jsstr" where
  "parseServeGenerated raw =
     (case json_parse raw of
        None \<Rightarrow> []
      | Some parsed \<Rightarrow>
          if \<not> truthy parsed \<or> get_prop parsed (js ''success'') \<noteq> JBool True \<or> \<not> truthy (get_prop parsed (js ''data'')) then []
          else str_or (get_prop (get_prop parsed (js ''data'')) (js ''data'')) [])"

section \<open>Strength\<close>

text \<open>The meter computes with logarithms: real numbers stand for the doubles here. The options are
  normalized, so their lengths are numbers.\<close>

definition opt_real :: "options \<Rightarrow> string \<Rightarrow> real" where
  "opt_real o' k = (case to_num (opt o' k) of Fin q \<Rightarrow> of_rat q | _ \<Rightarrow> 0)"

definition pool_size :: "options \<Rightarrow> int" where
  "pool_size o' =
     (if truthy (opt o' ''uppercase'') then 26 else 0) + (if truthy (opt o' ''lowercase'') then 26 else 0)
     + (if truthy (opt o' ''numbers'') then 10 else 0) + (if truthy (opt o' ''special'') then 26 else 0)
     - (if truthy (opt o' ''ambiguous'') then 6 else 0)"

definition generatorEntropyBits :: "options \<Rightarrow> real" where
  "generatorEntropyBits o' =
     (if opt o' ''type'' = JStr (js ''passphrase'')
      then opt_real o' ''words'' * (129 / 10) + (if truthy (opt o' ''includeNumber'') then 33 / 10 else 0)
      else opt_real o' ''length'' * (ln (real_of_int (max (pool_size o') 2)) / ln 2))"

definition generatorStrengthLabel :: "real \<Rightarrow> jsstr" where
  "generatorStrengthLabel bits =
     (if 120 \<le> bits then js ''Excellent'' else if 90 \<le> bits then js ''Strong''
      else if 60 \<le> bits then js ''Good'' else if 40 \<le> bits then js ''Fair'' else js ''Weak'')"

record strength =
  sr_bits :: int
  sr_label :: jsstr
  sr_fraction :: real

definition generatorStrength :: "jsval \<Rightarrow> strength" where
  "generatorStrength opts =
     (let bits = generatorEntropyBits (normalizeGeneratorOptions opts)
      in \<lparr>sr_bits = \<lfloor>bits + 1 / 2\<rfloor>, sr_label = generatorStrengthLabel bits, sr_fraction = max 0 (min 1 (bits / 128))\<rparr>)"

section \<open>Options are brought into range\<close>

definition satisfiable :: "options \<Rightarrow> bool" where
  \<comment> \<open>what \<^verbatim>\<open>bw generate\<close> needs: sizes in range, a character set, and room for the required characters\<close>
  "satisfiable o' \<longleftrightarrow>
     (\<exists>len wds mn ms. opt o' ''length'' = jint len \<and> 5 \<le> len \<and> len \<le> 128
        \<and> opt o' ''words'' = jint wds \<and> 3 \<le> wds \<and> wds \<le> 20
        \<and> opt o' ''minNumber'' = jint mn \<and> 0 \<le> mn \<and> mn \<le> 9
        \<and> opt o' ''minSpecial'' = jint ms \<and> 0 \<le> ms \<and> ms \<le> 9
        \<and> mn + ms \<le> len
        \<and> (truthy (opt o' ''numbers'') \<or> mn = 0) \<and> (truthy (opt o' ''special'') \<or> ms = 0))
     \<and> (truthy (opt o' ''uppercase'') \<or> truthy (opt o' ''lowercase'') \<or> truthy (opt o' ''numbers'') \<or> truthy (opt o' ''special''))
     \<and> truthy (opt o' ''separator'')"

lemma clamp_range:
  assumes "a \<le> b"
  shows "\<exists>n. clampInt v (a, b) = numi n \<and> a \<le> n \<and> n \<le> b"
proof -
  let ?n = "if num_floor (to_num v) = NaN then numi a else num_floor (to_num v)"
  have c: "clampInt v (a, b) = num_max (numi a) (num_min (numi b) ?n)" by (simp add: clampInt_def Let_def)
  consider k where "?n = numi k" | "?n = PosInf" | "?n = NegInf" by (cases "to_num v") auto
  then show ?thesis
  proof cases
    case (1 k)
    have "clampInt v (a, b) = numi (max a (min b k))" unfolding c 1 by (auto simp: num_max_def num_min_def max_def min_def)
    then show ?thesis using assms by (intro exI [of _ "max a (min b k)"]) auto
  qed (use assms in \<open>auto simp: c num_max_def num_min_def\<close>)
qed

lemma clamp_int: "a \<le> n \<Longrightarrow> n \<le> b \<Longrightarrow> clampInt (jint n) (a, b) = numi n"
  by (auto simp: clampInt_def Let_def num_max_def num_min_def)

lemma opt_update_if [simp]: "opt (update_if b (set_opt k v) o') j = (if b \<and> j = k then v else opt o' j)"
  by (simp add: update_if_def)

lemma opt_clamp [simp]:
  "opt (clamp_opt k o') j = (if j = k then JNum (clampInt (opt o' k) (GENERATOR_LIMITS k)) else opt o' j)"
  by (simp add: clamp_opt_def)

lemma limits [simp]:
  "GENERATOR_LIMITS ''length'' = (5, 128)" "GENERATOR_LIMITS ''words'' = (3, 20)"
  "GENERATOR_LIMITS ''minNumber'' = (0, 9)" "GENERATOR_LIMITS ''minSpecial'' = (0, 9)"
  by (simp_all add: GENERATOR_LIMITS_def)

text \<open>What normalizing does to each option, from the clamped sizes on.\<close>

lemma normalize_opts:
  fixes opts
  defines "d \<equiv> over_defaults opts"
  assumes "clampInt (opt d ''length'') (5, 128) = numi len" "clampInt (opt d ''words'') (3, 20) = numi wds"
    "clampInt (opt d ''minNumber'') (0, 9) = numi mn" "clampInt (opt d ''minSpecial'') (0, 9) = numi ms"
  defines "mn' \<equiv> (if truthy (opt d ''numbers'') then mn else 0)" and "ms' \<equiv> (if truthy (opt d ''special'') then ms else 0)"
  shows "opt (normalizeGeneratorOptions opts) ''length'' = jint (if len < mn' + ms' then min 128 (mn' + ms') else len)"
    "opt (normalizeGeneratorOptions opts) ''words'' = jint wds"
    "opt (normalizeGeneratorOptions opts) ''minNumber'' = jint mn'"
    "opt (normalizeGeneratorOptions opts) ''minSpecial'' = jint ms'"
proof -
  have num: "num_min (numi a) (numi b) = numi (min a b)" for a b by (auto simp: num_min_def min_def)
  note defs = normalizeGeneratorOptions_def Let_def required_chars_def mn'_def ms'_def d_def
  show "opt (normalizeGeneratorOptions opts) ''words'' = jint wds"
    "opt (normalizeGeneratorOptions opts) ''minNumber'' = jint mn'"
    "opt (normalizeGeneratorOptions opts) ''minSpecial'' = jint ms'"
    using assms(2-5) unfolding defs by simp_all
  show "opt (normalizeGeneratorOptions opts) ''length'' = jint (if len < mn' + ms' then min 128 (mn' + ms') else len)"
    using assms(2-5) num [of 128 "mn' + ms'"] unfolding defs by auto
qed

lemma get_over_defaults:
  "obj_get (over_defaults opts) k =
     (if k \<in> set (own_keys opts) \<and> get_prop opts k \<noteq> JUndef then get_prop opts k else obj_get generatorDefaults k)"
proof -
  have "obj_get (foldl (\<lambda>out k. if get_prop opts k = JUndef then out else obj_put out k (get_prop opts k)) d ks) k
      = (if k \<in> set ks \<and> get_prop opts k \<noteq> JUndef then get_prop opts k else obj_get d k)" for d ks
    by (induction ks arbitrary: d) auto
  then show ?thesis by (simp add: over_defaults_def)
qed

lemma normalize_rest:
  "k \<notin> js ` {''length'', ''words'', ''minNumber'', ''minSpecial'', ''lowercase'', ''separator''} \<Longrightarrow>
     obj_get (normalizeGeneratorOptions opts) k = obj_get (over_defaults opts) k"
  by (auto simp: normalizeGeneratorOptions_def Let_def update_if_def clamp_opt_def)

lemma normalize_lowercase:
  "opt (normalizeGeneratorOptions opts) ''lowercase'' =
     (let o' = over_defaults opts
      in if \<not> truthy (opt o' ''uppercase'') \<and> \<not> truthy (opt o' ''lowercase'') \<and> \<not> truthy (opt o' ''numbers'') \<and> \<not> truthy (opt o' ''special'')
         then JBool True else opt o' ''lowercase'')"
  by (simp add: normalizeGeneratorOptions_def Let_def)

lemma normalize_separator:
  "opt (normalizeGeneratorOptions opts) ''separator'' =
     (if truthy (opt (over_defaults opts) ''separator'') then opt (over_defaults opts) ''separator'' else JStr (js ''-''))"
  by (simp add: normalizeGeneratorOptions_def Let_def)

lemma normalize_satisfiable: "satisfiable (normalizeGeneratorOptions opts)"
proof -
  let ?d = "over_defaults opts" and ?o = "normalizeGeneratorOptions opts"
  obtain len wds mn ms where c: "clampInt (opt ?d ''length'') (5, 128) = numi len" "clampInt (opt ?d ''words'') (3, 20) = numi wds"
    "clampInt (opt ?d ''minNumber'') (0, 9) = numi mn" "clampInt (opt ?d ''minSpecial'') (0, 9) = numi ms"
    and r: "5 \<le> len" "len \<le> 128" "3 \<le> wds" "wds \<le> 20" "0 \<le> mn" "mn \<le> 9" "0 \<le> ms" "ms \<le> 9"
    using clamp_range [of 5 128 "opt ?d ''length''"] clamp_range [of 3 20 "opt ?d ''words''"]
      clamp_range [of 0 9 "opt ?d ''minNumber''"] clamp_range [of 0 9 "opt ?d ''minSpecial''"] by fastforce
  define mn' where "mn' = (if truthy (opt ?d ''numbers'') then mn else 0)"
  define ms' where "ms' = (if truthy (opt ?d ''special'') then ms else 0)"
  have rest: "opt ?o ''numbers'' = opt ?d ''numbers''" "opt ?o ''special'' = opt ?d ''special''"
    "opt ?o ''uppercase'' = opt ?d ''uppercase''" by (simp_all add: normalize_rest)
  have m: "0 \<le> mn'" "mn' \<le> 9" "0 \<le> ms'" "ms' \<le> 9" using r by (auto simp: mn'_def ms'_def)
  note n = normalize_opts [OF c, folded mn'_def ms'_def]
  have "\<exists>len. opt ?o ''length'' = jint len \<and> 5 \<le> len \<and> len \<le> 128 \<and> mn' + ms' \<le> len"
    using n(1) m r by (intro exI [of _ "if len < mn' + ms' then min 128 (mn' + ms') else len"]) auto
  moreover have "(truthy (opt ?o ''numbers'') \<or> mn' = 0) \<and> (truthy (opt ?o ''special'') \<or> ms' = 0)"
    unfolding rest by (simp add: mn'_def ms'_def)
  moreover have "truthy (opt ?o ''uppercase'') \<or> truthy (opt ?o ''lowercase'') \<or> truthy (opt ?o ''numbers'') \<or> truthy (opt ?o ''special'')"
    unfolding rest normalize_lowercase Let_def by auto
  moreover have "truthy (opt ?o ''separator'')" by (simp add: normalize_separator)
  ultimately show ?thesis unfolding satisfiable_def using n(2-4) m r by blast
qed

lemma obj_get_Some: "obj_get ps k \<noteq> JUndef \<Longrightarrow> k \<in> fst ` set ps"
  by (cases "map_of ps k") (auto simp: obj_get_def intro: map_of_SomeD [THEN image_eqI [rotated]])

lemma defaults_defined:
  "obj_get generatorDefaults k \<noteq> JUndef \<Longrightarrow> obj_get (normalizeGeneratorOptions opts) k \<noteq> JUndef"
proof (cases "k \<in> js ` {''length'', ''words'', ''minNumber'', ''minSpecial'', ''lowercase'', ''separator''}")
  case False
  assume "obj_get generatorDefaults k \<noteq> JUndef"
  then show ?thesis by (simp add: normalize_rest [OF False] get_over_defaults)
next
  case True
  let ?o = "normalizeGeneratorOptions opts"
  have "opt generatorDefaults ''lowercase'' = JBool True"
    by (simp add: generatorDefaults_def GENERATOR_DEFAULTS_def obj_get_def js_unfold key_before_def is_index_key_def)
  then have "opt ?o ''lowercase'' \<noteq> JUndef"
    by (simp add: normalize_lowercase get_over_defaults Let_def)
  moreover have "opt ?o ''separator'' \<noteq> JUndef" using normalize_satisfiable [of opts] unfolding satisfiable_def by force
  moreover have "\<exists>a b c d. opt ?o ''length'' = jint a \<and> opt ?o ''words'' = jint b \<and> opt ?o ''minNumber'' = jint c \<and> opt ?o ''minSpecial'' = jint d"
    using normalize_satisfiable [of opts] unfolding satisfiable_def by blast
  ultimately show ?thesis using True by auto
qed

lemma over_normalized: "obj_get (over_defaults (JObj (normalizeGeneratorOptions opts))) k = obj_get (normalizeGeneratorOptions opts) k"
proof (cases "obj_get (normalizeGeneratorOptions opts) k = JUndef")
  case True
  then have "obj_get generatorDefaults k = JUndef" using defaults_defined by blast
  with True show ?thesis by (simp add: get_over_defaults)
next
  case False
  then show ?thesis using obj_get_Some [OF False] by (simp add: get_over_defaults own_keys_def)
qed

lemma normalize_idem:
  "obj_get (normalizeGeneratorOptions (JObj (normalizeGeneratorOptions opts))) k = obj_get (normalizeGeneratorOptions opts) k"
proof -
  let ?o = "normalizeGeneratorOptions opts" and ?p = "normalizeGeneratorOptions (JObj (normalizeGeneratorOptions opts))"
  obtain len wds mn ms where v: "opt ?o ''length'' = jint len" "opt ?o ''words'' = jint wds" "opt ?o ''minNumber'' = jint mn"
    "opt ?o ''minSpecial'' = jint ms" and r: "5 \<le> len" "len \<le> 128" "3 \<le> wds" "wds \<le> 20" "0 \<le> mn" "mn \<le> 9" "0 \<le> ms" "ms \<le> 9"
    "mn + ms \<le> len" "truthy (opt ?o ''numbers'') \<or> mn = 0" "truthy (opt ?o ''special'') \<or> ms = 0"
    and t: "truthy (opt ?o ''uppercase'') \<or> truthy (opt ?o ''lowercase'') \<or> truthy (opt ?o ''numbers'') \<or> truthy (opt ?o ''special'')"
    "truthy (opt ?o ''separator'')"
    using normalize_satisfiable [of opts] unfolding satisfiable_def by blast
  have c: "clampInt (opt (over_defaults (JObj ?o)) ''length'') (5, 128) = numi len"
    "clampInt (opt (over_defaults (JObj ?o)) ''words'') (3, 20) = numi wds"
    "clampInt (opt (over_defaults (JObj ?o)) ''minNumber'') (0, 9) = numi mn"
    "clampInt (opt (over_defaults (JObj ?o)) ''minSpecial'') (0, 9) = numi ms"
    unfolding over_normalized v using r by (simp_all add: clamp_int)
  note n = normalize_opts [OF c, unfolded over_normalized]
  have "opt ?p ''length'' = jint len" "opt ?p ''words'' = jint wds" "opt ?p ''minNumber'' = jint mn" "opt ?p ''minSpecial'' = jint ms"
    using n r by auto
  moreover have "opt ?p ''lowercase'' = opt ?o ''lowercase''" "opt ?p ''separator'' = opt ?o ''separator''"
    using t by (auto simp: normalize_lowercase [of "JObj ?o"] normalize_separator [of "JObj ?o"] over_normalized Let_def)
  ultimately show ?thesis using v normalize_rest [of k "JObj ?o"] over_normalized [of opts k] by fastforce
qed

text \<open>C39: Whatever the form and the stored settings hold (nothing, text, huge or broken numbers), the
  options used can be met: the sizes are whole numbers in range, at least one character set is on,
  the required digits and symbols are counted only for sets that are on and fit the length, and the
  separator is not empty. Normalizing options that were normalized changes nothing.\<close>
theorem generator_options_satisfiable:
  "satisfiable (normalizeGeneratorOptions opts)
   \<and> obj_get (normalizeGeneratorOptions (JObj (normalizeGeneratorOptions opts))) k = obj_get (normalizeGeneratorOptions opts) k"
  using normalize_satisfiable normalize_idem by blast

section \<open>Both ways to ask\<close>

definition query_pair :: "jsstr \<Rightarrow> jsstr \<times> jsstr option" where
  \<comment> \<open>how a server reads one parameter: the name before the first equals sign, the rest decoded\<close>
  "query_pair s = (takeWhile (\<lambda>c. c \<noteq> 61) s, decodeURIComponent (drop 1 (dropWhile (\<lambda>c. c \<noteq> 61) s)))"

lemma param_names: "(n, v) \<in> set (generatorParams opts) \<Longrightarrow> c \<in> set n \<Longrightarrow> is_alpha c"
  by (auto simp: generatorParams_def flag_def Let_def js_def is_alpha_def split: if_splits)

lemma params_not_Nil: "generatorParams opts \<noteq> []"
  by (simp add: generatorParams_def Let_def)

lemma query_pair_text:
  assumes "61 \<notin> set n"
  shows "query_pair (n @ js ''='' @ t) = (n, decodeURIComponent t)"
proof -
  have "takeWhile (\<lambda>c. c \<noteq> 61) n = n" using assms by (auto simp: takeWhile_eq_all_conv)
  then show ?thesis using assms by (simp add: query_pair_def js_def takeWhile_append dropWhile_append)
qed

lemma query_texts_read:
  assumes "query_texts ps = Some ts" and "\<forall>(n, v)\<in>set ps. units_ok (to_str v) \<and> (\<forall>c\<in>set n. is_alpha c)"
  shows "map query_pair ts = map (\<lambda>(n, v). (n, Some (to_str v))) ps \<and> (\<forall>t\<in>set ts. 38 \<notin> set t)"
  using assms
proof (induction ps arbitrary: ts)
  case (Cons p ps)
  obtain n v where p: "p = (n, v)" by fastforce
  with Cons.prems(1) obtain e us where e: "query_texts ps = Some us" "ts = (n @ js ''='' @ e) # us"
    and v: "if v = JBool True then e = js ''true'' else encodeURIComponent (to_str v) = Some e"
    by (auto split: option.splits if_splits)
  have n: "61 \<notin> set n" "38 \<notin> set n" using Cons.prems(2) p by (auto simp: is_alpha_def)
  have "decodeURIComponent e = Some (to_str v) \<and> 38 \<notin> set e"
  proof (cases "v = JBool True")
    case True
    then show ?thesis using v decode_no_escape [of e] by (simp add: js_def)
  next
    case False
    then have "encodeURIComponent (to_str v) = Some e" "units_ok (to_str v)" using v Cons.prems(2) p by auto
    then show ?thesis using decode_encode encode_units [of "to_str v" e 38]
      by (auto simp: uri_unreserved_def is_alpha_def is_digit_def)
  qed
  moreover have "38 \<notin> set (js ''='')" by (simp add: js_def)
  ultimately show ?case using Cons.IH [OF e(1)] Cons.prems(2) n by (simp add: e(2) p query_pair_text [OF n(1)])
qed simp

text \<open>\<^verbatim>\<open>bw serve\<close> and \<^verbatim>\<open>bw generate\<close> are asked for the same password. A server that splits the query of
  the URL at ampersands and equals signs and decodes the values reads exactly the parameters of the
  options, whatever characters the separator holds; and the command line is \<^verbatim>\<open>bw generate\<close> with
  exactly those parameters as flags, one word each.\<close>
theorem generator_transports_agree:
  assumes "generateServeUrl opts = Some url" and "\<forall>(n, v)\<in>set (generatorParams opts). units_ok (to_str v)"
  shows "\<exists>q. url = js ''http://localhost/generate?'' @ q
      \<and> map query_pair (split_on 38 q) = map (\<lambda>(n, v). (n, Some (to_str v))) (generatorParams opts)"
    and "\<exists>inner fuel. generateCommand opts = [js ''bash'', js ''-c'', cappedScript inner 0]
      \<and> sh_words fuel inner
        = Some (js ''bw'' # js ''generate''
            # concat (map (\<lambda>(n, v). if v = JBool True then [js ''--'' @ n] else [js ''--'' @ n, to_str v]) (generatorParams opts)),
            js ''| head -c 4096'')"
proof -
  obtain ts where ts: "query_texts (generatorParams opts) = Some ts"
    and url: "url = js ''http://'' @ GENERATE_HOST @ js ''/generate?'' @ join (js ''&'') ts"
    using assms(1) by (auto simp: generateServeUrl_def)
  have r: "map query_pair ts = map (\<lambda>(n, v). (n, Some (to_str v))) (generatorParams opts)" "\<forall>t\<in>set ts. 38 \<notin> set t"
    using query_texts_read [OF ts] assms(2) param_names [of _ _ opts] by fastforce+
  have "ts \<noteq> []" using r(1) params_not_Nil [of opts] by auto
  then have "split_on 38 (join (js ''&'') ts) = ts" using r(2) split_on_join [of ts 38] by (auto simp: js_def)
  then show "\<exists>q. url = js ''http://localhost/generate?'' @ q
      \<and> map query_pair (split_on 38 q) = map (\<lambda>(n, v). (n, Some (to_str v))) (generatorParams opts)"
    using r(1) url by (intro exI [of _ "join (js ''&'') ts"]) (simp add: GENERATE_HOST_def js_def)
next
  let ?args = "js ''generate'' # concat (map param_args (generatorParams opts))"
  let ?t = "js '' | head -c '' @ nat_to_str MAX_TOKEN_BYTES"
  have "nat_to_str 4096 = js ''4096''" by (simp add: nat_to_str_unfold js_def)
  then have "command_end ?t" "dropWhile sh_blank ?t = js ''| head -c 4096''"
    by (auto simp: command_end_def word_end_def js_def sh_blank_def sh_meta_def MAX_TOKEN_BYTES_def)
  then have "sh_words (length ?args + 2) (capped_inner ?args @ ?t) = Some (js ''bw'' # ?args, js ''| head -c 4096'')"
    using capped_inner_words [of ?t ?args "length ?args + 2"] by simp
  moreover have "param_args = (\<lambda>(n, v). if v = JBool True then [js ''--'' @ n] else [js ''--'' @ n, to_str v])"
    by (auto simp: param_args_def)
  ultimately show "\<exists>inner fuel. generateCommand opts = [js ''bash'', js ''-c'', cappedScript inner 0]
      \<and> sh_words fuel inner
        = Some (js ''bw'' # js ''generate''
            # concat (map (\<lambda>(n, v). if v = JBool True then [js ''--'' @ n] else [js ''--'' @ n, to_str v]) (generatorParams opts)),
            js ''| head -c 4096'')"
    by (intro exI [of _ "capped_inner ?args @ ?t"] exI [of _ "length ?args + 2"])
      (simp add: generateCommand_def buildCappedCommand_def Let_def MAX_TOKEN_BYTES_def)
qed

definition demo_options :: jsval where
  "demo_options = JObj [(js ''type'', JStr (js ''passphrase'')), (js ''words'', jint 4), (js ''separator'', JStr [38, 32, 8364])]"

lemma generatorDefaults_eq: "generatorDefaults = GENERATOR_DEFAULTS"
  by (simp add: generatorDefaults_def GENERATOR_DEFAULTS_def js_unfold key_before_def is_index_key_def)

lemma demo_over_defaults:
  "opt (over_defaults demo_options) ''type'' = JStr (js ''passphrase'')" "opt (over_defaults demo_options) ''words'' = jint 4"
  "opt (over_defaults demo_options) ''separator'' = JStr [38, 32, 8364]" "opt (over_defaults demo_options) ''length'' = jint 14"
  "opt (over_defaults demo_options) ''minNumber'' = jint 1" "opt (over_defaults demo_options) ''minSpecial'' = jint 1"
  "opt (over_defaults demo_options) ''capitalize'' = JBool False" "opt (over_defaults demo_options) ''includeNumber'' = JBool False"
  unfolding get_over_defaults
  by (simp_all add: demo_options_def own_keys_def obj_get_def generatorDefaults_eq GENERATOR_DEFAULTS_def)

lemma demo_params:
  "generatorParams demo_options
     = [(js ''passphrase'', JBool True), (js ''words'', jint 4), (js ''separator'', JStr [38, 32, 8364])]"
proof -
  have "opt (normalizeGeneratorOptions demo_options) ''words'' = jint 4"
    by (rule normalize_opts(2) [of _ 14 _ 1 1]; unfold demo_over_defaults; rule clamp_int; simp)
  then show ?thesis
    by (simp add: generatorParams_def Let_def normalize_rest normalize_separator demo_over_defaults flag_def)
qed

theorem generator_transports_agree_witness:
  "\<exists>url q. generateServeUrl demo_options = Some url \<and> url = js ''http://localhost/generate?'' @ q
     \<and> map query_pair (split_on 38 q)
       = [(js ''passphrase'', Some (js ''true'')), (js ''words'', Some (js ''4'')), (js ''separator'', Some [38, 32, 8364])]"
proof -
  have four: "to_str (jint 4) = js ''4''" using num_to_str_int [of 4] by (simp add: int_to_str_def nat_to_str_unfold js_def)
  have "generateServeUrl demo_options \<noteq> None"
    by (simp add: generateServeUrl_def demo_params four [simplified])
      (simp add: js_unfold uri_unreserved_def is_high_surrogate_def is_low_surrogate_def)
  then obtain url where url: "generateServeUrl demo_options = Some url" by blast
  have "\<exists>q. url = js ''http://localhost/generate?'' @ q
      \<and> map query_pair (split_on 38 q) = map (\<lambda>(n, v). (n, Some (to_str v))) (generatorParams demo_options)"
    by (rule generator_transports_agree(1) [OF url])
      (simp add: demo_params four [simplified], simp add: units_ok_def js_def)
  then show ?thesis using url four by (simp add: demo_params)
qed

section \<open>The meter\<close>

lemma strength_fraction: "0 \<le> sr_fraction (generatorStrength opts) \<and> sr_fraction (generatorStrength opts) \<le> 1"
  by (simp add: generatorStrength_def Let_def)

lemma bits_at_least: "10 \<le> generatorEntropyBits (normalizeGeneratorOptions opts)"
proof -
  let ?o = "normalizeGeneratorOptions opts"
  obtain len wds where v: "opt ?o ''length'' = jint len" "opt ?o ''words'' = jint wds" "5 \<le> len" "3 \<le> wds"
    and t: "truthy (opt ?o ''uppercase'') \<or> truthy (opt ?o ''lowercase'') \<or> truthy (opt ?o ''numbers'') \<or> truthy (opt ?o ''special'')"
    using normalize_satisfiable [of opts] unfolding satisfiable_def by blast
  have "4 \<le> pool_size ?o" using t by (auto simp: pool_size_def)
  then have "ln 4 \<le> ln (real_of_int (max (pool_size ?o) 2))" by simp
  moreover have "ln 4 = 2 * ln (2::real)" using ln_realpow [of 2 2] by simp
  ultimately have "2 \<le> ln (real_of_int (max (pool_size ?o) 2)) / ln 2" by (simp add: pos_le_divide_eq)
  moreover have "5 \<le> opt_real ?o ''length''" "3 \<le> opt_real ?o ''words''" using v by (simp_all add: opt_real_def)
  ultimately have "5 * 2 \<le> opt_real ?o ''length'' * (ln (real_of_int (max (pool_size ?o) 2)) / ln 2)"
    by (intro mult_mono) auto
  with \<open>3 \<le> opt_real ?o ''words''\<close> show ?thesis by (simp add: generatorEntropyBits_def)
qed

end
