(* ===== verification/Attachments.thy ===== *)
theory Attachments
  imports Shell Agent Items
begin

text \<open>
  Saving an attachment, as \<^verbatim>\<open>BitwardenModel.js\<close> does it: the file name of the vault, which is not
  trusted, becomes a plain name; the declared size, which is only a claim, becomes the numbers of
  the download script; and the script \<open>ATTACHMENT_CLAIM_SCRIPT\<close> claims a free name for the staged
  file without ever touching an entry that is already there, while other programs change the
  download folder under it.
\<close>

section \<open>File names\<close>

definition file_sep :: "nat \<Rightarrow> bool" where
  \<comment> \<open>the class \<^verbatim>\<open>[\\/]\<close>\<close>
  "file_sep c \<longleftrightarrow> c = 92 \<or> c = 47"

definition strip_dirs :: "jsstr \<Rightarrow> jsstr" where
  \<comment> \<open>\<^verbatim>\<open>replace(/^.*[\\/]/, "")\<close>: through the last separator of the first line\<close>
  "strip_dirs s =
     (let l = takeWhile (\<lambda>c. \<not> is_line_end c) s; r = dropWhile (\<lambda>c. \<not> is_line_end c) s
      in rev (takeWhile (\<lambda>c. \<not> file_sep c) (rev l)) @ r)"

definition name_lead :: "nat \<Rightarrow> bool" where
  \<comment> \<open>the class \<^verbatim>\<open>[\s.\-]\<close>\<close>
  "name_lead c \<longleftrightarrow> is_ws c \<or> c = 46 \<or> c = 45"

definition shorten_name :: "jsstr \<Rightarrow> jsstr" where
  \<comment> \<open>at most 128 units, keeping a short extension\<close>
  "shorten_name name =
     (if length name > 128 then
        (let ext = (case last_index_of 46 name of
                      Some dot \<Rightarrow> if 0 < dot \<and> length name - dot \<le> 12 then drop dot name else []
                    | None \<Rightarrow> [])
         in take (128 - length ext) name @ ext)
      else name)"

definition safeAttachmentFileName :: "jsstr \<Rightarrow> jsstr" where
  "safeAttachmentFileName raw =
     (let inert = map (\<lambda>c. if is_control c \<or> file_sep c then 95 else c) (strip_dirs raw);
          name = shorten_name (trim_end (dropWhile name_lead inert))
      in if name = [] then js ''attachment'' else name)"

definition parentDirectory :: "jsstr \<Rightarrow> jsstr" where
  "parentDirectory p =
     (case last_index_of 47 p of None \<Rightarrow> [] | Some i \<Rightarrow> if i = 0 then js ''/'' else take i p)"

definition baseName :: "jsstr \<Rightarrow> jsstr" where
  "baseName p = (case last_index_of 47 p of None \<Rightarrow> p | Some i \<Rightarrow> drop (i + 1) p)"

definition ATTACHMENT_NAME_ENV :: jsstr where "ATTACHMENT_NAME_ENV = js ''QSBW_ATTACHMENT_NAME''"

definition attachmentDownloadEnv :: "jsstr \<Rightarrow> (jsstr \<times> jsstr) list" where
  "attachmentDownloadEnv fileName = [(ATTACHMENT_NAME_ENV, safeAttachmentFileName fileName)]"

section \<open>The claim script\<close>

text \<open>
  The script runs in Node. Its steps between two system calls are functions of the answer of the
  last call; the call it waits for is part of its state. Candidate names are made from the folder,
  the name and a counter. \<^verbatim>\<open>fd\<close> and \<^verbatim>\<open>src\<close> are open files, which stay the same file whatever happens
  to their names: here they are file numbers.
\<close>

definition valid_claim_name :: "jsstr \<Rightarrow> bool" where
  \<comment> \<open>the negation of the guard at the top of the script\<close>
  "valid_claim_name name \<longleftrightarrow> name \<noteq> [] \<and> 47 \<notin> set name \<and> 0 \<notin> set name \<and> name \<noteq> js ''.'' \<and> name \<noteq> js ''..''"

definition name_stem :: "jsstr \<Rightarrow> jsstr" where
  "name_stem name = (case last_index_of 46 name of None \<Rightarrow> name | Some dot \<Rightarrow> take dot name)"

definition name_ext :: "jsstr \<Rightarrow> jsstr" where
  "name_ext name = (case last_index_of 46 name of None \<Rightarrow> [] | Some dot \<Rightarrow> drop dot name)"

definition candidate :: "jsstr \<Rightarrow> jsstr \<Rightarrow> nat \<Rightarrow> jsstr" where
  "candidate dir name n =
     dir @ js ''/'' @ (if n = 0 then name else name_stem name @ js '' ('' @ nat_to_str n @ js '')'' @ name_ext name)"

datatype exit_kind =
    Saved jsstr            \<comment> \<open>exit 0, the path printed\<close>
  | Refused                \<comment> \<open>exit 1 before anything was created\<close>
  | Interrupted            \<comment> \<open>exit 143 before anything was created\<close>
  | Abandoned int bool     \<comment> \<open>exit code; whether the claimed file was emptied\<close>

datatype call =
    Link nat               \<comment> \<open>\<^verbatim>\<open>fs.linkSync(tmp, c)\<close> for candidate \<open>n\<close>\<close>
  | Create nat             \<comment> \<open>\<^verbatim>\<open>fs.openSync(c, "wx")\<close>\<close>
  | OpenSource
  | Read
  | Write "nat list" nat   \<comment> \<open>the buffer, and the offset already written\<close>
  | Truncate int
  | Exit exit_kind

datatype reply = Ok | Exists | Failed | Opened nat | Bytes "nat list" | Wrote nat

record claim =
  hardlink :: bool
  cand :: "jsstr option"
  fd :: "nat option"
  src :: "nat option"
  busy :: bool
  stopped :: bool
  awaits :: call

definition try_name :: "claim \<Rightarrow> nat \<Rightarrow> claim" where
  \<comment> \<open>the head of the loop over the candidates\<close>
  "try_name s n = s\<lparr>awaits := (if n \<le> 999 then (if hardlink s then Link n else Create n) else Exit Refused)\<rparr>"

definition claim_start :: "jsstr \<Rightarrow> claim" where
  "claim_start name =
     (let s = \<lparr>hardlink = True, cand = None, fd = None, src = None, busy = False, stopped = False, awaits = Exit Refused\<rparr>
      in if valid_claim_name name then try_name s 0 else s)"

definition abandon :: "int \<Rightarrow> claim \<Rightarrow> claim" where
  "abandon rc s = s\<lparr>awaits := Truncate rc\<rparr>"

definition pump :: "claim \<Rightarrow> claim" where
  "pump s = s\<lparr>busy := True, awaits := Read\<rparr>"

definition put :: "nat list \<Rightarrow> nat \<Rightarrow> claim \<Rightarrow> claim" where
  "put buf off s = s\<lparr>busy := True, awaits := Write buf off\<rparr>"

definition after_io :: "bool \<Rightarrow> claim \<Rightarrow> claim \<Rightarrow> claim" where
  \<comment> \<open>the head of both callbacks: a signal seen meanwhile, an error, and otherwise \<open>nxt\<close>\<close>
  "after_io err nxt s = (if stopped s then abandon 143 (s\<lparr>busy := False\<rparr>) else if err then abandon 1 (s\<lparr>busy := False\<rparr>) else nxt)"

fun react :: "jsstr \<Rightarrow> jsstr \<Rightarrow> claim \<Rightarrow> reply \<Rightarrow> claim" where
  "react dir name s r =
     (case (awaits s, r) of
        (Link n, Ok) \<Rightarrow> s\<lparr>awaits := Exit (Saved (candidate dir name n))\<rparr>
      | (Link n, Exists) \<Rightarrow> try_name s (n + 1)
      | (Link n, _) \<Rightarrow> s\<lparr>hardlink := False, awaits := Create n\<rparr>
      | (Create n, Opened i) \<Rightarrow> s\<lparr>fd := Some i, cand := Some (candidate dir name n), awaits := OpenSource\<rparr>
      | (Create n, Exists) \<Rightarrow> try_name s (n + 1)
      | (Create n, _) \<Rightarrow> s\<lparr>awaits := Exit Refused\<rparr>
      | (OpenSource, Opened i) \<Rightarrow> pump (s\<lparr>src := Some i\<rparr>)
      | (OpenSource, _) \<Rightarrow> abandon 1 s
      | (Read, Bytes bs) \<Rightarrow>
          after_io False (if bs = [] then s\<lparr>busy := False, awaits := Exit (Saved (the (cand s)))\<rparr> else put bs 0 s) s
      | (Read, _) \<Rightarrow> after_io True s s
      | (Write buf off, Wrote w) \<Rightarrow> after_io False (if off + w < length buf then put buf (off + w) s else pump s) s
      | (Write buf off, _) \<Rightarrow> after_io True s s
      | (Truncate rc, Ok) \<Rightarrow> s\<lparr>awaits := Exit (Abandoned rc True)\<rparr>
      | (Truncate rc, _) \<Rightarrow> s\<lparr>awaits := Exit (Abandoned rc False)\<rparr>
      | (Exit e, _) \<Rightarrow> s)"

declare react.simps [simp del]

definition on_signal :: "claim \<Rightarrow> claim" where
  \<comment> \<open>the handler of SIGTERM, SIGHUP and SIGINT\<close>
  "on_signal s =
     (if fd s = None then s\<lparr>awaits := Exit Interrupted\<rparr>
      else if busy s then s\<lparr>stopped := True\<rparr> else abandon 143 (s\<lparr>stopped := True\<rparr>))"

section \<open>The file system\<close>

text \<open>
  Paths name files; a name may also be a symbolic link, which is an entry like any other: neither
  \<^verbatim>\<open>link\<close> nor an exclusive \<^verbatim>\<open>open\<close> follows it. \<open>kernel\<close> says which answers a call may get and what it
  does: a call may always fail, a read or write may be short, and creating a file needs a free name.
\<close>

record files =
  names :: "jsstr \<Rightarrow> nat option"
  bytes :: "nat \<Rightarrow> nat list option"
  rpos :: nat
  wpos :: nat

definition overwrite :: "nat \<Rightarrow> nat list \<Rightarrow> nat list \<Rightarrow> nat list" where
  \<comment> \<open>a write past the end leaves a hole of zeros\<close>
  "overwrite p new old = take p (old @ replicate (p - length old) 0) @ new @ drop (p + length new) old"

inductive kernel :: "jsstr \<Rightarrow> jsstr \<Rightarrow> jsstr \<Rightarrow> claim \<Rightarrow> files \<Rightarrow> reply \<Rightarrow> files \<Rightarrow> bool"
  for dir name tmp :: jsstr and s :: claim where
  k_link: "\<lbrakk>awaits s = Link n; names f tmp = Some i; names f (candidate dir name n) = None\<rbrakk>
    \<Longrightarrow> kernel dir name tmp s f Ok (f\<lparr>names := (names f)(candidate dir name n \<mapsto> i)\<rparr>)"
| k_link_exists: "\<lbrakk>awaits s = Link n; names f (candidate dir name n) = Some j\<rbrakk> \<Longrightarrow> kernel dir name tmp s f Exists f"
| k_create: "\<lbrakk>awaits s = Create n; names f (candidate dir name n) = None; bytes f i = None\<rbrakk>
    \<Longrightarrow> kernel dir name tmp s f (Opened i)
          (f\<lparr>names := (names f)(candidate dir name n \<mapsto> i), bytes := (bytes f)(i \<mapsto> []), wpos := 0\<rparr>)"
| k_create_exists: "\<lbrakk>awaits s = Create n; names f (candidate dir name n) = Some j\<rbrakk> \<Longrightarrow> kernel dir name tmp s f Exists f"
| k_open: "\<lbrakk>awaits s = OpenSource; names f tmp = Some i\<rbrakk> \<Longrightarrow> kernel dir name tmp s f (Opened i) (f\<lparr>rpos := 0\<rparr>)"
| k_read: "\<lbrakk>awaits s = Read; src s = Some i; bytes f i = Some bs; n \<le> 2 ^ 20; n = 0 \<longleftrightarrow> length bs \<le> rpos f; rpos f + n \<le> max (rpos f) (length bs)\<rbrakk>
    \<Longrightarrow> kernel dir name tmp s f (Bytes (take n (drop (rpos f) bs))) (f\<lparr>rpos := rpos f + n\<rparr>)"
| k_write: "\<lbrakk>awaits s = Write buf off; fd s = Some i; bytes f i = Some bs; 0 < w; w \<le> length buf - off\<rbrakk>
    \<Longrightarrow> kernel dir name tmp s f (Wrote w)
          (f\<lparr>bytes := (bytes f)(i \<mapsto> overwrite (wpos f) (take w (drop off buf)) bs), wpos := wpos f + w\<rparr>)"
| k_truncate: "\<lbrakk>awaits s = Truncate rc; fd s = Some i; bytes f i = Some bs\<rbrakk>
    \<Longrightarrow> kernel dir name tmp s f Ok (f\<lparr>bytes := (bytes f)(i \<mapsto> [])\<rparr>)"
| k_fail: "(\<And>e. awaits s \<noteq> Exit e) \<Longrightarrow> kernel dir name tmp s f Failed f"

inductive_cases kernelE: "kernel dir name tmp s f r f'"

text \<open>
  The script in its surroundings: its calls, signals, which Node handles only while a read or write
  is in flight, and whatever else happens to the files, as far as \<open>env\<close> allows. The counter is the
  number of calls the script has made.
\<close>

definition in_event_loop :: "claim \<Rightarrow> bool" where
  "in_event_loop s = (case awaits s of Read \<Rightarrow> True | Write buf off \<Rightarrow> True | _ \<Rightarrow> False)"

inductive run :: "jsstr \<Rightarrow> jsstr \<Rightarrow> jsstr \<Rightarrow> (claim \<Rightarrow> files \<Rightarrow> files \<Rightarrow> bool) \<Rightarrow> files \<Rightarrow> nat \<Rightarrow> claim \<Rightarrow> files \<Rightarrow> bool"
  for dir name tmp :: jsstr and env and f0 :: files where
  run_start: "run dir name tmp env f0 0 (claim_start name) f0"
| run_call: "\<lbrakk>run dir name tmp env f0 k s f; kernel dir name tmp s f r f'\<rbrakk> \<Longrightarrow> run dir name tmp env f0 (Suc k) (react dir name s r) f'"
| run_signal: "\<lbrakk>run dir name tmp env f0 k s f; in_event_loop s\<rbrakk> \<Longrightarrow> run dir name tmp env f0 k (on_signal s) f"
| run_env: "\<lbrakk>run dir name tmp env f0 k s f; env s f f'\<rbrakk> \<Longrightarrow> run dir name tmp env f0 k s f'"

definition any_change :: "claim \<Rightarrow> files \<Rightarrow> files \<Rightarrow> bool" where
  \<comment> \<open>other programs may do anything, but a file that is open does not vanish\<close>
  "any_change s f f' \<longleftrightarrow> rpos f' = rpos f \<and> wpos f' = wpos f
     \<and> (\<forall>i. (fd s = Some i \<or> src s = Some i) \<and> bytes f i \<noteq> None \<longrightarrow> bytes f' i \<noteq> None)"

definition private_files :: "jsstr \<Rightarrow> nat \<Rightarrow> claim \<Rightarrow> files \<Rightarrow> files \<Rightarrow> bool" where
  \<comment> \<open>... but leave the staged file alone, and the file that the script created\<close>
  "private_files tmp t s f f' \<longleftrightarrow> any_change s f f' \<and> names f' tmp = names f tmp \<and> bytes f' t = bytes f t
     \<and> (\<forall>i. fd s = Some i \<longrightarrow> bytes f' i = bytes f i)"

section \<open>Downloading and opening\<close>

definition MAX_ATTACHMENT_BYTES :: nat where "MAX_ATTACHMENT_BYTES = 512 * 1024 * 1024"
definition ATTACHMENT_TIMEOUT_SECS :: nat where "ATTACHMENT_TIMEOUT_SECS = 900"
definition ATTACHMENT_FREE_SLACK_BYTES :: nat where "ATTACHMENT_FREE_SLACK_BYTES = 64 * 1024 * 1024"

definition size_known :: "jsval \<Rightarrow> bool" where
  "size_known declaredSize \<longleftrightarrow> \<not> nullish declaredSize \<and> trim (to_str declaredSize) \<noteq> []
     \<and> is_finite (to_num declaredSize) \<and> num_le (Fin 0) (to_num declaredSize)"

definition whole :: "jsnum \<Rightarrow> nat" where
  \<comment> \<open>\<^verbatim>\<open>Math.floor\<close> of a number that is finite and not negative\<close>
  "whole n = (case n of Fin q \<Rightarrow> nat \<lfloor>q\<rfloor> | _ \<Rightarrow> 0)"

definition wanted_bytes :: "jsval \<Rightarrow> nat" where
  "wanted_bytes declaredSize =
     (let want = (if size_known declaredSize then whole (to_num declaredSize) else 0)
      in if MAX_ATTACHMENT_BYTES < want then MAX_ATTACHMENT_BYTES + 1 else want)"

definition needed_kb :: "jsval \<Rightarrow> nat" where
  \<comment> \<open>the quotient is rounded up\<close>
  "needed_kb declaredSize =
     (let reserve = (if size_known declaredSize then wanted_bytes declaredSize else MAX_ATTACHMENT_BYTES)
      in (reserve + ATTACHMENT_FREE_SLACK_BYTES + 1023) div 1024)"

definition download_lines :: "jsstr \<Rightarrow> jsstr \<Rightarrow> jsstr \<Rightarrow> jsval \<Rightarrow> jsstr list" where
  \<comment> \<open>\<open>claim\<close> is the text of the claim script; two single quotes in a row are written as codes\<close>
  \<open>download_lines claim attachmentId itemId declaredSize =
     [js ''set -e'', js ''umask 077'',
      js ''exec 2> >(head -c '' @ nat_to_str MAX_STDERR_BYTES @ js '' >&2)'',
      js ''max='' @ nat_to_str MAX_ATTACHMENT_BYTES,
      js ''want='' @ nat_to_str (wanted_bytes declaredSize),
      js ''dir="$(xdg-user-dir DOWNLOAD 2>/dev/null || true)"'',
      js ''if [ -z "$dir" ] || [ "$dir" = "$HOME" ]; then dir="$HOME/Downloads"; fi'',
      js ''mkdir -p -- "$dir"'',
      js ''if [ "$want" -gt "$max" ]; then'',
      js ''  echo 'Attachment is larger than the 512 MB download limit.' >&2; exit 1'',
      js ''fi'',
      js ''avail=$(df -Pk -- "$dir" 2>/dev/null | awk 'NR==2 {print $4}')'',
      js ''case "$avail" in '' @ [39, 39] @ js ''|*[!0-9]*) avail='' @ [39, 39] @ js '' ;; esac'',
      js ''if [ -n "$avail" ] && [ "$avail" -lt '' @ nat_to_str (needed_kb declaredSize) @ js '' ]; then'',
      js ''  echo 'Not enough free space in the download folder.' >&2; exit 1'',
      js ''fi'',
      js ''work=$(mktemp -d -- "$dir/.qsbw-XXXXXXXX")'',
      js ''trap 'rm -rf -- "$work"' EXIT HUP INT TERM'',
      js ''tmp="$work/part"'',
      js ''rc=0'',
      js ''( ulimit -f '' @ nat_to_str (MAX_ATTACHMENT_BYTES div 1024) @ js ''; exec timeout '' @ nat_to_str ATTACHMENT_TIMEOUT_SECS
        @ js ''s bw get attachment --itemid '' @ shellQuote itemId
        @ js '' --output "$tmp" -- '' @ shellQuote attachmentId @ js '' >/dev/null ) || rc=$?'',
      js ''if [ "$rc" -ne 0 ]; then'',
      js ''  case "$rc" in'',
      js ''    124) echo 'Download timed out.' >&2 ;;'',
      js ''    153) echo 'Attachment exceeded the 512 MB download limit.' >&2 ;;'',
      js ''  esac'',
      js ''  exit 1'',
      js ''fi'',
      js ''got=$(wc -c < "$tmp" 2>/dev/null || echo 0)'',
      js ''if [ "$got" -gt "$max" ]; then'',
      js ''  echo 'Attachment exceeded the 512 MB download limit.' >&2; exit 1'',
      js ''fi'',
      js ''out=$(node -e '' @ shellQuote claim @ js '' "$dir" "$tmp")'',
      js ''printf %s "$out" | head -c 4096'']\<close>

definition attachmentDownloadCommand :: "jsstr \<Rightarrow> jsstr \<Rightarrow> jsstr \<Rightarrow> jsval \<Rightarrow> jsstr list" where
  "attachmentDownloadCommand claim attachmentId itemId declaredSize =
     supervisedProcessCommand (join [10] (download_lines claim attachmentId itemId declaredSize)) []"

definition OPEN_PATH_ENV :: jsstr where "OPEN_PATH_ENV = js ''QSBW_OPEN_PATH''"

definition open_ext :: "jsstr \<Rightarrow> jsstr" where
  \<comment> \<open>the extension \<open>OPEN_LINK_SCRIPT\<close> keeps: \<^verbatim>\<open>/^\.[A-Za-z0-9]{1,10}$/\<close>\<close>
  "open_ext base =
     (case last_index_of 46 base of
        Some dot \<Rightarrow>
          (let ext = drop dot base
           in if 0 < dot \<and> 1 \<le> length ext - 1 \<and> length ext - 1 \<le> 10 \<and> (\<forall>c\<in>set (tl ext). is_alpha c \<or> is_digit c) then ext else [])
      | None \<Rightarrow> [])"

definition OPEN_LINK_SCRIPT :: "jsstr \<Rightarrow> jsstr \<Rightarrow> jsstr option" where
  \<comment> \<open>the link made for a target in the fresh directory \<open>made\<close>, or exit 1\<close>
  "OPEN_LINK_SCRIPT made target =
     (if target = [] \<or> hd target \<noteq> 47 \<or> 0 \<in> set target then None
      else Some (made @ js ''/attachment'' @ open_ext (baseName target)))"

definition attachmentOpenCommand :: "jsstr \<Rightarrow> jsstr list" where
  \<comment> \<open>\<open>linkScript\<close> is the text of \<open>OPEN_LINK_SCRIPT\<close>\<close>
  \<open>attachmentOpenCommand linkScript =
     [js ''bash'', js ''-c'',
      js ''set -e; umask 077; test -n "${XDG_RUNTIME_DIR:-}"; ''
      @ js ''__dir="$XDG_RUNTIME_DIR/'' @ RUNTIME_SUBDIR @ js ''"; '' @ privateDirScript (js ''__dir'')
      @ js ''__open="$__dir/open"; '' @ privateDirScript (js ''__open'')
      @ js ''__link=$(node -e '' @ shellQuote linkScript @ js '' "$__open"); ''
      @ js ''if command -v gio >/dev/null 2>&1; then exec env -u '' @ OPEN_PATH_ENV @ js '' gio open "$__link"; fi; ''
      @ js ''exec env -u '' @ OPEN_PATH_ENV @ js '' xdg-open "$__link"'']\<close>

section \<open>Names are inert\<close>

lemma last_index_of_less: "last_index_of x s = Some n \<Longrightarrow> n < length s \<and> s ! n = x"
  by (induction s arbitrary: n) (auto split: option.splits if_splits)

lemma shorten_name_cases:
  "shorten_name name = name \<and> length name \<le> 128
   \<or> (\<exists>ext. length ext \<le> 12 \<and> set ext \<subseteq> set name \<and> shorten_name name = take (128 - length ext) name @ ext \<and> 128 < length name)"
proof (cases "length name \<le> 128")
  case False
  define ext where "ext = (case last_index_of 46 name of Some dot \<Rightarrow> if 0 < dot \<and> length name - dot \<le> 12 then drop dot name else [] | None \<Rightarrow> [])"
  have "length ext \<le> 12" "set ext \<subseteq> set name" by (auto simp: ext_def split: option.splits dest: in_set_dropD)
  moreover have "shorten_name name = take (128 - length ext) name @ ext"
    using False by (simp add: shorten_name_def ext_def Let_def)
  ultimately show ?thesis using False by auto
qed (simp add: shorten_name_def)

lemma shorten_name_props:
  "length (shorten_name name) \<le> 128" "set (shorten_name name) \<subseteq> set name"
  "shorten_name name = [] \<longleftrightarrow> name = []" "name \<noteq> [] \<Longrightarrow> hd (shorten_name name) = hd name"
  using shorten_name_cases [of name] by (auto dest: in_set_takeD simp: hd_append)

lemma trim_end_prefix: "\<exists>t. s = trim_end s @ t"
  unfolding trim_end_def by (metis rev_append rev_rev_ident takeWhile_dropWhile_id)

lemma trim_end_Nil: "trim_end [] = []"
  by (simp add: trim_end_def)

lemma hd_trim_end: "trim_end s \<noteq> [] \<Longrightarrow> hd (trim_end s) = hd s"
  using trim_end_prefix [of s] by (metis hd_append2)

text \<open>Whatever a vault calls its attachment, the name used is an inert file name: not empty, at most
  128 characters, without separators or control characters, and not starting with a dot, a dash or
  white space. The claim script accepts it, so it names a file of the download folder and nothing else.\<close>
theorem attachment_name_inert:
  "(let name = safeAttachmentFileName raw
    in name \<noteq> [] \<and> length name \<le> 128 \<and> \<not> list_ex (\<lambda>c. is_control c \<or> c = 47 \<or> c = 92) name
       \<and> \<not> name_lead (hd name) \<and> valid_claim_name name)"
proof -
  let ?inert = "map (\<lambda>c. if is_control c \<or> file_sep c then 95 else c) (strip_dirs raw)"
  let ?n = "trim_end (dropWhile name_lead ?inert)"
  have plain: "\<not> is_control c \<and> c \<noteq> 47 \<and> c \<noteq> 92" if "c \<in> set ?inert" for c
    using that by (auto simp: file_sep_def is_control_def split: if_splits)
  have "set ?n \<subseteq> set ?inert" by (auto simp: trim_end_def dest!: set_dropWhileD)
  then have ch: "\<forall>c\<in>set (shorten_name ?n). \<not> is_control c \<and> c \<noteq> 47 \<and> c \<noteq> 92"
    using plain shorten_name_props(2) [of ?n] by blast
  have lead: "?n \<noteq> [] \<Longrightarrow> \<not> name_lead (hd (shorten_name ?n))"
  proof -
    assume n: "?n \<noteq> []"
    then have "dropWhile name_lead ?inert \<noteq> []" using trim_end_Nil by metis
    then have "\<not> name_lead (hd (dropWhile name_lead ?inert))" by (rule hd_dropWhile)
    then show ?thesis using n hd_trim_end shorten_name_props(4) by metis
  qed
  have ok: "name \<noteq> [] \<and> length name \<le> 128 \<and> \<not> list_ex (\<lambda>c. is_control c \<or> c = 47 \<or> c = 92) name
      \<and> \<not> name_lead (hd name) \<and> valid_claim_name name"
    if "name \<noteq> []" "length name \<le> 128" "\<forall>c\<in>set name. \<not> is_control c \<and> c \<noteq> 47 \<and> c \<noteq> 92" "\<not> name_lead (hd name)" for name
    using that by (auto simp: list_ex_iff valid_claim_name_def is_control_def name_lead_def js_def)
  show ?thesis
  proof (cases "?n = []")
    case True
    then have "safeAttachmentFileName raw = js ''attachment''" by (simp add: safeAttachmentFileName_def Let_def shorten_name_props(3))
    then show ?thesis by (simp add: list_ex_iff valid_claim_name_def is_control_def name_lead_def js_def is_ws_def)
  next
    case False
    then have "safeAttachmentFileName raw = shorten_name ?n" by (simp add: safeAttachmentFileName_def Let_def shorten_name_props(3))
    moreover have "shorten_name ?n \<noteq> []" using False shorten_name_props(3) by metis
    ultimately show ?thesis unfolding Let_def using ok [of "shorten_name ?n"] shorten_name_props(1) [of ?n] ch lead [OF False] by simp
  qed
qed

section \<open>What the script may touch\<close>

lemmas claim_defs = try_name_def abandon_def pump_def put_def after_io_def

definition claim_inv :: "claim \<Rightarrow> bool" where
  \<comment> \<open>a file is open from its creation on, and while the event loop runs an operation is in flight\<close>
  "claim_inv s \<longleftrightarrow>
     (case awaits s of
        Link n \<Rightarrow> n \<le> 999 \<and> fd s = None
      | Create n \<Rightarrow> n \<le> 999 \<and> fd s = None
      | OpenSource \<Rightarrow> fd s \<noteq> None
      | Read \<Rightarrow> fd s \<noteq> None \<and> busy s
      | Write buf off \<Rightarrow> fd s \<noteq> None \<and> busy s \<and> off < length buf
      | Truncate rc \<Rightarrow> fd s \<noteq> None
      | Exit (Abandoned rc b) \<Rightarrow> fd s \<noteq> None
      | Exit (Saved p) \<Rightarrow> True
      | Exit e \<Rightarrow> fd s = None)"

lemma claim_inv_start: "claim_inv (claim_start name)"
  by (simp add: claim_inv_def claim_start_def try_name_def Let_def)

lemma claim_inv_react:
  assumes "claim_inv s" and "kernel dir name tmp s f r f'"
  shows "claim_inv (react dir name s r)"
  using assms(2)
proof cases
  case k_fail
  with assms(1) show ?thesis by (cases "awaits s") (auto simp: claim_inv_def react.simps claim_defs)
qed (use assms(1) in \<open>auto simp: claim_inv_def react.simps claim_defs\<close>)

lemma claim_inv_signal: "claim_inv s \<Longrightarrow> in_event_loop s \<Longrightarrow> on_signal s = s\<lparr>stopped := True\<rparr>"
  by (auto simp: claim_inv_def on_signal_def in_event_loop_def split: call.splits)

lemma run_inv: "run dir name tmp env f0 k s f \<Longrightarrow> claim_inv s"
proof (induction rule: run.induct)
  case (run_signal k s f)
  then show ?case using claim_inv_signal by (auto simp: claim_inv_def in_event_loop_def split: call.splits)
qed (auto intro: claim_inv_start claim_inv_react)

lemma kernel_keeps_names: "kernel dir name tmp s f r f' \<Longrightarrow> names f p = Some i \<Longrightarrow> names f' p = Some i"
  by (erule kernelE) auto

lemma kernel_keeps_files: "kernel dir name tmp s f r f' \<Longrightarrow> bytes f i \<noteq> None \<Longrightarrow> fd s \<noteq> Some i \<Longrightarrow> bytes f' i = bytes f i"
  by (erule kernelE) auto

lemma kernel_new_name:
  "\<lbrakk>kernel dir name tmp s f r f'; claim_inv s; names f p = None; names f' p = Some i\<rbrakk> \<Longrightarrow> \<exists>n\<le>999. p = candidate dir name n"
  by (erule kernelE) (auto simp: claim_inv_def split: if_splits)

lemma react_fd:
  assumes "kernel dir name tmp s f r f'" and "claim_inv s" and "fd (react dir name s r) = Some i" and "fd s \<noteq> Some i"
  shows "bytes f i = None \<and> bytes f' i = Some []"
  using assms(1)
proof cases
  case k_fail
  with assms(3,4) show ?thesis by (cases "awaits s") (auto simp: react.simps claim_defs split: if_splits)
qed (use assms(3,4) in \<open>auto simp: react.simps claim_defs split: if_splits\<close>)

text \<open>C12: Saving an attachment never replaces, removes or changes anything that is already there, however
  other programs change the folder in between and however many signals arrive. Every call of the
  script keeps every name that exists, changes the bytes of no file but the one that it created
  itself, under a name that was free at that moment, and adds names only among the thousand
  candidates in the download folder.\<close>
theorem claim_touches_only_its_own:
  assumes "run dir name tmp any_change f0 k s f" and "kernel dir name tmp s f r f'"
  shows "(\<forall>p i. names f p = Some i \<longrightarrow> names f' p = Some i)
    \<and> (\<forall>i. bytes f i \<noteq> None \<longrightarrow> fd s \<noteq> Some i \<longrightarrow> bytes f' i = bytes f i)
    \<and> (\<forall>i. fd (react dir name s r) = Some i \<longrightarrow> fd s \<noteq> Some i \<longrightarrow> bytes f i = None \<and> bytes f' i = Some [])
    \<and> (\<forall>p i. names f p = None \<longrightarrow> names f' p = Some i \<longrightarrow> (\<exists>n\<le>999. p = candidate dir name n))"
  using kernel_keeps_names [OF assms(2)] kernel_keeps_files [OF assms(2)] react_fd [OF assms(2) run_inv [OF assms(1)]]
    kernel_new_name [OF assms(2) run_inv [OF assms(1)]] by blast

section \<open>What the script leaves\<close>

definition copied :: "nat \<Rightarrow> nat list \<Rightarrow> claim \<Rightarrow> files \<Rightarrow> bool" where
  \<comment> \<open>the claimed file holds what was read so far, up to the write in flight\<close>
  "copied t D s f \<longleftrightarrow>
     (case awaits s of
        OpenSource \<Rightarrow> (\<exists>i. fd s = Some i \<and> bytes f i = Some [] \<and> wpos f = 0)
      | Read \<Rightarrow> src s = Some t \<and> rpos f \<le> length D \<and> wpos f = rpos f
          \<and> (\<exists>i. fd s = Some i \<and> bytes f i = Some (take (rpos f) D))
      | Write buf off \<Rightarrow> src s = Some t \<and> rpos f \<le> length D \<and> off < length buf \<and> length buf \<le> rpos f
          \<and> buf = drop (rpos f - length buf) (take (rpos f) D) \<and> wpos f = rpos f - length buf + off
          \<and> (\<exists>i. fd s = Some i \<and> bytes f i = Some (take (wpos f) D))
      | Exit (Saved p) \<Rightarrow> (\<forall>i. fd s = Some i \<longrightarrow> bytes f i = Some D \<and> cand s = Some p)
      | Exit (Abandoned rc b) \<Rightarrow> b \<longrightarrow> (\<exists>i. fd s = Some i \<and> bytes f i = Some [])
      | _ \<Rightarrow> True)"

definition copy_inv :: "jsstr \<Rightarrow> nat \<Rightarrow> nat list \<Rightarrow> claim \<Rightarrow> files \<Rightarrow> bool" where
  "copy_inv tmp t D s f \<longleftrightarrow> claim_inv s \<and> names f tmp = Some t \<and> bytes f t = Some D
     \<and> fd s \<noteq> Some t \<and> (fd s \<noteq> None \<longrightarrow> cand s \<noteq> None) \<and> copied t D s f"

lemma written_chunk:
  assumes "buf = drop (r - length buf) (take r D)" and "p = r - length buf + off" and "length buf \<le> r" and "r \<le> length D"
    and "w \<le> length buf - off" and "off \<le> length buf"
  shows "overwrite p (take w (drop off buf)) (take p D) = take (p + w) D"
proof -
  have "drop off buf = drop p (take r D)" using assms(1,2) drop_drop [of off "r - length buf" "take r D"] by (simp add: add.commute)
  then have "take w (drop off buf) = take w (drop p D)" using assms by (simp add: drop_take)
  moreover have "p + w \<le> length D" "p \<le> length D" using assms(2-6) by linarith+
  ultimately show ?thesis by (simp add: overwrite_def take_add)
qed

lemma copy_inv_start:
  "names f tmp = Some t \<Longrightarrow> bytes f t = Some D \<Longrightarrow> copy_inv tmp t D (claim_start name) f"
  using claim_inv_start [of name] by (simp add: copy_inv_def copied_def claim_start_def try_name_def Let_def)

lemma copied_react:
  assumes inv: "copy_inv tmp t D s f" and k: "kernel dir name tmp s f r f'"
  shows "copied t D (react dir name s r) f'"
  using k
proof cases
  case (k_open i)
  with inv show ?thesis by (auto simp: copy_inv_def copied_def react.simps pump_def)
next
  case (k_read i bs n)
  then have i: "i = t" "bs = D" "rpos f \<le> length D" using inv by (auto simp: copy_inv_def copied_def)
  show ?thesis
  proof (cases "n = 0")
    case True
    with k_read i inv show ?thesis by (auto simp: copy_inv_def copied_def react.simps after_io_def abandon_def)
  next
    case False
    with k_read i have "rpos f + n \<le> length D" by simp
    moreover from this have "take n (drop (rpos f) D) = drop (rpos f) (take (rpos f + n) D)" by (simp add: take_drop add.commute)
    ultimately show ?thesis using k_read i inv False
      by (auto simp: copy_inv_def copied_def react.simps after_io_def abandon_def put_def)
  qed
next
  case (k_write buf off i bs w)
  then have c: "buf = drop (rpos f - length buf) (take (rpos f) D)" "wpos f = rpos f - length buf + off" "length buf \<le> rpos f"
    "rpos f \<le> length D" "src s = Some t" "bs = take (wpos f) D" "off < length buf"
    using inv by (auto simp: copy_inv_def copied_def)
  then have new: "overwrite (wpos f) (take w (drop off buf)) bs = take (wpos f + w) D"
    using written_chunk [of buf "rpos f" D "wpos f" off w] k_write by simp
  show ?thesis
  proof (cases "stopped s")
    case True
    with k_write show ?thesis by (simp add: copied_def react.simps after_io_def abandon_def)
  next
    case False
    show ?thesis
    proof (cases "off + w < length buf")
      case True
      with k_write c new \<open>\<not> stopped s\<close> show ?thesis by (auto simp: copied_def react.simps after_io_def put_def)
    next
      case last: False
      then have "wpos f + w = rpos f" using k_write c by linarith
      with k_write c new last \<open>\<not> stopped s\<close> show ?thesis by (auto simp: copied_def react.simps after_io_def pump_def)
    qed
  qed
next
  case k_fail
  with inv show ?thesis
    by (cases "awaits s") (auto simp: copy_inv_def copied_def react.simps claim_defs)
qed (use inv in \<open>auto simp: copy_inv_def copied_def claim_inv_def react.simps claim_defs\<close>)

lemma copy_inv_react:
  assumes inv: "copy_inv tmp t D s f" and k: "kernel dir name tmp s f r f'"
  shows "copy_inv tmp t D (react dir name s r) f'"
proof -
  have "claim_inv s" "names f tmp = Some t" "bytes f t = Some D" "fd s \<noteq> Some t" "fd s \<noteq> None \<longrightarrow> cand s \<noteq> None"
    using inv by (auto simp: copy_inv_def)
  moreover from this have "fd (react dir name s r) \<noteq> Some t" using react_fd [OF k, of t] by auto
  moreover have "fd (react dir name s r) \<noteq> None \<longrightarrow> cand (react dir name s r) \<noteq> None"
    using k \<open>fd s \<noteq> None \<longrightarrow> cand s \<noteq> None\<close>
    by cases (auto simp: react.simps claim_defs split: call.splits)
  ultimately show ?thesis
    using copied_react [OF inv k] claim_inv_react [OF _ k] kernel_keeps_names [OF k] kernel_keeps_files [OF k, of t]
    by (auto simp: copy_inv_def)
qed

lemma copied_stopped: "copied t D (s\<lparr>stopped := True\<rparr>) f = copied t D s f"
  by (cases "awaits s") (auto simp: copied_def split: exit_kind.splits)

lemma copied_env: "private_files tmp t s f f' \<Longrightarrow> copied t D s f \<Longrightarrow> copied t D s f'"
  by (auto simp: private_files_def any_change_def copied_def split: call.splits exit_kind.splits)

lemma run_copy_inv:
  assumes "names f0 tmp = Some t" and "bytes f0 t = Some D" and "run dir name tmp (private_files tmp t) f0 k s f"
  shows "copy_inv tmp t D s f"
  using assms(3)
proof (induction rule: run.induct)
  case run_start
  show ?case using assms(1,2) by (rule copy_inv_start)
next
  case (run_signal k s f)
  moreover from this have "claim_inv (on_signal s)" by (intro run_inv [OF run.run_signal])
  ultimately show ?case using claim_inv_signal [of s] by (auto simp: copy_inv_def copied_stopped)
next
  case (run_env k s f f')
  then show ?case using copied_env [of tmp t s f f' D] by (auto simp: copy_inv_def private_files_def)
qed (rule copy_inv_react)

definition outcome_ok :: "nat \<Rightarrow> nat list \<Rightarrow> claim \<Rightarrow> files \<Rightarrow> files \<Rightarrow> exit_kind \<Rightarrow> bool" where
  \<comment> \<open>what the last call of the script, from \<open>f\<close> to \<open>f'\<close>, leaves behind\<close>
  "outcome_ok t D s f f' e =
     (case e of
        Saved p \<Rightarrow>
          (case fd s of
             None \<Rightarrow> names f p = None \<and> names f' p = Some t \<and> bytes f' t = Some D
           | Some i \<Rightarrow> cand s = Some p \<and> bytes f' i = Some D)
      | Refused \<Rightarrow> fd s = None \<and> f' = f
      | Interrupted \<Rightarrow> False
      | Abandoned rc emptied \<Rightarrow> (\<exists>i. fd s = Some i \<and> (emptied \<longrightarrow> bytes f' i = Some [])))"

lemma last_call:
  assumes inv: "copy_inv tmp t D s f" and k: "kernel dir name tmp s f r f'" and e: "awaits (react dir name s r) = Exit e"
  shows "outcome_ok t D s f f' e"
proof -
  have c: "copied t D (react dir name s r) f'" using copied_react [OF inv k] .
  have i: "claim_inv s" "names f tmp = Some t" "bytes f t = Some D" using inv by (auto simp: copy_inv_def)
  show ?thesis using k
  proof cases
    case (k_read j bs n)
    then have "\<exists>p. e = Saved p" "fd (react dir name s r) = fd s" "cand (react dir name s r) = cand s" "fd s \<noteq> None"
      using e i(1) by (auto simp: react.simps claim_defs claim_inv_def split: if_splits)
    with c e show ?thesis by (auto simp: outcome_ok_def copied_def)
  next
    case (k_truncate rc j bs)
    then show ?thesis using e by (auto simp: react.simps outcome_ok_def)
  next
    case k_fail
    with e i show ?thesis by (cases "awaits s") (auto simp: react.simps claim_defs claim_inv_def outcome_ok_def split: if_splits)
  qed (use e i in \<open>auto simp: react.simps claim_defs claim_inv_def outcome_ok_def split: if_splits\<close>)
qed

text \<open>C13: When the script ends, the folder holds what it says. If it prints a path, that path is the staged
  file itself, linked under a name that was free, or the file the script created under it holds
  exactly the bytes of the attachment, however the reads and writes were cut; if it gives up after
  creating a file, because of a failure or a signal, it reports the file empty only if it is; if it
  refuses, it has changed nothing. Other programs may do what they like, except to these two files.\<close>
theorem claim_outcome:
  assumes "names f0 tmp = Some t" and "bytes f0 t = Some D" and "run dir name tmp (private_files tmp t) f0 k s f"
    and "kernel dir name tmp s f r f'" and "awaits (react dir name s r) = Exit e"
  shows "outcome_ok t D s f f' e"
  using last_call [OF run_copy_inv [OF assms(1-3)] assms(4,5)] .

section \<open>The script ends\<close>

definition work :: "nat \<Rightarrow> claim \<Rightarrow> files \<Rightarrow> nat" where
  \<comment> \<open>a bound on the calls still to come, for a staged file of that many bytes\<close>
  "work len s f =
     (case awaits s of
        Link n \<Rightarrow> 2 * (1000 - n) + 2 * len + 6
      | Create n \<Rightarrow> 2 * (1000 - n) + 2 * len + 5
      | OpenSource \<Rightarrow> 2 * len + 4
      | Read \<Rightarrow> 2 * (len - rpos f) + 3
      | Write buf off \<Rightarrow> 2 * (len - rpos f) + (length buf - off) + 3
      | Truncate rc \<Rightarrow> 1
      | Exit e \<Rightarrow> 0)"





section \<open>Sizes\<close>

lemma wanted_bounded: "wanted_bytes d \<le> MAX_ATTACHMENT_BYTES + 1"
  by (simp add: wanted_bytes_def Let_def)

text \<open>The script refuses by size exactly the attachments that are declared too large, however large the
  number is, and reserves room for the declared size, or for the largest allowed one if none is known.\<close>

lemma download_sizes:
  "MAX_ATTACHMENT_BYTES < wanted_bytes d \<longleftrightarrow> size_known d \<and> MAX_ATTACHMENT_BYTES < whole (to_num d)"
  "wanted_bytes d + ATTACHMENT_FREE_SLACK_BYTES \<le> needed_kb d * 1024"
  "needed_kb d * 1024 < 2 ^ 31"
proof -
  have up: "n \<le> (n + 1023) div 1024 * 1024" and down: "(n + 1023) div 1024 * 1024 \<le> n + 1023" for n :: nat
    using div_mult_mod_eq [of "n + 1023" 1024] mod_less_divisor [of 1024 "n + 1023"] by linarith+
  have w: "wanted_bytes d = 0 \<or> size_known d" by (auto simp: wanted_bytes_def Let_def)
  show "MAX_ATTACHMENT_BYTES < wanted_bytes d \<longleftrightarrow> size_known d \<and> MAX_ATTACHMENT_BYTES < whole (to_num d)"
    by (auto simp: wanted_bytes_def Let_def)
  show "wanted_bytes d + ATTACHMENT_FREE_SLACK_BYTES \<le> needed_kb d * 1024"
    using w up [of "wanted_bytes d + ATTACHMENT_FREE_SLACK_BYTES"] up [of "MAX_ATTACHMENT_BYTES + ATTACHMENT_FREE_SLACK_BYTES"]
    by (auto simp: needed_kb_def Let_def MAX_ATTACHMENT_BYTES_def)
  have "needed_kb d * 1024 \<le> MAX_ATTACHMENT_BYTES + 1 + ATTACHMENT_FREE_SLACK_BYTES + 1023"
    using wanted_bounded [of d] down [of "wanted_bytes d + ATTACHMENT_FREE_SLACK_BYTES"] down [of "MAX_ATTACHMENT_BYTES + ATTACHMENT_FREE_SLACK_BYTES"]
    by (auto simp: needed_kb_def Let_def)
  then show "needed_kb d * 1024 < 2 ^ 31" by (simp add: MAX_ATTACHMENT_BYTES_def ATTACHMENT_FREE_SLACK_BYTES_def)
qed

lemma open_ext_plain: "length (open_ext base) \<le> 11 \<and> list_all (\<lambda>c. is_alpha c \<or> is_digit c \<or> c = 46) (open_ext base)"
proof (cases "last_index_of 46 base")
  case (Some dot)
  then have "dot < length base" "base ! dot = 46" using last_index_of_less by blast+
  then obtain r where "drop dot base = 46 # r" by (metis Cons_nth_drop_Suc)
  with Some show ?thesis by (auto simp: open_ext_def Let_def list_all_iff)
qed (simp add: open_ext_def)

section \<open>Examples\<close>

definition demo_files :: files where
  "demo_files = \<lparr>names = [js ''/d/.w/part'' \<mapsto> 0, js ''/d/x'' \<mapsto> 1], bytes = [0 \<mapsto> [7, 8], 1 \<mapsto> [9]], rpos = 0, wpos = 0\<rparr>"

definition demo_linked :: files where
  "demo_linked = demo_files\<lparr>names := (names demo_files)(candidate (js ''/d'') (js ''y'') 0 \<mapsto> 0)\<rparr>"

lemma demo_candidate: "candidate (js ''/d'') (js ''y'') 0 = js ''/d/y''"
  by (simp add: candidate_def js_def)

lemma demo_call:
  "awaits (claim_start (js ''y'')) = Link 0"
  "kernel (js ''/d'') (js ''y'') (js ''/d/.w/part'') (claim_start (js ''y'')) demo_files Ok demo_linked"
proof -
  show a: "awaits (claim_start (js ''y'')) = Link 0"
    by (simp add: claim_start_def valid_claim_name_def try_name_def js_def Let_def)
  show "kernel (js ''/d'') (js ''y'') (js ''/d/.w/part'') (claim_start (js ''y'')) demo_files Ok demo_linked"
    unfolding demo_linked_def by (rule k_link [OF a]) (simp_all add: demo_files_def demo_candidate)
qed

theorem claim_touches_only_its_own_witness:
  "run (js ''/d'') (js ''y'') (js ''/d/.w/part'') any_change demo_files 0 (claim_start (js ''y'')) demo_files
   \<and> names demo_linked (js ''/d/x'') = Some 1 \<and> bytes demo_linked 1 = Some [9]"
proof -
  have r: "run (js ''/d'') (js ''y'') (js ''/d/.w/part'') any_change demo_files 0 (claim_start (js ''y'')) demo_files"
    by (rule run_start)
  have "names demo_files (js ''/d/x'') = Some 1" "bytes demo_files 1 = Some [9]" "fd (claim_start (js ''y'')) = None"
    by (simp_all add: demo_files_def claim_start_def try_name_def Let_def)
  with claim_touches_only_its_own [OF r demo_call(2)] r show ?thesis by auto
qed

theorem claim_outcome_witness:
  "names demo_linked (js ''/d/y'') = Some 0 \<and> bytes demo_linked 0 = Some [7, 8]"
proof -
  have e: "awaits (react (js ''/d'') (js ''y'') (claim_start (js ''y'')) Ok) = Exit (Saved (js ''/d/y''))"
    using demo_call(1) by (simp add: react.simps demo_candidate)
  have "outcome_ok 0 [7, 8] (claim_start (js ''y'')) demo_files demo_linked (Saved (js ''/d/y''))"
    by (rule claim_outcome [OF _ _ run_start demo_call(2) e]) (simp_all add: demo_files_def)
  moreover have "fd (claim_start (js ''y'')) = None" by (simp add: claim_start_def try_name_def Let_def)
  ultimately show ?thesis by (simp add: outcome_ok_def)
qed


end
