(* ===== verification/Dates.thy ===== *)
theory Dates
  imports Prelude
begin

text \<open>
  Dates of ECMAScript as the plugin uses them: a time is milliseconds since 1970, its text is what
  \<^verbatim>\<open>toISOString\<close> writes, and \<^verbatim>\<open>Date.parse\<close> reads that text back. Times before 1970 and years of five
  digits do not occur here.
\<close>

section \<open>The calendar\<close>

definition leap :: "int \<Rightarrow> bool" where
  "leap y \<longleftrightarrow> (4 dvd y \<and> \<not> 100 dvd y) \<or> 400 dvd y"

definition day_from_year :: "int \<Rightarrow> int" where
  \<comment> \<open>the number of the first day of a year\<close>
  "day_from_year y = 365 * (y - 1970) + (y - 1969) div 4 - (y - 1901) div 100 + (y - 1601) div 400"

definition month_start :: "bool \<Rightarrow> nat \<Rightarrow> int" where
  \<comment> \<open>the day of the year on which month \<open>m\<close>, from 1, begins; 13 is the year after\<close>
  "month_start lp m =
     [0, 31, 59, 90, 120, 151, 181, 212, 243, 273, 304, 334, 365] ! (m - 1) + (if lp \<and> 2 < m then 1 else 0)"

fun year_search :: "nat \<Rightarrow> int \<Rightarrow> int \<Rightarrow> int" where
  \<comment> \<open>downwards to the last year that has begun; at most \<open>n\<close> steps\<close>
  "year_search 0 y d = y"
| "year_search (Suc n) y d = (if day_from_year y \<le> d then y else year_search n (y - 1) d)"

definition year_of_day :: "int \<Rightarrow> int" where
  "year_of_day d = year_search (nat (d div 365)) (1970 + d div 365) d"

fun month_search :: "bool \<Rightarrow> nat \<Rightarrow> int \<Rightarrow> nat" where
  "month_search lp 0 r = 1"
| "month_search lp (Suc m) r = (if month_start lp (Suc m) \<le> r then Suc m else month_search lp m r)"

section \<open>Texts\<close>

definition pad2 :: "nat \<Rightarrow> jsstr" where
  "pad2 n = [48 + n div 10, 48 + n mod 10]"

definition pad3 :: "nat \<Rightarrow> jsstr" where
  "pad3 n = (48 + n div 100) # pad2 (n mod 100)"

definition pad4 :: "nat \<Rightarrow> jsstr" where
  "pad4 n = pad2 (n div 100) @ pad2 (n mod 100)"

definition toISOString :: "nat \<Rightarrow> jsstr" where
  \<comment> \<open>for a time of the years 1970 to 9999\<close>
  "toISOString t =
     (let d = int (t div 86400000); ms = t mod 86400000;
          y = year_of_day d; r = d - day_from_year y; m = month_search (leap y) 12 r;
          dom = nat (r - month_start (leap y) m + 1)
      in pad4 (nat y) @ [45] @ pad2 m @ [45] @ pad2 dom @ [84]
         @ pad2 (ms div 3600000) @ [58] @ pad2 (ms div 60000 mod 60) @ [58] @ pad2 (ms div 1000 mod 60)
         @ [46] @ pad3 (ms mod 1000) @ [90])"

definition parse_iso :: "jsstr \<Rightarrow> nat option" where
  \<comment> \<open>exactly the layout that \<open>toISOString\<close> writes, with every part in range\<close>
  "parse_iso s =
     (case s of
        [y1, y2, y3, y4, c1, m1, m2, c2, d1, d2, c3, h1, h2, c4, n1, n2, c5, s1, s2, c6, f1, f2, f3, c7] \<Rightarrow>
          (let y = int (digits_val [y1, y2, y3, y4]); m = digits_val [m1, m2]; d = int (digits_val [d1, d2]);
               h = digits_val [h1, h2]; n = digits_val [n1, n2]; sc = digits_val [s1, s2]; f = digits_val [f1, f2, f3]
           in if (\<forall>c\<in>set [y1, y2, y3, y4, m1, m2, d1, d2, h1, h2, n1, n2, s1, s2, f1, f2, f3]. is_digit c)
                \<and> [c1, c2, c3, c4, c5, c6, c7] = [45, 45, 84, 58, 58, 46, 90]
                \<and> 1970 \<le> y \<and> 1 \<le> m \<and> m \<le> 12 \<and> 1 \<le> d \<and> month_start (leap y) m + d \<le> month_start (leap y) (m + 1)
                \<and> h < 24 \<and> n < 60 \<and> sc < 60
              then Some (nat (day_from_year y + month_start (leap y) m + d - 1) * 86400000 + h * 3600000 + n * 60000 + sc * 1000 + f)
              else None)
      | _ \<Rightarrow> None)"

section \<open>The text is read back\<close>

lemma day_from_year_1970: "day_from_year 1970 = 0"
  by (simp add: day_from_year_def)

lemma div_plus_one:
  fixes x n :: int
  assumes "0 < n"
  shows "(x + 1) div n = x div n + (if n dvd x + 1 then 1 else 0)"
proof (cases "x mod n + 1 = n")
  case True
  have "x + 1 = n * (x div n) + (x mod n + 1)" by simp
  also have "\<dots> = n * (x div n + 1)" unfolding True by (simp add: distrib_left)
  finally have "x + 1 = n * (x div n + 1)" .
  then show ?thesis using assms by simp
next
  case False
  then have r: "0 < x mod n + 1" "x mod n + 1 < n" 
    using pos_mod_bound [OF assms, of x] pos_mod_sign [OF assms, of x] by linarith+
  have x: "x + 1 = n * (x div n) + (x mod n + 1)" by simp
  have "\<not> n dvd x mod n + 1" using r zdvd_not_zless by blast
  then have "\<not> n dvd x + 1" using dvd_add_right_iff [of n "n * (x div n)" "x mod n + 1"] by simp
  moreover have "(x + 1) div n = x div n" using r by (intro int_div_pos_eq [of _ _ _ "x mod n + 1"]) simp_all
  ultimately show ?thesis by simp
qed

lemma day_from_year_Suc: "day_from_year (y + 1) = day_from_year y + (if leap y then 366 else 365)"
proof -
  have "4 dvd (y - 1969) + 1 \<longleftrightarrow> 4 dvd y" "100 dvd (y - 1901) + 1 \<longleftrightarrow> 100 dvd y" "400 dvd (y - 1601) + 1 \<longleftrightarrow> 400 dvd y"
    using dvd_diff_left_iff [of 4 1968 y] dvd_diff_left_iff [of 100 1900 y] dvd_diff_left_iff [of 400 1600 y] by simp_all
  moreover have "100 dvd y \<Longrightarrow> 4 dvd y" "400 dvd y \<Longrightarrow> 100 dvd y" using dvd_trans [of 4 100 y] dvd_trans [of 100 400 y] by simp_all
  ultimately show ?thesis
    using div_plus_one [of 4 "y - 1969"] div_plus_one [of 100 "y - 1901"] div_plus_one [of 400 "y - 1601"]
    by (auto simp: day_from_year_def leap_def algebra_simps)
qed

lemma day_from_year_lower: "0 \<le> k \<Longrightarrow> 365 * k \<le> day_from_year (1970 + k)"
proof (induction k rule: int_ge_induct)
  case base
  show ?case by (simp add: day_from_year_1970)
next
  case (step k)
  then show ?case using day_from_year_Suc [of "1970 + k"] by (simp add: algebra_simps split: if_splits)
qed

lemma year_search_spec:
  "\<lbrakk>day_from_year (y - int n) \<le> d; d < day_from_year (y + 1)\<rbrakk>
    \<Longrightarrow> day_from_year (year_search n y d) \<le> d \<and> d < day_from_year (year_search n y d + 1) \<and> y - int n \<le> year_search n y d \<and> year_search n y d \<le> y"
proof (induction n arbitrary: y)
  case (Suc n)
  show ?case
  proof (cases "day_from_year y \<le> d")
    case False
    have e: "(y - 1) - int n = y - int (Suc n)" "y - 1 + 1 = y" by simp_all
    have "day_from_year (year_search n (y - 1) d) \<le> d \<and> d < day_from_year (year_search n (y - 1) d + 1)
        \<and> y - int (Suc n) \<le> year_search n (y - 1) d \<and> year_search n (y - 1) d \<le> y - 1"
      using Suc.IH [of "y - 1", unfolded e] Suc.prems(1) False by simp
    with False show ?thesis by simp
  qed (use Suc.prems in auto)
qed simp

lemma year_of_day_spec:
  assumes "0 \<le> d"
  shows "day_from_year (year_of_day d) \<le> d" "d < day_from_year (year_of_day d + 1)" "1970 \<le> year_of_day d"
proof -
  have "d < 365 * (d div 365 + 1)" by presburger
  also have "\<dots> \<le> day_from_year (1970 + d div 365 + 1)"
    using assms day_from_year_lower [of "d div 365 + 1"] by (simp add: pos_imp_zdiv_nonneg_iff add.assoc)
  finally have "d < day_from_year (1970 + d div 365 + 1)" .
  then show "day_from_year (year_of_day d) \<le> d" "d < day_from_year (year_of_day d + 1)" "1970 \<le> year_of_day d"
    using assms year_search_spec [of "1970 + d div 365" "nat (d div 365)" d]
    by (simp_all add: year_of_day_def pos_imp_zdiv_nonneg_iff day_from_year_1970)
qed

lemma month_search_spec:
  "\<lbrakk>0 \<le> r; r < month_start lp (n + 1); 1 \<le> n\<rbrakk>
    \<Longrightarrow> 1 \<le> month_search lp n r \<and> month_search lp n r \<le> n \<and> month_start lp (month_search lp n r) \<le> r
      \<and> r < month_start lp (month_search lp n r + 1)"
proof (induction n)
  case (Suc n)
  then show ?case by (cases "n = 0") (auto simp: month_start_def)
qed simp

lemma month_start_range: "1 \<le> m \<Longrightarrow> m \<le> 12 \<Longrightarrow> month_start lp (m + 1) - month_start lp m \<le> 31"
proof -
  assume "1 \<le> m" "m \<le> 12"
  then have "m = 1 \<or> m = 2 \<or> m = 3 \<or> m = 4 \<or> m = 5 \<or> m = 6 \<or> m = 7 \<or> m = 8 \<or> m = 9 \<or> m = 10 \<or> m = 11 \<or> m = 12" by presburger
  then show ?thesis by (auto simp: month_start_def)
qed

lemma pad_digits:
  "n < 100 \<Longrightarrow> digits_val (pad2 n) = n" "n < 1000 \<Longrightarrow> digits_val (pad3 n) = n" "n < 10000 \<Longrightarrow> digits_val (pad4 n) = n"
proof -
  have split: "n = 10 * (n div 10) + n mod 10" "n = 100 * (n div 100) + n mod 100" for n :: nat by simp_all
  have two: "foldl (\<lambda>n c. 10 * n + digit_val c) a (pad2 m) = 100 * a + m" if "m < 100" for a m
    using split(1) [of m] by (simp add: pad2_def digit_val_def)
  show "n < 100 \<Longrightarrow> digits_val (pad2 n) = n" using two [of n 0] by (simp add: digits_val_def)
  show "n < 1000 \<Longrightarrow> digits_val (pad3 n) = n" using two [of "n mod 100"] split(2) [of n] by (simp add: digits_val_def pad3_def digit_val_def)
  show "n < 10000 \<Longrightarrow> digits_val (pad4 n) = n"
    using two [of "n div 100" 0] two [of "n mod 100"] split(2) [of n] by (simp add: digits_val_def pad4_def)
qed

lemma pad_is_digit:
  "n < 100 \<Longrightarrow> list_all is_digit (pad2 n)" "n < 1000 \<Longrightarrow> list_all is_digit (pad3 n)" "n < 10000 \<Longrightarrow> list_all is_digit (pad4 n)"
  by (auto simp: pad2_def pad3_def pad4_def is_digit_def less_mult_imp_div_less less_Suc_eq_le [symmetric] div_less_iff_less_mult)

lemma clock_split:
  "ms div 3600000 * 3600000 + ms div 60000 mod 60 * 60000 + ms div 1000 mod 60 * 1000 + ms mod 1000 = (ms::nat)"
proof -
  define b where "b = ms div 1000"
  define a where "a = b div 60"
  have e: "ms div 60000 = a" "ms div 3600000 = a div 60" by (simp_all add: a_def b_def div_mult2_eq [symmetric])
  have "a = 60 * (a div 60) + a mod 60" "b = 60 * a + b mod 60" "ms = 1000 * b + ms mod 1000" by (simp_all add: a_def b_def)
  then show ?thesis unfolding e b_def [symmetric] by linarith
qed

lemma parse_iso_layout:
  assumes "y < 10000" "m < 100" "d < 100" "h < 24" "n < 60" "sc < 60" "f < 1000"
    and "1970 \<le> y" "1 \<le> m" "m \<le> 12" "1 \<le> d" "month_start (leap (int y)) m + int d \<le> month_start (leap (int y)) (m + 1)"
  shows "parse_iso (pad4 y @ [45] @ pad2 m @ [45] @ pad2 d @ [84] @ pad2 h @ [58] @ pad2 n @ [58] @ pad2 sc @ [46] @ pad3 f @ [90])
    = Some (nat (day_from_year (int y) + month_start (leap (int y)) m + int d - 1) * 86400000 + h * 3600000 + n * 60000 + sc * 1000 + f)"
proof -
  obtain y1 y2 y3 y4 where y: "pad4 y = [y1, y2, y3, y4]" by (simp add: pad4_def pad2_def)
  obtain m1 m2 d1 d2 h1 h2 n1 n2 s1 s2 where two: "pad2 m = [m1, m2]" "pad2 d = [d1, d2]" "pad2 h = [h1, h2]" "pad2 n = [n1, n2]" "pad2 sc = [s1, s2]"
    by (simp add: pad2_def)
  obtain f1 f2 f3 where f: "pad3 f = [f1, f2, f3]" by (simp add: pad3_def pad2_def)
  have v: "digits_val [y1, y2, y3, y4] = y" "digits_val [m1, m2] = m" "digits_val [d1, d2] = d" "digits_val [h1, h2] = h"
    "digits_val [n1, n2] = n" "digits_val [s1, s2] = sc" "digits_val [f1, f2, f3] = f"
    using pad_digits assms(1-7) by (simp_all add: y [symmetric] two [symmetric] f [symmetric])
  have "list_all is_digit ([y1, y2, y3, y4] @ [m1, m2] @ [d1, d2] @ [h1, h2] @ [n1, n2] @ [s1, s2] @ [f1, f2, f3])"
    using pad_is_digit assms(1-7) by (simp add: y [symmetric] two [symmetric] f [symmetric] del: append.simps)
  then have "\<forall>c\<in>set [y1, y2, y3, y4, m1, m2, d1, d2, h1, h2, n1, n2, s1, s2, f1, f2, f3]. is_digit c" by simp
  with assms(4-12) show ?thesis unfolding y two f parse_iso_def by (simp add: v Let_def)
qed

lemma parse_toISOString:
  assumes "t < 253402300800000"
  shows "parse_iso (toISOString t) = Some t"
proof -
  define d where "d = int (t div 86400000)"
  define ms where "ms = t mod 86400000"
  define y where "y = year_of_day d"
  define r where "r = d - day_from_year y"
  define m where "m = month_search (leap y) 12 r"
  define dom where "dom = nat (r - month_start (leap y) m + 1)"
  have d0: "0 \<le> d" by (simp add: d_def)
  have y: "day_from_year y \<le> d" "d < day_from_year (y + 1)" "1970 \<le> y" using year_of_day_spec [OF d0] by (simp_all add: y_def)
  have "t div 86400000 < 2932897" using assms by (simp add: less_mult_imp_div_less)
  then have "d < 2932897" by (simp add: d_def)
  moreover have "day_from_year 10000 = 2932897" by (simp add: day_from_year_def)
  ultimately have y4: "y < 10000"
  proof -
    have "day_from_year 10000 + 365 * (k - 10000) \<le> day_from_year k" if "10000 \<le> k" for k
      using that
    proof (induction k rule: int_ge_induct)
      case (step k)
      then show ?case using day_from_year_Suc [of k] by (simp split: if_splits)
    qed simp
    from this [of y] show ?thesis using \<open>d < 2932897\<close> \<open>day_from_year 10000 = 2932897\<close> y(1) by (cases "y < 10000") auto
  qed
  have "0 \<le> r" "r < month_start (leap y) (12 + 1)" using y day_from_year_Suc [of y] by (auto simp: r_def month_start_def)
  then have m: "1 \<le> m" "m \<le> 12" "month_start (leap y) m \<le> r" "r < month_start (leap y) (m + 1)"
    using month_search_spec [of r "leap y" 12] by (simp_all add: m_def)
  have dom: "int dom = r - month_start (leap y) m + 1" using m by (simp add: dom_def)
  then have "dom < 100" "1 \<le> dom" "month_start (leap y) m + int dom \<le> month_start (leap y) (m + 1)"
    using m month_start_range [of m "leap y"] by linarith+
  moreover have "ms < 86400000" by (simp add: ms_def)
  moreover from this have "ms div 3600000 < 24" by (simp add: less_mult_imp_div_less)
  moreover have iy: "int (nat y) = y" using y(3) by simp
  ultimately have "parse_iso (toISOString t) = Some (nat (day_from_year y + month_start (leap y) m + int dom - 1) * 86400000
      + ms div 3600000 * 3600000 + ms div 60000 mod 60 * 60000 + ms div 1000 mod 60 * 1000 + ms mod 1000)"
    using parse_iso_layout [of "nat y" m dom "ms div 3600000" "ms div 60000 mod 60" "ms div 1000 mod 60" "ms mod 1000"] y y4 m
    unfolding toISOString_def Let_def d_def [symmetric] ms_def [symmetric] y_def [symmetric] r_def [symmetric] m_def [symmetric] dom_def [symmetric]
    by simp
  moreover have "day_from_year y + month_start (leap y) m + int dom - 1 = d" using dom by (simp add: r_def)
  moreover have "ms div 3600000 * 3600000 + ms div 60000 mod 60 * 60000 + ms div 1000 mod 60 * 1000 + ms mod 1000 = ms"
    by (rule clock_split)
  moreover have "nat d * 86400000 + ms = t" by (simp add: d_def ms_def)
  ultimately show ?thesis by (simp add: add.assoc)
qed

end
