(* ===== verification/Sends.thy ===== *)
theory Sends
  imports Items Shell Dates
begin

text \<open>
  Bitwarden Send in \<^verbatim>\<open>BitwardenModel.js\<close>: the payload of a new text Send with its deletion date, the
  list of Sends that \<^verbatim>\<open>bw\<close> prints, and the labels that say how long a Send still lives and how
  often it was opened. \<^verbatim>\<open>Date.parse\<close> is \<open>parse_iso\<close> on the dates that the payload holds; what an
  engine does with other date texts is a parameter.
\<close>

section \<open>Creating\<close>

definition SEND_TYPE_TEXT :: int where "SEND_TYPE_TEXT = 0"
definition SEND_TYPE_FILE :: int where "SEND_TYPE_FILE = 1"
definition SEND_ENV :: jsstr where "SEND_ENV = js ''QSBW_SEND''"
definition ENCODE_CMD :: jsstr where "ENCODE_CMD = js ''base64 -w0''"

definition createSendCommand :: "jsstr list" where
  \<open>createSendCommand =
     [js ''bash'', js ''-c'',
      cappedScript (js ''printf '%s' "$'' @ SEND_ENV @ js ''" | '' @ ENCODE_CMD @ js '' | bw send create | head -c ''
        @ nat_to_str MAX_MISC_BYTES) MAX_STDERR_BYTES]\<close>

definition send_days :: "jsval \<Rightarrow> jsnum" where
  \<comment> \<open>\<^verbatim>\<open>Math.max(1, Math.min(31, Number(deleteInDays) || 7))\<close>\<close>
  "send_days v = (let n = to_num v in num_max (Fin 1) (num_min (Fin 31) (if n = NaN \<or> n = Fin 0 then Fin 7 else n)))"

definition deletion_time :: "nat \<Rightarrow> jsval \<Rightarrow> nat" where
  \<comment> \<open>a \<^verbatim>\<open>Date\<close> keeps whole milliseconds\<close>
  "deletion_time now v =
     (case num_add (Fin (of_nat now)) (num_scale 86400000 (send_days v)) of Fin q \<Rightarrow> nat \<lfloor>q\<rfloor> | _ \<Rightarrow> 0)"

definition trimmed_or_null :: "jsval \<Rightarrow> jsval" where
  "trimmed_or_null v = (if truthy v \<and> trim (to_str v) \<noteq> [] then JStr (trim (to_str v)) else JNull)"

definition buildSendPayload :: "nat \<Rightarrow> jsval \<Rightarrow> jsval \<Rightarrow> jsval \<Rightarrow> jsval \<Rightarrow> jsval \<Rightarrow> jsval \<Rightarrow> jsval \<Rightarrow> jsval" where
  \<comment> \<open>the first argument is \<^verbatim>\<open>Date.now()\<close>\<close>
  "buildSendPayload now name body hidden deleteInDays maxAccessCount password notes =
     JObj [
       (js ''object'', JStr (js ''send'')),
       (js ''name'', JStr (or_text (trim (str_or name [])) (js ''Untitled Send''))),
       (js ''notes'', trimmed_or_null notes),
       (js ''type'', jint SEND_TYPE_TEXT),
       (js ''text'', JObj [(js ''text'', JStr (str_or body [])), (js ''hidden'', JBool (truthy hidden))]),
       (js ''file'', JNull),
       (js ''maxAccessCount'', if num_lt (Fin 0) (to_num maxAccessCount) then JNum (to_num maxAccessCount) else JNull),
       (js ''deletionDate'', JStr (toISOString (deletion_time now deleteInDays))),
       (js ''expirationDate'', JNull),
       (js ''password'', if truthy password \<and> to_str password \<noteq> [] then JStr (to_str password) else JNull),
       (js ''emails'', JNull),
       (js ''disabled'', JBool False),
       (js ''hideEmail'', JBool False)]"

section \<open>The list\<close>

record send =
  sd_id :: jsstr
  sd_name :: jsstr
  sd_type :: jsnum
  sd_isFile :: bool
  sd_accessUrl :: jsstr
  sd_accessCount :: jsnum
  sd_maxAccessCount :: "jsnum option"
  sd_deletionDate :: jsstr
  sd_expirationDate :: jsstr
  sd_passwordSet :: bool
  sd_disabled :: bool
  sd_notes :: jsstr
  sd_textPreview :: jsstr
  sd_textHidden :: bool
  sd_fileName :: jsstr

definition num_or_0 :: "jsval \<Rightarrow> jsnum" where
  \<comment> \<open>\<^verbatim>\<open>Number(v || 0)\<close>\<close>
  "num_or_0 v = (if truthy v then to_num v else Fin 0)"

definition part_text :: "jsval \<Rightarrow> string \<Rightarrow> jsstr" where
  \<comment> \<open>\<^verbatim>\<open>(v && v.f) ? String(v.f) : ""\<close>\<close>
  "part_text v f = (if truthy v \<and> truthy (fld v f) then to_str (fld v f) else [])"

definition send_row :: "jsval \<Rightarrow> send" where
  "send_row s = \<lparr>
     sd_id = sfld s ''id'',
     sd_name = str_or (fld s ''name'') (js ''Untitled Send''),
     sd_type = num_or_0 (fld s ''type''),
     sd_isFile = num_eq (to_num (fld s ''type'')) (numi SEND_TYPE_FILE),
     sd_accessUrl = sfld s ''accessUrl'',
     sd_accessCount = num_or_0 (fld s ''accessCount''),
     sd_maxAccessCount = (if nullish (fld s ''maxAccessCount'') then None else Some (to_num (fld s ''maxAccessCount''))),
     sd_deletionDate = sfld s ''deletionDate'',
     sd_expirationDate = sfld s ''expirationDate'',
     sd_passwordSet = truthy (fld s ''passwordSet''),
     sd_disabled = truthy (fld s ''disabled''),
     sd_notes = sfld s ''notes'',
     sd_textPreview = part_text (fld s ''text'') ''text'',
     sd_textHidden = (truthy (fld s ''text'') \<and> truthy (fld (fld s ''text'') ''hidden'')),
     sd_fileName = part_text (fld s ''file'') ''fileName''\<rparr>"

definition send_le :: "collate \<Rightarrow> send \<Rightarrow> send \<Rightarrow> bool" where
  "send_le collate a b \<longleftrightarrow> collate (sd_deletionDate a) (sd_deletionDate b) \<le> 0"

definition parseSends :: "collate \<Rightarrow> jsstr \<Rightarrow> send list" where
  "parseSends collate raw = sort_by (send_le collate) (map send_row (filter is_object (parseJsonArray raw)))"

section \<open>Labels\<close>

definition date_parse :: "(jsstr \<Rightarrow> rat option) \<Rightarrow> jsstr \<Rightarrow> rat option" where
  "date_parse other s = (case parse_iso s of Some t \<Rightarrow> Some (of_nat t) | None \<Rightarrow> other s)"

definition in_units :: "int \<Rightarrow> string \<Rightarrow> jsstr" where
  "in_units n unit' = js ''in '' @ int_to_str n @ js '' '' @ js unit' @ (if n = 1 then [] else js ''s'')"

definition sendExpiryLabel :: "(jsstr \<Rightarrow> rat option) \<Rightarrow> send option \<Rightarrow> rat \<Rightarrow> jsstr" where
  "sendExpiryLabel other sd now =
     (case sd of
        None \<Rightarrow> []
      | Some s \<Rightarrow>
          if sd_deletionDate s = [] then []
          else (case date_parse other (sd_deletionDate s) of
                  None \<Rightarrow> []
                | Some target \<Rightarrow>
                    (let ms = target - now; mins = \<lfloor>ms / 60000\<rfloor>; hours = mins div 60; days = hours div 24
                     in if ms \<le> 0 then js ''expired''
                        else if mins < 60 then in_units mins ''minute''
                        else if hours < 24 then in_units hours ''hour''
                        else in_units days ''day'')))"

definition sendAccessLabel :: "send option \<Rightarrow> jsstr" where
  "sendAccessLabel sd =
     (case sd of
        None \<Rightarrow> []
      | Some s \<Rightarrow>
          num_to_str (sd_accessCount s)
          @ (case sd_maxAccessCount s of None \<Rightarrow> js '' views'' | Some m \<Rightarrow> js '' of '' @ num_to_str m @ js '' views''))"

section \<open>A Send lives as long as was asked\<close>

definition time_left :: "int \<Rightarrow> jsstr" where
  \<comment> \<open>the label for that many milliseconds\<close>
  "time_left ms =
     (if ms \<le> 0 then js ''expired''
      else if ms < 3600000 then in_units (ms div 60000) ''minute''
      else if ms < 86400000 then in_units (ms div 3600000) ''hour''
      else in_units (ms div 86400000) ''day'')"

lemma send_days_int: "1 \<le> n \<Longrightarrow> n \<le> 31 \<Longrightarrow> send_days (jint n) = numi n"
  by (auto simp: send_days_def Let_def num_max_def num_min_def)

lemma send_days_range: "\<exists>q. send_days v = Fin q \<and> 1 \<le> q \<and> q \<le> 31"
proof -
  let ?n = "if to_num v = NaN \<or> to_num v = Fin 0 then Fin 7 else to_num v"
  have "?n \<noteq> NaN" by simp
  then show ?thesis by (cases ?n) (auto simp: send_days_def Let_def num_max_def num_min_def)
qed

lemma deletion_time_int:
  assumes "1 \<le> n" and "n \<le> 31"
  shows "int (deletion_time now (jint n)) = int now + n * 86400000"
proof -
  have "num_add (Fin (of_nat now)) (num_scale 86400000 (numi n)) = numi (int now + n * 86400000)" by simp
  then have "deletion_time now (jint n) = nat (int now + n * 86400000)"
    by (simp only: deletion_time_def send_days_int [OF assms] jsnum.case floor_of_int)
  with assms show ?thesis by simp
qed

lemma label_time_left:
  "(let ms = of_int k; mins = \<lfloor>(ms::rat) / 60000\<rfloor>; hours = mins div 60; days = hours div 24
    in if ms \<le> 0 then js ''expired'' else if mins < 60 then in_units mins ''minute''
       else if hours < 24 then in_units hours ''hour'' else in_units days ''day'') = time_left k"
proof -
  have m: "\<lfloor>(of_int k :: rat) / 60000\<rfloor> = k div 60000" using floor_divide_of_int_eq [of k 60000] by simp
  have "k div 60000 div 60 = k div 3600000" "k div 60000 div 60 div 24 = k div 86400000" by (simp_all add: zdiv_zmult2_eq [symmetric])
  moreover have "k div 60000 < 60 \<longleftrightarrow> k < 3600000" "k div 3600000 < 24 \<longleftrightarrow> k < 86400000"
    using div_mult_mod_eq [of k 60000] pos_mod_bound [of 60000 k] pos_mod_sign [of 60000 k]
      div_mult_mod_eq [of k 3600000] pos_mod_bound [of 3600000 k] pos_mod_sign [of 3600000 k] by linarith+
  ultimately show ?thesis unfolding m Let_def time_left_def by simp
qed

lemma expiry_label:
  assumes "sd_deletionDate s = toISOString t" and "t < 253402300800000"
  shows "sendExpiryLabel other (Some s) (of_int now) = time_left (int t - now)"
proof -
  have "parse_iso (toISOString t) = Some t" using assms(2) by (rule parse_toISOString)
  moreover from this have "toISOString t \<noteq> []" by (auto simp: parse_iso_def)
  moreover have "(of_nat t :: rat) - of_int now = of_int (int t - now)" by simp
  ultimately show ?thesis
    using label_time_left [of "int t - now"] by (simp only: sendExpiryLabel_def option.case assms(1) date_parse_def if_False)
qed

lemma payload_row:
  fixes now name body hidden v m password remarks
  defines "row \<equiv> send_row (buildSendPayload now name body hidden v m password remarks)"
  shows "sd_name row = or_text (trim (str_or name [])) (js ''Untitled Send'')" "sd_textPreview row = str_or body []"
    "sd_textHidden row = truthy hidden" "\<not> sd_isFile row" "sd_deletionDate row = toISOString (deletion_time now v)"
    "sd_maxAccessCount row = (if num_lt (Fin 0) (to_num m) then Some (to_num m) else None)"
proof -
  have n: "or_text a (js ''Untitled Send'') \<noteq> []" for a by (simp add: or_text_def)
  have "toISOString t \<noteq> []" for t by (simp add: toISOString_def pad4_def pad2_def Let_def)
  then show "sd_name row = or_text (trim (str_or name [])) (js ''Untitled Send'')" "sd_textPreview row = str_or body []"
    "sd_textHidden row = truthy hidden" "\<not> sd_isFile row" "sd_deletionDate row = toISOString (deletion_time now v)"
    "sd_maxAccessCount row = (if num_lt (Fin 0) (to_num m) then Some (to_num m) else None)"
    using n unfolding row_def send_row_def buildSendPayload_def
    by (simp_all add: obj_get_def part_text_def str_or_def SEND_TYPE_TEXT_def SEND_TYPE_FILE_def num_eq_def)
qed

text \<open>A new Send is listed as it was entered, and its label counts down from exactly the days asked for:
  read at any moment after its creation, the list shows the name, text, visibility and access limit
  of the form, and the time left until creation plus that many days, then that it has expired.\<close>
theorem send_lifetime_shown:
  fixes now later n name body hidden maxAccessCount password remarks other
  assumes "1 \<le> n" and "n \<le> 31" and "now + 31 * 86400000 < 253402300800000"
  defines "row \<equiv> send_row (buildSendPayload now name body hidden (jint n) maxAccessCount password remarks)"
  shows "sendExpiryLabel other (Some row) (of_int (int now + later)) = time_left (n * 86400000 - later)
    \<and> sd_name row = or_text (trim (str_or name [])) (js ''Untitled Send'') \<and> sd_textPreview row = str_or body []
    \<and> sd_textHidden row = truthy hidden \<and> \<not> sd_isFile row
    \<and> sd_maxAccessCount row = (if num_lt (Fin 0) (to_num maxAccessCount) then Some (to_num maxAccessCount) else None)"
proof -
  have d: "int (deletion_time now (jint n)) = int now + n * 86400000" using assms(1,2) by (rule deletion_time_int)
  have "n * 86400000 \<le> 31 * 86400000" using assms(2) by simp
  then have "deletion_time now (jint n) < 253402300800000" using d assms(3) by linarith
  then have "sendExpiryLabel other (Some row) (of_int (int now + later)) = time_left (int (deletion_time now (jint n)) - (int now + later))"
    unfolding row_def by (intro expiry_label payload_row)
  moreover have "int (deletion_time now (jint n)) - (int now + later) = n * 86400000 - later" unfolding d by simp
  ultimately show ?thesis unfolding row_def payload_row(1-3,6) by (simp add: payload_row(4))
qed

theorem send_lifetime_shown_witness:
  "sendExpiryLabel (\<lambda>_. None) (Some (send_row (buildSendPayload 1767225600000 (JStr (js ''wifi'')) (JStr (js ''s3cret'')) (JBool True) (jint 3) JNull JNull JNull)))
     (of_int (int 1767225600000 + 100000000)) = js ''in 1 day''
   \<and> time_left (3 * 86400000 - 3 * 86400000) = js ''expired''"
proof -
  have "int_to_str 1 = js ''1''" by (simp add: int_to_str_def nat_to_str_unfold js_def)
  then have "time_left (3 * 86400000 - 100000000) = js ''in 1 day''" by (simp add: time_left_def in_units_def js_def)
  moreover have "time_left (3 * 86400000 - 3 * 86400000) = js ''expired''" by (simp add: time_left_def)
  moreover have "sendExpiryLabel (\<lambda>_. None) (Some (send_row (buildSendPayload 1767225600000 (JStr (js ''wifi'')) (JStr (js ''s3cret'')) (JBool True) (jint 3) JNull JNull JNull)))
     (of_int (int 1767225600000 + 100000000)) = time_left (3 * 86400000 - 100000000)"
    by (rule conjunct1 [OF send_lifetime_shown [of 3 1767225600000]]) simp_all
  ultimately show ?thesis by simp
qed

end
