(* ===== verification/Sanitize.thy ===== *)
theory Sanitize
  imports Items Shell
begin

text \<open>
  The filter between \<^verbatim>\<open>bw\<close> and the panel. \<^verbatim>\<open>bw list items\<close> prints decrypted items, private SSH keys
  included; \<^verbatim>\<open>SANITIZED_ITEMS_FILTER\<close> and \<^verbatim>\<open>AGENT_KEYS_FILTER\<close> of \<^verbatim>\<open>BitwardenModel.js\<close> are programs in
  the language jq that decide what the panel and what the SSH agent helper get to see. They are
  given here as functions on JSON values, with the pipelines around them. Two points of jq are
  parameters: how it reads a number from text (\<open>tonumber\<close>), and whether \<^verbatim>\<open>//\<close> hides an error on
  its left (\<open>hide\<close>); nothing below depends on them.
\<close>

section \<open>Parts of jq\<close>

definition jq_get :: "jsval \<Rightarrow> string \<Rightarrow> jsval option" where
  \<comment> \<open>\<^verbatim>\<open>.k\<close>; \<open>None\<close> is an error\<close>
  "jq_get v k = (case v of JObj ps \<Rightarrow> Some (case map_of ps (js k) of None \<Rightarrow> JNull | Some w \<Rightarrow> w) | JNull \<Rightarrow> Some JNull | _ \<Rightarrow> None)"

definition jq_alt :: "bool \<Rightarrow> jsval option \<Rightarrow> jsval option \<Rightarrow> jsval option" where
  \<comment> \<open>\<^verbatim>\<open>a // b\<close>\<close>
  "jq_alt hide a b =
     (case a of None \<Rightarrow> if hide then b else None | Some v \<Rightarrow> if v = JNull \<or> v = JBool False then b else Some v)"

definition try_null :: "jsval option \<Rightarrow> jsval" where
  "try_null a = (case a of None \<Rightarrow> JNull | Some v \<Rightarrow> v)"

definition jq_path :: "jsval \<Rightarrow> string \<Rightarrow> string \<Rightarrow> jsval option" where
  "jq_path v k j = (case jq_get v k of None \<Rightarrow> None | Some w \<Rightarrow> jq_get w j)"

section \<open>The helpers of both filters\<close>

definition string_or_empty :: "jsval \<Rightarrow> jsval" where
  "string_or_empty v = (if is_string v then v else JStr [])"

definition string_or_null :: "jsval \<Rightarrow> jsval" where
  "string_or_null v = (if is_string v then v else JNull)"

definition bool_or_false :: "jsval \<Rightarrow> jsval" where
  "bool_or_false v = (case v of JBool b \<Rightarrow> v | _ \<Rightarrow> JBool False)"

definition reprompt_or_zero :: "jsval \<Rightarrow> jsval" where
  "reprompt_or_zero v = (if v = JNum (Fin 0) \<or> v = JNum (Fin 1) then v else JNum (Fin 0))"

type_synonym tonumber = "jsstr \<Rightarrow> jsnum option"

definition item_type :: "tonumber \<Rightarrow> jsval \<Rightarrow> jsval" where
  "item_type num it =
     (case jq_get it ''type'' of
        Some (JNum n) \<Rightarrow> JNum n
      | Some (JStr s) \<Rightarrow> (case num s of Some n \<Rightarrow> JNum n | None \<Rightarrow> JNull)
      | _ \<Rightarrow> JNull)"

definition ordinary_type :: "tonumber \<Rightarrow> jsval \<Rightarrow> bool" where
  "ordinary_type num it \<longleftrightarrow> item_type num it \<in> {JNum (Fin 1), JNum (Fin 2), JNum (Fin 3), JNum (Fin 4)}"

definition is_ssh_type :: "tonumber \<Rightarrow> jsval \<Rightarrow> bool" where
  "is_ssh_type num it \<longleftrightarrow> item_type num it = JNum (Fin 5)"

fun is_jq_object :: "jsval \<Rightarrow> bool" where
  "is_jq_object (JObj ps) = True"
| "is_jq_object _ = False"

fun jq_has :: "jsval \<Rightarrow> string \<Rightarrow> bool" where
  "jq_has (JObj ps) k = (js k \<in> fst ` set ps)"
| "jq_has _ k = False"

definition jq_field :: "jsval \<Rightarrow> string \<Rightarrow> jsval" where
  \<comment> \<open>\<^verbatim>\<open>.k\<close> of an object\<close>
  "jq_field it k = try_null (jq_get it k)"

section \<open>What the panel sees\<close>

definition ssh_public :: "bool \<Rightarrow> jsval \<Rightarrow> jsval" where
  "ssh_public hide it = string_or_empty (try_null (jq_alt hide (jq_path it ''sshKey'' ''publicKey'') (jq_get it ''publicKey'')))"

definition ssh_print :: "bool \<Rightarrow> jsval \<Rightarrow> jsval" where
  "ssh_print hide it =
     string_or_empty (try_null (jq_alt hide (jq_path it ''sshKey'' ''fingerprint'')
       (jq_alt hide (jq_path it ''sshKey'' ''keyFingerprint'')
         (jq_alt hide (jq_get it ''fingerprint'') (jq_get it ''keyFingerprint'')))))"

definition ssh_metadata :: "bool \<Rightarrow> jsval \<Rightarrow> jsval" where
  "ssh_metadata hide it =
     JObj [(js ''id'', string_or_empty (jq_field it ''id'')),
           (js ''name'', string_or_empty (jq_field it ''name'')),
           (js ''type'', JNum (Fin 5)),
           (js ''organizationId'', string_or_null (jq_field it ''organizationId'')),
           (js ''collectionIds'', case jq_field it ''collectionIds'' of JArr xs \<Rightarrow> JArr (filter is_string xs) | _ \<Rightarrow> JArr []),
           (js ''folderId'', string_or_null (jq_field it ''folderId'')),
           (js ''favorite'', bool_or_false (jq_field it ''favorite'')),
           (js ''reprompt'', reprompt_or_zero (jq_field it ''reprompt'')),
           (js ''publicKey'', ssh_public hide it),
           (js ''fingerprint'', ssh_print hide it)]"

definition SANITIZED_ITEMS_FILTER :: "tonumber \<Rightarrow> bool \<Rightarrow> jsval \<Rightarrow> jsval option" where
  "SANITIZED_ITEMS_FILTER num hide v =
     (case v of
        JArr xs \<Rightarrow>
          (let objs = filter is_jq_object xs in
           if list_ex (\<lambda>it. ordinary_type num it \<and> jq_has it ''sshKey'') objs then None
           else Some (JObj [
             (js ''sshCapability'', JStr (if list_ex (is_ssh_type num) objs then js ''confirmed'' else js ''unconfirmed'')),
             (js ''items'', JArr (filter (ordinary_type num) objs)),
             (js ''sshKeys'', JArr (map (ssh_metadata hide) (filter (is_ssh_type num) objs)))]))
      | _ \<Rightarrow> None)"

section \<open>What the agent helper sees\<close>

definition agent_key :: "(jsstr \<Rightarrow> jsstr) \<Rightarrow> bool \<Rightarrow> jsval \<Rightarrow> jsval" where
  \<comment> \<open>\<open>enc\<close> is jq's \<^verbatim>\<open>@base64\<close>\<close>
  "agent_key enc hide it =
     (case string_or_empty (try_null (jq_alt hide (jq_path it ''sshKey'' ''privateKey'') (jq_get it ''privateKey''))) of
        JStr s \<Rightarrow> JStr (enc s) | v \<Rightarrow> v)"

definition agent_item :: "(jsstr \<Rightarrow> jsstr) \<Rightarrow> bool \<Rightarrow> jsval \<Rightarrow> jsval" where
  "agent_item enc hide it =
     JObj [(js ''itemId'', string_or_empty (jq_field it ''id'')),
           (js ''name'', string_or_empty (jq_field it ''name'')),
           (js ''privateKeyB64'', agent_key enc hide it),
           (js ''publicKey'', ssh_public hide it),
           (js ''fingerprint'', ssh_print hide it),
           (js ''requiresReprompt'', JBool False)]"

definition AGENT_KEYS_FILTER :: "(jsstr \<Rightarrow> jsstr) \<Rightarrow> tonumber \<Rightarrow> bool \<Rightarrow> jsstr \<Rightarrow> jsval \<Rightarrow> jsval option" where
  "AGENT_KEYS_FILTER enc num hide loadId v =
     (case v of
        JArr xs \<Rightarrow>
          Some (JObj [(js ''loadId'', JStr loadId),
            (js ''items'', JArr (filter (\<lambda>o'. jq_field o' ''privateKeyB64'' \<noteq> JStr [])
               (map (agent_item enc hide)
                 (filter (\<lambda>it. reprompt_or_zero (jq_field it ''reprompt'') = JNum (Fin 0))
                   (filter (is_ssh_type num) (filter is_jq_object xs))))))])
      | _ \<Rightarrow> None)"

section \<open>The pipelines\<close>

definition SAVED_UNSANITIZED_MARKER :: jsstr where "SAVED_UNSANITIZED_MARKER = js ''__QSBW_SAVED_UNSANITIZED__''"


definition strict_array :: "nat \<Rightarrow> jsstr \<Rightarrow> jsval option" where
  \<comment> \<open>\<open>STRICT_JSON_PASSTHROUGH\<close>: the text, if it is short enough and strict JSON for an array\<close>
  "strict_array max' raw = (if max' < length raw then None else case json_parse raw of Some (JArr xs) \<Rightarrow> Some (JArr xs) | _ \<Rightarrow> None)"

definition strict_object :: "nat \<Rightarrow> jsstr \<Rightarrow> jsval option" where
  \<comment> \<open>\<open>STRICT_JSON_ONE_OBJECT\<close>: one object, wrapped in an array\<close>
  "strict_object max' raw = (if max' < length raw then None else case json_parse raw of Some (JObj ps) \<Rightarrow> Some (JArr [JObj ps]) | _ \<Rightarrow> None)"

definition sanitizedListCommand :: "tonumber \<Rightarrow> bool \<Rightarrow> nat \<Rightarrow> jsstr \<Rightarrow> (jsstr, jsstr) sum" where
  \<comment> \<open>what the script prints for the exit status and the output of \<^verbatim>\<open>bw list items\<close>: an error (on
    standard error, exit 1) or the sanitized list\<close>
  "sanitizedListCommand num hide rc raw =
     (case if rc = 0 then strict_array MAX_ITEMS_BYTES (take (MAX_ITEMS_BYTES + 1) raw) else None of
        None \<Rightarrow> Inl SANITIZED_LIST_ERROR
      | Some v \<Rightarrow>
          (case SANITIZED_ITEMS_FILTER num hide v of
             None \<Rightarrow> Inl SANITIZED_LIST_ERROR
           | Some out \<Rightarrow> if MAX_ITEMS_BYTES < length (json_str out) then Inl SANITIZED_LIST_ERROR else Inr (json_str out)))"

definition savePipelineScript :: "tonumber \<Rightarrow> bool \<Rightarrow> nat \<Rightarrow> jsstr \<Rightarrow> (nat, jsstr) sum" where
  \<comment> \<open>for the exit status and the output of the save: a failing exit status, or exit 0 and what is printed\<close>
  "savePipelineScript num hide rc raw =
     (if rc \<noteq> 0 \<and> rc \<noteq> 141 then Inl rc
      else
        (case strict_object MAX_MISC_BYTES (take (MAX_MISC_BYTES + 1) raw) of
           None \<Rightarrow> Inr SAVED_UNSANITIZED_MARKER
         | Some v \<Rightarrow>
             (case SANITIZED_ITEMS_FILTER num hide v of
                None \<Rightarrow> Inr SAVED_UNSANITIZED_MARKER
              | Some out \<Rightarrow>
                  if json_str out = [] \<or> MAX_MISC_BYTES < length (json_str out) then Inr SAVED_UNSANITIZED_MARKER
                  else Inr (json_str out))))"

definition FOLDER_ENV :: jsstr where "FOLDER_ENV = js ''QSBW_FOLDER''"
definition ITEM_ENV :: jsstr where "ITEM_ENV = js ''QSBW_ITEM''"

definition folderPayload :: "jsval \<Rightarrow> jsstr" where
  "folderPayload name = json_str (JObj [(js ''name'', JStr (trim (str_or name [])))])"

definition createFolderCommand :: "jsstr list" where
  \<comment> \<open>\<^verbatim>\<open>ENCODE_CMD\<close> is coreutils' base64\<close>
  \<open>createFolderCommand =
     [js ''bash'', js ''-c'', cappedScript
        (js ''printf '' @ [39] @ js ''%s'' @ [39] @ js '' "$'' @ FOLDER_ENV @ js ''" | base64 -w0 | bw create folder | head -c '' @ nat_to_str MAX_MISC_BYTES)
        MAX_STDERR_BYTES]\<close>

definition createItemCommand :: "jsstr \<Rightarrow> jsstr" where
  \<comment> \<open>the save command; no organization is the empty text\<close>
  "createItemCommand organizationId =
     js ''bw create item'' @ (if organizationId \<noteq> [] then js '' --organizationid '' @ shellQuote organizationId else [])"

definition editItemCommand :: "jsstr \<Rightarrow> jsnum \<Rightarrow> jsstr option" where
  "editItemCommand itemId typeCode = (if ssh_type typeCode then None else Some (js ''bw edit item -- '' @ shellQuote itemId))"

section \<open>No private key gets through\<close>

definition keep_keys :: "string list \<Rightarrow> jsval \<Rightarrow> jsval" where
  "keep_keys ks v = (case v of JObj ps \<Rightarrow> JObj (filter (\<lambda>(k, w). k \<in> js ` set ks) ps) | _ \<Rightarrow> v)"

definition public_ssh_keys :: "string list" where
  "public_ssh_keys = [''publicKey'', ''fingerprint'', ''keyFingerprint'']"

definition kept_keys :: "string list" where
  "kept_keys = [''id'', ''name'', ''type'', ''organizationId'', ''collectionIds'', ''folderId'', ''favorite'', ''reprompt'',
     ''sshKey'', ''publicKey'', ''fingerprint'', ''keyFingerprint'']"

definition erase_private :: "jsval \<Rightarrow> jsval" where
  \<comment> \<open>an SSH item with nothing but the public metadata\<close>
  "erase_private v =
     (case v of
        JObj ps \<Rightarrow>
          JObj (map (\<lambda>(k, w). (k, if k = js ''sshKey'' then keep_keys public_ssh_keys w else w))
            (filter (\<lambda>(k, w). k \<in> js ` set kept_keys) ps))
      | _ \<Rightarrow> v)"

lemma map_of_filter_key: "P k \<Longrightarrow> map_of (filter (\<lambda>(k, w). P k) ps) k = map_of ps k"
  by (induction ps) auto

lemma jq_get_keep: "k \<in> set ks \<Longrightarrow> jq_get (keep_keys ks v) k = jq_get v k"
proof (cases v)
  case (JObj ps)
  assume "k \<in> set ks"
  then have "map_of (filter (\<lambda>(k, w). k \<in> js ` set ks) ps) (js k) = map_of ps (js k)" by (intro map_of_filter_key) auto
  with JObj show ?thesis by (simp add: jq_get_def keep_keys_def)
qed (simp_all add: jq_get_def keep_keys_def)

lemma map_of_map_snd: "map_of (map (\<lambda>(k, w). (k, f k w)) ps) k = map_option (f k) (map_of ps k)"
  by (induction ps) auto

lemma jq_get_erase:
  assumes "k \<in> set kept_keys"
  shows "jq_get (erase_private v) k = map_option (\<lambda>w. if k = ''sshKey'' then keep_keys public_ssh_keys w else w) (jq_get v k)"
proof (cases v)
  case (JObj ps)
  have f: "map_of (filter (\<lambda>(k, w). k \<in> js ` set kept_keys) ps) (js k) = map_of ps (js k)"
    using assms by (intro map_of_filter_key) blast
  have "map_of (map (\<lambda>(k, w). (k, if k = js ''sshKey'' then keep_keys public_ssh_keys w else w))
      (filter (\<lambda>(k, w). k \<in> js ` set kept_keys) ps)) (js k)
    = map_option (\<lambda>w. if k = ''sshKey'' then keep_keys public_ssh_keys w else w) (map_of ps (js k))"
    unfolding map_of_map_snd f by simp
  then show ?thesis
    by (cases "map_of ps (js k)") (simp_all add: JObj jq_get_def erase_private_def keep_keys_def)
qed (simp_all add: jq_get_def erase_private_def keep_keys_def)

lemma jq_path_erase:
  "k \<in> set public_ssh_keys \<Longrightarrow> jq_path (erase_private v) ''sshKey'' k = jq_path v ''sshKey'' k"
  using jq_get_erase [of "''sshKey''" v] by (cases "jq_get v ''sshKey''") (simp_all add: jq_path_def jq_get_keep kept_keys_def)

lemma erase_invisible:
  "ssh_metadata hide (erase_private it) = ssh_metadata hide it" "item_type num (erase_private it) = item_type num it"
proof -
  have "jq_get (erase_private it) k = jq_get it k"
    if "k \<in> set kept_keys" "k \<noteq> ''sshKey''" for k
    using that by (simp add: jq_get_erase option.map_ident)
  then show "ssh_metadata hide (erase_private it) = ssh_metadata hide it" "item_type num (erase_private it) = item_type num it"
    by (simp_all add: ssh_metadata_def jq_field_def ssh_public_def ssh_print_def jq_path_erase public_ssh_keys_def kept_keys_def item_type_def)
qed

definition hide_private :: "tonumber \<Rightarrow> jsval list \<Rightarrow> jsval list" where
  \<comment> \<open>the vault with every SSH item cut down to its public metadata\<close>
  "hide_private num = map (\<lambda>it. if is_jq_object it \<and> is_ssh_type num it then erase_private it else it)"

lemma is_jq_object_erase [simp]: "is_jq_object (erase_private it) = is_jq_object it"
  by (cases it) (simp_all add: erase_private_def)

lemma ssh_not_ordinary: "is_ssh_type num it \<Longrightarrow> \<not> ordinary_type num it"
  by (auto simp: is_ssh_type_def ordinary_type_def)

lemma types_erase [simp]:
  "is_ssh_type num (erase_private it) = is_ssh_type num it" "ordinary_type num (erase_private it) = ordinary_type num it"
  by (simp_all add: is_ssh_type_def ordinary_type_def erase_invisible)

lemma objects_hidden:
  "filter (ordinary_type num) (filter is_jq_object (hide_private num xs)) = filter (ordinary_type num) (filter is_jq_object xs)"
  "map (ssh_metadata hide) (filter (is_ssh_type num) (filter is_jq_object (hide_private num xs)))
     = map (ssh_metadata hide) (filter (is_ssh_type num) (filter is_jq_object xs))"
  by (induction xs) (auto simp: hide_private_def erase_invisible dest: ssh_not_ordinary)

lemma list_ex_hidden:
  "list_ex (\<lambda>it. ordinary_type num it \<and> jq_has it ''sshKey'') (filter is_jq_object (hide_private num xs))
     = list_ex (\<lambda>it. ordinary_type num it \<and> jq_has it ''sshKey'') (filter is_jq_object xs)"
  "list_ex (is_ssh_type num) (filter is_jq_object (hide_private num xs)) = list_ex (is_ssh_type num) (filter is_jq_object xs)"
  by (induction xs) (auto simp: hide_private_def dest: ssh_not_ordinary)

lemma filter_hidden: "SANITIZED_ITEMS_FILTER num hide (JArr (hide_private num xs)) = SANITIZED_ITEMS_FILTER num hide (JArr xs)"
  unfolding SANITIZED_ITEMS_FILTER_def jsval.case Let_def objects_hidden list_ex_hidden ..

text \<open>C5: The panel never sees a private SSH key: the sanitized list is the same whether or not the SSH items
  held one, since it does not change when they are cut down to their public metadata beforehand.
  And no login, note, card or identity brings a key along: the filter fails as a whole exactly if one does. Items of other types are
  not listed.\<close>
theorem private_keys_withheld:
  "SANITIZED_ITEMS_FILTER num hide (JArr (hide_private num xs)) = SANITIZED_ITEMS_FILTER num hide (JArr xs)
   \<and> (SANITIZED_ITEMS_FILTER num hide (JArr xs) = None
      \<longleftrightarrow> list_ex (\<lambda>it. is_jq_object it \<and> ordinary_type num it \<and> jq_has it ''sshKey'') xs)"
  unfolding filter_hidden by (auto simp: SANITIZED_ITEMS_FILTER_def Let_def list_ex_iff)

text \<open>C28: The agent helper gets a subset of what the panel lists: every key it is sent belongs to an SSH item
  that the panel shows with the same id, public key and fingerprint, that does not ask for the
  master password again, and whose private key is not empty.\<close>
theorem agent_keys_listed:
  assumes "AGENT_KEYS_FILTER enc num hide loadId (JArr xs) = Some (JObj [(js ''loadId'', JStr loadId), (js ''items'', JArr sent)])"
    and "SANITIZED_ITEMS_FILTER num hide (JArr xs) = Some (JObj [(js ''sshCapability'', JStr cap), (js ''items'', JArr others), (js ''sshKeys'', JArr listed)])"
    and "o' \<in> set sent"
  shows "\<exists>m\<in>set listed. jq_field o' ''itemId'' = jq_field m ''id'' \<and> jq_field o' ''publicKey'' = jq_field m ''publicKey''
    \<and> jq_field o' ''fingerprint'' = jq_field m ''fingerprint'' \<and> jq_field m ''reprompt'' = JNum (Fin 0)
    \<and> jq_field o' ''privateKeyB64'' \<noteq> JStr []"
proof -
  have sent: "sent = filter (\<lambda>o'. jq_field o' ''privateKeyB64'' \<noteq> JStr []) (map (agent_item enc hide)
      (filter (\<lambda>it. reprompt_or_zero (jq_field it ''reprompt'') = JNum (Fin 0)) (filter (is_ssh_type num) (filter is_jq_object xs))))"
    using assms(1) by (simp add: AGENT_KEYS_FILTER_def)
  have listed: "listed = map (ssh_metadata hide) (filter (is_ssh_type num) (filter is_jq_object xs))"
    using assms(2) by (simp add: SANITIZED_ITEMS_FILTER_def Let_def split: if_splits)
  obtain it where it: "it \<in> set (filter (is_ssh_type num) (filter is_jq_object xs))" "o' = agent_item enc hide it"
    "reprompt_or_zero (jq_field it ''reprompt'') = JNum (Fin 0)" "jq_field o' ''privateKeyB64'' \<noteq> JStr []"
    using assms(3) unfolding sent by auto
  have "jq_field o' ''itemId'' = jq_field (ssh_metadata hide it) ''id''" "jq_field o' ''publicKey'' = jq_field (ssh_metadata hide it) ''publicKey''"
    "jq_field o' ''fingerprint'' = jq_field (ssh_metadata hide it) ''fingerprint''" "jq_field (ssh_metadata hide it) ''reprompt'' = JNum (Fin 0)"
    using it(2,3) by (simp_all add: jq_field_def jq_get_def agent_item_def ssh_metadata_def try_null_def)
  moreover have "ssh_metadata hide it \<in> set listed" using it(1) by (simp add: listed)
  ultimately show ?thesis using it(4) by blast
qed

section \<open>A save is reported as it went\<close>

lemma marker_not_json: "json_parse SAVED_UNSANITIZED_MARKER = None"
proof -
  have "json_value (Suc n) SAVED_UNSANITIZED_MARKER = None" for n
    by (simp add: SAVED_UNSANITIZED_MARKER_def js_def skip_ws_def json_ws_def read_word_def read_number_def read_sign_def is_digit_def)
  then have "json_value n SAVED_UNSANITIZED_MARKER = None" for n by (cases n) (simp_all only: json_value.simps)
  then show ?thesis by (simp only: json_parse_def option.case)
qed

text \<open>C30: Once \<^verbatim>\<open>bw\<close> has stored an item, the panel is never told that saving failed, whatever \<^verbatim>\<open>bw\<close> printed: the
  script fails exactly when the save did, with its status. Otherwise it prints a sanitized item, or
  a marker that cannot be read as a list, so that the panel loads the list again.\<close>
theorem save_reported_as_it_went:
  "((\<exists>e. savePipelineScript num hide rc raw = Inl e) \<longleftrightarrow> rc \<noteq> 0 \<and> rc \<noteq> 141)
   \<and> (\<forall>e. savePipelineScript num hide rc raw = Inl e \<longrightarrow> e = rc)
   \<and> (\<forall>out. savePipelineScript num hide rc raw = Inr out \<longrightarrow>
        (\<exists>ps v. json_parse raw = Some (JObj ps) \<and> SANITIZED_ITEMS_FILTER num hide (JArr [JObj ps]) = Some v \<and> out = json_str v)
        \<or> parseSanitizedEnvelope collate out = None)"
proof -
  have m: "parseSanitizedEnvelope collate SAVED_UNSANITIZED_MARKER = None" by (simp add: parseSanitizedEnvelope_def marker_not_json)
  have o: "\<exists>ps. json_parse raw = Some (JObj ps) \<and> v = JArr [JObj ps]"
    if "strict_object MAX_MISC_BYTES (take (MAX_MISC_BYTES + 1) raw) = Some v" for v
    using that by (auto simp: strict_object_def min_def split: if_splits option.splits jsval.splits)
  show ?thesis
  proof (cases "strict_object MAX_MISC_BYTES (take (MAX_MISC_BYTES + 1) raw)")
    case None
    then show ?thesis using m by (auto simp: savePipelineScript_def)
  next
    case (Some v)
    then show ?thesis using m o [OF Some] by (fastforce simp: savePipelineScript_def split: option.splits if_splits)
  qed
qed

section \<open>Examples\<close>

definition demo_key :: jsval where
  "demo_key = JObj [(js ''id'', JStr (js ''k1'')), (js ''type'', jint 5),
     (js ''sshKey'', JObj [(js ''privateKey'', JStr (js ''PEM'')), (js ''publicKey'', JStr (js ''ssh-ed25519''))])]"

lemma demo_item_type: "item_type num demo_key = JNum (Fin 5)"
  by (simp add: item_type_def jq_get_def demo_key_def)

theorem agent_keys_listed_witness:
  "\<exists>m\<in>set [ssh_metadata True demo_key]. jq_field (agent_item id True demo_key) ''itemId'' = jq_field m ''id''
     \<and> jq_field (agent_item id True demo_key) ''publicKey'' = jq_field m ''publicKey'' \<and> jq_field m ''reprompt'' = JNum (Fin 0)"
proof -
  have ty: "is_ssh_type (\<lambda>_. None) demo_key" "\<not> ordinary_type (\<lambda>_. None) demo_key" "is_jq_object demo_key"
    by (simp_all add: is_ssh_type_def ordinary_type_def demo_item_type) (simp add: demo_key_def)
  have f: "reprompt_or_zero (jq_field demo_key ''reprompt'') = JNum (Fin 0)"
    "jq_field (agent_item id True demo_key) ''privateKeyB64'' \<noteq> JStr []"
    by (simp_all add: jq_field_def jq_get_def try_null_def reprompt_or_zero_def agent_item_def agent_key_def string_or_empty_def jq_alt_def
        jq_path_def demo_key_def)
  have "\<exists>m\<in>set [ssh_metadata True demo_key]. jq_field (agent_item id True demo_key) ''itemId'' = jq_field m ''id''
      \<and> jq_field (agent_item id True demo_key) ''publicKey'' = jq_field m ''publicKey''
      \<and> jq_field (agent_item id True demo_key) ''fingerprint'' = jq_field m ''fingerprint'' \<and> jq_field m ''reprompt'' = JNum (Fin 0)
      \<and> jq_field (agent_item id True demo_key) ''privateKeyB64'' \<noteq> JStr []"
    by (rule agent_keys_listed [where xs = "[demo_key]" and sent = "[agent_item id True demo_key]" and others = "[]" and enc = id
          and num = "\<lambda>_. None" and hide = True and loadId = "js ''n1''" and cap = "js ''confirmed''"])
      (simp_all add: AGENT_KEYS_FILTER_def SANITIZED_ITEMS_FILTER_def ty f)
  then show ?thesis by auto
qed

theorem save_reported_as_it_went_witness:
  "\<exists>e. savePipelineScript (\<lambda>_. None) True 1 (js ''bad'') = Inl e \<and> e = 1"
  using save_reported_as_it_went [of "\<lambda>_. None" True 1 "js ''bad''" "\<lambda>_ _. 0"] by auto

end
