(* ===== verification/Challenges.thy ===== *)
theory Challenges
  imports Login Regex Shell Accounts Agent
begin

text \<open>
  Running \<^verbatim>\<open>bw login\<close> from the panel: the two files that \<^verbatim>\<open>NODE_OPTIONS\<close> preloads into \<^verbatim>\<open>bw\<close>
  (\<^verbatim>\<open>bw-login-code.js\<close>, which hands over the two-step code, and \<^verbatim>\<open>bw-fast-exit.js\<close>), the option text
  that names them, the login commands of \<^verbatim>\<open>BitwardenModel.js\<close>, and how the replies of \<^verbatim>\<open>bw\<close> are told
  apart: a code is wanted, a method must be chosen, the device must be verified, the code never
  reached \<^verbatim>\<open>bw\<close>.
\<close>

section \<open>Environment\<close>

definition SESSION_ENV :: jsstr where "SESSION_ENV = js ''BW_SESSION''"
definition PASSWORD_ENV :: jsstr where "PASSWORD_ENV = js ''BW_PASSWORD''"
definition CLIENT_ID_ENV :: jsstr where "CLIENT_ID_ENV = js ''BW_CLIENTID''"
definition CLIENT_SECRET_ENV :: jsstr where "CLIENT_SECRET_ENV = js ''BW_CLIENTSECRET''"
definition TWOFACTOR_CODE_ENV :: jsstr where "TWOFACTOR_CODE_ENV = js ''QSBW_CODE''"
definition TWOFACTOR_CODE_FLAG :: jsstr where "TWOFACTOR_CODE_FLAG = js ''--qsbw-code-from-env''"
definition NOINTERACTION_ENV :: jsstr where "NOINTERACTION_ENV = js ''BW_NOINTERACTION''"
definition DEVICE_CODE_ENV :: jsstr where "DEVICE_CODE_ENV = js ''QSBW_DEVICE_CODE''"
definition BW_LOGIN_CODE_FILE :: jsstr where "BW_LOGIN_CODE_FILE = js ''bw-login-code.js''"
definition BW_FAST_EXIT_FILE :: jsstr where "BW_FAST_EXIT_FILE = js ''bw-fast-exit.js''"

definition quote_node :: "jsstr \<Rightarrow> jsstr" where
  \<comment> \<open>\<^verbatim>\<open>file.replace(/(["\\])/g, "\\$1")\<close> between double quotes\<close>
  "quote_node file = [34] @ concat (map (\<lambda>c. if c = 34 \<or> c = 92 then [92, c] else [c]) file) @ [34]"

definition bwNodeOptions :: "jsstr \<Rightarrow> jsstr \<Rightarrow> jsstr" where
  "bwNodeOptions pluginDir existing =
     (let base = trim existing; dir = strip_slashes pluginDir in
      if dir = [] then base
      else
        (let option = join (js '' '') (map (\<lambda>f. js ''--require '' @ quote_node (dir @ js ''/'' @ f)) [BW_LOGIN_CODE_FILE, BW_FAST_EXIT_FILE])
         in if base \<noteq> [] then base @ js '' '' @ option else option))"

section \<open>The preloads\<close>

definition is_sep :: "nat \<Rightarrow> bool" where
  "is_sep c \<longleftrightarrow> c = 92 \<or> c = 47"

definition BW_ENTRY_RE :: re where
  \<comment> \<open>\<^verbatim>\<open>/[\\/]@bitwarden[\\/]cli[\\/]build[\\/]bw\.js$/\<close>\<close>
  "BW_ENTRY_RE = cats ([Unit is_sep] @ map (\<lambda>c. Unit (\<lambda>d. d = c)) (js ''@bitwarden'') @ [Unit is_sep] @ map (\<lambda>c. Unit (\<lambda>d. d = c)) (js ''cli'')
     @ [Unit is_sep] @ map (\<lambda>c. Unit (\<lambda>d. d = c)) (js ''build'') @ [Unit is_sep] @ map (\<lambda>c. Unit (\<lambda>d. d = c)) (js ''bw.js'') @ [End])"

fun index_from :: "'a \<Rightarrow> nat \<Rightarrow> 'a list \<Rightarrow> nat option" where
  \<comment> \<open>\<^verbatim>\<open>argv.indexOf(x, n)\<close>\<close>
  "index_from x n [] = None"
| "index_from x n (y # ys) =
     (if n = 0 \<and> y = x then Some 0 else map_option Suc (index_from x (n - 1) ys))"

definition login_code_preload :: "(jsstr \<Rightarrow> jsstr option) \<Rightarrow> jsstr list \<Rightarrow> (jsstr \<rightharpoonup> jsstr) \<Rightarrow> jsstr list \<times> (jsstr \<rightharpoonup> jsstr)" where
  \<comment> \<open>\<^verbatim>\<open>bw-login-code.js\<close>, on \<^verbatim>\<open>process.argv\<close> and \<^verbatim>\<open>process.env\<close>; \<open>realpath\<close> is \<^verbatim>\<open>fs.realpathSync\<close>, which may throw\<close>
  "login_code_preload realpath argv env =
     (case index_from TWOFACTOR_CODE_FLAG 2 argv of
        None \<Rightarrow> (argv, env)
      | Some at' \<Rightarrow>
          (case realpath (argv ! 1) of
             None \<Rightarrow> (argv, env)
           | Some entry \<Rightarrow>
               if \<not> re_test BW_ENTRY_RE entry \<or> argv ! 2 \<noteq> js ''login'' then (argv, env)
               else
                 (case env TWOFACTOR_CODE_ENV of
                    None \<Rightarrow> (argv, env)
                  | Some c \<Rightarrow>
                      (if c = [] then argv else argv[at' := js ''--code='' @ c], env(TWOFACTOR_CODE_ENV := None)))))"

fun runs_serve :: "jsstr list \<Rightarrow> bool" where
  \<comment> \<open>the loop of \<^verbatim>\<open>bw-fast-exit.js\<close> over the arguments: the first that is not an option\<close>
  "runs_serve [] = False"
| "runs_serve (a # as) = (if a \<noteq> [] \<and> hd a = 45 then runs_serve as else a = js ''serve'')"

definition fast_exit_active :: "(jsstr \<Rightarrow> jsstr option) \<Rightarrow> jsstr list \<Rightarrow> bool" where
  \<comment> \<open>whether \<^verbatim>\<open>bw-fast-exit.js\<close> starts its timer\<close>
  "fast_exit_active realpath argv \<longleftrightarrow>
     (case realpath (if 1 < length argv then argv ! 1 else []) of None \<Rightarrow> False | Some entry \<Rightarrow> re_test BW_ENTRY_RE entry)
     \<and> \<not> runs_serve (drop 2 argv)"

definition fast_exit_tick :: "int option \<Rightarrow> int option" where
  \<comment> \<open>one tick of the timer, on \<^verbatim>\<open>process.exitCode\<close>: the status the process then exits with\<close>
  "fast_exit_tick exitCode = exitCode"

section \<open>Commands\<close>

definition authPasswordFifoName :: "jsstr \<Rightarrow> jsstr" where
  "authPasswordFifoName channel =
     (if channel = js ''unlock'' then js ''unlock-password.fifo''
      else if channel = js ''login'' then js ''login-password.fifo'' else [])"

definition authFifoPrelude :: "jsstr \<Rightarrow> jsstr" where
  \<open>authFifoPrelude channel =
     (let fifoName = authPasswordFifoName channel in
      if fifoName = [] then []
      else js ''test -n "${XDG_RUNTIME_DIR:-}" || exit 1; ''
        @ js ''__auth_dir="$XDG_RUNTIME_DIR/'' @ RUNTIME_SUBDIR @ js ''"; ''
        @ privateDirScript (js ''__auth_dir'')
        @ js ''__auth_fifo="$__auth_dir/'' @ fifoName @ js ''"; ''
        @ js ''rm -f -- "$__auth_fifo"; ''
        @ js ''mkfifo -m 600 -- "$__auth_fifo" || exit 1; ''
        @ supervisedProcessPrelude (js ''rm -f -- "$__auth_fifo"''))\<close>

definition supervisedAuthCommand :: "jsstr \<Rightarrow> jsstr \<Rightarrow> jsstr \<Rightarrow> jsstr list" where
  "supervisedAuthCommand channel cmd before =
     [js ''bash'', js ''-c'', before @ authFifoPrelude channel @ supervisedProcessRun cmd]"

definition unlockPrewarmCommand :: "jsstr list" where
  \<open>unlockPrewarmCommand =
     supervisedAuthCommand (js ''unlock'') (js ''bw unlock --passwordfile "$__auth_fifo" --raw | head -c '' @ nat_to_str MAX_TOKEN_BYTES) []\<close>

definition APPDATA_ENV :: jsstr where "APPDATA_ENV = js ''BITWARDENCLI_APPDATA_DIR''"

definition ACCOUNTS_DIR :: jsstr where
  \<open>ACCOUNTS_DIR = js ''${XDG_DATA_HOME:-$HOME/.local/share}/'' @ ACCOUNTS_SUBDIR\<close>

definition accountAppDataExport :: "jsval \<Rightarrow> jsstr" where
  \<open>accountAppDataExport sl =
     (let s = accountSlot sl in
      if s = DEFAULT_ACCOUNT_SLOT then []
      else js ''export '' @ APPDATA_ENV @ js ''="'' @ ACCOUNTS_DIR @ js ''/'' @ s @ js ''"; '')\<close>

definition appDataDirPrelude :: jsstr where
  \<open>appDataDirPrelude =
     js ''if [ -n "${'' @ APPDATA_ENV @ js '':-}" ]; then ''
     @ js ''__acct_parent="$(dirname -- "$'' @ APPDATA_ENV @ js ''")"; ''
     @ js ''if [ -L "$__acct_parent" ]; then exit 1; fi; ''
     @ js ''(umask 077 && mkdir -p -- "$__acct_parent") || exit 1; ''
     @ js ''__acct_dir="$'' @ APPDATA_ENV @ js ''"; '' @ privateDirScript (js ''__acct_dir'')
     @ js ''fi; ''\<close>

definition serverConfigPrefix :: "jsstr \<Rightarrow> jsstr" where
  "serverConfigPrefix serverUrl =
     (let url = trim serverUrl
      in if url \<noteq> [] then js ''bw config server '' @ shellQuote url @ js '' >/dev/null 2>&1 && '' else [])"

definition method_args :: "jsval \<Rightarrow> jsstr" where
  "method_args m = (if isTwoFactorMethod m then js '' --method '' @ to_str m else [])"

definition emailLoginPrewarmCommand :: "jsstr \<Rightarrow> bool \<Rightarrow> jsstr \<Rightarrow> jsval \<Rightarrow> jsstr list" where
  \<open>emailLoginPrewarmCommand address hasCode serverUrl m =
     supervisedAuthCommand (js ''login'')
       (serverConfigPrefix serverUrl @ js ''bw login '' @ shellQuote address @ js '' --passwordfile "$__auth_fifo"''
        @ method_args m @ (if hasCode then js '' '' @ TWOFACTOR_CODE_FLAG else [])
        @ js '' --raw | head -c '' @ nat_to_str MAX_TOKEN_BYTES)
       appDataDirPrelude\<close>

definition DEVICE_VERIFICATION_TIMEOUT_S :: nat where "DEVICE_VERIFICATION_TIMEOUT_S = 60"

definition deviceVerificationLoginCommand :: "jsstr \<Rightarrow> jsstr \<Rightarrow> jsval \<Rightarrow> jsstr list" where
  \<open>deviceVerificationLoginCommand address serverUrl m =
     supervisedAuthCommand (js ''login'')
       (serverConfigPrefix serverUrl @ js ''printf '%s'' @ [92, 110, 39] @ js '' "$'' @ DEVICE_CODE_ENV @ js ''" | ''
        @ js ''timeout '' @ nat_to_str DEVICE_VERIFICATION_TIMEOUT_S @ js ''s bw login '' @ shellQuote address
        @ js '' --passwordfile "$__auth_fifo"'' @ method_args m @ js '' --raw | head -c '' @ nat_to_str MAX_TOKEN_BYTES)
       appDataDirPrelude\<close>

definition authPasswordWriteCommand :: "jsstr \<Rightarrow> jsstr list" where
  \<open>authPasswordWriteCommand channel =
     (let fifoName = authPasswordFifoName channel in
      if fifoName = [] then []
      else [js ''bash'', js ''-c'',
        js ''test -n "${XDG_RUNTIME_DIR:-}" || exit 1; ''
        @ js ''__auth_dir="$XDG_RUNTIME_DIR/'' @ RUNTIME_SUBDIR @ js ''"; ''
        @ js ''__auth_fifo="$__auth_dir/'' @ fifoName @ js ''"; ''
        @ js ''for __auth_wait in {1..200}; do ''
        @ js ''if [ -d "$__auth_dir" ] && [ ! -L "$__auth_dir" ] && [ -p "$__auth_fifo" ] && [ ! -L "$__auth_fifo" ]; then ''
        @ js ''exec timeout 10s bash -c 'printf "%s" "$'' @ PASSWORD_ENV @ js ''" > "$1"' _ "$__auth_fifo"; ''
        @ js ''fi; sleep 0.01; done; exit 1''])\<close>

definition apiKeyLoginCommand :: "jsstr \<Rightarrow> jsstr list" where
  "apiKeyLoginCommand serverUrl =
     supervisedProcessCommand
       (serverConfigPrefix serverUrl @ js ''bw login --apikey >/dev/null 2>&1 && ''
        @ js ''bw unlock --passwordenv '' @ PASSWORD_ENV @ js '' --raw | head -c '' @ nat_to_str MAX_TOKEN_BYTES)
       appDataDirPrelude"

definition HANDOFF_BASENAME :: jsstr where "HANDOFF_BASENAME = js ''session-handoff''"
definition MAX_HANDOFF_BYTES :: nat where "MAX_HANDOFF_BYTES = 4096"

definition terminal_login_inner :: "bool \<Rightarrow> jsstr \<Rightarrow> jsval \<Rightarrow> jsstr" where
  \<open>terminal_login_inner unlocking serverUrl sl =
     (let verb = (if unlocking then js ''unlock'' else js ''login'')
      in js ''set -u; '' @ accountAppDataExport sl @ appDataDirPrelude
         @ js ''d="${XDG_RUNTIME_DIR:?no XDG_RUNTIME_DIR -- refusing to write a session key}/''
         @ RUNTIME_SUBDIR @ js ''"; f="$d/'' @ HANDOFF_BASENAME @ js ''"; ''
         @ js ''umask 077; '' @ privateDirScript (js ''d'')
         @ js ''rm -f -- "$f" || exit 1; ''
         @ (if unlocking then [] else serverConfigPrefix serverUrl)
         @ js ''if bw '' @ verb @ js '' --raw > "$f" && [ -s "$f" ]; then ''
         @ js ''dms ipc call bitwarden open >/dev/null 2>&1 || true; ''
         @ js ''echo; echo 'Done. Returning to the Bitwarden panel...'; sleep 1; ''
         @ js ''else rm -f "$f"; echo; echo 'Not completed -- nothing was handed to the panel.'; ''
         @ js ''read -p 'Press enter to close...'; fi'')\<close>

definition terminalLoginCommand :: "jsstr \<Rightarrow> jsstr \<Rightarrow> jsval \<Rightarrow> jsstr list" where
  "terminalLoginCommand mode serverUrl sl =
     (let inner = terminal_login_inner (mode = js ''unlock'') serverUrl sl
      in [js ''bash'', js ''-c'', js ''xdg-terminal-exec bash -c '' @ shellQuote inner @ js '' || alacritty -e bash -c '' @ shellQuote inner])"

definition sessionHandoffReadCommand :: "bool \<Rightarrow> jsstr list" where
  \<open>sessionHandoffReadCommand expecting =
     [js ''bash'', js ''-c'',
      js ''d="${XDG_RUNTIME_DIR:-}"; [ -n "$d" ] || exit 0; ''
      @ js ''d="$d/'' @ RUNTIME_SUBDIR @ js ''"; ''
      @ js ''[ -d "$d" ] && [ ! -L "$d" ] || exit 0; ''
      @ js ''f="$d/'' @ HANDOFF_BASENAME @ js ''"; ''
      @ js ''[ -s "$f" ] && [ -f "$f" ] && [ ! -L "$f" ] || exit 0; ''
      @ (if expecting then js ''head -c '' @ nat_to_str MAX_HANDOFF_BYTES @ js '' "$f"; '' else [])
      @ js ''rm -f "$f"'']\<close>

section \<open>What \<^verbatim>\<open>bw\<close> replied\<close>

definition lit :: "string \<Rightarrow> re" where
  "lit s = foldr (\<lambda>c r. Cat (Unit (\<lambda>d. d = c)) r) (js s) Eps"

definition some_ws :: re where "some_ws = plus (Unit is_ws)"

definition crlf :: re where "crlf = Unit (\<lambda>c. c = 13 \<or> c = 10)"

definition combinedOutput :: "jsstr \<Rightarrow> jsstr \<Rightarrow> jsstr" where
  "combinedOutput out err = to_lower (err @ [10] @ out)"

definition loginPromptRanOutOfInput :: "jsstr \<Rightarrow> jsstr \<Rightarrow> bool" where
  "loginPromptRanOutOfInput out err \<longleftrightarrow>
     contains (js ''err_use_after_close'') (combinedOutput out err) \<or> contains (js ''readline was closed'') (combinedOutput out err)"

definition loginDiagnostic :: "jsstr \<Rightarrow> jsstr \<Rightarrow> jsval \<Rightarrow> jsstr \<Rightarrow> jsstr" where
  "loginDiagnostic out err exitCode branch =
     js ''exit='' @ to_str exitCode @ js '' stdout='' @ nat_to_str (length out) @ js ''b branch='' @ (if branch = [] then js ''?'' else branch)
     @ js '' stderr='' @ json_str (JStr (take 200 (sanitizeInteractiveStderr err [])))"

definition CODE_REQUIRED_RE :: re where
  \<comment> \<open>the expression of \<open>loginCodeIsRequiredChallenge\<close>; what it only looks ahead at comes last, so reading it changes no answer\<close>
  "CODE_REQUIRED_RE = cats [Alt Begin crlf, any_ws, lit ''code'', some_ws, lit ''is'', some_ws, lit ''required'',
     opt (Unit (\<lambda>c. c = 46 \<or> c = 33)), any_ws, Alt End crlf]"

definition loginCodeIsRequiredChallenge :: "jsstr \<Rightarrow> jsstr \<Rightarrow> bool" where
  "loginCodeIsRequiredChallenge out err \<longleftrightarrow> re_test CODE_REQUIRED_RE (combinedOutput out err)"

definition SECOND_FACTOR_RE :: re where
  "SECOND_FACTOR_RE =
     (let gap = opt (Unit (\<lambda>c. c = 32 \<or> c = 95 \<or> c = 45))
      in one_of [cats [lit ''two'', gap, Alt (lit ''step'') (lit ''factor'')], lit ''2fa'', cats [lit ''verification'', gap, lit ''code'']])"

definition loginNeedsSecondFactor :: "jsstr \<Rightarrow> jsstr \<Rightarrow> bool" where
  "loginNeedsSecondFactor out err \<longleftrightarrow> re_test SECOND_FACTOR_RE (combinedOutput out err) \<or> loginCodeIsRequiredChallenge out err"

definition loginNeedsDeviceVerification :: "jsstr \<Rightarrow> jsstr \<Rightarrow> bool \<Rightarrow> bool" where
  "loginNeedsDeviceVerification out err codeWasSent \<longleftrightarrow> codeWasSent \<and> loginCodeIsRequiredChallenge out err"

definition loginCodeChannelMissing :: "jsstr \<Rightarrow> jsstr \<Rightarrow> bool" where
  "loginCodeChannelMissing out err \<longleftrightarrow> contains (js ''unknown option '' @ [39] @ TWOFACTOR_CODE_FLAG @ [39]) (combinedOutput out err)"

definition loginNeedsMethodChoice :: "jsstr \<Rightarrow> jsstr \<Rightarrow> bool" where
  "loginNeedsMethodChoice out err \<longleftrightarrow> re_test (cats [lit ''no'', some_ws, lit ''provider'', some_ws, lit ''selected'']) (combinedOutput out err)"

definition loginHasNoUsableProvider :: "jsstr \<Rightarrow> jsstr \<Rightarrow> bool" where
  "loginHasNoUsableProvider out err \<longleftrightarrow>
     re_test (cats [lit ''no'', some_ws, lit ''providers'', some_ws, lit ''available'', some_ws, lit ''for'', some_ws, lit ''this'', some_ws, lit ''client''])
       (combinedOutput out err)"

section \<open>The code reaches \<^verbatim>\<open>bw\<close> and no argument list\<close>

lemma index_from_split:
  assumes "FL \<notin> set a"
  shows "index_from FL (length p) (p @ a @ FL # b) = Some (length p + length a)"
proof (induction p)
  case Nil
  then show ?case using assms by (induction a) auto
next
  case (Cons x p)
  then show ?case by simp
qed

lemma index_from_ge: "index_from x n xs = Some i \<Longrightarrow> n \<le> i \<and> i < length xs \<and> xs ! i = x"
proof (induction x n xs arbitrary: i rule: index_from.induct)
  case (2 x n y ys)
  then show ?case by (cases "n = 0 \<and> y = x") fastforce+
qed simp

text \<open>In any other program, any other command and without a code the arguments stay as they are, so that
  \<^verbatim>\<open>bw\<close> refuses the placeholder.\<close>

lemma login_code_otherwise:
  "fst (login_code_preload rp argv env) = argv
   \<or> (\<exists>e. rp (argv ! 1) = Some e \<and> re_test BW_ENTRY_RE e \<and> argv ! 2 = js ''login'' \<and> env TWOFACTOR_CODE_ENV \<notin> {None, Some []}
        \<and> TWOFACTOR_CODE_FLAG \<in> set (drop 2 argv))"
proof (cases "index_from TWOFACTOR_CODE_FLAG 2 argv")
  case (Some i)
  then have "2 \<le> i" "i < length argv" "argv ! i = TWOFACTOR_CODE_FLAG" using index_from_ge [OF Some] by auto
  then have "drop i argv \<noteq> []" "hd (drop i argv) = TWOFACTOR_CODE_FLAG" by (simp_all add: hd_drop_conv_nth)
  then have "TWOFACTOR_CODE_FLAG \<in> set (drop i argv)" by (metis hd_in_set)
  then have "TWOFACTOR_CODE_FLAG \<in> set (drop 2 argv)" using set_drop_subset_set_drop [OF \<open>2 \<le> i\<close>, of argv] by auto
  with Some show ?thesis by (auto simp: login_code_preload_def split: option.splits)
qed (simp add: login_code_preload_def)

text \<open>The two-step code is handed over inside \<^verbatim>\<open>bw\<close> only. In the command line \<^verbatim>\<open>bw login ... FLAG ...\<close> the
  placeholder becomes the one argument \<^verbatim>\<open>--code=CODE\<close>, whatever the code looks like, every other
  argument stays, and the code is gone from the environment that \<^verbatim>\<open>bw\<close> passes on.\<close>
theorem login_code_handed_over:
  assumes "TWOFACTOR_CODE_FLAG \<notin> set a" and "realpath script = Some entry" and "re_test BW_ENTRY_RE entry"
    and "env TWOFACTOR_CODE_ENV = Some c" and "c \<noteq> []"
  shows "login_code_preload realpath ([node, script, js ''login''] @ a @ TWOFACTOR_CODE_FLAG # b) env
      = ([node, script, js ''login''] @ a @ (js ''--code='' @ c) # b, env(TWOFACTOR_CODE_ENV := None))"
proof -
  have "index_from TWOFACTOR_CODE_FLAG (length [node, script]) ([node, script] @ (js ''login'' # a) @ TWOFACTOR_CODE_FLAG # b)
      = Some (length [node, script] + length (js ''login'' # a))"
    by (rule index_from_split) (use assms(1) in \<open>auto simp: TWOFACTOR_CODE_FLAG_def\<close>)
  then have i: "index_from TWOFACTOR_CODE_FLAG 2 ([node, script, js ''login''] @ a @ TWOFACTOR_CODE_FLAG # b) = Some (length [node, script, js ''login''] + length a)"
    by (simp add: numeral_2_eq_2)
  have u: "([node, script, js ''login''] @ a @ TWOFACTOR_CODE_FLAG # b)[length [node, script, js ''login''] + length a := js ''--code='' @ c]
      = [node, script, js ''login''] @ a @ (js ''--code='' @ c) # b"
    by (simp add: list_update_append)
  show "login_code_preload realpath ([node, script, js ''login''] @ a @ TWOFACTOR_CODE_FLAG # b) env
      = ([node, script, js ''login''] @ a @ (js ''--code='' @ c) # b, env(TWOFACTOR_CODE_ENV := None))"
    unfolding login_code_preload_def i option.case u using assms by (simp add: u [simplified])
qed

theorem login_code_handed_over_witness:
  "fst (login_code_preload (\<lambda>_. Some (js ''/@bitwarden/cli/build/bw.js'')) [js ''node'', js ''bw'', js ''login'', js ''a'', TWOFACTOR_CODE_FLAG]
     [TWOFACTOR_CODE_ENV \<mapsto> js ''-1 x'']) = [js ''node'', js ''bw'', js ''login'', js ''a'', js ''--code=-1 x'']"
proof -
  have "re_test BW_ENTRY_RE (js ''/@bitwarden/cli/build/bw.js'')"
    by (simp add: re_test_def BW_ENTRY_RE_def js_def is_sep_def)
  moreover have "TWOFACTOR_CODE_FLAG \<notin> set [js ''a'']" by (simp add: TWOFACTOR_CODE_FLAG_def)
  ultimately show ?thesis
    using login_code_handed_over [of "[js ''a'']" "\<lambda>_. Some (js ''/@bitwarden/cli/build/bw.js'')" "js ''bw''" "js ''/@bitwarden/cli/build/bw.js''"
        "[TWOFACTOR_CODE_ENV \<mapsto> js ''-1 x'']" "js ''-1 x''" "js ''node''" "[]"] by (simp add: js_append [symmetric])
qed

section \<open>Node reads the options back\<close>

definition push :: "bool \<Rightarrow> nat \<Rightarrow> jsstr list \<Rightarrow> jsstr list" where
  "push new c ws = (if new then ws @ [[c]] else butlast ws @ [last ws @ [c]])"

fun node_words :: "bool \<Rightarrow> bool \<Rightarrow> jsstr list \<Rightarrow> jsstr \<Rightarrow> jsstr list option" where
  \<comment> \<open>how Node splits \<^verbatim>\<open>NODE_OPTIONS\<close>: inside double quotes a backslash keeps the next character\<close>
  "node_words ins new ws [] = (if ins then None else Some ws)"
| "node_words ins new ws (c # cs) =
     (if c = 92 \<and> ins then (case cs of [] \<Rightarrow> None | d # ds \<Rightarrow> node_words ins False (push new d ws) ds)
      else if c = 32 \<and> \<not> ins then node_words ins True ws cs
      else if c = 34 then node_words (\<not> ins) new ws cs
      else node_words ins False (push new c ws) cs)"

definition plain_node :: "nat \<Rightarrow> bool" where
  "plain_node c \<longleftrightarrow> c \<noteq> 32 \<and> c \<noteq> 34"

lemma node_words_then:
  "node_words ins new ws s = Some ws' \<Longrightarrow> node_words ins new ws (s @ 32 # t) = node_words False True ws' t"
proof (induction ins new ws s rule: node_words.induct)
  case (2 ins new ws c cs)
  then show ?case by (cases cs) (auto split: if_splits)
qed (auto split: if_splits)

lemma push_word: "push False c (ws @ [w]) = ws @ [w @ [c]]" "push True c ws = ws @ [[c]]"
  by (simp_all add: push_def)

lemma node_words_more: "list_all plain_node s \<Longrightarrow> node_words False False (ws @ [w]) (s @ t) = node_words False False (ws @ [w @ s]) t"
  by (induction s arbitrary: w) (auto simp: plain_node_def push_word)

lemma node_words_word: "list_all plain_node s \<Longrightarrow> s \<noteq> [] \<Longrightarrow> node_words False True ws (s @ t) = node_words False False (ws @ [s]) t"
  using node_words_more [of "tl s" ws "[hd s]" t] by (cases s) (auto simp: plain_node_def push_word)

lemma node_words_quoted_body:
  "node_words True False (ws @ [w]) (concat (map (\<lambda>c. if c = 34 \<or> c = 92 then [92, c] else [c]) s) @ 34 # t)
    = node_words False False (ws @ [w @ s]) t"
  by (induction s arbitrary: w) (auto simp: push_word)

lemma node_words_quoted:
  assumes "s \<noteq> []"
  shows "node_words False True ws (quote_node s @ t) = node_words False False (ws @ [s]) t"
proof -
  obtain c cs where s: "s = c # cs" using assms by (cases s) auto
  have "node_words False True ws (quote_node s @ t)
      = node_words True False (ws @ [[c]]) (concat (map (\<lambda>c. if c = 34 \<or> c = 92 then [92, c] else [c]) cs) @ 34 # t)"
    by (simp add: quote_node_def s push_word)
  then show ?thesis using node_words_quoted_body [of ws "[c]" cs t] by (simp add: s)
qed

lemma node_words_require:
  assumes "f \<noteq> []"
  shows "node_words False True ws (js ''--require '' @ quote_node f @ t) = node_words False False (ws @ [js ''--require'', f]) t"
proof -
  have "js ''--require '' @ quote_node f @ t = js ''--require'' @ 32 # quote_node f @ t" by (simp add: js_def)
  moreover have "node_words False True ws (js ''--require'' @ 32 # quote_node f @ t)
      = node_words False False (ws @ [js ''--require'']) (32 # quote_node f @ t)"
    by (rule node_words_word) (simp_all add: js_def plain_node_def)
  ultimately show ?thesis using node_words_quoted [OF assms, of "ws @ [js ''--require'']" t] by simp
qed

text \<open>Node reads the options that the panel sets as the user's own options followed by the two preload
  files, each one argument, whatever characters (spaces, quotes, backslashes) the plugin's directory
  has in its name.\<close>
theorem node_options_read_back:
  assumes "node_words False True [] (trim existing) = Some ws" and "strip_slashes dir \<noteq> []"
  shows "node_words False True [] (bwNodeOptions dir existing)
    = Some (ws @ [js ''--require'', strip_slashes dir @ js ''/bw-login-code.js'', js ''--require'', strip_slashes dir @ js ''/bw-fast-exit.js''])"
proof -
  let ?f1 = "strip_slashes dir @ js ''/bw-login-code.js''" and ?f2 = "strip_slashes dir @ js ''/bw-fast-exit.js''"
  let ?o = "js ''--require '' @ quote_node ?f1 @ 32 # js ''--require '' @ quote_node ?f2"
  have "join (js '' '') (map (\<lambda>f. js ''--require '' @ quote_node (strip_slashes dir @ js ''/'' @ f)) [BW_LOGIN_CODE_FILE, BW_FAST_EXIT_FILE]) = ?o"
    by (simp add: BW_LOGIN_CODE_FILE_def BW_FAST_EXIT_FILE_def js_def)
  then have b: "bwNodeOptions dir existing = (if trim existing \<noteq> [] then trim existing @ 32 # ?o else ?o)"
    using assms(2) by (simp add: bwNodeOptions_def Let_def js_def)
  have "node_words False True vs ?o = Some (vs @ [js ''--require'', ?f1, js ''--require'', ?f2])" for vs
  proof -
    have "node_words False True vs ?o = node_words False False (vs @ [js ''--require'', ?f1]) (32 # js ''--require '' @ quote_node ?f2)"
      by (rule node_words_require) (use assms(2) in simp)
    also have "\<dots> = node_words False True (vs @ [js ''--require'', ?f1]) (js ''--require '' @ quote_node ?f2 @ [])" by simp
    also have "\<dots> = Some (vs @ [js ''--require'', ?f1, js ''--require'', ?f2])"
      by (subst node_words_require) (use assms(2) in simp_all)
    finally show ?thesis .
  qed
  then show ?thesis using node_words_then [OF assms(1)] assms(1) unfolding b by auto
qed

theorem node_options_read_back_witness:
  "node_words False True [] (bwNodeOptions (js ''/a b/p/'') (js ''--use-openssl-ca''))
    = Some [js ''--use-openssl-ca'', js ''--require'', js ''/a b/p/bw-login-code.js'', js ''--require'', js ''/a b/p/bw-fast-exit.js'']"
proof -
  have t: "trim (js ''--use-openssl-ca'') = js ''--use-openssl-ca''" by (simp add: js_unfold)
  have d: "strip_slashes (js ''/a b/p/'') = js ''/a b/p''" by (simp add: strip_slashes_def js_def)
  have "node_words False True [] (js ''--use-openssl-ca'' @ []) = node_words False False ([] @ [js ''--use-openssl-ca'']) []"
    by (rule node_words_word) (simp_all add: js_def plain_node_def)
  then show ?thesis using node_options_read_back [of "js ''--use-openssl-ca''" "[js ''--use-openssl-ca'']" "js ''/a b/p/''"]
    by (simp add: t d js_append [symmetric])
qed

end
