(* ===== verification/Unlock.thy ===== *)
theory Unlock
  imports Login Accounts Regex Shell
begin

text \<open>
  Unlocking without \<^verbatim>\<open>bw\<close> asking: the remembered session in the keyring, which must not outlive the
  boot it was made in, the clearing of everything on logout, the PIN, and the script that asks for a
  secret through \<^verbatim>\<open>pinentry\<close>. The keyring is its map from entry names to secrets; the scripts of
  \<^verbatim>\<open>BitwardenModel.js\<close> are functions on it and on what the programs they run answer.
\<close>

section \<open>The remembered session\<close>

definition KEYRING_SERVICE :: jsstr where "KEYRING_SERVICE = js ''qs-bitwarden-cli''"
definition KEYRING_ACCOUNT :: jsstr where "KEYRING_ACCOUNT = js ''session''"
definition KEYRING_MASTER :: jsstr where "KEYRING_MASTER = js ''master_password''"
definition KEYRING_FIDO :: jsstr where "KEYRING_FIDO = js ''fido_password''"
definition KEYRING_PIN :: jsstr where "KEYRING_PIN = js ''pin_blob''"
definition KEYRING_ENVELOPE :: jsstr where "KEYRING_ENVELOPE = js ''unlock_envelope''"
definition KEYRING_SECRET_ENV :: jsstr where "KEYRING_SECRET_ENV = js ''QSBW_SECRET''"
definition PIN_ENV :: jsstr where "PIN_ENV = js ''QSBW_PIN''"

type_synonym keyring = "jsstr \<rightharpoonup> jsstr"

definition keyringAttributes :: "jsstr \<Rightarrow> jsstr" where
  "keyringAttributes account = js '' service '' @ shellQuote KEYRING_SERVICE @ js '' account '' @ shellQuote account"

definition keyringReadScript :: "jsstr \<Rightarrow> jsstr" where
  "keyringReadScript account = js ''secret-tool lookup'' @ keyringAttributes account @ js '' 2>/dev/null | head -c '' @ nat_to_str MAX_TOKEN_BYTES"

definition keyringClearEntryCommand :: "jsstr \<Rightarrow> jsstr list" where
  "keyringClearEntryCommand account = [js ''secret-tool'', js ''clear'', js ''service'', KEYRING_SERVICE, js ''account'', account]"

definition shell_value :: "jsstr \<Rightarrow> jsstr" where
  \<comment> \<open>what \<^verbatim>\<open>$(...)\<close> keeps of an output: everything but line feeds at its end\<close>
  "shell_value s = rev (dropWhile (\<lambda>c. c = 10) (rev s))"

text \<open>
  The session entry may be in two collections, the one in memory and the default one. \<open>secret-tool\<close> is a
  parameter: what a store answers and leaves, what a lookup prints (nothing when it fails, or when
  the entry is locked) and what a clear leaves, whose status the script does not look at.
\<close>

datatype collection = SessionCollection | DefaultCollection

type_synonym rings = "collection \<Rightarrow> keyring"

record secret_tool =
  st_store :: "collection \<Rightarrow> jsstr \<Rightarrow> jsstr \<Rightarrow> rings \<Rightarrow> bool \<times> rings"
  st_lookup :: "jsstr \<Rightarrow> rings \<Rightarrow> jsstr"
  st_clear :: "jsstr \<Rightarrow> rings \<Rightarrow> rings"

definition keyringStoreCommand :: "secret_tool \<Rightarrow> jsstr \<Rightarrow> jsstr \<Rightarrow> jsval \<Rightarrow> rings \<Rightarrow> bool \<times> rings" where
  \<comment> \<open>\<open>boot\<close> is the boot id that the script reads (empty when it cannot), \<open>token\<close> the value in the environment;
    the status, and the collections left: the default one is tried when the first store fails\<close>
  "keyringStoreCommand t boot token sl rs =
     (let entry = keyringEntryName KEYRING_ACCOUNT sl; v = boot @ [32] @ token in
      case st_store t SessionCollection entry v rs of
        (True, rs') \<Rightarrow> (True, rs')
      | (False, rs') \<Rightarrow> st_store t DefaultCollection entry v rs')"

definition keyringLookupCommand :: "secret_tool \<Rightarrow> jsstr \<Rightarrow> jsval \<Rightarrow> rings \<Rightarrow> jsstr \<times> rings" where
  \<comment> \<open>what the script prints, and the collections it leaves\<close>
  "keyringLookupCommand t boot sl rs =
     (let entry = keyringEntryName KEYRING_ACCOUNT sl in
      if boot = [] then ([], rs)
      else
        (let stored = shell_value (take MAX_TOKEN_BYTES (st_lookup t entry rs)) in
         if starts_with (boot @ [32]) stored \<and> length boot + 1 < length stored
         then (drop 1 (dropWhile (\<lambda>c. c \<noteq> 32) stored), rs)
         else if stored \<noteq> [] then ([], st_clear t entry rs) else ([], rs)))"

section \<open>Clearing on logout\<close>

definition KEYRING_ALL_ACCOUNTS :: "jsstr list" where
  "KEYRING_ALL_ACCOUNTS = [KEYRING_ACCOUNT, KEYRING_ENVELOPE, KEYRING_MASTER, KEYRING_FIDO, KEYRING_PIN]"

text \<open>
  \<open>find_items\<close> is \<^verbatim>\<open>secret-tool search\<close>: its exit status and the size of what it prints, which is empty
  only if nothing matches. \<open>clear\<close> is unlocking and \<^verbatim>\<open>secret-tool clear\<close>, which may leave locked items.
\<close>

fun clear_entries :: "(keyring \<Rightarrow> jsstr \<Rightarrow> nat \<times> nat) \<Rightarrow> (keyring \<Rightarrow> jsstr \<Rightarrow> keyring) \<Rightarrow> jsstr list \<Rightarrow> keyring \<Rightarrow> bool \<Rightarrow> keyring \<times> bool" where
  \<comment> \<open>the loop of the script; the flag is \<^verbatim>\<open>rc = 0\<close>\<close>
  "clear_entries find_items clear [] kr ok = (kr, ok)"
| "clear_entries find_items clear (e # es) kr ok =
     (let (rc, size) = find_items kr e in
      if rc \<noteq> 0 then clear_entries find_items clear es kr False
      else if 0 < size then
        (let kr' = clear kr e; (rc', size') = find_items kr' e
         in clear_entries find_items clear es kr' (ok \<and> rc' = 0 \<and> size' = 0))
      else clear_entries find_items clear es kr ok)"

definition keyringClearAllCommand :: "(keyring \<Rightarrow> jsstr \<Rightarrow> nat \<times> nat) \<Rightarrow> (keyring \<Rightarrow> jsstr \<Rightarrow> keyring) \<Rightarrow> jsval \<Rightarrow> keyring \<Rightarrow> keyring \<times> bool" where
  "keyringClearAllCommand find_items clear sl kr =
     clear_entries find_items clear (map (\<lambda>a. keyringEntryName a sl) KEYRING_ALL_ACCOUNTS) kr True"

section \<open>The PIN\<close>

definition PIN_MIN_LENGTH :: nat where "PIN_MIN_LENGTH = 6"
definition PIN_RECOMMENDED_LENGTH :: nat where "PIN_RECOMMENDED_LENGTH = 8"
definition PIN_UNLOCK_MIN_LENGTH :: nat where "PIN_UNLOCK_MIN_LENGTH = 4"
definition PIN_GUESSES_PER_SECOND :: nat where "PIN_GUESSES_PER_SECOND = 17"

definition validatePin :: "jsstr \<Rightarrow> jsstr option \<Rightarrow> jsstr" where
  "validatePin p confirm =
     (if length p < PIN_MIN_LENGTH then js ''PIN must be at least '' @ nat_to_str PIN_MIN_LENGTH @ js '' digits''
      else if \<not> (\<forall>c\<in>set p. is_digit c) then js ''PIN must contain only digits''
      else if confirm \<noteq> None \<and> confirm \<noteq> Some p then js ''PINs do not match''
      else [])"

definition round_half_up :: "rat \<Rightarrow> int" where
  "round_half_up q = \<lfloor>q + 1 / 2\<rfloor>"

definition pinGuessTime :: "nat \<Rightarrow> jsstr" where
  "pinGuessTime len =
     (let seconds = 10 ^ len / of_nat PIN_GUESSES_PER_SECOND :: rat; minutes = seconds / 60; hours = seconds / 3600; days = hours / 24 in
      js ''about ''
      @ (if minutes < 90 then int_to_str (max 1 (round_half_up minutes)) @ js '' minutes''
         else if hours < 48 then int_to_str (round_half_up hours) @ js '' hours''
         else if days < 60 then int_to_str (round_half_up days) @ js '' days''
         else if days < 730 then int_to_str (round_half_up (days / (3044 / 100))) @ js '' months''
         else int_to_str (round_half_up (days / (36525 / 100))) @ js '' years''))"

fun group_thousands :: "jsstr \<Rightarrow> jsstr" where
  \<comment> \<open>\<^verbatim>\<open>toLocaleString("en-US")\<close>, on the digits from the last to the first\<close>
  "group_thousands (a # b # c # d # r) = a # b # c # 44 # group_thousands (d # r)"
| "group_thousands r = r"

definition pinWeakWarning :: "jsstr \<Rightarrow> jsstr" where
  "pinWeakWarning p =
     (if length p < PIN_MIN_LENGTH \<or> PIN_RECOMMENDED_LENGTH \<le> length p then []
      else js ''A '' @ nat_to_str (length p) @ js ''-digit PIN is only '' @ rev (group_thousands (rev (nat_to_str (10 ^ length p))))
        @ js '' combinations: a program running as you can copy the stored item and try every PIN in '' @ pinGuessTime (length p)
        @ js '' on a 16-thread laptop. Use '' @ nat_to_str PIN_RECOMMENDED_LENGTH @ js '' or more: ''
        @ nat_to_str PIN_RECOMMENDED_LENGTH @ js '' digits is '' @ pinGuessTime PIN_RECOMMENDED_LENGTH @ js ''.'')"

definition isPinWeak :: "jsstr \<Rightarrow> bool" where
  "isPinWeak p \<longleftrightarrow> pinWeakWarning p \<noteq> []"

section \<open>Asking through pinentry\<close>

definition PINENTRY_TEXT_MAX :: nat where "PINENTRY_TEXT_MAX = 400"
definition PINENTRY_TIMEOUT_S :: nat where "PINENTRY_TIMEOUT_S = 120"

definition replace_unit :: "nat \<Rightarrow> jsstr \<Rightarrow> jsstr \<Rightarrow> jsstr" where
  \<comment> \<open>\<^verbatim>\<open>${e//c/new}\<close>\<close>
  "replace_unit u new s = concat (map (\<lambda>c. if c = u then new else [c]) s)"

definition assuan_enc :: "jsstr \<Rightarrow> jsstr" where
  "assuan_enc s = replace_unit 10 (js ''%0A'') (replace_unit 13 (js ''%0D'') (replace_unit 37 (js ''%25'') s))"

text \<open>What pinentry sends, line by line; \<open>None\<close> is silence until the time is up, or its end.\<close>

type_synonym lines = "jsstr option list"

definition is_OK :: "jsstr \<Rightarrow> bool" where
  "is_OK l \<longleftrightarrow> l = js ''OK'' \<or> starts_with (js ''OK '') l"

definition is_ERR :: "jsstr \<Rightarrow> bool" where
  "is_ERR l \<longleftrightarrow> l = js ''ERR'' \<or> starts_with (js ''ERR '') l"

fun assuan_reply :: "lines \<Rightarrow> nat \<times> lines" where
  \<comment> \<open>\<^verbatim>\<open>__reply\<close>: 0 for OK, 1 for ERR, 2 for silence\<close>
  "assuan_reply [] = (2, [])"
| "assuan_reply (None # r) = (2, r)"
| "assuan_reply (Some l # r) = (if is_OK l then (0, r) else if is_ERR l then (1, r) else assuan_reply r)"

datatype pin_exit = Answer jsstr | Cancelled | Empty | Failed | Short | Missing

definition err_code :: "jsstr \<Rightarrow> jsstr" where
  \<comment> \<open>\<^verbatim>\<open>__c="${__l#ERR }"; __c="${__c%% *}"\<close>\<close>
  "err_code l = takeWhile (\<lambda>c. c \<noteq> 32) (if starts_with (js ''ERR '') l then drop 4 l else l)"

definition err_exit :: "jsstr \<Rightarrow> pin_exit" where
  "err_exit l =
     (let c = err_code l in
      if c \<noteq> [] \<and> (\<forall>d\<in>set c. is_digit d) \<and> (digits_val c mod 65536 = 99 \<or> digits_val c mod 65536 = 62) then Cancelled else Failed)"

definition typed_length :: "jsstr \<Rightarrow> int" where
  \<comment> \<open>\<^verbatim>\<open>__t="${__d//[^%]/}"; __n=$(( ${#__d} - 2 * ${#__t} ))\<close>\<close>
  "typed_length d = int (length d) - 2 * int (length (filter (\<lambda>c. c = 37) d))"

fun getpin :: "nat \<Rightarrow> jsstr \<Rightarrow> lines \<Rightarrow> pin_exit" where
  \<comment> \<open>the loop after GETPIN; the text is the data read so far\<close>
  "getpin mn d [] = Failed"
| "getpin mn d (None # r) = Failed"
| "getpin mn d (Some l # r) =
     (if starts_with (js ''D '') l then getpin mn (d @ drop 2 l) r
      else if is_OK l then (if d = [] then Empty else if typed_length d < int mn then Short else Answer d)
      else if is_ERR l then err_exit l
      else getpin mn d r)"

definition pin_commands :: "jsstr \<Rightarrow> jsstr \<Rightarrow> jsstr \<Rightarrow> jsstr \<Rightarrow> jsstr list" where
  \<comment> \<open>what the script asks before GETPIN\<close>
  "pin_commands title desc prompt err =
     [js ''SETTITLE '' @ assuan_enc title, js ''SETDESC '' @ assuan_enc desc, js ''SETPROMPT '' @ assuan_enc prompt]
     @ (if err \<noteq> [] then [js ''SETERROR '' @ assuan_enc err] else [])
     @ [js ''SETTIMEOUT '' @ nat_to_str PINENTRY_TIMEOUT_S]"

fun after_asks :: "nat \<Rightarrow> lines \<Rightarrow> lines" where
  \<comment> \<open>the replies to that many questions, whose answer the script does not look at\<close>
  "after_asks 0 r = r"
| "after_asks (Suc n) r = after_asks n (snd (assuan_reply r))"

definition PINENTRY_SCRIPT :: "bool \<Rightarrow> jsstr \<Rightarrow> jsstr \<Rightarrow> jsstr \<Rightarrow> jsstr \<Rightarrow> nat \<Rightarrow> lines \<Rightarrow> pin_exit" where
  \<comment> \<open>\<open>found\<close>: the program can be run; writing to it is taken to succeed\<close>
  "PINENTRY_SCRIPT found title desc prompt err mn r =
     (if \<not> found then Missing
      else
        (let (st, r') = assuan_reply r in
         if st \<noteq> 0 then Failed else getpin mn [] (after_asks (length (pin_commands title desc prompt err)) r')))"

definition pinentryText :: "jsval \<Rightarrow> jsstr" where
  "pinentryText v = take PINENTRY_TEXT_MAX (filter (\<lambda>c. c \<noteq> 0) (text_of v))"

definition pinentryProgram :: "jsval \<Rightarrow> jsstr" where
  "pinentryProgram configured =
     (let name = (case configured of JStr s \<Rightarrow> trim s | _ \<Rightarrow> [])
      in if name = [] \<or> hd name = 45 \<or> 0 \<in> set name then [] else name)"

definition pinentryProbeMissing :: "jsnum \<Rightarrow> jsstr \<Rightarrow> bool" where
  "pinentryProbeMissing exitCode out \<longleftrightarrow> exitCode = Fin 0 \<and> trim out = js ''missing''"

record entry_state =
  en_usePinentry :: bool
  en_missing :: bool
  en_declined :: bool
  en_helperState :: jsstr

datatype entry_place = InPinentry | InField | Wait

definition typedSecretEntry :: "entry_state \<Rightarrow> entry_place" where
  "typedSecretEntry o' =
     (if \<not> en_usePinentry o' \<or> en_missing o' \<or> en_declined o' then InField
      else if en_helperState o' = js ''active'' then InPinentry
      else if en_helperState o' = js ''fallback'' then InField else Wait)"

definition pinentryDescription :: "jsstr \<Rightarrow> jsstr \<Rightarrow> jsstr" where
  "pinentryDescription purpose address =
     (let who = trim address; suffix = (if who \<noteq> [] then js '' for '' @ who else [])
      in (if purpose = js ''pin'' then js ''Enter the PIN that unlocks Bitwarden''
          else if purpose = js ''reprompt'' then js ''Confirm your Bitwarden master password''
          else js ''Unlock Bitwarden'') @ suffix)"

definition pinentryPrompt :: "jsstr \<Rightarrow> jsstr" where
  "pinentryPrompt purpose = (if purpose = js ''pin'' then js ''PIN:'' else js ''Master password:'')"

definition WRONG_MASTER_PASSWORD :: "jsstr list" where
  "WRONG_MASTER_PASSWORD = [js ''invalid master password'', js ''the decryption operation failed'', js ''the provided key is not the expected type'']"

definition isWrongMasterPassword :: "jsstr \<Rightarrow> bool" where
  "isWrongMasterPassword err \<longleftrightarrow> list_ex (\<lambda>p. re_test (lit_ci p) err) WRONG_MASTER_PASSWORD"

section \<open>A session lives as long as its boot\<close>

lemma shell_value_id: "10 \<notin> set s \<Longrightarrow> shell_value s = s"
proof -
  assume "10 \<notin> set s"
  then have "dropWhile (\<lambda>c. c = 10) (rev s) = rev s" by (cases "rev s") auto
  then show ?thesis by (simp add: shell_value_def)
qed

lemma token_units: "SESSION_TOKEN_RE t \<Longrightarrow> 10 \<notin> set t \<and> 32 \<notin> set t \<and> t \<noteq> []"
  by (auto simp: SESSION_TOKEN_RE_def token_unit_def is_alpha_def is_digit_def)

lemma prefix_before_space:
  assumes "starts_with (b @ [32]) (a @ 32 # t)" and "32 \<notin> set a" and "32 \<notin> set b"
  shows "b = a"
proof -
  obtain u where "a @ 32 # t = b @ 32 # u" using assms(1) by (auto simp: starts_with_iff)
  then have "takeWhile (\<lambda>c. c \<noteq> 32) (a @ 32 # t) = takeWhile (\<lambda>c. c \<noteq> 32) (b @ 32 # u)" by simp
  moreover have "takeWhile (\<lambda>c. c \<noteq> 32) (x @ 32 # y) = x" if "32 \<notin> set x" for x y :: jsstr
    using that by (induction x) auto
  ultimately show ?thesis using assms(2,3) by simp
qed

definition boot_id :: "jsstr \<Rightarrow> bool" where
  "boot_id b \<longleftrightarrow> b \<noteq> [] \<and> 32 \<notin> set b \<and> 10 \<notin> set b \<and> length b \<le> 128"

text \<open>What is assumed of \<open>secret-tool\<close>: a lookup prints a stored value or nothing; a store writes its value nowhere but
  under its entry, and in the named collection when it succeeds; a clear only removes, and only under its entry.\<close>

definition looks_up :: "secret_tool \<Rightarrow> bool" where
  "looks_up t \<longleftrightarrow> (\<forall>e rs. st_lookup t e rs = [] \<or> (\<exists>c. rs c e = Some (st_lookup t e rs)))"

definition stores_only :: "secret_tool \<Rightarrow> bool" where
  "stores_only t \<longleftrightarrow> (\<forall>c e v rs ok rs'. st_store t c e v rs = (ok, rs') \<longrightarrow>
     (\<forall>d x. rs' d x = rs d x \<or> (x = e \<and> rs' d x = Some v)) \<and> (ok \<longrightarrow> rs' c e = Some v))"

definition removes_only :: "secret_tool \<Rightarrow> bool" where
  "removes_only t \<longleftrightarrow> (\<forall>e rs d x. st_clear t e rs d x = rs d x \<or> (x = e \<and> st_clear t e rs d x = None))"

lemma store_leaves:
  assumes "stores_only t" and "keyringStoreCommand t boot token sl rs = (ok, rs')"
  shows "rs' d x = rs d x \<or> (x = keyringEntryName KEYRING_ACCOUNT sl \<and> rs' d x = Some (boot @ 32 # token))"
    and "ok \<Longrightarrow> \<exists>c. rs' c (keyringEntryName KEYRING_ACCOUNT sl) = Some (boot @ 32 # token)"
proof -
  let ?e = "keyringEntryName KEYRING_ACCOUNT sl" and ?v = "boot @ 32 # token"
  obtain ok1 rs1 where 1: "st_store t SessionCollection ?e ?v rs = (ok1, rs1)" by fastforce
  have s: "rs2 d x = rs1 d x \<or> (x = e \<and> rs2 d x = Some v)" "ok2 \<Longrightarrow> rs2 c e = Some v"
    if "st_store t c e v rs1 = (ok2, rs2)" for c e v d x rs1 ok2 rs2
    using assms(1) that unfolding stores_only_def by blast+
  have r: "if ok1 then ok \<and> rs' = rs1 else st_store t DefaultCollection ?e ?v rs1 = (ok, rs')"
    using assms(2) 1 by (auto simp: keyringStoreCommand_def Let_def split: bool.splits)
  then show "rs' d x = rs d x \<or> (x = ?e \<and> rs' d x = Some ?v)" using s(1) [OF 1, of d x] s(1) [of DefaultCollection ?e ?v rs1 ok rs' d x] by (auto split: if_splits)
  from r show "ok \<Longrightarrow> \<exists>c. rs' c ?e = Some ?v" using s(2) [OF 1] s(2) [of DefaultCollection ?e ?v rs1 ok rs'] by (auto split: if_splits)
qed

lemma shell_value_prefix: "\<exists>r. s = shell_value s @ r"
  by (intro exI [of _ "rev (takeWhile (\<lambda>c. c = 10) (rev s))"])
    (metis rev_append rev_rev_ident shell_value_def takeWhile_dropWhile_id)

lemma looked_up_prefix:
  assumes "starts_with p (shell_value (take n v))"
  shows "starts_with p v"
proof -
  obtain r where "take n v = shell_value (take n v) @ r" using shell_value_prefix by blast
  then have "v = shell_value (take n v) @ r @ drop n v" by (metis append.assoc append_take_drop_id)
  with assms show ?thesis unfolding starts_with_iff by (metis append.assoc)
qed

text \<open>What a lookup gives back was stored under the running boot's id.\<close>
lemma lookup_this_boot:
  assumes "looks_up t" and "boot_id now" and "keyringLookupCommand t now sl rs = (out, rs')" and "out \<noteq> []"
  shows "\<exists>c v. rs c (keyringEntryName KEYRING_ACCOUNT sl) = Some v \<and> starts_with (now @ [32]) v"
proof -
  let ?found = "st_lookup t (keyringEntryName KEYRING_ACCOUNT sl) rs"
  have p: "starts_with (now @ [32]) (shell_value (take MAX_TOKEN_BYTES ?found))"
    using assms(2,3,4) by (auto simp: keyringLookupCommand_def Let_def boot_id_def split: if_splits)
  then have "?found \<noteq> []" by (auto simp: starts_with_iff shell_value_def)
  then obtain c where "rs c (keyringEntryName KEYRING_ACCOUNT sl) = Some ?found" using assms(1) unfolding looks_up_def by blast
  with looked_up_prefix [OF p] show ?thesis by blast
qed

text \<open>A lookup that finds what a store wrote.\<close>
lemma found_session:
  assumes "SESSION_TOKEN_RE token" and "boot_id boot" and "boot_id now" and "st_lookup t (keyringEntryName KEYRING_ACCOUNT sl) rs = boot @ 32 # token"
  shows "now \<noteq> boot \<Longrightarrow> keyringLookupCommand t now sl rs = ([], st_clear t (keyringEntryName KEYRING_ACCOUNT sl) rs)"
    and "now = boot \<Longrightarrow> length token \<le> 3000 \<Longrightarrow> keyringLookupCommand t now sl rs = (token, rs)"
proof -
  let ?v = "boot @ 32 # token"
  have b: "32 \<notin> set boot" "10 \<notin> set boot" "boot \<noteq> []" "now \<noteq> []" "32 \<notin> set now" and tok: "10 \<notin> set token" "token \<noteq> []"
    using assms(2,3) token_units [OF assms(1)] by (auto simp: boot_id_def)
  have "10 \<notin> set (take MAX_TOKEN_BYTES ?v)" using set_take_subset [of MAX_TOKEN_BYTES ?v] b tok by auto
  then have st: "shell_value (take MAX_TOKEN_BYTES ?v) = take MAX_TOKEN_BYTES ?v" "take MAX_TOKEN_BYTES ?v \<noteq> []"
    using b(3) by (simp_all add: shell_value_id MAX_TOKEN_BYTES_def)
  show "keyringLookupCommand t now sl rs = ([], st_clear t (keyringEntryName KEYRING_ACCOUNT sl) rs)" if "now \<noteq> boot"
  proof -
    have "\<not> starts_with (now @ [32]) (take MAX_TOKEN_BYTES ?v)"
      using looked_up_prefix [of "now @ [32]" MAX_TOKEN_BYTES ?v] st(1) prefix_before_space [of now boot token] b that by auto
    with st b(4) assms(4) show ?thesis by (simp add: keyringLookupCommand_def Let_def del: take_append)
  qed
  show "keyringLookupCommand t now sl rs = (token, rs)" if "now = boot" "length token \<le> 3000"
  proof -
    have "take MAX_TOKEN_BYTES ?v = ?v" using assms(2) that(2) by (intro take_all) (simp add: MAX_TOKEN_BYTES_def boot_id_def)
    moreover have "dropWhile (\<lambda>c. c \<noteq> 32) ?v = 32 # token" using b(1) by (simp add: dropWhile_append)
    moreover have "starts_with (now @ [32]) ?v" using that(1) by (auto simp: starts_with_iff)
    ultimately show ?thesis using st b(4) assms(4) that(1) tok(2) by (simp add: keyringLookupCommand_def Let_def del: take_append)
  qed
qed

text \<open>C21: A remembered session does not outlive its boot. Whatever stores, lookups and clears fail: what a lookup gives
  back was stored under the running boot's id, so a session stored before a restart is never given back, and when it is
  found then a clear of its entry is asked for (which may leave a locked one). Within the boot, a session of at
  most 3000 characters whose store succeeded, with no older entry in either collection, is given back exactly
  when the lookup answers, and nothing is cleared. No other entry of the keyring ever changes. The boot ids have no
  space, no line feed and at most 128 characters.\<close>
theorem session_only_this_boot:
  assumes "looks_up t" and "stores_only t" and "removes_only t" and "SESSION_TOKEN_RE token" and "boot_id boot" and "boot_id now"
    and "entry = keyringEntryName KEYRING_ACCOUNT sl"
    and "keyringStoreCommand t boot token sl rs = (ok, rs1)" and "keyringLookupCommand t now sl rs1 = (out, rs2)"
  shows "(out \<noteq> [] \<longrightarrow> (\<exists>c v. rs1 c entry = Some v \<and> starts_with (now @ [32]) v))
    \<and> ((\<forall>c. rs c entry = None) \<and> now \<noteq> boot \<longrightarrow> out = [] \<and> rs2 = (if st_lookup t entry rs1 = [] then rs1 else st_clear t entry rs1))
    \<and> ((\<forall>c. rs c entry = None) \<and> now = boot \<and> length token \<le> 3000 \<and> ok \<and> st_lookup t entry rs1 \<noteq> [] \<longrightarrow> out = token \<and> rs2 = rs1)
    \<and> (\<forall>c x. x \<noteq> entry \<longrightarrow> rs2 c x = rs c x)"
proof -
  let ?v = "boot @ 32 # token" and ?found = "st_lookup t entry rs1"
  note left = store_leaves [OF assms(2,8), folded assms(7)]
  note found = found_session [OF assms(4,5,6), of t sl rs1, folded assms(7), unfolded assms(9) prod.inject]
  have none: "out = [] \<and> rs2 = rs1" if "?found = []"
    using assms(7,9) that by (auto simp: keyringLookupCommand_def Let_def starts_with_iff shell_value_def split: if_splits)
  have new: "?found = [] \<or> ?found = ?v" if n: "\<forall>c. rs c entry = None"
  proof -
    have "rs1 c entry = None \<or> rs1 c entry = Some ?v" for c using left(1) [of c entry] n by auto
    moreover have "?found = [] \<or> (\<exists>c. rs1 c entry = Some ?found)" using assms(1) unfolding looks_up_def by blast
    ultimately show ?thesis by (metis option.distinct(1) option.inject)
  qed
  have "rs2 = rs1 \<or> rs2 = st_clear t entry rs1"
    using assms(7,9) by (auto simp: keyringLookupCommand_def Let_def split: if_splits)
  moreover have "st_clear t entry rs1 c x = rs1 c x" if "x \<noteq> entry" for c x using assms(3) that unfolding removes_only_def by blast
  ultimately have "rs2 c x = rs c x" if "x \<noteq> entry" for c x using left(1) [of c x] that by auto
  moreover have "\<exists>c v. rs1 c entry = Some v \<and> starts_with (now @ [32]) v" if "out \<noteq> []"
    using lookup_this_boot [OF assms(1,6,9) that] assms(7) by simp
  moreover have "out = [] \<and> rs2 = (if ?found = [] then rs1 else st_clear t entry rs1)" if "\<forall>c. rs c entry = None" "now \<noteq> boot"
    using new [OF that(1)] none found(1) that(2) by auto
  moreover have "out = token \<and> rs2 = rs1" if "\<forall>c. rs c entry = None" "now = boot" "length token \<le> 3000" "?found \<noteq> []"
    using new [OF that(1)] found(2) that by auto
  ultimately show ?thesis by blast
qed

definition plain_tool :: secret_tool where
  \<comment> \<open>a stand-in without the collection in memory, that finds and removes what is in the default one\<close>
  "plain_tool =
     \<lparr>st_store = (\<lambda>c e v rs. case c of SessionCollection \<Rightarrow> (False, rs) | DefaultCollection \<Rightarrow> (True, rs(c := (rs c)(e \<mapsto> v)))),
      st_lookup = (\<lambda>e rs. case rs DefaultCollection e of Some v \<Rightarrow> v | None \<Rightarrow> []),
      st_clear = (\<lambda>e rs c. (rs c)(e := None))\<rparr>"

lemma plain_tool_ok: "looks_up plain_tool" "stores_only plain_tool" "removes_only plain_tool"
  by (auto simp: looks_up_def stores_only_def removes_only_def plain_tool_def split: option.splits collection.splits)

theorem session_only_this_boot_witness:
  "\<exists>rs1. keyringStoreCommand plain_tool (js ''b1'') (replicate 32 65) JUndef (\<lambda>c. Map.empty) = (True, rs1)
     \<and> fst (keyringLookupCommand plain_tool (js ''b2'') JUndef rs1) = []
     \<and> fst (keyringLookupCommand plain_tool (js ''b1'') JUndef rs1) = replicate 32 65"
proof -
  have a: "SESSION_TOKEN_RE (replicate 32 65)" by (simp add: SESSION_TOKEN_RE_def token_unit_def is_alpha_def)
  have b: "boot_id (js ''b1'')" "boot_id (js ''b2'')" "js ''b2'' \<noteq> js ''b1''" by (simp_all add: boot_id_def js_def)
  obtain rs1 where s: "keyringStoreCommand plain_tool (js ''b1'') (replicate 32 65) JUndef (\<lambda>c. Map.empty) = (True, rs1)"
    by (simp add: keyringStoreCommand_def plain_tool_def)
  then have f: "st_lookup plain_tool (keyringEntryName KEYRING_ACCOUNT JUndef) rs1 \<noteq> []"
    by (auto simp: keyringStoreCommand_def plain_tool_def)
  obtain o1 r1 where 1: "keyringLookupCommand plain_tool (js ''b2'') JUndef rs1 = (o1, r1)" by fastforce
  obtain o2 r2 where 2: "keyringLookupCommand plain_tool (js ''b1'') JUndef rs1 = (o2, r2)" by fastforce
  from session_only_this_boot [OF plain_tool_ok a b(1,2) refl s 1] session_only_this_boot [OF plain_tool_ok a b(1,1) refl s 2] b(3) f s 1 2
  show ?thesis by auto
qed

section \<open>Logging out leaves nothing behind\<close>

definition searches_exactly :: "(keyring \<Rightarrow> jsstr \<Rightarrow> nat \<times> nat) \<Rightarrow> bool" where
  \<comment> \<open>a search that succeeds prints nothing exactly when nothing matches\<close>
  "searches_exactly find_items \<longleftrightarrow> (\<forall>kr e. fst (find_items kr e) = 0 \<longrightarrow> snd (find_items kr e) = 0 \<longleftrightarrow> kr e = None)"

definition clears_only :: "(keyring \<Rightarrow> jsstr \<Rightarrow> keyring) \<Rightarrow> bool" where
  \<comment> \<open>clearing an entry touches no other\<close>
  "clears_only clear \<longleftrightarrow> (\<forall>kr e e'. e' \<noteq> e \<longrightarrow> clear kr e e' = kr e')"

lemma clear_entries_keeps:
  assumes "clears_only clear" and "clear_entries find_items clear es kr ok = (kr', ok')" and "x \<notin> set es"
  shows "kr' x = kr x"
  using assms(2,3)
proof (induction es arbitrary: kr ok)
  case (Cons e es)
  then show ?case using assms(1) unfolding clears_only_def by (auto simp: Let_def split: prod.splits if_splits)
qed simp

lemma clear_entries_gone:
  assumes "searches_exactly find_items" and "clears_only clear"
  shows "\<lbrakk>clear_entries find_items clear es kr ok = (kr', True); distinct es\<rbrakk> \<Longrightarrow> ok \<and> (\<forall>e\<in>set es. kr' e = None)"
proof (induction es arbitrary: kr ok)
  case (Cons e es)
  obtain rc size where s: "find_items kr e = (rc, size)" by fastforce
  show ?case
  proof (cases "rc \<noteq> 0")
    case True
    with Cons s show ?thesis by fastforce
  next
    case rc: False
    show ?thesis
    proof (cases "0 < size")
      case True
      obtain rc' size' where s': "find_items (clear kr e) e = (rc', size')" by fastforce
      with Cons.prems s rc True have run: "clear_entries find_items clear es (clear kr e) (ok \<and> rc' = 0 \<and> size' = 0) = (kr', True)" by simp
      then have ih: "ok \<and> rc' = 0 \<and> size' = 0" "\<forall>e\<in>set es. kr' e = None" using Cons.IH [OF run] Cons.prems(2) by auto
      moreover have "kr' e = clear kr e e" using clear_entries_keeps [OF assms(2) run] Cons.prems(2) by simp
      moreover have "clear kr e e = None" using assms(1) [unfolded searches_exactly_def, rule_format, of "clear kr e" e] s' ih(1) by simp
      ultimately show ?thesis by auto
    next
      case False
      with Cons.prems s rc have run: "clear_entries find_items clear es kr ok = (kr', True)" by simp
      have "kr e = None" using assms(1) [unfolded searches_exactly_def, rule_format, of kr e] s rc False by simp
      then show ?thesis using clear_entries_keeps [OF assms(2) run] Cons.IH [OF run] Cons.prems(2) by auto
    qed
  qed
qed simp

lemma slot_no_at: "64 \<notin> set (accountSlot sl)"
proof -
  have "ACCOUNT_SLOT_RE s \<Longrightarrow> 64 \<notin> set s" for s by (auto simp: ACCOUNT_SLOT_RE_def is_hex_lower_def is_digit_def)
  then show ?thesis by (auto simp: accountSlot_def isAccountSlot_def DEFAULT_ACCOUNT_SLOT_def js_def split: jsval.splits)
qed

lemma append_at_eq:
  fixes a b s t :: jsstr
  assumes "a @ 64 # s = b @ 64 # t" and "64 \<notin> set a" and "64 \<notin> set b"
  shows "a = b \<and> s = t"
proof -
  have "takeWhile (\<lambda>c. c \<noteq> 64) (x @ 64 # y) = x" if "64 \<notin> set x" for x y :: jsstr using that by (induction x) auto
  from this [OF assms(2), of s] this [OF assms(3), of t] have "a = b" using assms(1) by simp
  with assms(1) show ?thesis by simp
qed

lemma entry_names_differ:
  assumes "keyringEntryName a sl = keyringEntryName b sl'" and "64 \<notin> set a" and "64 \<notin> set b"
  shows "a = b \<and> accountSlot sl = accountSlot sl'"
proof -
  have ex: "64 \<in> set (x @ 64 # s)" for x s :: jsstr by simp
  show ?thesis
    using assms append_at_eq [of a "accountSlot sl" b "accountSlot sl'"] ex [of a "accountSlot sl"] ex [of b "accountSlot sl'"]
    by (auto simp: keyringEntryName_def Let_def split: if_splits)
qed

lemma all_accounts: "distinct KEYRING_ALL_ACCOUNTS" "\<forall>a\<in>set KEYRING_ALL_ACCOUNTS. 64 \<notin> set a"
  by (simp_all add: KEYRING_ALL_ACCOUNTS_def KEYRING_ACCOUNT_def KEYRING_ENVELOPE_def KEYRING_MASTER_def KEYRING_FIDO_def KEYRING_PIN_def)
    (simp add: js_def)

lemma clear_all_gone:
  assumes "searches_exactly find_items" and "clears_only clear"
    and "keyringClearAllCommand find_items clear sl kr = (kr', True)" and "a \<in> set KEYRING_ALL_ACCOUNTS"
  shows "kr' (keyringEntryName a sl) = None"
proof -
  let ?es = "map (\<lambda>a. keyringEntryName a sl) KEYRING_ALL_ACCOUNTS"
  have "inj_on (\<lambda>a. keyringEntryName a sl) (set KEYRING_ALL_ACCOUNTS)"
    using all_accounts(2) entry_names_differ by (auto simp: inj_on_def)
  then have "distinct ?es" using all_accounts(1) by (simp add: distinct_map)
  with clear_entries_gone [OF assms(1,2), of ?es kr True kr'] assms(3,4) show ?thesis by (simp add: keyringClearAllCommand_def)
qed

lemma clear_all_keeps:
  assumes "clears_only clear" and "keyringClearAllCommand find_items clear sl kr = (kr', ok)"
    and "e \<notin> (\<lambda>a. keyringEntryName a sl) ` set KEYRING_ALL_ACCOUNTS"
  shows "kr' e = kr e"
  using clear_entries_keeps [OF assms(1)] assms(2,3) by (auto simp: keyringClearAllCommand_def)

lemma other_slot_entry:
  "a \<in> set KEYRING_ALL_ACCOUNTS \<Longrightarrow> accountSlot sl' \<noteq> accountSlot sl \<Longrightarrow> keyringEntryName a sl' \<notin> (\<lambda>a. keyringEntryName a sl) ` set KEYRING_ALL_ACCOUNTS"
  using all_accounts(2) entry_names_differ [of a sl' _ sl] by auto

text \<open>C22: When logging out reports success, none of the entries the plugin has ever written for the account is
  left in the keyring, even if the keyring was locked or refused at first; and whatever it reports,
  the entries of other accounts and of other programs are as they were.\<close>
theorem logout_clears_keyring:
  assumes "searches_exactly find_items" and "clears_only clear"
    and "keyringClearAllCommand find_items clear sl kr = (kr', ok)"
  shows "(ok \<longrightarrow> (\<forall>a\<in>set KEYRING_ALL_ACCOUNTS. kr' (keyringEntryName a sl) = None))
    \<and> (\<forall>e. e \<notin> (\<lambda>a. keyringEntryName a sl) ` set KEYRING_ALL_ACCOUNTS \<longrightarrow> kr' e = kr e)
    \<and> (\<forall>a sl'. a \<in> set KEYRING_ALL_ACCOUNTS \<longrightarrow> accountSlot sl' \<noteq> accountSlot sl \<longrightarrow> kr' (keyringEntryName a sl') = kr (keyringEntryName a sl'))"
  using clear_all_gone [OF assms(1,2)] clear_all_keeps [OF assms(2,3)] other_slot_entry assms(3) by (cases ok) simp_all

theorem logout_clears_keyring_witness:
  "\<exists>kr'. keyringClearAllCommand (\<lambda>kr e. (0, case kr e of None \<Rightarrow> 0 | Some v \<Rightarrow> length v + 20)) (\<lambda>kr e. kr(e := None)) JUndef
       [KEYRING_ACCOUNT \<mapsto> js ''s'', js ''other'' \<mapsto> js ''t''] = (kr', True)
     \<and> kr' (keyringEntryName KEYRING_ACCOUNT JUndef) = None \<and> kr' (js ''other'') = Some (js ''t'')"
proof -
  let ?find = "\<lambda>kr e. (0::nat, case kr e of None \<Rightarrow> 0 | Some v \<Rightarrow> length v + 20)"
  let ?clear = "\<lambda>(kr::keyring) e. kr(e := None)"
  let ?kr = "[KEYRING_ACCOUNT \<mapsto> js ''s'', js ''other'' \<mapsto> js ''t'']"
  obtain kr' ok where r: "keyringClearAllCommand ?find ?clear JUndef ?kr = (kr', ok)" by fastforce
  have e: "keyringEntryName a JUndef = a" for a by (simp add: keyringEntryName_def accountSlot_def Let_def)
  have h: "searches_exactly ?find" "clears_only ?clear" by (auto simp: searches_exactly_def clears_only_def split: option.splits)
  note names = KEYRING_ACCOUNT_def KEYRING_ENVELOPE_def KEYRING_MASTER_def KEYRING_FIDO_def KEYRING_PIN_def
  have ok using r unfolding keyringClearAllCommand_def e KEYRING_ALL_ACCOUNTS_def names by (simp add: Let_def)
  with logout_clears_keyring [OF h r] r show ?thesis
    by (auto simp: e KEYRING_ALL_ACCOUNTS_def names)
qed

section \<open>What is typed into pinentry arrives\<close>

fun percent_dec :: "jsstr \<Rightarrow> jsstr option" where
  \<comment> \<open>how both ends of an Assuan connection read data\<close>
  "percent_dec [] = Some []"
| "percent_dec (c # cs) =
     (if c = 37 then
        (case cs of
           h # l # r \<Rightarrow> (case (hex_digit h, hex_digit l) of (Some a, Some b) \<Rightarrow> map_option ((#) (16 * a + b)) (percent_dec r) | _ \<Rightarrow> None)
         | _ \<Rightarrow> None)
      else map_option ((#) c) (percent_dec cs))"

lemma assuan_enc_units:
  "assuan_enc s = concat (map (\<lambda>c. if c = 37 then js ''%25'' else if c = 13 then js ''%0D'' else if c = 10 then js ''%0A'' else [c]) s)"
  by (induction s) (simp_all add: assuan_enc_def replace_unit_def js_def)

lemma percent_dec_enc: "percent_dec (assuan_enc s) = Some s"
  by (induction s) (simp_all add: assuan_enc_units js_def hex_digit_def radix_digit_def is_digit_def)

lemma assuan_enc_one_line: "10 \<notin> set (assuan_enc s) \<and> 13 \<notin> set (assuan_enc s)"
  by (simp add: assuan_enc_units js_def)

text \<open>Whatever the title, the account and the error text hold, each command is one line, and pinentry shows
  exactly that text.\<close>

lemma pin_commands_framed:
  "l \<in> set (pin_commands title desc prompt err) \<Longrightarrow> 10 \<notin> set l \<and> 13 \<notin> set l"
  using assuan_enc_one_line nat_to_str_digits [of 10 PINENTRY_TIMEOUT_S] nat_to_str_digits [of 13 PINENTRY_TIMEOUT_S]
  by (auto simp: pin_commands_def js_def is_digit_def split: if_splits)

lemma hex_not_percent: "hex_digit c = Some d \<Longrightarrow> c \<noteq> 37"
  by (auto simp: hex_digit_def radix_digit_def is_digit_def)

lemma typed_length_dec: "percent_dec d = Some s \<Longrightarrow> typed_length d = int (length s)"
proof (induction d arbitrary: s rule: percent_dec.induct)
  case (2 c cs)
  show ?case
  proof (cases "c = 37")
    case True
    with 2 obtain h l r a b where d: "cs = h # l # r" "hex_digit h = Some a" "hex_digit l = Some b"
      and s: "percent_dec r = Some (tl s)" "s = (16 * a + b) # tl s"
      by (auto split: list.splits option.splits)
    have "typed_length r = int (length (tl s))" using "2.IH"(1) [OF True d(1) refl refl d(2,3) s(1)] .
    then show ?thesis using d True s(2) hex_not_percent by (cases s) (auto simp: typed_length_def)
  next
    case False
    with 2 show ?thesis by (auto simp: typed_length_def)
  qed
qed (simp add: typed_length_def)

lemma percent_dec_Nil_iff: "percent_dec d = Some [] \<longleftrightarrow> d = []"
  by (cases d) (auto split: list.splits option.splits)

lemma OK_not_D: "is_OK l \<Longrightarrow> \<not> starts_with (js ''D '') l"
  by (cases l) (auto simp: is_OK_def js_def)

lemma ERR_not_D: "is_ERR l \<Longrightarrow> \<not> starts_with (js ''D '') l \<and> \<not> is_OK l"
  by (cases l) (auto simp: is_ERR_def is_OK_def js_def)

lemma getpin_data:
  assumes "\<forall>l\<in>set ls. starts_with (js ''D '') l \<or> \<not> is_OK l \<and> \<not> is_ERR l"
  shows "getpin mn d (map Some ls @ r) = getpin mn (d @ concat (map (drop 2) (filter (starts_with (js ''D '')) ls))) r"
  using assms by (induction ls arbitrary: d) auto

lemma after_asks_replies:
  assumes "\<forall>l\<in>set rs. is_OK l \<or> is_ERR l"
  shows "after_asks (length rs) (map Some rs @ r) = r"
  using assms by (induction rs) auto

text \<open>C33: What the user types into pinentry is what the vault helper gets, however pinentry splits it into data
  lines and whatever status lines come between: the script prints exactly the data sent, still
  encoded, unless nothing was typed or fewer characters than asked for, where each escape counts as
  the one character it stands for; then it prints nothing and says so.\<close>
theorem pinentry_answer_exact:
  fixes title desc prompt err
  assumes "is_OK g" and "length rs = length (pin_commands title desc prompt err)" and "\<forall>l\<in>set rs. is_OK l \<or> is_ERR l"
    and "\<forall>l\<in>set ls. starts_with (js ''D '') l \<or> \<not> is_OK l \<and> \<not> is_ERR l" and "is_OK fin"
    and "percent_dec (concat (map (drop 2) (filter (starts_with (js ''D '')) ls))) = Some secret"
  shows "PINENTRY_SCRIPT True title desc prompt err mn (Some g # map Some rs @ map Some ls @ Some fin # rest)
    = (if secret = [] then Empty else if length secret < mn then Short
       else Answer (concat (map (drop 2) (filter (starts_with (js ''D '')) ls))))"
proof -
  let ?d = "concat (map (drop 2) (filter (starts_with (js ''D '')) ls))"
  have "PINENTRY_SCRIPT True title desc prompt err mn (Some g # map Some rs @ map Some ls @ Some fin # rest)
      = getpin mn [] (after_asks (length rs) (map Some rs @ map Some ls @ Some fin # rest))"
    using assms(1,2) by (simp add: PINENTRY_SCRIPT_def)
  also have "\<dots> = getpin mn ?d (Some fin # rest)"
    unfolding after_asks_replies [OF assms(3)] getpin_data [OF assms(4)] by simp
  finally show ?thesis
    using assms(5) OK_not_D [OF assms(5)] typed_length_dec [OF assms(6)] percent_dec_Nil_iff [of ?d] assms(6) by auto
qed

theorem pinentry_answer_exact_witness:
  "PINENTRY_SCRIPT True [] [] [] [] 4
     [Some (js ''OK hello''), Some (js ''OK''), Some (js ''OK''), Some (js ''ERR 1''), Some (js ''OK''),
      Some (js ''S KEYINFO''), Some (js ''D ab%25''), Some (js ''D c''), Some (js ''OK'')] = Answer (js ''ab%25c'')"
proof -
  let ?ls = "[js ''S KEYINFO'', js ''D ab%25'', js ''D c'']"
  have d: "concat (map (drop 2) (filter (starts_with (js ''D '')) ?ls)) = js ''ab%25c''" by (simp add: js_def)
  have "PINENTRY_SCRIPT True [] [] [] [] 4
      (Some (js ''OK hello'') # map Some [js ''OK'', js ''OK'', js ''ERR 1'', js ''OK''] @ map Some ?ls @ Some (js ''OK'') # [])
    = (if [97::nat, 98, 37, 99] = [] then Empty else if length [97::nat, 98, 37, 99] < 4 then Short
       else Answer (concat (map (drop 2) (filter (starts_with (js ''D '')) ?ls))))"
    by (rule pinentry_answer_exact) (simp_all add: d pin_commands_def is_OK_def is_ERR_def js_def hex_digit_def radix_digit_def is_digit_def)
  then show ?thesis unfolding d by simp
qed

section \<open>The PIN floor\<close>

lemma validatePin_ok: "validatePin p confirm = [] \<longleftrightarrow> 6 \<le> length p \<and> (\<forall>c\<in>set p. is_digit c) \<and> (confirm = None \<or> confirm = Some p)"
  by (auto simp: validatePin_def PIN_MIN_LENGTH_def)

lemma weak_pins: "isPinWeak p \<longleftrightarrow> length p = 6 \<or> length p = 7"
  by (auto simp: isPinWeak_def pinWeakWarning_def PIN_MIN_LENGTH_def PIN_RECOMMENDED_LENGTH_def)

text \<open>Typed secrets go into the panel's own field only if pinentry is off, missing, declined, or the helper
  was given up; never because the helper is starting or was stopped.\<close>

lemma field_only_if_asked:
  "typedSecretEntry e = InField \<longleftrightarrow> \<not> en_usePinentry e \<or> en_missing e \<or> en_declined e \<or> en_helperState e = js ''fallback''"
  by (simp add: typedSecretEntry_def)

end
