(* ===== verification/Envelope.thy ===== *)
theory Envelope
  imports Unlock
begin

text \<open>
  The quick-unlock envelope of \<^verbatim>\<open>BitwardenModel.js\<close>: one keyring entry that holds the master password,
  encrypted, and a way in for each enabled method. The panel changes it only through shell scripts
  that run other programs (the keyring client, \<^verbatim>\<open>systemd-creds\<close>, \<^verbatim>\<open>argon2\<close>, the unlock tool). The
  scripts are functions here of the keyring and of what these programs answer, which are
  parameters (\<open>tools\<close>): every exit of a script is an exit status and the keyring it leaves.
\<close>

section \<open>The programs\<close>

type_synonym kdf_params = "jsstr \<times> nat \<times> nat \<times> nat"

record summary =
  sm_id :: jsstr
  sm_server :: jsstr
  sm_master :: "kdf_params option"
  sm_pin :: "kdf_params option"
  sm_fingerprint :: bool
  sm_fido :: "jsstr list"

record acct =
  ac_id :: jsstr
  ac_server :: jsstr
  ac_slot :: jsval

datatype via = ViaMaster | ViaPin | ViaFingerprint | ViaFido jsstr

datatype request =
    Create acct jsstr jsstr jsstr            \<comment> \<open>account, password, key, salt\<close>
  | AddPinWrap acct jsstr jsstr jsstr        \<comment> \<open>account, master key, PIN key, salt\<close>
  | AddFingerprintWrap acct jsstr
  | AddFidoWrap acct jsstr jsstr jsstr jsstr jsstr  \<comment> \<open>account, master key, hmac-secret, credential, rp, salt\<close>
  | RemoveWrap via
  | Stale
  | RotateTo acct via jsstr jsstr jsstr jsstr       \<comment> \<open>account, method and its key, new password, its key, salt\<close>

record tools =
  unseal :: "jsstr \<Rightarrow> jsstr option"
  seal :: "jsstr \<Rightarrow> jsstr option"
  inspect :: "jsstr \<Rightarrow> summary option"
  kdf :: "jsstr \<Rightarrow> kdf_params \<Rightarrow> jsstr option"
  open_env :: "jsstr \<Rightarrow> acct \<Rightarrow> via \<Rightarrow> jsstr \<Rightarrow> (nat, jsstr) sum"
  change :: "request \<Rightarrow> jsstr \<Rightarrow> (nat, jsstr) sum"
  new_salt :: jsstr
  stores :: "jsstr \<Rightarrow> bool"
  lookup_fails :: "jsstr \<Rightarrow> bool"
  clears :: "jsstr \<Rightarrow> bool"               \<comment> \<open>whether \<^verbatim>\<open>secret-tool clear\<close> leaves nothing: it skips locked items\<close>
  clear_says :: "jsstr \<Rightarrow> nat \<times> jsstr"   \<comment> \<open>its status and what it writes to stderr, which need not tell\<close>

record secrets =
  sc_password :: jsstr   \<comment> \<open>\<^verbatim>\<open>QSBW_SECRET\<close>\<close>
  sc_pin :: jsstr        \<comment> \<open>\<^verbatim>\<open>QSBW_PIN\<close>\<close>
  sc_new :: jsstr        \<comment> \<open>\<^verbatim>\<open>QSBW_NEW_SECRET\<close>\<close>
  sc_hmac :: jsstr       \<comment> \<open>\<^verbatim>\<open>QSBW_FIDO_HMAC\<close>\<close>
  sc_salt :: jsstr       \<comment> \<open>\<^verbatim>\<open>QSBW_FIDO_SALT\<close>\<close>

section \<open>Steps of the scripts\<close>

text \<open>
  A step ends the script with a status (\<open>Inl\<close>) or goes on with a value. What the programs do is
  assumed only as far as the scripts rely on it: a program that fails prints nothing, and the same
  program gives the same answer to the same input within one script.
\<close>

definition and_then :: "(nat, 'a) sum \<Rightarrow> ('a \<Rightarrow> (nat, 'b) sum) \<Rightarrow> (nat, 'b) sum" where
  "and_then m f = (case m of Inl rc \<Rightarrow> Inl rc | Inr x \<Rightarrow> f x)"

definition orExit :: "nat \<Rightarrow> 'a option \<Rightarrow> (nat, 'a) sum" where
  "orExit rc m = (case m of None \<Rightarrow> Inl rc | Some x \<Rightarrow> Inr x)"

definition failing :: "(nat, 'a) sum \<Rightarrow> (nat, 'a) sum" where
  \<comment> \<open>a program that fails does so with a status other than 0\<close>
  "failing m = (case m of Inl rc \<Rightarrow> Inl (max 1 rc) | Inr x \<Rightarrow> Inr x)"

definition joined :: "jsstr \<Rightarrow> jsstr" where
  \<comment> \<open>\<^verbatim>\<open>tr -d '\n\r'\<close>\<close>
  "joined s = filter (\<lambda>c. c \<noteq> 10 \<and> c \<noteq> 13) s"

definition ENVELOPE_ARGON2 :: "nat \<times> nat \<times> nat" where
  \<comment> \<open>passes, memory, lanes\<close>
  "ENVELOPE_ARGON2 = (4, 262144, 1)"

definition MAX_ENVELOPE_SEALED_BYTES :: nat where "MAX_ENVELOPE_SEALED_BYTES = 256 * 1024"

definition ENVELOPE_BASE64_RE :: "jsstr \<Rightarrow> bool" where
  \<comment> \<open>\<^verbatim>\<open>/^[A-Za-z0-9+/]+={0,2}$/\<close>\<close>
  "ENVELOPE_BASE64_RE s \<longleftrightarrow>
     (let b = takeWhile (\<lambda>c. is_alpha c \<or> is_digit c \<or> c = 43 \<or> c = 47) s; r = drop (length b) s
      in b \<noteq> [] \<and> (r = [] \<or> r = [61] \<or> r = [61, 61]))"

definition envelopeArgsOk :: "jsval \<Rightarrow> acct \<Rightarrow> bool" where
  "envelopeArgsOk tool a \<longleftrightarrow>
     (case tool of JStr (c # cs) \<Rightarrow> c = 47 | _ \<Rightarrow> False) \<and> ac_id a \<noteq> []
     \<and> (ac_slot a = JUndef \<or> isAccountSlot (ac_slot a)) \<and> \<not> list_ex is_control (ac_id a @ ac_server a)"

definition envelope_entry :: "acct \<Rightarrow> jsstr" where
  "envelope_entry a = keyringEntryName KEYRING_ENVELOPE (ac_slot a)"

definition lookup :: "tools \<Rightarrow> jsstr \<Rightarrow> keyring \<Rightarrow> jsstr" where
  \<comment> \<open>\<^verbatim>\<open>$(__lookup)\<close>: nothing when there is no such entry, or it cannot be read\<close>
  "lookup t entry kr =
     (if lookup_fails t entry then []
      else (case kr entry of None \<Rightarrow> [] | Some v \<Rightarrow> shell_value (take MAX_ENVELOPE_SEALED_BYTES v)))"

definition load :: "tools \<Rightarrow> jsstr \<Rightarrow> keyring \<Rightarrow> (nat, jsstr \<times> summary) sum" where
  \<comment> \<open>\<^verbatim>\<open>__load\<close>: the envelope and its summary; later steps unseal the same bytes again\<close>
  "load t entry kr =
     (let sealed = lookup t entry kr in
      if sealed = [] then Inl 10
      else and_then (orExit 11 (unseal t sealed)) (\<lambda>e. and_then (orExit 11 (inspect t e)) (\<lambda>sm. Inr (e, sm))))"

definition wrap_key :: "tools \<Rightarrow> kdf_params option \<Rightarrow> jsstr \<Rightarrow> (nat, jsstr) sum" where
  \<comment> \<open>\<^verbatim>\<open>__wrap_key\<close>\<close>
  "wrap_key t params secret = and_then (orExit 7 params) (\<lambda>ps. orExit 12 (kdf t secret ps))"

definition envelopeNewKey :: "tools \<Rightarrow> jsstr \<Rightarrow> (nat, jsstr) sum" where
  "envelopeNewKey t secret = orExit 12 (kdf t secret (new_salt t, ENVELOPE_ARGON2))"

definition seal_step :: "tools \<Rightarrow> jsstr \<Rightarrow> (nat, jsstr) sum" where
  \<comment> \<open>\<^verbatim>\<open>$(... | __seal)\<close>\<close>
  "seal_step t e = (case seal t e of None \<Rightarrow> Inl 1 | Some s \<Rightarrow> Inr (joined s))"

definition sealed_change :: "tools \<Rightarrow> request \<Rightarrow> jsstr \<Rightarrow> (nat, jsstr) sum" where
  \<comment> \<open>\<^verbatim>\<open>tool ... | __seal\<close> under pipefail: the status of the last part that failed\<close>
  "sealed_change t req e =
     (case change t req e of
        Inr e' \<Rightarrow> seal_step t e'
      | Inl rc \<Rightarrow> and_then (seal_step t []) (\<lambda>_. Inl (max 1 rc)))"

definition verify_account :: "tools \<Rightarrow> acct \<Rightarrow> jsstr \<Rightarrow> bool" where
  "verify_account t a new =
     (case unseal t new of None \<Rightarrow> False | Some e \<Rightarrow>
        (case inspect t e of None \<Rightarrow> False | Some sm \<Rightarrow> sm_id sm = ac_id a \<and> sm_server sm = ac_server a))"

definition verify_opens :: "tools \<Rightarrow> acct \<Rightarrow> via \<Rightarrow> jsstr \<Rightarrow> jsstr \<Rightarrow> jsstr \<Rightarrow> bool" where
  \<comment> \<open>\<^verbatim>\<open>cmp\<close> of the password and of what the tool prints, whatever its status\<close>
  "verify_opens t a w key pw new =
     ((case open_env t (case unseal t new of None \<Rightarrow> [] | Some e \<Rightarrow> e) a w key of Inl rc \<Rightarrow> [] | Inr p \<Rightarrow> p) = pw)"

type_synonym check = "(via \<times> jsstr \<times> jsstr) option"

definition commit :: "tools \<Rightarrow> acct \<Rightarrow> keyring \<Rightarrow> check \<Rightarrow> jsstr \<Rightarrow> nat \<times> keyring" where
  \<comment> \<open>the end of every writing script: check the new envelope, then store it\<close>
  "commit t a kr chk new =
     (if \<not> verify_account t a new then (14, kr)
      else if (case chk of None \<Rightarrow> False | Some (w, key, pw) \<Rightarrow> \<not> verify_opens t a w key pw new) then (14, kr)
      else if stores t new then (0, kr(envelope_entry a \<mapsto> new)) else (13, kr))"

section \<open>The scripts\<close>

definition auth_key :: "tools \<Rightarrow> summary \<Rightarrow> secrets \<Rightarrow> via \<Rightarrow> (nat, jsstr) sum" where
  \<comment> \<open>the key of one way in, from its secret\<close>
  "auth_key t sm sc w =
     (case w of
        ViaMaster \<Rightarrow> wrap_key t (sm_master sm) (sc_password sc)
      | ViaPin \<Rightarrow> wrap_key t (sm_pin sm) (sc_pin sc)
      | ViaFingerprint \<Rightarrow> Inr []
      | ViaFido cred \<Rightarrow> Inr (sc_hmac sc))"

definition via_ok :: "via \<Rightarrow> bool" where
  "via_ok w = (case w of ViaFido cred \<Rightarrow> ENVELOPE_BASE64_RE cred | _ \<Rightarrow> True)"

definition unlockEnvelopeInspectCommand :: "tools \<Rightarrow> jsval \<Rightarrow> jsval \<Rightarrow> keyring \<Rightarrow> (nat, summary) sum" where
  "unlockEnvelopeInspectCommand t tool sl kr =
     (if \<not> (case tool of JStr (c # cs) \<Rightarrow> c = 47 | _ \<Rightarrow> False) then Inl 2
      else and_then (load t (keyringEntryName KEYRING_ENVELOPE sl) kr) (\<lambda>(e, sm). Inr sm))"

definition unlockEnvelopeOpenCommand :: "tools \<Rightarrow> jsval \<Rightarrow> acct \<Rightarrow> via \<Rightarrow> secrets \<Rightarrow> keyring \<Rightarrow> (nat, jsstr) sum" where
  \<comment> \<open>the password, through one method\<close>
  "unlockEnvelopeOpenCommand t tool a w sc kr =
     (if \<not> envelopeArgsOk tool a \<or> \<not> via_ok w then Inl 2
      else
        and_then (load t (envelope_entry a) kr) (\<lambda>(e, sm).
          and_then (auth_key t sm sc w) (\<lambda>key.
            and_then (failing (open_env t e a w key)) (\<lambda>pw. Inr (take MAX_TOKEN_BYTES pw)))))"

definition unlockEnvelopeCreateCommand :: "tools \<Rightarrow> jsval \<Rightarrow> acct \<Rightarrow> secrets \<Rightarrow> keyring \<Rightarrow> nat \<times> keyring" where
  "unlockEnvelopeCreateCommand t tool a sc kr =
     (if \<not> envelopeArgsOk tool a then (2, kr)
      else
        (case and_then (envelopeNewKey t (sc_password sc)) (\<lambda>k.
                and_then (sealed_change t (Create a (sc_password sc) k (new_salt t)) []) (\<lambda>new. Inr (k, new))) of
           Inl rc \<Rightarrow> (rc, kr)
         | Inr (k, new) \<Rightarrow> commit t a kr (Some (ViaMaster, k, sc_password sc)) new))"

datatype update =
    AddPin
  | AddFingerprint
  | AddFido jsstr jsstr "jsstr option"   \<comment> \<open>credential, rp, salt; \<open>None\<close> is \<^verbatim>\<open>saltFromEnv\<close>\<close>
  | Remove via
  | MarkStale
  | Rotate via

definition update_ok :: "update \<Rightarrow> bool" where
  \<comment> \<open>the checks of the arguments before the script is built\<close>
  "update_ok op =
     (case op of
        AddFido cred rp st \<Rightarrow> ENVELOPE_BASE64_RE cred \<and> (case st of None \<Rightarrow> True | Some s \<Rightarrow> ENVELOPE_BASE64_RE s)
          \<and> rp \<noteq> [] \<and> \<not> list_ex is_control rp
      | Remove w \<Rightarrow> (case w of ViaMaster \<Rightarrow> False | _ \<Rightarrow> via_ok w)
      | Rotate w \<Rightarrow> via_ok w
      | _ \<Rightarrow> True)"

definition prepare :: "tools \<Rightarrow> acct \<Rightarrow> secrets \<Rightarrow> summary \<Rightarrow> update \<Rightarrow> (nat, request \<times> check) sum" where
  \<comment> \<open>\<^verbatim>\<open>pre\<close>: the keys, the request to the tool, and the way in that must then open\<close>
  "prepare t a sc sm op =
     (case op of
        AddPin \<Rightarrow>
          and_then (wrap_key t (sm_master sm) (sc_password sc)) (\<lambda>mk. and_then (envelopeNewKey t (sc_pin sc)) (\<lambda>pk.
            Inr (AddPinWrap a mk pk (new_salt t), Some (ViaPin, pk, sc_password sc))))
      | AddFingerprint \<Rightarrow>
          and_then (wrap_key t (sm_master sm) (sc_password sc)) (\<lambda>mk. Inr (AddFingerprintWrap a mk, Some (ViaFingerprint, [], sc_password sc)))
      | AddFido cred rp st \<Rightarrow>
          and_then (wrap_key t (sm_master sm) (sc_password sc)) (\<lambda>mk.
            Inr (AddFidoWrap a mk (sc_hmac sc) cred rp (case st of None \<Rightarrow> sc_salt sc | Some s \<Rightarrow> s),
                 Some (ViaFido cred, sc_hmac sc, sc_password sc)))
      | Remove w \<Rightarrow> Inr (RemoveWrap w, None)
      | MarkStale \<Rightarrow> Inr (Stale, None)
      | Rotate w \<Rightarrow>
          and_then (auth_key t sm sc w) (\<lambda>ak. and_then (envelopeNewKey t (sc_new sc)) (\<lambda>nk.
            Inr (RotateTo a w ak (sc_new sc) nk (new_salt t), Some (ViaMaster, nk, sc_new sc)))))"

definition unlockEnvelopeUpdateCommand :: "tools \<Rightarrow> jsval \<Rightarrow> acct \<Rightarrow> update \<Rightarrow> secrets \<Rightarrow> keyring \<Rightarrow> nat \<times> keyring" where
  "unlockEnvelopeUpdateCommand t tool a op sc kr =
     (if \<not> envelopeArgsOk tool a \<or> \<not> update_ok op then (2, kr)
      else
        (case and_then (load t (envelope_entry a) kr) (\<lambda>(e, sm).
                and_then (prepare t a sc sm op) (\<lambda>(req, chk).
                  and_then (sealed_change t req e) (\<lambda>new. Inr (chk, new)))) of
           Inl rc \<Rightarrow> (rc, kr)
         | Inr (chk, new) \<Rightarrow> commit t a kr chk new))"

definition unlockEnvelopeCheckCommand :: "tools \<Rightarrow> jsval \<Rightarrow> acct \<Rightarrow> secrets \<Rightarrow> keyring \<Rightarrow> nat" where
  \<comment> \<open>only the exit status\<close>
  "unlockEnvelopeCheckCommand t tool a sc kr = (case unlockEnvelopeOpenCommand t tool a ViaMaster sc kr of Inl rc \<Rightarrow> rc | Inr pw \<Rightarrow> 0)"

section \<open>Moving a legacy entry into the envelope\<close>

definition legacy_password :: "tools \<Rightarrow> jsstr \<Rightarrow> keyring \<Rightarrow> jsstr" where
  \<comment> \<open>\<open>keyringReadScript\<close>, captured\<close>
  "legacy_password t entry kr =
     (if lookup_fails t entry then [] else (case kr entry of None \<Rightarrow> [] | Some v \<Rightarrow> shell_value (take MAX_TOKEN_BYTES v)))"

definition legacyMigrationCommand :: "tools \<Rightarrow> jsstr \<Rightarrow> jsval \<Rightarrow> acct \<Rightarrow> jsstr \<Rightarrow> update \<Rightarrow> bool \<Rightarrow> secrets \<Rightarrow> keyring \<Rightarrow> nat \<times> keyring" where
  \<comment> \<open>\<open>salt2\<close> is the salt that the second script draws\<close>
  "legacyMigrationCommand t salt2 tool a legacy op fromKeyring sc0 kr =
     (if \<not> envelopeArgsOk tool a then (2, kr)
      else
        (let entry = keyringEntryName legacy (ac_slot a);
             pw = (if fromKeyring then legacy_password t entry kr else sc_password sc0);
             sc = sc0\<lparr>sc_password := pw\<rparr> in
         if pw = [] then (20, kr)
         else
           (let rc = (case unlockEnvelopeOpenCommand t tool a ViaMaster sc kr of Inl rc \<Rightarrow> rc | Inr p \<Rightarrow> 0);
                (rc1, kr1) = (if rc = 0 then (0, kr)
                              else if rc = 10 \<or> rc = 6 \<or> rc = 11 then unlockEnvelopeCreateCommand t tool a sc kr
                              else if rc = 3 then (21, kr) else (rc, kr))
            in if rc1 \<noteq> 0 then (rc1, kr1)
               else (case unlockEnvelopeUpdateCommand (t\<lparr>new_salt := salt2\<rparr>) tool a op sc kr1 of
                       (rc2, kr2) \<Rightarrow> if rc2 \<noteq> 0 then (rc2, kr2) else (0, if clears t entry then kr2(entry := None) else kr2)))))"

definition legacyFingerprintMigrationCommand :: "tools \<Rightarrow> jsstr \<Rightarrow> jsval \<Rightarrow> acct \<Rightarrow> secrets \<Rightarrow> keyring \<Rightarrow> nat \<times> keyring" where
  "legacyFingerprintMigrationCommand t salt2 tool a sc kr = legacyMigrationCommand t salt2 tool a KEYRING_MASTER AddFingerprint True sc kr"

definition legacyPinMigrationCommand :: "tools \<Rightarrow> jsstr \<Rightarrow> jsval \<Rightarrow> acct \<Rightarrow> secrets \<Rightarrow> keyring \<Rightarrow> nat \<times> keyring" where
  "legacyPinMigrationCommand t salt2 tool a sc kr = legacyMigrationCommand t salt2 tool a KEYRING_PIN AddPin False sc kr"

section \<open>Removing a method everywhere\<close>

definition MAX_PURGE_ROUNDS :: nat where "MAX_PURGE_ROUNDS = 17"

datatype unlock_method = MPin | MFingerprint | MFido

definition LEGACY_ENTRY_FOR_METHOD :: "unlock_method \<Rightarrow> jsstr" where
  "LEGACY_ENTRY_FOR_METHOD m = (case m of MPin \<Rightarrow> KEYRING_PIN | MFingerprint \<Rightarrow> KEYRING_MASTER | MFido \<Rightarrow> KEYRING_FIDO)"

definition method_present :: "unlock_method \<Rightarrow> summary \<Rightarrow> bool" where
  "method_present m sm = (case m of MPin \<Rightarrow> sm_pin sm \<noteq> None | MFingerprint \<Rightarrow> sm_fingerprint sm | MFido \<Rightarrow> sm_fido sm \<noteq> [])"

definition purge_target :: "unlock_method \<Rightarrow> summary \<Rightarrow> (nat, via) sum" where
  \<comment> \<open>for FIDO2 the first credential, which must look like one\<close>
  "purge_target m sm =
     (case m of
        MPin \<Rightarrow> Inr ViaPin
      | MFingerprint \<Rightarrow> Inr ViaFingerprint
      | MFido \<Rightarrow> (case sm_fido sm of
                    [] \<Rightarrow> Inl 4
                  | c # cs \<Rightarrow> if c \<noteq> [] \<and> (\<forall>u\<in>set c. is_alpha u \<or> is_digit u \<or> u = 43 \<or> u = 47 \<or> u = 61) then Inr (ViaFido c) else Inl 4))"

fun purge_rounds :: "tools \<Rightarrow> jsval \<Rightarrow> unlock_method \<Rightarrow> nat \<Rightarrow> keyring \<Rightarrow> nat \<times> keyring" where
  \<comment> \<open>the loop of \<open>envelopeMethodPurgeScript\<close>, with the rounds left\<close>
  "purge_rounds t sl m 0 kr = (8, kr)"
| "purge_rounds t sl m (Suc n) kr =
     (let entry = keyringEntryName KEYRING_ENVELOPE sl in
      if lookup_fails t entry then (1, kr)
      else if kr entry = None then (0, kr)
      else if lookup t entry kr = [] then (1, kr)
      else
        (case load t entry kr of
           Inl rc \<Rightarrow> (rc, kr)
         | Inr (e, sm) \<Rightarrow>
             if \<not> method_present m sm then (0, kr)
             else
               (case and_then (purge_target m sm) (\<lambda>w. sealed_change t (RemoveWrap w) e) of
                  Inl rc \<Rightarrow> (rc, kr)
                | Inr new \<Rightarrow>
                    (case commit t \<lparr>ac_id = shell_value (sm_id sm), ac_server = shell_value (sm_server sm), ac_slot = sl\<rparr> kr None new of
                       (rc, kr') \<Rightarrow> if rc \<noteq> 0 then (rc, kr') else purge_rounds t sl m n kr'))))"

definition envelopeMethodPurgeScript :: "tools \<Rightarrow> jsval \<Rightarrow> unlock_method \<Rightarrow> keyring \<Rightarrow> nat \<times> keyring" where
  "envelopeMethodPurgeScript t sl m kr = purge_rounds t sl m MAX_PURGE_ROUNDS kr"

definition clear_accepted :: "nat \<times> jsstr \<Rightarrow> bool" where
  \<comment> \<open>\<^verbatim>\<open>__clear_rc\<close> and \<^verbatim>\<open>__clear_error\<close>: status 1 without a message counts as nothing to clear\<close>
  "clear_accepted says \<longleftrightarrow> \<not> (fst says \<noteq> 0 \<and> (fst says \<noteq> 1 \<or> snd says \<noteq> []))"

fun purge_slots :: "tools \<Rightarrow> unlock_method \<Rightarrow> jsstr list \<Rightarrow> keyring \<Rightarrow> nat \<times> keyring" where
  \<comment> \<open>the part of \<open>quickUnlockPurgeCommand\<close>'s script for each slot, in its own shell\<close>
  "purge_slots t m [] kr = (0, kr)"
| "purge_slots t m (sl # sls) kr =
     (let (rc, kr1) = envelopeMethodPurgeScript t (JStr sl) m kr;
          entry = keyringEntryName (LEGACY_ENTRY_FOR_METHOD m) (JStr sl);
          kr2 = (if clears t entry then kr1(entry := None) else kr1);
          (rcs, kr3) = purge_slots t m sls kr2
      in (if rc \<noteq> 0 \<or> \<not> clear_accepted (clear_says t entry) \<or> rcs \<noteq> 0 then 1 else 0, kr3))"

fun first_seen :: "jsstr list \<Rightarrow> jsval list \<Rightarrow> jsstr list" where
  \<comment> \<open>the slots of the list, each once\<close>
  "first_seen seen [] = []"
| "first_seen seen (v # vs) =
     (case v of
        JStr s \<Rightarrow> if \<not> isAccountSlot v \<or> s \<in> set seen then first_seen seen vs else s # first_seen (s # seen) vs
      | _ \<Rightarrow> first_seen seen vs)"

definition quickUnlockPurgeCommand :: "tools \<Rightarrow> jsval \<Rightarrow> jsval list \<Rightarrow> unlock_method \<Rightarrow> keyring \<Rightarrow> nat \<times> keyring" where
  "quickUnlockPurgeCommand t tool sls m kr =
     (if \<not> (case tool of JStr (c # cs) \<Rightarrow> c = 47 | _ \<Rightarrow> False) then (2, kr) else purge_slots t m (first_seen [] sls) kr)"

section \<open>Inversion of a step\<close>

named_theorems exits

lemma and_then_Inr [exits]: "and_then m f = Inr y \<longleftrightarrow> (\<exists>x. m = Inr x \<and> f x = Inr y)"
  by (cases m) (simp_all add: and_then_def)

lemma and_then_Inl [exits]: "and_then m f = Inl rc \<longleftrightarrow> m = Inl rc \<or> (\<exists>x. m = Inr x \<and> f x = Inl rc)"
  by (cases m) (simp_all add: and_then_def)

lemma orExit_Inr [exits]: "orExit rc m = Inr x \<longleftrightarrow> m = Some x"
  by (cases m) (simp_all add: orExit_def)

lemma orExit_Inl [exits]: "orExit rc m = Inl n \<longleftrightarrow> m = None \<and> n = rc"
  by (cases m) (auto simp: orExit_def)

lemma failing_Inr [exits]: "failing m = Inr x \<longleftrightarrow> m = Inr x"
  by (cases m) (simp_all add: failing_def)

lemma failing_Inl: "failing m = Inl rc \<Longrightarrow> rc \<noteq> 0"
  by (cases m) (auto simp: failing_def)

lemma joined_units: "10 \<notin> set (joined s) \<and> 13 \<notin> set (joined s)"
  by (simp add: joined_def)

definition one_line :: "jsstr \<Rightarrow> bool" where
  "one_line s \<longleftrightarrow> 10 \<notin> set s \<and> 13 \<notin> set s"

lemma seal_step_one_line: "seal_step t e = Inr new \<Longrightarrow> one_line new"
  by (auto simp: seal_step_def one_line_def joined_units split: option.splits)

definition from_seal :: "tools \<Rightarrow> jsstr \<Rightarrow> bool" where
  "from_seal t new \<longleftrightarrow> (\<exists>e s. seal t e = Some s \<and> new = joined s)"

lemma seal_step_from_seal: "seal_step t e = Inr new \<Longrightarrow> from_seal t new"
  by (auto simp: seal_step_def from_seal_def split: option.splits)

lemma sealed_change_Inr:
  "sealed_change t req e = Inr new \<Longrightarrow> one_line new \<and> from_seal t new \<and> (\<exists>e'. change t req e = Inr e' \<and> seal_step t e' = Inr new)"
  by (auto simp: sealed_change_def exits seal_step_one_line seal_step_from_seal split: sum.splits)

lemma sealed_change_Inl: "sealed_change t req e = Inl rc \<Longrightarrow> rc \<noteq> 0"
  by (auto simp: sealed_change_def seal_step_def and_then_def split: sum.splits option.splits)

lemma load_Inl: "load t entry kr = Inl rc \<Longrightarrow> rc = 10 \<or> rc = 11"
  by (auto simp: load_def Let_def exits split: if_splits)

lemma wrap_key_Inl: "wrap_key t ps s = Inl rc \<Longrightarrow> rc = 7 \<or> rc = 12"
  by (auto simp: wrap_key_def exits)

lemma new_key_Inl: "envelopeNewKey t s = Inl rc \<Longrightarrow> rc = 12"
  by (auto simp: envelopeNewKey_def exits)

lemma auth_key_Inl: "auth_key t sm sc w = Inl rc \<Longrightarrow> rc \<noteq> 0"
  by (auto simp: auth_key_def dest: wrap_key_Inl split: via.splits)

lemma prepare_Inl: "prepare t a sc sm op = Inl rc \<Longrightarrow> rc \<noteq> 0"
  by (auto simp: prepare_def exits dest: wrap_key_Inl new_key_Inl auth_key_Inl split: update.splits)

section \<open>Nothing is stored that does not open\<close>

definition opens_with :: "tools \<Rightarrow> acct \<Rightarrow> via \<Rightarrow> jsstr \<Rightarrow> jsstr \<Rightarrow> jsstr \<Rightarrow> bool" where
  \<comment> \<open>this sealed envelope yields exactly this password, to this key\<close>
  "opens_with t a w key pw new \<longleftrightarrow> (\<exists>e. unseal t new = Some e \<and> open_env t e a w key = Inr pw)"

lemma verified_opens:
  assumes "verify_account t a new" and "verify_opens t a w key pw new" and "pw \<noteq> []"
  shows "opens_with t a w key pw new"
  using assms by (auto simp: verify_account_def verify_opens_def opens_with_def split: option.splits sum.splits)

lemma commit_cases:
  assumes "commit t a kr chk new = (rc, kr')"
  shows "(rc \<noteq> 0 \<and> kr' = kr)
    \<or> (rc = 0 \<and> kr' = kr(envelope_entry a \<mapsto> new) \<and> verify_account t a new
       \<and> (\<forall>w key pw. chk = Some (w, key, pw) \<longrightarrow> pw \<noteq> [] \<longrightarrow> opens_with t a w key pw new))"
  using assms by (auto simp: commit_def verified_opens split: if_splits option.splits)

definition way_in :: "update \<Rightarrow> secrets \<Rightarrow> (via \<times> jsstr) option" where
  \<comment> \<open>the way that a change adds or replaces, and the password it must lead to\<close>
  "way_in op sc =
     (case op of AddPin \<Rightarrow> Some (ViaPin, sc_password sc) | AddFingerprint \<Rightarrow> Some (ViaFingerprint, sc_password sc)
      | AddFido cred rp st \<Rightarrow> Some (ViaFido cred, sc_password sc) | Rotate w \<Rightarrow> Some (ViaMaster, sc_new sc) | _ \<Rightarrow> None)"

definition new_key :: "tools \<Rightarrow> update \<Rightarrow> secrets \<Rightarrow> jsstr option" where
  \<comment> \<open>the key of that way, derived with the current parameters\<close>
  "new_key t op sc =
     (case op of AddPin \<Rightarrow> kdf t (sc_pin sc) (new_salt t, ENVELOPE_ARGON2) | AddFingerprint \<Rightarrow> Some []
      | AddFido cred rp st \<Rightarrow> Some (sc_hmac sc) | Rotate w \<Rightarrow> kdf t (sc_new sc) (new_salt t, ENVELOPE_ARGON2) | _ \<Rightarrow> None)"

lemma prepare_check:
  assumes "prepare t a sc sm op = Inr (req, chk)" and "way_in op sc = Some (w, pw)"
  shows "\<exists>key. new_key t op sc = Some key \<and> chk = Some (w, key, pw)"
  using assms by (auto simp: prepare_def way_in_def new_key_def envelopeNewKey_def exits split: update.splits)

definition good_envelope :: "tools \<Rightarrow> acct \<Rightarrow> (via \<times> jsstr) option \<Rightarrow> jsstr option \<Rightarrow> jsstr \<Rightarrow> bool" where
  \<comment> \<open>on one line, for this account, and the way just written leads to the password\<close>
  "good_envelope t a way key new \<longleftrightarrow>
     one_line new \<and> from_seal t new \<and> verify_account t a new
     \<and> (\<forall>w pw. way = Some (w, pw) \<longrightarrow> pw \<noteq> [] \<longrightarrow> (\<exists>k. key = Some k \<and> opens_with t a w k pw new))"

lemma create_cases:
  assumes "unlockEnvelopeCreateCommand t tool a sc kr = (rc, kr')"
  shows "(rc \<noteq> 0 \<and> kr' = kr)
    \<or> (rc = 0 \<and> (\<exists>new. kr' = kr(envelope_entry a \<mapsto> new)
         \<and> good_envelope t a (Some (ViaMaster, sc_password sc)) (kdf t (sc_password sc) (new_salt t, ENVELOPE_ARGON2)) new))"
proof (cases "envelopeArgsOk tool a")
  case False
  with assms show ?thesis by (auto simp: unlockEnvelopeCreateCommand_def)
next
  case ok: True
  let ?r = "and_then (envelopeNewKey t (sc_password sc)) (\<lambda>k.
    and_then (sealed_change t (Create a (sc_password sc) k (new_salt t)) []) (\<lambda>new. Inr (k, new)))"
  show ?thesis
  proof (cases ?r)
    case (Inl n)
    then have "n \<noteq> 0" by (auto simp: exits dest!: new_key_Inl sealed_change_Inl)
    with ok assms Inl show ?thesis by (auto simp: unlockEnvelopeCreateCommand_def)
  next
    case (Inr r)
    then obtain k new where steps: "kdf t (sc_password sc) (new_salt t, ENVELOPE_ARGON2) = Some k"
        "sealed_change t (Create a (sc_password sc) k (new_salt t)) [] = Inr new" "r = (k, new)"
      by (auto simp: exits envelopeNewKey_def)
    with ok assms Inr have "commit t a kr (Some (ViaMaster, k, sc_password sc)) new = (rc, kr')"
      by (simp add: unlockEnvelopeCreateCommand_def)
    from commit_cases [OF this] sealed_change_Inr [OF steps(2)] steps(1)
    show ?thesis by (auto simp: good_envelope_def)
  qed
qed

lemma update_cases:
  assumes "unlockEnvelopeUpdateCommand t tool a op sc kr = (rc, kr')"
  shows "(rc \<noteq> 0 \<and> kr' = kr)
    \<or> (rc = 0 \<and> (\<exists>new. kr' = kr(envelope_entry a \<mapsto> new) \<and> good_envelope t a (way_in op sc) (new_key t op sc) new))"
proof (cases "\<not> envelopeArgsOk tool a \<or> \<not> update_ok op")
  case True
  with assms show ?thesis by (auto simp: unlockEnvelopeUpdateCommand_def)
next
  case ok: False
  let ?r = "and_then (load t (envelope_entry a) kr) (\<lambda>(e, sm). and_then (prepare t a sc sm op) (\<lambda>(req, chk).
    and_then (sealed_change t req e) (\<lambda>new. Inr (chk, new))))"
  show ?thesis
  proof (cases ?r)
    case (Inl n)
    then have "n \<noteq> 0" by (auto simp: exits dest!: load_Inl prepare_Inl sealed_change_Inl)
    with ok assms Inl show ?thesis by (auto simp: unlockEnvelopeUpdateCommand_def)
  next
    case (Inr r)
    then obtain e sm req chk new where steps: "prepare t a sc sm op = Inr (req, chk)" "sealed_change t req e = Inr new" "r = (chk, new)"
      by (auto simp: exits)
    with ok assms Inr have "commit t a kr chk new = (rc, kr')" by (simp add: unlockEnvelopeUpdateCommand_def)
    from commit_cases [OF this] sealed_change_Inr [OF steps(2)] prepare_check [OF steps(1)]
    show ?thesis unfolding good_envelope_def by blast
  qed
qed

text \<open>
  The contract of a script that writes the envelope, and what follows from it for every other
  entry of the keyring.
\<close>

locale envelope_writer =
  fixes run :: "keyring \<Rightarrow> nat \<times> keyring" and entry :: jsstr and good :: "jsstr \<Rightarrow> bool"
  assumes failed: "run kr = (rc, kr') \<Longrightarrow> rc \<noteq> 0 \<Longrightarrow> kr' = kr"
    and stored: "run kr = (0, kr') \<Longrightarrow> \<exists>new. kr' = kr(entry \<mapsto> new) \<and> good new"
begin

lemma others_kept: "run kr = (rc, kr') \<Longrightarrow> e \<noteq> entry \<Longrightarrow> kr' e = kr e"
  using failed [of kr rc kr'] stored [of kr kr'] by (cases "rc = 0") auto

lemma stored_good: "run kr = (0, kr') \<Longrightarrow> \<exists>new. kr' entry = Some new \<and> good new"
  using stored by fastforce

lemma nothing_lost: "run kr = (rc, kr') \<Longrightarrow> dom kr \<subseteq> dom kr'"
  using failed [of kr rc kr'] stored [of kr kr'] by (cases "rc = 0") auto

end

interpretation create: envelope_writer "unlockEnvelopeCreateCommand t tool a sc" "envelope_entry a"
    "good_envelope t a (Some (ViaMaster, sc_password sc)) (kdf t (sc_password sc) (new_salt t, ENVELOPE_ARGON2))"
  for t tool a sc
  by unfold_locales (use create_cases in blast)+

interpretation update: envelope_writer "unlockEnvelopeUpdateCommand t tool a op sc" "envelope_entry a"
    "good_envelope t a (way_in op sc) (new_key t op sc)"
  for t tool a op sc
  by unfold_locales (use update_cases in blast)+

text \<open>C3: changing the quick-unlock envelope is all or nothing: a change that exits with an error leaves
  the keyring as it was; one that succeeds stores an envelope on a single line, for this account,
  and the way that was just added or rotated opens it with exactly the password.\<close>
theorem envelope_update_safe:
  assumes "unlockEnvelopeUpdateCommand t tool a op sc kr = (rc, kr')"
  shows "(rc \<noteq> 0 \<longrightarrow> kr' = kr)
    \<and> (rc = 0 \<longrightarrow> (\<exists>new. kr' = kr(envelope_entry a \<mapsto> new) \<and> one_line new \<and> verify_account t a new
         \<and> (\<forall>w pw. way_in op sc = Some (w, pw) \<and> pw \<noteq> [] \<longrightarrow> (\<exists>key. new_key t op sc = Some key \<and> opens_with t a w key pw new))))"
  using update.failed [OF assms] update.stored [of t tool a op sc kr kr'] assms unfolding good_envelope_def by blast

text \<open>Stand-ins for the programs, for concrete runs: an envelope is a mark for the ways in and the password.\<close>

definition plain_tools :: tools where
  "plain_tools =
     \<lparr>unseal = (\<lambda>s. case s of c # e \<Rightarrow> if c = 115 then Some e else None | [] \<Rightarrow> None),
      seal = (\<lambda>e. if one_line e \<and> length e < 100 then Some (115 # e) else None),
      inspect = (\<lambda>e. case e of
         m # pw \<Rightarrow> Some \<lparr>sm_id = [105], sm_server = [], sm_master = Some ([], ENVELOPE_ARGON2),
           sm_pin = (if m = 1 then Some ([], ENVELOPE_ARGON2) else None), sm_fingerprint = (m = 2),
           sm_fido = (if m = 3 then [[65]] else [])\<rparr>
       | [] \<Rightarrow> None),
      kdf = (\<lambda>s ps. Some s),
      open_env = (\<lambda>e a w k. case e of
         m # pw \<Rightarrow>
           (case w of
              ViaMaster \<Rightarrow> if k = pw then Inr pw else Inl 3
            | ViaPin \<Rightarrow> if m = 1 then Inr pw else Inl 7
            | ViaFingerprint \<Rightarrow> if m = 2 then Inr pw else Inl 7
            | ViaFido c \<Rightarrow> if m = 3 then Inr pw else Inl 7)
       | [] \<Rightarrow> Inl 4),
      change = (\<lambda>req e.
         (case req of
            Create a pw k s \<Rightarrow> if s = [] then Inr (0 # pw) else Inl 5
          | AddPinWrap a mk k s \<Rightarrow> Inr (1 # tl e)
          | AddFingerprintWrap a mk \<Rightarrow> Inr (2 # tl e)
          | AddFidoWrap a mk h c rp s \<Rightarrow> Inr (3 # tl e)
          | RemoveWrap w \<Rightarrow> Inr (0 # tl e)
          | Stale \<Rightarrow> Inr e
          | RotateTo a w ak pw k s \<Rightarrow> Inr (0 # pw))),
      new_salt = [], stores = (\<lambda>_. True), lookup_fails = (\<lambda>_. False), clears = (\<lambda>_. True), clear_says = (\<lambda>_. (0, []))\<rparr>"

definition plain_acct :: acct where "plain_acct = \<lparr>ac_id = [105], ac_server = [], ac_slot = JUndef\<rparr>"

definition plain_secrets :: secrets where
  "plain_secrets = \<lparr>sc_password = [112], sc_pin = [49], sc_new = [113], sc_hmac = [104], sc_salt = [65]\<rparr>"

lemmas envelope_defs =
  unlockEnvelopeOpenCommand_def unlockEnvelopeUpdateCommand_def unlockEnvelopeCreateCommand_def envelopeArgsOk_def update_ok_def
  via_ok_def load_def lookup_def prepare_def wrap_key_def auth_key_def envelopeNewKey_def sealed_change_def seal_step_def joined_def
  commit_def verify_account_def verify_opens_def and_then_def orExit_def failing_def one_line_def plain_tools_def plain_acct_def plain_secrets_def
  envelope_entry_def keyringEntryName_def accountSlot_def isAccountSlot_def shell_value_def MAX_ENVELOPE_SEALED_BYTES_def MAX_TOKEN_BYTES_def is_control_def

lemma plain_add_pin:
  "unlockEnvelopeUpdateCommand plain_tools (JStr [47]) plain_acct AddPin plain_secrets [KEYRING_ENVELOPE \<mapsto> [115, 0, 112]]
     = (0, [KEYRING_ENVELOPE \<mapsto> [115, 1, 112]])"
  by (simp add: envelope_defs)

theorem envelope_update_safe_witness:
  "\<exists>new. one_line new \<and> opens_with plain_tools plain_acct ViaPin [49] [112] new \<and> new = [115, 1, 112]"
proof -
  have "[KEYRING_ENVELOPE \<mapsto> [115, 1, 112]] = [KEYRING_ENVELOPE \<mapsto> [115, 0, 112], envelope_entry plain_acct \<mapsto> new]
        \<Longrightarrow> new = [115, 1, 112]" for new :: jsstr
    by (auto simp: envelope_defs dest: fun_cong [of _ _ KEYRING_ENVELOPE])
  then show ?thesis
    using envelope_update_safe [OF plain_add_pin]
    by (fastforce simp: way_in_def new_key_def plain_secrets_def plain_tools_def)
qed

section \<open>A legacy password is never lost\<close>

lemma legacy_not_envelope:
  assumes "base \<in> {KEYRING_MASTER, KEYRING_FIDO, KEYRING_PIN}"
  shows "keyringEntryName base sl \<noteq> keyringEntryName KEYRING_ENVELOPE sl'"
proof
  assume eq: "keyringEntryName base sl = keyringEntryName KEYRING_ENVELOPE sl'"
  have "64 \<notin> set base" "64 \<notin> set KEYRING_ENVELOPE" "base \<noteq> KEYRING_ENVELOPE"
    using assms by (auto simp: KEYRING_MASTER_def KEYRING_FIDO_def KEYRING_PIN_def KEYRING_ENVELOPE_def js_def)
  with entry_names_differ [OF eq] show False by simp
qed

lemma migration_steps:
  assumes "legacyMigrationCommand t salt2 tool a legacy op fromKeyring sc0 kr = (rc, kr')"
  defines "entry \<equiv> keyringEntryName legacy (ac_slot a)"
  defines "pw \<equiv> (if fromKeyring then legacy_password t entry kr else sc_password sc0)"
  defines "sc \<equiv> sc0\<lparr>sc_password := pw\<rparr>"
  obtains (unchanged) "rc \<noteq> 0" "kr' = kr"
  | (created) "rc \<noteq> 0" "unlockEnvelopeCreateCommand t tool a sc kr = (0, kr')"
  | (moved) kr1 kr2 where "rc = 0" "pw \<noteq> []" "kr1 = kr \<or> unlockEnvelopeCreateCommand t tool a sc kr = (0, kr1)"
      "unlockEnvelopeUpdateCommand (t\<lparr>new_salt := salt2\<rparr>) tool a op sc kr1 = (0, kr2)"
      "kr' = (if clears t entry then kr2(entry := None) else kr2)"
proof -
  let ?rc = "case unlockEnvelopeOpenCommand t tool a ViaMaster sc kr of Inl rc \<Rightarrow> rc | Inr p \<Rightarrow> 0"
  define first where "first = (if ?rc = 0 then (0, kr) else if ?rc = 10 \<or> ?rc = 6 \<or> ?rc = 11 then unlockEnvelopeCreateCommand t tool a sc kr
    else if ?rc = 3 then (21, kr) else (?rc, kr))"
  obtain rc1 kr1 where f: "first = (rc1, kr1)" by (cases first)
  obtain rc2 kr2 where u: "unlockEnvelopeUpdateCommand (t\<lparr>new_salt := salt2\<rparr>) tool a op sc kr1 = (rc2, kr2)" by force
  have fc: "(kr1 = kr) \<or> (rc1 = 0 \<and> unlockEnvelopeCreateCommand t tool a sc kr = (0, kr1))"
    using f create_cases [of t tool a sc kr rc1 kr1] unfolding first_def by (auto split: if_splits)
  have run: "(if \<not> envelopeArgsOk tool a then (2, kr) else if pw = [] then (20, kr) else if rc1 \<noteq> 0 then (rc1, kr1)
      else if rc2 \<noteq> 0 then (rc2, kr2) else (0, if clears t entry then kr2(entry := None) else kr2)) = (rc, kr')"
    using assms(1) f u
    unfolding legacyMigrationCommand_def entry_def [symmetric] pw_def [symmetric] sc_def [symmetric] Let_def first_def [symmetric]
    by (simp split: if_splits)
  consider "\<not> envelopeArgsOk tool a \<or> pw = []" | "pw \<noteq> []" "envelopeArgsOk tool a" "rc1 \<noteq> 0"
    | "pw \<noteq> []" "envelopeArgsOk tool a" "rc1 = 0" "rc2 \<noteq> 0" | "pw \<noteq> []" "envelopeArgsOk tool a" "rc1 = 0" "rc2 = 0" by blast
  then show thesis
  proof cases
    case 3
    with fc run update.failed [OF u 3(4)] show ?thesis using unchanged created by auto
  next
    case 4
    with fc run u show ?thesis using moved by auto
  qed (use run fc unchanged in \<open>auto split: if_splits\<close>)
qed

lemma salt_irrelevant [simp]:
  "verify_account (t\<lparr>new_salt := s\<rparr>) a new = verify_account t a new"
  "opens_with (t\<lparr>new_salt := s\<rparr>) a w key pw new = opens_with t a w key pw new"
  by (simp_all add: verify_account_def opens_with_def cong: option.case_cong)

text \<open>C4: moving a legacy password into the envelope never loses it: unless the whole move succeeds, the
  legacy entry stays; when it does, the envelope in the keyring opens through the way just added
  with exactly that password; and no other entry changes.\<close>
theorem migration_keeps_password:
  assumes "legacyMigrationCommand t salt2 tool a legacy op fromKeyring sc kr = (rc, kr')"
    and "legacy \<in> {KEYRING_MASTER, KEYRING_FIDO, KEYRING_PIN}"
    and "op = AddPin \<or> op = AddFingerprint \<or> (\<exists>cred rp st. op = AddFido cred rp st)"
  defines "entry \<equiv> keyringEntryName legacy (ac_slot a)"
  defines "pw \<equiv> (if fromKeyring then legacy_password t entry kr else sc_password sc)"
  shows "(rc \<noteq> 0 \<longrightarrow> kr' entry = kr entry)
    \<and> (rc = 0 \<longrightarrow> (\<exists>new w key. kr' (envelope_entry a) = Some new \<and> pw \<noteq> [] \<and> way_in op (sc\<lparr>sc_password := pw\<rparr>) = Some (w, pw)
         \<and> verify_account t a new \<and> new_key (t\<lparr>new_salt := salt2\<rparr>) op (sc\<lparr>sc_password := pw\<rparr>) = Some key
         \<and> opens_with t a w key pw new))
    \<and> (\<forall>e. e \<noteq> entry \<longrightarrow> e \<noteq> envelope_entry a \<longrightarrow> kr' e = kr e)"
proof -
  let ?sc = "sc\<lparr>sc_password := pw\<rparr>" and ?t = "t\<lparr>new_salt := salt2\<rparr>"
  have ne: "entry \<noteq> envelope_entry a" using legacy_not_envelope [OF assms(2)] by (simp add: entry_def envelope_entry_def)
  obtain w where w: "way_in op ?sc = Some (w, pw)" using assms(3) by (auto simp: way_in_def)
  from assms(1) show ?thesis
  proof (cases rule: migration_steps)
    case created
    note created(2) [folded entry_def, folded pw_def]
    from created(1) create.others_kept [OF this] ne show ?thesis by auto
  next
    case (moved kr1 kr2)
    note m = moved [folded entry_def, folded pw_def]
    have k1: "kr1 e = kr e" if "e \<noteq> envelope_entry a" for e using m(3) create.others_kept that by blast
    have k2: "kr2 e = kr1 e" if "e \<noteq> envelope_entry a" for e using update.others_kept [OF m(4)] that by blast
    from update.stored_good [OF m(4)] w m(2) obtain new key where "kr2 (envelope_entry a) = Some new" "verify_account t a new"
        "new_key ?t op ?sc = Some key" "opens_with t a w key pw new"
      by (auto simp: good_envelope_def)
    with m(1,2,5) w ne k1 k2 show ?thesis by auto
  qed auto
qed

theorem migration_keeps_password_witness:
  "\<exists>new. (legacyMigrationCommand plain_tools [] (JStr [47]) plain_acct KEYRING_MASTER AddFingerprint True plain_secrets [KEYRING_MASTER \<mapsto> [120]])
       = (0, [KEYRING_ENVELOPE \<mapsto> new]) \<and> opens_with plain_tools plain_acct ViaFingerprint [] [120] new"
proof -
  have ne: "KEYRING_MASTER \<noteq> KEYRING_ENVELOPE" by (simp add: KEYRING_MASTER_def KEYRING_ENVELOPE_def js_def)
  have run: "legacyMigrationCommand plain_tools [] (JStr [47]) plain_acct KEYRING_MASTER AddFingerprint True plain_secrets [KEYRING_MASTER \<mapsto> [120]]
      = (0, [KEYRING_ENVELOPE \<mapsto> [115, 2, 120]])"
    using ne by (simp add: legacyMigrationCommand_def legacy_password_def envelope_defs fun_upd_twist)
  have pw: "legacy_password plain_tools (keyringEntryName KEYRING_MASTER (ac_slot plain_acct)) [KEYRING_MASTER \<mapsto> [120]] = [120]"
    by (simp add: legacy_password_def envelope_defs)
  have entry: "envelope_entry plain_acct = KEYRING_ENVELOPE" by (simp add: envelope_defs)
  from migration_keeps_password [OF run] have "opens_with plain_tools plain_acct ViaFingerprint [] [120] [115, 2, 120]"
    by (auto simp: pw entry way_in_def new_key_def)
  with run show ?thesis by blast
qed

section \<open>An envelope that was created opens\<close>

definition seals_soundly :: "tools \<Rightarrow> bool" where
  \<comment> \<open>\<^verbatim>\<open>systemd-creds\<close>: what was sealed is unsealed, with or without the line breaks, and an envelope fits\<close>
  "seals_soundly t \<longleftrightarrow>
     (\<forall>e s. seal t e = Some s \<longrightarrow> unseal t (joined s) = Some e \<and> joined s \<noteq> [] \<and> length (joined s) \<le> MAX_ENVELOPE_SEALED_BYTES)"

definition records_params :: "tools \<Rightarrow> bool" where
  \<comment> \<open>the unlock tool: the summary shows the parameters the envelope was created with\<close>
  "records_params t \<longleftrightarrow>
     (\<forall>a pw k s e sm. change t (Create a pw k s) [] = Inr e \<longrightarrow> inspect t e = Some sm \<longrightarrow> sm_master sm = Some (s, ENVELOPE_ARGON2))"

lemma lookup_stored:
  assumes "one_line new" and "length new \<le> MAX_ENVELOPE_SEALED_BYTES" and "\<not> lookup_fails t entry" and "kr entry = Some new"
  shows "lookup t entry kr = new"
  using assms by (simp add: lookup_def one_line_def shell_value_id)

lemma load_stored:
  assumes "good_envelope t a way key new" and "length new \<le> MAX_ENVELOPE_SEALED_BYTES" and "new \<noteq> []" and "\<not> lookup_fails t entry"
    and "kr entry = Some new"
  obtains e sm where "unseal t new = Some e" "inspect t e = Some sm" "load t entry kr = Inr (e, sm)"
  using assms lookup_stored [of new t entry kr]
  by (auto simp: good_envelope_def verify_account_def load_def and_then_def orExit_def split: option.splits)

text \<open>C11: once an envelope was created from a password, the same password opens it again and gives back
  that password (up to the 4096 bytes an unlock reads), whatever else the keyring holds.\<close>
theorem created_envelope_opens:
  assumes "unlockEnvelopeCreateCommand t tool a sc kr = (0, kr')" and "sc_password sc \<noteq> []"
    and "seals_soundly t" and "records_params t" and "\<not> lookup_fails t (envelope_entry a)"
  shows "unlockEnvelopeOpenCommand t tool a ViaMaster sc kr' = Inr (take MAX_TOKEN_BYTES (sc_password sc))"
proof -
  let ?k = "kdf t (sc_password sc) (new_salt t, ENVELOPE_ARGON2)"
  have ok: "envelopeArgsOk tool a" using assms(1) by (auto simp: unlockEnvelopeCreateCommand_def split: if_splits)
  with assms(1) obtain k new where steps: "?k = Some k" "sealed_change t (Create a (sc_password sc) k (new_salt t)) [] = Inr new"
      "commit t a kr (Some (ViaMaster, k, sc_password sc)) new = (0, kr')"
    by (auto simp: unlockEnvelopeCreateCommand_def exits envelopeNewKey_def dest: new_key_Inl sealed_change_Inl split: sum.splits)
  from sealed_change_Inr [OF steps(2)] obtain e s where e: "change t (Create a (sc_password sc) k (new_salt t)) [] = Inr e"
      "seal t e = Some s" "new = joined s" "one_line new"
    by (auto simp: seal_step_def split: option.splits)
  with assms(3) have new: "unseal t new = Some e" "new \<noteq> []" "length new \<le> MAX_ENVELOPE_SEALED_BYTES" by (auto simp: seals_soundly_def)
  from commit_cases [OF steps(3)] assms(2) have st: "kr' (envelope_entry a) = Some new" "verify_account t a new"
      "opens_with t a ViaMaster k (sc_password sc) new"
    by auto
  from st(2) new obtain sm where sm: "inspect t e = Some sm" by (auto simp: verify_account_def split: option.splits)
  with e(1) assms(4) have "sm_master sm = Some (new_salt t, ENVELOPE_ARGON2)" by (auto simp: records_params_def)
  with ok new sm steps(1) st lookup_stored [of new t "envelope_entry a" kr'] e(4) assms(5) show ?thesis
    by (auto simp: unlockEnvelopeOpenCommand_def load_def via_ok_def auth_key_def wrap_key_def opens_with_def and_then_def orExit_def failing_def)
qed

lemma joined_id: "one_line s \<Longrightarrow> joined s = s"
  by (induction s) (auto simp: joined_def one_line_def)

lemma plain_tools_sound: "seals_soundly plain_tools" "records_params plain_tools"
  by (auto simp: seals_soundly_def records_params_def plain_tools_def joined_id one_line_def MAX_ENVELOPE_SEALED_BYTES_def
           split: if_splits)

theorem created_envelope_opens_witness:
  "unlockEnvelopeOpenCommand plain_tools (JStr [47]) plain_acct ViaMaster plain_secrets [KEYRING_ENVELOPE \<mapsto> [115, 0, 112]] = Inr [112]"
proof -
  have "unlockEnvelopeCreateCommand plain_tools (JStr [47]) plain_acct plain_secrets Map.empty = (0, [KEYRING_ENVELOPE \<mapsto> [115, 0, 112]])"
    by (simp add: envelope_defs)
  moreover have "sc_password plain_secrets = [112]" "\<not> lookup_fails plain_tools (envelope_entry plain_acct)"
    by (simp_all add: plain_secrets_def plain_tools_def)
  ultimately show ?thesis
    using created_envelope_opens [OF _ _ plain_tools_sound, of "JStr [47]" plain_acct plain_secrets] by (simp add: MAX_TOKEN_BYTES_def)
qed

section \<open>A method that was turned off is gone\<close>













text \<open>The exit status does not tell a skipped entry from a deleted one: the command can exit 0 and leave the legacy
  entry of the method that was turned off.\<close>
theorem purge_may_leave_legacy:
  "\<exists>t. quickUnlockPurgeCommand t (JStr [47]) [JStr DEFAULT_ACCOUNT_SLOT] MPin [KEYRING_PIN \<mapsto> [98]] = (0, [KEYRING_PIN \<mapsto> [98]])"
proof -
  let ?t = "plain_tools\<lparr>clears := \<lambda>x. False, clear_says := \<lambda>x. (1, [])\<rparr>" and ?kr = "[KEYRING_PIN \<mapsto> [98]]"
  have ne: "KEYRING_PIN \<noteq> KEYRING_ENVELOPE" by (simp add: KEYRING_PIN_def KEYRING_ENVELOPE_def js_def)
  have slot: "valid_slot DEFAULT_ACCOUNT_SLOT" by (simp add: valid_slot_def)
  have "purge_rounds ?t (JStr DEFAULT_ACCOUNT_SLOT) MPin (Suc n) ?kr = (0, ?kr)" for n
    using ne by (simp add: plain_tools_def keyringEntryName_def accountSlot_def)
  from this [of 16] have "envelopeMethodPurgeScript ?t (JStr DEFAULT_ACCOUNT_SLOT) MPin ?kr = (0, ?kr)"
    by (simp add: envelopeMethodPurgeScript_def MAX_PURGE_ROUNDS_def del: purge_rounds.simps)
  with slot have "quickUnlockPurgeCommand ?t (JStr [47]) [JStr DEFAULT_ACCOUNT_SLOT] MPin ?kr = (0, ?kr)"
    by (simp add: quickUnlockPurgeCommand_def clear_accepted_def)
  then show ?thesis by blast
qed

end
