(* ===== verification/Fido.thy ===== *)
theory Fido
  imports Envelope
begin

text \<open>
  Unlocking with a FIDO2 key: \<^verbatim>\<open>FidoModel.js\<close>, which finds the registered credentials and the keys that
  are plugged in, and the scripts of \<^verbatim>\<open>BitwardenModel.js\<close> that open, enroll and migrate with one. Also
  the keyring repair that runs before them, and the checks of what quick unlock needs. The machine
  (the authfile, the devices, what an assertion answers) is a parameter.
\<close>

section \<open>The probe\<close>

definition FIDO_AUTHFILE :: jsstr where "FIDO_AUTHFILE = js ''/etc/fido2/fido2''"
definition FIDO_MAX_PROBE_BYTES :: nat where "FIDO_MAX_PROBE_BYTES = 4096"

datatype auth_file = NoAuthFile | AuthLink | AuthFile jsstr

record fido_host =
  fh_assert :: bool      \<comment> \<open>\<^verbatim>\<open>fido2-assert\<close> is installed\<close>
  fh_token :: bool       \<comment> \<open>\<^verbatim>\<open>fido2-token\<close> is installed\<close>
  fh_auth :: auth_file
  fh_devs :: "jsstr list"
  fh_host :: jsstr
  fh_user :: jsstr
  fh_holds :: "jsstr \<Rightarrow> jsstr \<Rightarrow> jsstr \<Rightarrow> bool"  \<comment> \<open>device, rp, credential: the silent assertion succeeds\<close>

definition host_rp :: "fido_host \<Rightarrow> jsstr" where "host_rp h = js ''pam://'' @ fh_host h"

definition before_first :: "nat \<Rightarrow> jsstr \<Rightarrow> jsstr" where
  \<comment> \<open>\<^verbatim>\<open>${x%%c*}\<close>\<close>
  "before_first c s = takeWhile (\<lambda>u. u \<noteq> c) s"

definition after_last :: "nat \<Rightarrow> jsstr \<Rightarrow> jsstr" where
  \<comment> \<open>\<^verbatim>\<open>${x##*c}\<close>\<close>
  "after_last c s = rev (takeWhile (\<lambda>u. u \<noteq> c) (rev s))"

definition user_entries :: "fido_host \<Rightarrow> jsstr list" where
  \<comment> \<open>the entries of the user's first line, after the name\<close>
  "user_entries h =
     (case fh_auth h of
        AuthFile content \<Rightarrow>
          (case filter (\<lambda>l. hd (split_on 58 l) = fh_user h) (split_on 10 content) of
             [] \<Rightarrow> []
           | l # ls \<Rightarrow> if l = [] then [] else tl (split_on 58 l))
      | _ \<Rightarrow> [])"

definition cred_unit :: "nat \<Rightarrow> bool" where
  "cred_unit u \<longleftrightarrow> is_alpha u \<or> is_digit u \<or> u = 43 \<or> u = 47 \<or> u = 61"

definition plugged :: "fido_host \<Rightarrow> jsstr list" where
  \<comment> \<open>\<^verbatim>\<open>$__devs\<close>\<close>
  "plugged h = (if fh_token h then fh_devs h else [])"

definition held_at :: "fido_host \<Rightarrow> jsstr \<Rightarrow> jsstr" where
  \<comment> \<open>the first device that holds the credential, or a dash\<close>
  "held_at h cred =
     (case filter (\<lambda>d. fh_assert h \<and> fh_holds h d (host_rp h) cred) (plugged h) of [] \<Rightarrow> js ''-'' | d # ds \<Rightarrow> d)"

definition probe_creds :: "fido_host \<Rightarrow> (jsstr \<times> jsstr \<times> jsstr) list" where
  "probe_creds h =
     map (\<lambda>e. (before_first 44 e, after_last 44 e, held_at h (before_first 44 e)))
       (filter (\<lambda>e. before_first 44 e \<noteq> [] \<and> list_all cred_unit (before_first 44 e)) (user_entries h))"

definition flag_line :: "string \<Rightarrow> bool \<Rightarrow> jsstr" where
  "flag_line name b = js name @ (if b then js ''=1'' else js ''=0'')"

definition cred_line :: "jsstr \<times> jsstr \<times> jsstr \<Rightarrow> jsstr" where
  "cred_line c = (case c of (cred, opts, dev) \<Rightarrow> js ''cred='' @ cred @ js ''|'' @ opts @ js ''|'' @ dev)"

definition registered_here :: "fido_host \<Rightarrow> bool" where
  "registered_here h = (case fh_auth h of AuthFile content \<Rightarrow> content \<noteq> [] | _ \<Rightarrow> False)"

definition probe_lines_of :: "fido_host \<Rightarrow> jsstr list" where
  "probe_lines_of h =
     [flag_line ''fido_installed'' (fh_assert h \<and> fh_token h), flag_line ''fido_registered'' (registered_here h),
      flag_line ''fido_token'' (fh_token h \<and> plugged h \<noteq> []), js ''rp='' @ host_rp h]
     @ map cred_line (probe_creds h)"

definition fidoProbeCommand :: "fido_host \<Rightarrow> jsstr" where
  \<comment> \<open>what the probe prints\<close>
  "fidoProbeCommand h = take FIDO_MAX_PROBE_BYTES (concat (map (\<lambda>l. l @ [10]) (probe_lines_of h)))"

record fido_cred =
  fc_cred :: jsstr
  fc_options :: jsstr
  fc_device :: jsstr
  fc_needsPin :: bool

record fido_probe =
  fp_installed :: bool
  fp_registered :: bool
  fp_tokenPresent :: bool
  fp_rp :: jsstr
  fp_credentials :: "fido_cred list"
  fp_usable :: "fido_cred list"
  fp_pinOnly :: bool
  fp_ready :: bool
  fp_applicable :: bool

definition word_ends :: "jsstr \<Rightarrow> bool" where
  "word_ends r \<longleftrightarrow> r = [] \<or> \<not> word_unit (hd r)"

fun has_pin_flag :: "jsstr \<Rightarrow> bool" where
  \<comment> \<open>\<^verbatim>\<open>/\+(pin|verification)\b/\<close>\<close>
  "has_pin_flag [] = False"
| "has_pin_flag (c # cs) =
     ((starts_with (js ''+pin'') (c # cs) \<and> word_ends (drop 4 (c # cs)))
      \<or> (starts_with (js ''+verification'') (c # cs) \<and> word_ends (drop 13 (c # cs)))
      \<or> has_pin_flag cs)"

definition RP_RE :: "jsstr \<Rightarrow> bool" where
  \<comment> \<open>\<^verbatim>\<open>/^pam:\/\/[A-Za-z0-9.-]+$/\<close>\<close>
  "RP_RE s \<longleftrightarrow> (let p = js ''pam://''; r = drop (length p) s in
     starts_with p s \<and> r \<noteq> [] \<and> list_all (\<lambda>c. is_alpha c \<or> is_digit c \<or> c = 46 \<or> c = 45) r)"

fun read_probe :: "jsstr list \<Rightarrow> (jsstr \<times> jsstr) list \<Rightarrow> fido_cred list \<Rightarrow> (jsstr \<times> jsstr) list \<times> fido_cred list" where
  \<comment> \<open>the loop over the lines: \<open>found\<close> and \<open>creds\<close> so far\<close>
  "read_probe [] found creds = (found, creds)"
| "read_probe (l0 # ls) found creds =
     (let line = trim l0 in
      case index_of [61] line of
        None \<Rightarrow> read_probe ls found creds
      | Some eq \<Rightarrow>
          if eq = 0 then read_probe ls found creds
          else
            (let key = take eq line; value = trim (drop (eq + 1) line) in
             if key = js ''cred'' then
               (case split_on 124 value of
                  [a, b, c] \<Rightarrow>
                    if ENVELOPE_BASE64_RE a
                    then read_probe ls found (creds @ [\<lparr>fc_cred = a, fc_options = b, fc_device = (if c = js ''-'' then [] else c),
                           fc_needsPin = has_pin_flag b\<rparr>])
                    else read_probe ls found creds
                | _ \<Rightarrow> read_probe ls found creds)
             else read_probe ls (obj_put found key value) creds))"

definition probe_of :: "(jsstr \<times> jsstr) list \<Rightarrow> fido_cred list \<Rightarrow> fido_probe" where
  "probe_of found creds =
     (let is_one = (\<lambda>k. map_of found (js k) = Some (js ''1''));
          rp0 = (case map_of found (js ''rp'') of None \<Rightarrow> [] | Some r \<Rightarrow> r);
          rp = (if RP_RE rp0 then rp0 else []);
          usable = filter (\<lambda>c. fc_device c \<noteq> [] \<and> \<not> fc_needsPin c) creds
      in \<lparr>fp_installed = is_one ''fido_installed'', fp_registered = is_one ''fido_registered'',
          fp_tokenPresent = is_one ''fido_token'', fp_rp = rp, fp_credentials = creds, fp_usable = usable,
          fp_pinOnly = (list_ex (\<lambda>c. fc_device c \<noteq> [] \<and> fc_needsPin c) creds \<and> usable = []),
          fp_ready = (is_one ''fido_installed'' \<and> is_one ''fido_registered'' \<and> is_one ''fido_token'' \<and> rp \<noteq> [] \<and> usable \<noteq> []),
          fp_applicable = (is_one ''fido_installed'' \<or> is_one ''fido_registered'' \<or> is_one ''fido_token'')\<rparr>)"

definition parseFidoProbe :: "jsval \<Rightarrow> fido_probe" where
  "parseFidoProbe raw =
     (case read_probe (split_on 10 (text_of raw)) [] [] of (found, creds) \<Rightarrow> probe_of found creds)"

section \<open>One touch\<close>

record fido_target =
  ft_device :: jsstr
  ft_cred :: jsstr
  ft_rp :: jsstr
  ft_salt :: jsstr

definition fidoTargetOk :: "fido_target \<Rightarrow> bool" where
  "fidoTargetOk tg \<longleftrightarrow>
     (let p = js ''/dev/''; r = drop (length p) (ft_device tg) in
      starts_with p (ft_device tg) \<and> r \<noteq> []
      \<and> list_all (\<lambda>c. is_alpha c \<or> is_digit c \<or> c = 95 \<or> c = 46 \<or> c = 47 \<or> c = 45) r)
     \<and> ENVELOPE_BASE64_RE (ft_cred tg) \<and> RP_RE (ft_rp tg)"

type_synonym assertion = "jsstr \<Rightarrow> jsstr \<Rightarrow> jsstr \<Rightarrow> jsstr \<Rightarrow> jsstr option"

definition fifth_line :: "jsstr \<Rightarrow> jsstr" where
  \<comment> \<open>\<^verbatim>\<open>sed -n 5p\<close>, captured\<close>
  "fifth_line out = (let ls = split_on 10 (shell_value out) in if length ls < 5 then [] else ls ! 4)"

definition fidoAssertScript :: "assertion \<Rightarrow> fido_target \<Rightarrow> jsstr \<Rightarrow> (nat, jsstr) sum" where
  "fidoAssertScript ask tg salt =
     and_then (orExit 31 (ask (ft_device tg) (ft_rp tg) (ft_cred tg) salt)) (\<lambda>out.
       if fifth_line out = [] then Inl 32 else Inr (fifth_line out))"

definition fidoUnlockCommand :: "tools \<Rightarrow> assertion \<Rightarrow> jsval \<Rightarrow> acct \<Rightarrow> fido_target \<Rightarrow> secrets \<Rightarrow> keyring \<Rightarrow> (nat, jsstr) sum" where
  "fidoUnlockCommand t ask tool a tg sc kr =
     (if \<not> envelopeArgsOk tool a \<or> \<not> fidoTargetOk tg \<or> \<not> ENVELOPE_BASE64_RE (ft_salt tg) then Inl 2
      else and_then (fidoAssertScript ask tg (ft_salt tg)) (\<lambda>hmac.
        unlockEnvelopeOpenCommand t tool a (ViaFido (ft_cred tg)) (sc\<lparr>sc_hmac := hmac\<rparr>) kr))"

definition fidoEnrollCommand :: "tools \<Rightarrow> assertion \<Rightarrow> jsstr \<Rightarrow> jsval \<Rightarrow> acct \<Rightarrow> fido_target \<Rightarrow> secrets \<Rightarrow> keyring \<Rightarrow> nat \<times> keyring" where
  \<comment> \<open>\<open>fresh\<close> is the salt drawn by \<open>fidoNewSaltScript\<close>\<close>
  "fidoEnrollCommand t ask fresh tool a tg sc kr =
     (if \<not> envelopeArgsOk tool a \<or> \<not> fidoTargetOk tg then (2, kr)
      else (case fidoAssertScript ask tg fresh of
              Inl rc \<Rightarrow> (rc, kr)
            | Inr hmac \<Rightarrow> unlockEnvelopeUpdateCommand t tool a (AddFido (ft_cred tg) (ft_rp tg) None) (sc\<lparr>sc_hmac := hmac, sc_salt := fresh\<rparr>) kr))"

definition fidoLegacyUnlockCommand ::
  "tools \<Rightarrow> assertion \<Rightarrow> jsstr \<Rightarrow> jsstr \<Rightarrow> jsval \<Rightarrow> acct \<Rightarrow> fido_target \<Rightarrow> secrets \<Rightarrow> keyring \<Rightarrow> nat \<times> jsstr \<times> keyring" where
  \<comment> \<open>status, what is printed, and the keyring\<close>
  "fidoLegacyUnlockCommand t ask fresh salt2 tool a tg sc kr =
     (if \<not> envelopeArgsOk tool a \<or> \<not> fidoTargetOk tg then (2, [], kr)
      else
        (let pw = legacy_password t (keyringEntryName KEYRING_FIDO (ac_slot a)) kr in
         if pw = [] then (20, [], kr)
         else
           (case fidoAssertScript ask tg fresh of
              Inl rc \<Rightarrow> (rc, [], kr)
            | Inr hmac \<Rightarrow>
                (let sc' = sc\<lparr>sc_hmac := hmac, sc_salt := fresh, sc_password := pw\<rparr>;
                     (rc, kr') = legacyMigrationCommand t salt2 tool a KEYRING_FIDO (AddFido (ft_cred tg) (ft_rp tg) None) False sc' kr
                 in if rc \<noteq> 0 then (40, pw, kr')
                    else (case unlockEnvelopeOpenCommand t tool a (ViaFido (ft_cred tg)) sc' kr' of
                            Inr out \<Rightarrow> (0, out, kr')
                          | Inl _ \<Rightarrow> (40, pw, kr'))))))"

section \<open>The probe is read as it was\<close>

definition clean_host :: "fido_host \<Rightarrow> bool" where
  \<comment> \<open>a host name and device names without white space or bars, no bar in the user's entries, and output below the cap\<close>
  "clean_host h \<longleftrightarrow>
     (\<forall>c\<in>set (fh_host h). \<not> is_ws c)
     \<and> (\<forall>d\<in>set (fh_devs h). d \<noteq> [] \<and> d \<noteq> js ''-'' \<and> (\<forall>c\<in>set d. \<not> is_ws c \<and> c \<noteq> 124))
     \<and> (\<forall>e\<in>set (user_entries h). 124 \<notin> set e)
     \<and> length (concat (map (\<lambda>l. l @ [10]) (probe_lines_of h))) \<le> FIDO_MAX_PROBE_BYTES"

lemma trim_id: "s \<noteq> [] \<Longrightarrow> \<not> is_ws (hd s) \<Longrightarrow> \<not> is_ws (last s) \<Longrightarrow> trim s = s"
proof -
  assume s: "s \<noteq> []" "\<not> is_ws (hd s)" "\<not> is_ws (last s)"
  have "dropWhile is_ws u = u" if "u \<noteq> []" "\<not> is_ws (hd u)" for u using that by (cases u) auto
  from this [of s] this [of "rev s"] s show "trim s = s" by (simp add: trim_def trim_start_def trim_end_def hd_rev)
qed

lemma ws_newline: "is_ws 10" by (simp add: is_ws_def)

lemma split_on_subset: "w \<in> set (split_on d s) \<Longrightarrow> set w \<subseteq> set s"
  by (induction d s arbitrary: w rule: split_on.induct) (fastforce split: list.splits if_splits)+

lemma first_kept: "filter P xs = x # ys \<Longrightarrow> x \<in> set xs \<and> P x"
  by (auto simp: filter_eq_Cons_iff)

lemma entries_one_line:
  assumes "e \<in> set (user_entries h)"
  shows "10 \<notin> set e"
proof -
  obtain content where c: "fh_auth h = AuthFile content" using assms by (cases "fh_auth h") (auto simp: user_entries_def)
  obtain l ls where l: "filter (\<lambda>l. hd (split_on 58 l) = fh_user h) (split_on 10 content) = l # ls"
    using assms c by (cases "filter (\<lambda>l. hd (split_on 58 l) = fh_user h) (split_on 10 content)") (auto simp: user_entries_def)
  with assms c have e: "e \<in> set (tl (split_on 58 l))" by (auto simp: user_entries_def split: if_splits)
  from l have "l \<in> set (split_on 10 content)" using first_kept by fast
  then have "10 \<notin> set l" by (rule split_on_parts)
  with split_on_subset [of e 58 l] e show ?thesis by (cases "split_on 58 l") auto
qed

lemma set_after_last: "set (after_last c s) \<subseteq> set s"
  by (auto simp: after_last_def dest: set_takeWhileD)

lemma held_at_props:
  assumes "clean_host h"
  shows "held_at h cred \<noteq> []" "\<forall>c\<in>set (held_at h cred). \<not> is_ws c \<and> c \<noteq> 124"
    "held_at h cred \<noteq> js ''-'' \<longleftrightarrow> fh_assert h \<and> (\<exists>d\<in>set (plugged h). fh_holds h d (host_rp h) cred)"
    "held_at h cred \<noteq> js ''-'' \<longrightarrow> fh_holds h (held_at h cred) (host_rp h) cred"
proof -
  let ?f = "filter (\<lambda>d. fh_assert h \<and> fh_holds h d (host_rp h) cred) (plugged h)"
  consider "?f = []" "held_at h cred = js ''-''" | d ds where "?f = d # ds" "held_at h cred = d"
    by (cases ?f) (auto simp: held_at_def)
  then have "held_at h cred \<noteq> [] \<and> (\<forall>c\<in>set (held_at h cred). \<not> is_ws c \<and> c \<noteq> 124)
    \<and> (held_at h cred \<noteq> js ''-'' \<longleftrightarrow> fh_assert h \<and> (\<exists>d\<in>set (plugged h). fh_holds h d (host_rp h) cred))
    \<and> (held_at h cred \<noteq> js ''-'' \<longrightarrow> fh_holds h (held_at h cred) (host_rp h) cred)"
  proof cases
    case 1
    have "\<not> (fh_assert h \<and> (\<exists>d\<in>set (plugged h). fh_holds h d (host_rp h) cred))" using 1(1) by (auto simp: filter_empty_conv)
    moreover have "\<forall>c\<in>set (js ''-''). \<not> is_ws c \<and> c \<noteq> 124" by (simp add: js_def is_ws_def)
    ultimately show ?thesis using 1(2) by auto
  next
    case (2 d ds)
    then have d: "d \<in> set (plugged h)" "fh_assert h" "fh_holds h d (host_rp h) cred"
      by (simp_all add: first_kept [OF 2(1)])
    moreover have "d \<in> set (fh_devs h)" using d(1) by (auto simp: plugged_def split: if_splits)
    ultimately show ?thesis using 2(2) assms by (auto simp: clean_host_def)
  qed
  then show "held_at h cred \<noteq> []" "\<forall>c\<in>set (held_at h cred). \<not> is_ws c \<and> c \<noteq> 124"
    "held_at h cred \<noteq> js ''-'' \<longleftrightarrow> fh_assert h \<and> (\<exists>d\<in>set (plugged h). fh_holds h d (host_rp h) cred)"
    "held_at h cred \<noteq> js ''-'' \<longrightarrow> fh_holds h (held_at h cred) (host_rp h) cred"
    by blast+
qed

definition cred_of :: "jsstr \<times> jsstr \<times> jsstr \<Rightarrow> fido_cred" where
  "cred_of c = (case c of (cred, opts, dev) \<Rightarrow>
     \<lparr>fc_cred = cred, fc_options = opts, fc_device = (if dev = js ''-'' then [] else dev), fc_needsPin = has_pin_flag opts\<rparr>)"

definition clean_cred :: "jsstr \<times> jsstr \<times> jsstr \<Rightarrow> bool" where
  "clean_cred c = (case c of (cred, opts, dev) \<Rightarrow>
     cred \<noteq> [] \<and> list_all cred_unit cred \<and> 10 \<notin> set opts \<and> 124 \<notin> set opts \<and> dev \<noteq> [] \<and> (\<forall>u\<in>set dev. \<not> is_ws u \<and> u \<noteq> 124))"

lemma cred_unit_props: "cred_unit u \<Longrightarrow> \<not> is_ws u \<and> u \<noteq> 124 \<and> u \<noteq> 10"
  by (auto simp: cred_unit_def is_ws_def is_alpha_def is_digit_def)

lemma probe_creds_clean: "clean_host h \<Longrightarrow> c \<in> set (probe_creds h) \<Longrightarrow> clean_cred c"
proof -
  assume h: "clean_host h" and "c \<in> set (probe_creds h)"
  then obtain e where e: "e \<in> set (user_entries h)" "before_first 44 e \<noteq> []" "list_all cred_unit (before_first 44 e)"
      "c = (before_first 44 e, after_last 44 e, held_at h (before_first 44 e))"
    by (auto simp: probe_creds_def)
  have "10 \<notin> set (after_last 44 e)" "124 \<notin> set (after_last 44 e)"
    using entries_one_line [OF e(1)] set_after_last [of 44 e] h e(1) by (auto simp: clean_host_def)
  with e held_at_props(1,2) [OF h] show "clean_cred c" by (simp add: clean_cred_def)
qed

lemma read_cred_line:
  assumes "clean_cred (cred, opts, dev)"
  shows "read_probe (cred_line (cred, opts, dev) # ls) found creds
    = read_probe ls found (if ENVELOPE_BASE64_RE cred then creds @ [cred_of (cred, opts, dev)] else creds)"
proof -
  let ?v = "cred @ 124 # opts @ 124 # dev"
  have c: "cred \<noteq> []" "\<And>u. u \<in> set cred \<Longrightarrow> \<not> is_ws u \<and> u \<noteq> 124" "dev \<noteq> []" "\<And>u. u \<in> set dev \<Longrightarrow> \<not> is_ws u \<and> u \<noteq> 124" "124 \<notin> set opts"
    using assms cred_unit_props by (auto simp: clean_cred_def list_all_iff)
  have v: "trim ?v = ?v" by (rule trim_id) (use c in auto)
  have l: "trim (js ''cred'' @ 61 # ?v) = js ''cred'' @ 61 # ?v" by (rule trim_id) (use c in \<open>auto simp: js_def is_ws_def\<close>)
  have i: "index_of [61] (js ''cred'' @ 61 # ?v) = Some 4" using index_of_unit [of 61 "js ''cred''" ?v] by (simp add: js_def)
  have p: "split_on 124 ?v = [cred, opts, dev]" using c split_on_no_sep [of 124 dev] by (subst split_on_line) (auto simp: split_on_line)
  have eq: "cred_line (cred, opts, dev) = js ''cred'' @ 61 # ?v" by (simp add: cred_line_def js_def)
  show ?thesis
    unfolding eq by (simp add: l i v p cred_of_def)
qed

lemma read_cred_lines:
  assumes "\<forall>c\<in>set cs. clean_cred c"
  shows "read_probe (map cred_line cs @ ls) found creds = read_probe ls found (creds @ map cred_of (filter (\<lambda>c. ENVELOPE_BASE64_RE (fst c)) cs))"
  using assms
proof (induction cs arbitrary: creds)
  case (Cons c cs)
  obtain cred opts dev where "c = (cred, opts, dev)" by (cases c)
  with Cons show ?case by (simp add: read_cred_line del: read_probe.simps)
qed simp

lemma read_field_line:
  assumes "key \<noteq> []" and "61 \<notin> set key" and "key \<noteq> js ''cred''" and "\<forall>u\<in>set (key @ v). \<not> is_ws u" and "v \<noteq> []"
  shows "read_probe ((key @ 61 # v) # ls) found creds = read_probe ls (obj_put found key v) creds"
proof -
  have "trim (key @ 61 # v) = key @ 61 # v" by (rule trim_id) (use assms in auto)
  moreover have "trim v = v" by (rule trim_id) (use assms in auto)
  ultimately show ?thesis using assms index_of_unit [OF assms(2), of v] by simp
qed

lemma read_flag_line:
  assumes "name \<in> {''fido_installed'', ''fido_registered'', ''fido_token''}"
  shows "read_probe (flag_line name b # ls) found creds = read_probe ls (obj_put found (js name) (if b then js ''1'' else js ''0'')) creds"
  using read_field_line [of "js name" "if b then js ''1'' else js ''0''" ls found creds] assms
  by (auto simp: flag_line_def js_def is_ws_def simp del: read_probe.simps split: if_splits)

lemma probe_lines_one_line: "clean_host h \<Longrightarrow> l \<in> set (probe_lines_of h) \<Longrightarrow> 10 \<notin> set l"
proof -
  assume h: "clean_host h" and "l \<in> set (probe_lines_of h)"
  then consider "l \<in> flag_line ''fido_installed'' ` UNIV \<union> flag_line ''fido_registered'' ` UNIV \<union> flag_line ''fido_token'' ` UNIV"
    | "l = js ''rp='' @ host_rp h" | c where "c \<in> set (probe_creds h)" "l = cred_line c"
    by (auto simp: probe_lines_of_def)
  then show "10 \<notin> set l"
  proof cases
    case 1
    then show ?thesis by (auto simp: flag_line_def js_def split: if_splits)
  next
    case 2
    then show ?thesis using h ws_newline by (auto simp: host_rp_def js_def clean_host_def)
  next
    case 3
    from probe_creds_clean [OF h 3(1)] ws_newline show ?thesis
      unfolding 3(2) by (cases c) (auto simp: clean_cred_def cred_line_def js_def list_all_iff dest: cred_unit_props)
  qed
qed

definition probed :: "fido_host \<Rightarrow> fido_cred list" where
  "probed h = map cred_of (filter (\<lambda>c. ENVELOPE_BASE64_RE (fst c)) (probe_creds h))"

lemma parse_probe:
  assumes "clean_host h"
  defines "found \<equiv> obj_put (obj_put (obj_put (obj_put [] (js ''fido_installed'') (if fh_assert h \<and> fh_token h then js ''1'' else js ''0''))
      (js ''fido_registered'') (if registered_here h then js ''1'' else js ''0''))
      (js ''fido_token'') (if fh_token h \<and> plugged h \<noteq> [] then js ''1'' else js ''0'')) (js ''rp'') (host_rp h)"
  shows "parseFidoProbe (JStr (fidoProbeCommand h)) = probe_of found (probed h)"
proof -
  have out: "split_on 10 (fidoProbeCommand h) = probe_lines_of h @ [[]]"
    using assms(1) split_lines [of "probe_lines_of h" 10] probe_lines_one_line [OF assms(1)] by (simp add: fidoProbeCommand_def clean_host_def)
  have rp: "js ''rp='' @ host_rp h = js ''rp'' @ 61 # host_rp h" by (simp add: js_def)
  have "\<forall>u\<in>set (js ''rp'' @ host_rp h). \<not> is_ws u" "host_rp h \<noteq> []" using assms(1) by (auto simp: clean_host_def host_rp_def js_def is_ws_def)
  then have field: "read_probe ((js ''rp='' @ host_rp h) # ls) f c = read_probe ls (obj_put f (js ''rp'') (host_rp h)) c" for ls f c
    unfolding rp by (intro read_field_line) (auto simp: js_def)
  have blank: "read_probe [[]] f c = (f, c)" for f c by simp
  have "read_probe (probe_lines_of h @ [[]]) [] [] = (found, probed h)"
    using read_cred_lines [of "probe_creds h" "[[]]"] probe_creds_clean [OF assms(1)]
    unfolding probe_lines_of_def by (simp add: read_flag_line field probed_def found_def read_probe.simps(1) blank del: read_probe.simps(2))
  then show ?thesis using out by (simp add: parseFidoProbe_def)
qed

text \<open>C38: FIDO2 unlock is offered exactly when it can work: both tools are installed, the user's
  registration is a regular file, a key is plugged in, the host name gives a usable rp, and some
  registered credential is held by a plugged-in key and does not ask for its PIN. Every credential
  it will use is held by the device it names.\<close>
theorem fido_ready_exact:
  assumes "clean_host h"
  defines "p \<equiv> parseFidoProbe (JStr (fidoProbeCommand h))"
  shows "(fp_ready p \<longleftrightarrow> fh_assert h \<and> fh_token h \<and> registered_here h \<and> fh_devs h \<noteq> [] \<and> RP_RE (host_rp h)
      \<and> (\<exists>e\<in>set (user_entries h). ENVELOPE_BASE64_RE (before_first 44 e) \<and> list_all cred_unit (before_first 44 e)
           \<and> \<not> has_pin_flag (after_last 44 e) \<and> (\<exists>d\<in>set (fh_devs h). fh_holds h d (host_rp h) (before_first 44 e))))
    \<and> (\<forall>c\<in>set (fp_usable p). fh_holds h (fc_device c) (host_rp h) (fc_cred c) \<and> \<not> has_pin_flag (fc_options c))"
proof -
  have us: "fp_usable p = filter (\<lambda>c. fc_device c \<noteq> [] \<and> \<not> fc_needsPin c) (probed h)"
    unfolding p_def parse_probe [OF assms(1)] by (simp add: probe_of_def Let_def)
  have mem: "c \<in> set (fp_usable p) \<longleftrightarrow> (\<exists>e\<in>set (user_entries h). before_first 44 e \<noteq> [] \<and> list_all cred_unit (before_first 44 e)
      \<and> ENVELOPE_BASE64_RE (before_first 44 e) \<and> held_at h (before_first 44 e) \<noteq> js ''-'' \<and> \<not> has_pin_flag (after_last 44 e)
      \<and> c = cred_of (before_first 44 e, after_last 44 e, held_at h (before_first 44 e)))" for c
    unfolding us probed_def probe_creds_def using held_at_props(1) [OF assms(1)] by (auto simp: cred_of_def image_iff split: if_splits)
  have ne: "ENVELOPE_BASE64_RE x \<Longrightarrow> x \<noteq> []" for x by (auto simp: ENVELOPE_BASE64_RE_def Let_def)
  have some: "fp_usable p \<noteq> [] \<longleftrightarrow> (\<exists>e\<in>set (user_entries h). ENVELOPE_BASE64_RE (before_first 44 e) \<and> list_all cred_unit (before_first 44 e)
      \<and> held_at h (before_first 44 e) \<noteq> js ''-'' \<and> \<not> has_pin_flag (after_last 44 e))"
  proof -
    have "fp_usable p \<noteq> [] \<longleftrightarrow> (\<exists>c. c \<in> set (fp_usable p))" by (cases "fp_usable p") auto
    with mem ne show ?thesis by blast
  qed
  have "fp_ready p \<longleftrightarrow> fh_assert h \<and> fh_token h \<and> registered_here h \<and> plugged h \<noteq> [] \<and> RP_RE (host_rp h) \<and> fp_usable p \<noteq> []"
    unfolding p_def parse_probe [OF assms(1)] by (auto simp: probe_of_def Let_def host_rp_def)
  moreover have "\<forall>c\<in>set (fp_usable p). fh_holds h (fc_device c) (host_rp h) (fc_cred c) \<and> \<not> has_pin_flag (fc_options c)"
    using mem held_at_props(4) [OF assms(1)] by (auto simp: cred_of_def)
  ultimately show ?thesis using some held_at_props(3) [OF assms(1)] by (auto simp: plugged_def split: if_splits)
qed

definition plain_host :: fido_host where
  "plain_host = \<lparr>fh_assert = True, fh_token = True, fh_auth = AuthFile (js ''me:QQ==,k,es256,+presence''), fh_devs = [js ''/dev/k''],
     fh_host = js ''h'', fh_user = js ''me'', fh_holds = (\<lambda>d rp c. True)\<rparr>"

lemmas probe_eval = plain_host_def user_entries_def plugged_def before_first_def after_last_def held_at_def host_rp_def probe_creds_def
  probe_lines_of_def flag_line_def cred_line_def registered_here_def cred_unit_def FIDO_MAX_PROBE_BYTES_def RP_RE_def ENVELOPE_BASE64_RE_def
  Let_def js_unfold is_ws_def

lemma plain_host_clean: "clean_host plain_host"
  by (simp add: clean_host_def probe_eval)

theorem fido_ready_exact_witness: "fp_ready (parseFidoProbe (JStr (fidoProbeCommand plain_host)))"
  using fido_ready_exact [OF plain_host_clean] by (simp add: probe_eval word_ends_def)

section \<open>The old FIDO2 entry\<close>

lemma legacy_password_bounds: "length (legacy_password t e kr) \<le> MAX_TOKEN_BYTES"
proof -
  have "length (shell_value (take n v)) \<le> n" for n v
    using length_dropWhile_le [of "\<lambda>c. c = 10" "rev (take n v)"] by (simp add: shell_value_def)
  then show ?thesis by (simp add: legacy_password_def split: option.splits)
qed

definition seals_fit :: "tools \<Rightarrow> bool" where
  \<comment> \<open>\<^verbatim>\<open>systemd-creds\<close>: a sealed envelope is not empty and within the size the scripts read\<close>
  "seals_fit t \<longleftrightarrow> (\<forall>e s. seal t e = Some s \<longrightarrow> joined s \<noteq> [] \<and> length (joined s) \<le> MAX_ENVELOPE_SEALED_BYTES)"

lemma open_added_fido:
  assumes "good_envelope t a (Some (ViaFido cred, pw)) (Some hmac) new" and "kr (envelope_entry a) = Some new" and "pw \<noteq> []"
    and "envelopeArgsOk tool a" and "ENVELOPE_BASE64_RE cred" and "seals_fit t" and "\<not> lookup_fails t (envelope_entry a)" and "sc_hmac sc = hmac"
  shows "unlockEnvelopeOpenCommand t tool a (ViaFido cred) sc kr = Inr (take MAX_TOKEN_BYTES pw)"
proof -
  have fit: "new \<noteq> []" "length new \<le> MAX_ENVELOPE_SEALED_BYTES" using assms(1,6) by (auto simp: good_envelope_def from_seal_def seals_fit_def)
  obtain e sm where e: "unseal t new = Some e" "load t (envelope_entry a) kr = Inr (e, sm)"
    using load_stored [of t a "Some (ViaFido cred, pw)" "Some hmac" new "envelope_entry a" kr] assms(1,2,7) fit by metis
  have "opens_with t a (ViaFido cred) hmac pw new" using assms(1,3) by (auto simp: good_envelope_def)
  with e assms show ?thesis
    by (simp add: unlockEnvelopeOpenCommand_def via_ok_def auth_key_def opens_with_def and_then_def failing_def)
qed

text \<open>The first unlock after an upgrade. What it prints is the old password, whether the entry could be
  moved into the envelope (exit 0) or not (exit 40, and then the entry stays); on every other exit it
  prints nothing and changes nothing.\<close>
theorem fido_legacy_unlock:
  assumes "fidoLegacyUnlockCommand t ask fresh salt2 tool a tg sc kr = (rc, out, kr')"
    and "seals_fit t" and "\<not> lookup_fails t (envelope_entry a)"
  defines "entry \<equiv> keyringEntryName KEYRING_FIDO (ac_slot a)"
  shows "if rc = 0 then out = legacy_password t entry kr \<and> out \<noteq> []
         else if rc = 40 then out = legacy_password t entry kr \<and> out \<noteq> [] \<and> kr' entry = kr entry
         else out = [] \<and> kr' = kr"
proof -
  let ?pw = "legacy_password t entry kr"
  consider "\<not> envelopeArgsOk tool a \<or> \<not> fidoTargetOk tg \<or> ?pw = [] \<or> (\<exists>n. fidoAssertScript ask tg fresh = Inl n)"
    | hmac where "envelopeArgsOk tool a" "fidoTargetOk tg" "?pw \<noteq> []" "fidoAssertScript ask tg fresh = Inr hmac"
    by (cases "fidoAssertScript ask tg fresh") auto
  then show ?thesis
  proof cases
    case 1
    have "fidoAssertScript ask tg fresh = Inl n \<Longrightarrow> n = 31 \<or> n = 32" for n by (auto simp: fidoAssertScript_def exits split: if_splits)
    with 1 assms(1) show ?thesis unfolding fidoLegacyUnlockCommand_def entry_def Let_def by (auto split: if_splits sum.splits)
  next
    case 2
    define sc' where "sc' = sc\<lparr>sc_hmac := hmac, sc_salt := fresh, sc_password := ?pw\<rparr>"
    obtain rc1 kr1 where mig: "legacyMigrationCommand t salt2 tool a KEYRING_FIDO (AddFido (ft_cred tg) (ft_rp tg) None) False sc' kr = (rc1, kr1)"
      by force
    have run: "(if rc1 \<noteq> 0 then (40, ?pw, kr1)
        else (case unlockEnvelopeOpenCommand t tool a (ViaFido (ft_cred tg)) sc' kr1 of Inr o' \<Rightarrow> (0, o', kr1) | Inl _ \<Rightarrow> (40, ?pw, kr1)))
        = (rc, out, kr')"
      using assms(1) 2 mig unfolding fidoLegacyUnlockCommand_def sc'_def entry_def Let_def by (simp split: if_splits)
    have pw: "sc_password sc' = ?pw" "sc_hmac sc' = hmac" "sc'\<lparr>sc_password := ?pw\<rparr> = sc'" by (simp_all add: sc'_def)
    have ne: "entry \<noteq> envelope_entry a" using legacy_not_envelope by (simp add: entry_def envelope_entry_def)
    from mig show ?thesis
    proof (cases rule: migration_steps)
      case unchanged
      with run 2 show ?thesis by auto
    next
      case created
      with run 2 create.others_kept [of t tool a _ kr 0 kr1 entry] ne pw show ?thesis by auto
    next
      case (moved kr0 kr2)
      let ?t = "t\<lparr>new_salt := salt2\<rparr>"
      have "unlockEnvelopeUpdateCommand ?t tool a (AddFido (ft_cred tg) (ft_rp tg) None) sc' kr0 = (0, kr2)"
        using moved(4) pw by simp
      from update.stored_good [OF this] obtain new where new: "kr2 (envelope_entry a) = Some new"
          "good_envelope ?t a (Some (ViaFido (ft_cred tg), ?pw)) (Some hmac) new"
        by (auto simp: way_in_def new_key_def pw)
      have "good_envelope t a (Some (ViaFido (ft_cred tg), ?pw)) (Some hmac) new" using new(2) by (simp add: good_envelope_def from_seal_def)
      moreover have "kr1 (envelope_entry a) = Some new" using moved(5) new(1) ne by (auto simp: entry_def)
      moreover have "ENVELOPE_BASE64_RE (ft_cred tg)" using 2(2) by (simp add: fidoTargetOk_def)
      ultimately have "unlockEnvelopeOpenCommand t tool a (ViaFido (ft_cred tg)) sc' kr1 = Inr (take MAX_TOKEN_BYTES ?pw)"
        using open_added_fido 2 assms(2,3) pw by blast
      with run moved(1) legacy_password_bounds [of t entry kr] 2(3) show ?thesis by auto
    qed
  qed
qed

definition plain_target :: fido_target where
  "plain_target = \<lparr>ft_device = js ''/dev/k'', ft_cred = js ''QQ'', ft_rp = js ''pam://h'', ft_salt = []\<rparr>"

theorem fido_legacy_unlock_witness:
  "\<exists>kr'. fidoLegacyUnlockCommand plain_tools (\<lambda>d rp c salt. Some [1, 10, 2, 10, 3, 10, 4, 10, 104]) [65] [] (JStr [47]) plain_acct plain_target
      plain_secrets [KEYRING_FIDO \<mapsto> [120]] = (0, [120], kr') \<and> kr' KEYRING_FIDO = None"
proof -
  let ?ask = "\<lambda>d rp c salt :: jsstr. Some ([1, 10, 2, 10, 3, 10, 4, 10, 104] :: jsstr)"
  have ne: "KEYRING_FIDO \<noteq> KEYRING_ENVELOPE" by (simp add: KEYRING_FIDO_def KEYRING_ENVELOPE_def js_def)
  have hmac: "fidoAssertScript ?ask plain_target [65] = Inr [104]"
    by (simp add: fidoAssertScript_def fifth_line_def shell_value_def and_then_def orExit_def)
  have ok: "fidoTargetOk plain_target" by (simp add: fidoTargetOk_def plain_target_def RP_RE_def ENVELOPE_BASE64_RE_def Let_def js_unfold)
  have args: "envelopeArgsOk (JStr [47]) plain_acct" by (simp add: envelope_defs)
  have pw: "legacy_password plain_tools (keyringEntryName KEYRING_FIDO (ac_slot plain_acct)) [KEYRING_FIDO \<mapsto> [120]] = [120]"
    by (simp add: legacy_password_def envelope_defs)
  have mig: "legacyMigrationCommand plain_tools [] (JStr [47]) plain_acct KEYRING_FIDO (AddFido (ft_cred plain_target) (ft_rp plain_target) None) False
      (plain_secrets\<lparr>sc_hmac := [104], sc_salt := [65], sc_password := [120]\<rparr>) [KEYRING_FIDO \<mapsto> [120]] = (0, [KEYRING_ENVELOPE \<mapsto> [115, 3, 120]])"
    using ne by (simp add: legacyMigrationCommand_def legacy_password_def envelope_defs plain_target_def ENVELOPE_BASE64_RE_def js_unfold fun_upd_twist)
  have opened: "unlockEnvelopeOpenCommand plain_tools (JStr [47]) plain_acct (ViaFido (ft_cred plain_target))
      (plain_secrets\<lparr>sc_hmac := [104], sc_salt := [65], sc_password := [120]\<rparr>) [KEYRING_ENVELOPE \<mapsto> [115, 3, 120]] = Inr [120]"
    by (simp add: envelope_defs plain_target_def ENVELOPE_BASE64_RE_def js_unfold)
  have run: "fidoLegacyUnlockCommand plain_tools ?ask [65] [] (JStr [47]) plain_acct plain_target plain_secrets [KEYRING_FIDO \<mapsto> [120]]
      = (0, [120], [KEYRING_ENVELOPE \<mapsto> [115, 3, 120]])"
    unfolding fidoLegacyUnlockCommand_def Let_def using hmac ok args pw mig opened by simp
  have "seals_fit plain_tools" using plain_tools_sound(1) by (auto simp: seals_soundly_def seals_fit_def)
  moreover have "\<not> lookup_fails plain_tools (envelope_entry plain_acct)" by (simp add: plain_tools_def)
  ultimately have "([120] :: jsstr) = legacy_password plain_tools (keyringEntryName KEYRING_FIDO (ac_slot plain_acct)) [KEYRING_FIDO \<mapsto> [120]]"
    using fido_legacy_unlock [OF run] by simp
  with run ne show ?thesis by auto
qed

end
