(* ===== verification/Repair.thy ===== *)
theory Repair
  imports Envelope
begin

text \<open>
  What runs around quick unlock at every start, from \<^verbatim>\<open>BitwardenModel.js\<close>: joining envelopes that were
  stored on several lines (a passwordless keyring file cannot hold them), the report of that repair
  and how the panel reads it, and the probe of the programs quick unlock needs. The shell script
  that repairs the keyring file itself is a parameter: only its last line is read.
\<close>

section \<open>Joining stored envelopes\<close>

definition repair_names :: "jsval list \<Rightarrow> jsstr list" where
  \<comment> \<open>the envelope entries of the default slot and of the listed slots, each once\<close>
  "repair_names sls =
     foldl (\<lambda>names v. if isAccountSlot v \<and> keyringEntryName KEYRING_ENVELOPE v \<notin> set names
                      then names @ [keyringEntryName KEYRING_ENVELOPE v] else names)
       [] (JStr DEFAULT_ACCOUNT_SLOT # sls)"

definition broken :: "jsstr \<Rightarrow> bool" where
  \<comment> \<open>\<^verbatim>\<open>case "$__v" in *$'\n'*|*$'\r'*)\<close>\<close>
  "broken v \<longleftrightarrow> 10 \<in> set v \<or> 13 \<in> set v"

fun rejoin :: "tools \<Rightarrow> jsstr list \<Rightarrow> keyring \<Rightarrow> nat \<times> jsstr list \<times> keyring" where
  \<comment> \<open>the loop of the script: how many were joined, which would not be, the keyring\<close>
  "rejoin t [] kr = (0, [], kr)"
| "rejoin t (a # as) kr =
     (let v = lookup t a kr; j = joined v in
      if \<not> broken v then rejoin t as kr
      else if unseal t j \<noteq> None \<and> stores t j then
        (case rejoin t as (kr(a \<mapsto> j)) of (n, failed, kr') \<Rightarrow> (Suc n, failed, kr'))
      else (case rejoin t as kr of (n, failed, kr') \<Rightarrow> (n, a # failed, kr')))"

definition keyringRepairCommand :: "tools \<Rightarrow> (jsstr \<Rightarrow> jsstr) \<Rightarrow> jsval \<Rightarrow> jsval list \<Rightarrow> keyring \<Rightarrow> (nat, jsstr \<times> keyring) sum" where
  \<comment> \<open>what is printed, and the keyring; the argument after the tools is what the file repair prints, by its path\<close>
  "keyringRepairCommand t repair_file dir sls kr =
     (case dir of
        JStr (c # cs) \<Rightarrow>
          if c \<noteq> 47 then Inl 2
          else
            (case rejoin t (repair_names sls) kr of
               (n, failed, kr') \<Rightarrow>
                 Inr (concat (map (\<lambda>a. js ''rejoin_failed='' @ a @ [10]) failed) @ js ''rejoined='' @ nat_to_str n @ [10]
                   @ repair_file (rev (dropWhile (\<lambda>u. u = 47) (rev (c # cs))) @ js ''/scripts/repair-keyring.sh''), kr'))
      | _ \<Rightarrow> Inl 2)"

record repair_report =
  rr_rejoined :: nat
  rr_failed :: "jsstr list"
  rr_file :: jsstr

definition dot_unit :: "nat \<Rightarrow> bool" where
  \<comment> \<open>what \<^verbatim>\<open>.\<close> matches\<close>
  "dot_unit c \<longleftrightarrow> c \<noteq> 10 \<and> c \<noteq> 13 \<and> c \<noteq> 8232 \<and> c \<noteq> 8233"

definition field_of :: "string \<Rightarrow> jsstr \<Rightarrow> jsstr option" where
  \<comment> \<open>\<^verbatim>\<open>/^(name)=(.*)$/\<close>\<close>
  "field_of name l =
     (let p = js name @ [61] in
      if starts_with p l \<and> list_all dot_unit (drop (length p) l) then Some (drop (length p) l) else None)"

definition parse_count :: "jsstr \<Rightarrow> nat" where
  \<comment> \<open>\<^verbatim>\<open>Math.max(0, parseInt(s, 10) || 0)\<close>\<close>
  "parse_count s =
     (case trim_start s of
        c # cs \<Rightarrow> digits_val (takeWhile is_digit (if c = 43 then cs else c # cs))
      | [] \<Rightarrow> 0)"

definition chop_cr :: "jsstr \<Rightarrow> jsstr" where
  "chop_cr l = (if l \<noteq> [] \<and> last l = 13 then butlast l else l)"

fun read_report :: "jsstr list \<Rightarrow> repair_report \<Rightarrow> repair_report" where
  "read_report [] out = out"
| "read_report (l0 # ls) out =
     (let l = chop_cr l0 in
      case field_of ''rejoined'' l of
        Some v \<Rightarrow> read_report ls (out\<lparr>rr_rejoined := parse_count v\<rparr>)
      | None \<Rightarrow>
          (case field_of ''rejoin_failed'' l of
             Some v \<Rightarrow> read_report ls (out\<lparr>rr_failed := rr_failed out @ [v]\<rparr>)
           | None \<Rightarrow>
               (case field_of ''file'' l of
                  Some v \<Rightarrow> read_report ls (if v \<in> {js ''skipped'', js ''clean'', js ''repaired'', js ''failed''} then out\<lparr>rr_file := v\<rparr> else out)
                | None \<Rightarrow> read_report ls out)))"

definition parseKeyringRepair :: "jsval \<Rightarrow> repair_report" where
  "parseKeyringRepair raw =
     read_report (split_on 10 (str_or raw [])) \<lparr>rr_rejoined = 0, rr_failed = [], rr_file = js ''failed''\<rparr>"

section \<open>What quick unlock needs\<close>

definition quickUnlockPrereqCommand :: "bool \<Rightarrow> bool \<Rightarrow> jsstr" where
  \<comment> \<open>what it prints, from whether \<^verbatim>\<open>argon2\<close> is there and a throwaway seal works\<close>
  "quickUnlockPrereqCommand argon creds =
     (if argon then js ''argon2=1'' else js ''argon2=0'') @ [10] @ (if creds then js ''creds=1'' else js ''creds=0'') @ [10]"

record prereqs =
  pq_argon2 :: bool
  pq_creds :: bool
  pq_ready :: bool
  pq_message :: jsstr

definition line_end :: "nat \<Rightarrow> bool" where
  \<comment> \<open>where \<^verbatim>\<open>^\<close> and \<^verbatim>\<open>$\<close> match with the flag \<^verbatim>\<open>m\<close>\<close>
  "line_end c \<longleftrightarrow> \<not> dot_unit c"

definition has_line :: "jsstr \<Rightarrow> jsstr \<Rightarrow> bool" where
  "has_line p body \<longleftrightarrow> (\<exists>l\<in>set (split_on 10 (map (\<lambda>c. if line_end c then 10 else c) body)). l = p)"

definition parseQuickUnlockPrereqs :: "jsval \<Rightarrow> prereqs" where
  "parseQuickUnlockPrereqs raw =
     (let argon = has_line (js ''argon2=1'') (str_or raw []); creds = has_line (js ''creds=1'') (str_or raw []) in
      \<lparr>pq_argon2 = argon, pq_creds = creds, pq_ready = (argon \<and> creds),
       pq_message =
         (if \<not> argon then js ''Quick unlock needs `argon2`, which comes with the Bitwarden CLI package. Reinstall bitwarden-cli.''
          else if \<not> creds then
            js ''Quick unlock needs `systemd-creds --user` (systemd 256 or later) to seal the stored password to this machine, and it is not working here.''
          else [])\<rparr>)"

section \<open>The repair does what it reports\<close>

lemma not_broken_joined: "\<not> broken (joined v)"
  using joined_units by (simp add: broken_def)

lemma length_lookup: "length (lookup t a kr) \<le> MAX_ENVELOPE_SEALED_BYTES"
proof -
  have "length (shell_value (take n v)) \<le> n" for n v
    using length_dropWhile_le [of "\<lambda>c. c = 10" "rev (take n v)"] by (simp add: shell_value_def)
  then show ?thesis by (simp add: lookup_def split: option.splits)
qed

lemma lookup_joined: "broken (lookup t a kr) \<Longrightarrow> lookup t a (kr'(a \<mapsto> joined (lookup t a kr))) = joined (lookup t a kr)"
proof -
  let ?j = "joined (lookup t a kr)"
  have "length ?j \<le> MAX_ENVELOPE_SEALED_BYTES"
    using length_lookup [of t a kr] length_filter_le [of _ "lookup t a kr"] unfolding joined_def by (meson le_trans)
  moreover assume "broken (lookup t a kr)"
  then have "\<not> lookup_fails t a" by (auto simp: lookup_def broken_def)
  ultimately show ?thesis using joined_units [of "lookup t a kr"] by (simp add: lookup_def shell_value_id)
qed

lemma broken_stored: "broken (lookup t a kr) \<Longrightarrow> kr a \<noteq> Some (joined v)"
proof
  assume b: "broken (lookup t a kr)" "kr a = Some (joined v)"
  have "set (shell_value (take n w)) \<subseteq> set w" for n w
    using set_dropWhileD set_take_subset by (fastforce simp: shell_value_def)
  with b have "set (lookup t a kr) \<subseteq> set (joined v)" by (auto simp: lookup_def broken_def split: if_splits)
  with b(1) joined_units [of v] show False by (auto simp: broken_def)
qed

lemma lookup_cong: "kr a = kr' a \<Longrightarrow> lookup t a kr = lookup t a kr'"
  by (simp add: lookup_def)

definition repaired :: "tools \<Rightarrow> jsstr list \<Rightarrow> keyring \<Rightarrow> jsstr list \<Rightarrow> keyring \<Rightarrow> bool" where
  \<comment> \<open>each entry is as it was, or joined in a form that opens; those that stay broken are listed\<close>
  "repaired t names kr failed kr' \<longleftrightarrow>
     (\<forall>x. kr' x = kr x \<or> x \<in> set names \<and> broken (lookup t x kr) \<and> kr' x = Some (joined (lookup t x kr)) \<and> unseal t (joined (lookup t x kr)) \<noteq> None)
     \<and> (\<forall>x\<in>set names. x \<in> set failed \<longleftrightarrow> broken (lookup t x kr')) \<and> set failed \<subseteq> set names"

lemma rejoin_repaired:
  "rejoin t names kr = (n, failed, kr') \<Longrightarrow> distinct names \<Longrightarrow> repaired t names kr failed kr' \<and> n = card {x. kr' x \<noteq> kr x} \<and> finite {x. kr' x \<noteq> kr x}"
proof (induction names arbitrary: kr n failed)
  case Nil
  then show ?case by (simp add: repaired_def)
next
  case (Cons a as)
  let ?v = "lookup t a kr" and ?j = "joined (lookup t a kr)"
  have away: "kr'' a = kr0 a" if "repaired t as kr0 f kr''" for kr0 f kr'' using that Cons.prems(2) by (auto simp: repaired_def)
  consider "\<not> broken ?v" | "broken ?v" "unseal t ?j \<noteq> None" "stores t ?j" | "broken ?v" "unseal t ?j = None \<or> \<not> stores t ?j" by metis
  then show ?case
  proof cases
    case 1
    with Cons have r: "repaired t as kr failed kr'" "n = card {x. kr' x \<noteq> kr x}" "finite {x. kr' x \<noteq> kr x}" by (auto simp: Let_def)
    from 1 lookup_cong [of kr' a kr t, OF away [OF r(1)]] r Cons.prems(2) show ?thesis by (auto simp: repaired_def)
  next
    case 2
    with Cons obtain m where r: "n = Suc m" "repaired t as (kr(a \<mapsto> ?j)) failed kr'" "m = card {x. kr' x \<noteq> (kr(a \<mapsto> ?j)) x}"
        "finite {x. kr' x \<noteq> (kr(a \<mapsto> ?j)) x}"
      by (fastforce simp: Let_def split: prod.splits)
    have a: "kr' a = Some ?j" using away [OF r(2)] by simp
    have la: "lookup t x (kr(a \<mapsto> ?j)) = lookup t x kr" if "x \<noteq> a" for x using that by (intro lookup_cong) simp
    have fixed: "\<not> broken (lookup t a kr')"
      using lookup_cong [of kr' a "kr(a \<mapsto> ?j)" t] a lookup_joined [OF 2(1), of kr] not_broken_joined by simp
    have old: "kr' x = (kr(a \<mapsto> ?j)) x \<or> x \<in> set as \<and> broken (lookup t x (kr(a \<mapsto> ?j)))
        \<and> kr' x = Some (joined (lookup t x (kr(a \<mapsto> ?j)))) \<and> unseal t (joined (lookup t x (kr(a \<mapsto> ?j)))) \<noteq> None" for x
      using r(2) by (simp add: repaired_def)
    have "kr' x = kr x \<or> x \<in> set (a # as) \<and> broken (lookup t x kr) \<and> kr' x = Some (joined (lookup t x kr)) \<and> unseal t (joined (lookup t x kr)) \<noteq> None" for x
    proof (cases "x = a")
      case True
      with a 2 show ?thesis by simp
    next
      case False
      with old [of x] la [OF False] show ?thesis by auto
    qed
    moreover have "\<forall>x\<in>set (a # as). x \<in> set failed \<longleftrightarrow> broken (lookup t x kr')"
      using r(2) fixed Cons.prems(2) by (auto simp: repaired_def)
    moreover have "set failed \<subseteq> set (a # as)" using r(2) by (auto simp: repaired_def)
    ultimately have "repaired t (a # as) kr failed kr'" by (simp add: repaired_def)
    moreover have "{x. kr' x \<noteq> kr x} = insert a {x. kr' x \<noteq> (kr(a \<mapsto> ?j)) x}" using a broken_stored [OF 2(1)] by force
    moreover have "a \<notin> {x. kr' x \<noteq> (kr(a \<mapsto> ?j)) x}" using a by simp
    ultimately show ?thesis using r by (simp add: card_insert_if)
  next
    case 3
    with Cons obtain f where r: "failed = a # f" "repaired t as kr f kr'" "n = card {x. kr' x \<noteq> kr x}" "finite {x. kr' x \<noteq> kr x}"
      by (fastforce simp: Let_def split: prod.splits)
    from 3 lookup_cong [of kr' a kr t, OF away [OF r(2)]] r Cons.prems(2) show ?thesis by (auto simp: repaired_def)
  qed
qed

lemma repair_names_distinct:
  "distinct names \<Longrightarrow> distinct (foldl (\<lambda>names v. if P v \<and> f v \<notin> set names then names @ [f v] else names) names vs)"
  by (induction vs arbitrary: names) auto

lemma repair_names_set:
  "x \<in> set (foldl (\<lambda>names v. if P v \<and> f v \<notin> set names then names @ [f v] else names) names vs) \<longleftrightarrow> x \<in> set names \<or> (\<exists>v\<in>set vs. P v \<and> x = f v)"
  by (induction vs arbitrary: names) auto

lemma repair_name_units: "x \<in> set (repair_names sls) \<Longrightarrow> list_all dot_unit x \<and> chop_cr (js ''rejoin_failed='' @ x) = js ''rejoin_failed='' @ x"
proof -
  assume "x \<in> set (repair_names sls)"
  then obtain v where x: "x = keyringEntryName KEYRING_ENVELOPE v" by (auto simp: repair_names_def repair_names_set)
  have slot: "ACCOUNT_SLOT_RE s \<Longrightarrow> list_all dot_unit s" for s
    by (auto simp: ACCOUNT_SLOT_RE_def is_hex_lower_def is_digit_def dot_unit_def list_all_iff)
  then have "list_all dot_unit (accountSlot v)"
    by (auto simp: accountSlot_def isAccountSlot_def DEFAULT_ACCOUNT_SLOT_def js_def dot_unit_def split: jsval.splits)
  then have u: "list_all dot_unit x" by (auto simp: x keyringEntryName_def KEYRING_ENVELOPE_def js_def dot_unit_def Let_def)
  moreover have "x \<noteq> []" by (simp add: x keyringEntryName_def KEYRING_ENVELOPE_def Let_def)
  then have "last x \<in> set x" by simp
  then have "last x \<noteq> 13" using u by (auto simp: list_all_iff dot_unit_def)
  ultimately show ?thesis using \<open>x \<noteq> []\<close> by (simp add: chop_cr_def)
qed

lemma read_failed:
  "\<forall>x\<in>set failed. x \<in> set (repair_names sls) \<Longrightarrow>
   read_report (map (\<lambda>a. js ''rejoin_failed='' @ a) failed @ ls) out = read_report ls (out\<lparr>rr_failed := rr_failed out @ failed\<rparr>)"
proof (induction failed arbitrary: out)
  case (Cons a as)
  have f: "field_of ''rejoined'' (js ''rejoin_failed='' @ a) = None" "field_of ''rejoin_failed'' (js ''rejoin_failed='' @ a) = Some a"
    using repair_name_units [of a sls] Cons.prems by (auto simp: field_of_def js_def Let_def)
  from Cons.IH [of "out\<lparr>rr_failed := rr_failed out @ [a]\<rparr>"] Cons.prems repair_name_units [of a sls] f show ?case by simp
qed simp

lemma parse_count_nat: "parse_count (nat_to_str n) = n"
proof -
  obtain c cs where c: "nat_to_str n = c # cs" by (cases "nat_to_str n") auto
  have "is_digit x" if "x \<in> set (c # cs)" for x using that c nat_to_str_digits by metis
  moreover from this [of c] have "\<not> is_ws c" "c \<noteq> 43" by (auto simp: is_ws_def is_digit_def)
  ultimately have "trim_start (c # cs) = c # cs" "c \<noteq> 43" "takeWhile is_digit (c # cs) = c # cs"
    by (auto simp: trim_start_def)
  then show ?thesis using c digits_val_nat_to_str [of n] by (simp add: parse_count_def)
qed

lemma read_count: "read_report [js ''rejoined='' @ nat_to_str n, js ''file='' @ st, []] out
    = out\<lparr>rr_rejoined := n, rr_file := if st \<in> {js ''skipped'', js ''clean'', js ''repaired'', js ''failed''} then st else rr_file out\<rparr>"
  if "list_all dot_unit st"
proof -
  have d: "dot_unit x" if "x \<in> set (nat_to_str n)" for x using nat_to_str_digits [OF that] by (auto simp: is_digit_def dot_unit_def)
  have "last (nat_to_str n) \<noteq> 13" using d [of "last (nat_to_str n)"] by (auto simp: dot_unit_def)
  then have c1: "chop_cr (js ''rejoined='' @ nat_to_str n) = js ''rejoined='' @ nat_to_str n" by (simp add: chop_cr_def)
  have c2: "chop_cr (js ''file='' @ st) = js ''file='' @ st"
    using that by (cases st rule: rev_cases) (auto simp: chop_cr_def dot_unit_def js_def)
  have f1: "field_of ''rejoined'' (js ''rejoined='' @ nat_to_str n) = Some (nat_to_str n)"
    using d by (auto simp: field_of_def js_def Let_def list_all_iff)
  have f2: "field_of ''rejoined'' (js ''file='' @ st) = None" "field_of ''rejoin_failed'' (js ''file='' @ st) = None" "field_of ''file'' (js ''file='' @ st) = Some st"
    using that by (auto simp: field_of_def js_def Let_def)
  have f3: "field_of nm [] = None" for nm by (simp add: field_of_def Let_def starts_with_iff)
  have "chop_cr [] = []" by (simp add: chop_cr_def)
  then show ?thesis using c1 c2 f1 f2 f3 by (simp add: parse_count_nat)
qed

text \<open>The keyring repair is reported as it went and breaks nothing. Each entry of the keyring is as it was,
  or is now the one-line form of a stored envelope that was shown to open; the panel reads back how
  many were joined, exactly the entries that still span lines, and the status of the file repair.\<close>
theorem repair_reported:
  assumes "keyringRepairCommand t (\<lambda>path. js ''file='' @ st @ [10]) dir sls kr = Inr (out, kr')"
    and "st \<in> {js ''skipped'', js ''clean'', js ''repaired'', js ''failed''}"
  defines "r \<equiv> parseKeyringRepair (JStr out)"
  shows "rr_file r = st \<and> rr_rejoined r = card {x. kr' x \<noteq> kr x} \<and> repaired t (repair_names sls) kr (rr_failed r) kr'"
proof -
  obtain n failed where run: "rejoin t (repair_names sls) kr = (n, failed, kr')"
    and out: "out = concat (map (\<lambda>a. js ''rejoin_failed='' @ a @ [10]) failed) @ js ''rejoined='' @ nat_to_str n @ [10] @ js ''file='' @ st @ [10]"
    using assms(1) by (auto simp: keyringRepairCommand_def split: jsval.splits list.splits if_splits prod.splits)
  have names: "distinct (repair_names sls)" unfolding repair_names_def by (rule repair_names_distinct) simp
  have rep: "repaired t (repair_names sls) kr failed kr'" "n = card {x. kr' x \<noteq> kr x}"
    using rejoin_repaired [OF run] names by simp_all
  let ?ls = "map (\<lambda>a. js ''rejoin_failed='' @ a) failed @ [js ''rejoined='' @ nat_to_str n, js ''file='' @ st]"
  have in_names: "\<forall>x\<in>set failed. x \<in> set (repair_names sls)" using rep(1) by (auto simp: repaired_def)
  have st: "list_all dot_unit st" "st \<noteq> []" using assms(2) by (auto simp: js_def dot_unit_def)
  have "10 \<notin> set l" if "l \<in> set ?ls" for l
    using that in_names repair_name_units st nat_to_str_digits by (fastforce simp: js_def list_all_iff dot_unit_def is_digit_def)
  moreover have "out = concat (map (\<lambda>l. l @ [10]) ?ls)" by (simp add: out comp_def)
  ultimately have "split_on 10 out = ?ls @ [[]]" using split_lines [of ?ls 10] by metis
  moreover have "out \<noteq> []" by (simp add: out js_def)
  ultimately have "r = read_report (?ls @ [[]]) \<lparr>rr_rejoined = 0, rr_failed = [], rr_file = js ''failed''\<rparr>"
    by (simp add: r_def parseKeyringRepair_def str_or_def)
  also have "\<dots> = \<lparr>rr_rejoined = n, rr_failed = failed, rr_file = st\<rparr>"
    using read_failed [OF in_names, of "[js ''rejoined='' @ nat_to_str n, js ''file='' @ st, []]"] read_count [OF st(1)] assms(2) by simp
  finally show ?thesis using rep by simp
qed

theorem repair_reported_witness:
  "\<exists>out kr'. keyringRepairCommand plain_tools (\<lambda>path. js ''file='' @ js ''clean'' @ [10]) (JStr [47]) [] [KEYRING_ENVELOPE \<mapsto> [115, 10, 0]] = Inr (out, kr')
     \<and> kr' = [KEYRING_ENVELOPE \<mapsto> [115, 0]] \<and> rr_file (parseKeyringRepair (JStr out)) = js ''clean''
     \<and> repaired plain_tools (repair_names []) [KEYRING_ENVELOPE \<mapsto> [115, 10, 0]] (rr_failed (parseKeyringRepair (JStr out))) kr'"
proof -
  have "repair_names [] = [KEYRING_ENVELOPE]" by (simp add: repair_names_def isAccountSlot_def keyringEntryName_def accountSlot_def)
  moreover have "lookup plain_tools KEYRING_ENVELOPE [KEYRING_ENVELOPE \<mapsto> [115, 10, 0]] = [115, 10, 0]" by (simp add: envelope_defs)
  moreover have "unseal plain_tools [115, 0] = Some [0]" "stores plain_tools x" for x by (simp_all add: plain_tools_def)
  ultimately have "rejoin plain_tools (repair_names []) [KEYRING_ENVELOPE \<mapsto> [115, 10, 0]] = (1, [], [KEYRING_ENVELOPE \<mapsto> [115, 0]])"
    by (simp add: broken_def joined_def)
  then obtain out where run: "keyringRepairCommand plain_tools (\<lambda>path. js ''file='' @ js ''clean'' @ [10]) (JStr [47]) [] [KEYRING_ENVELOPE \<mapsto> [115, 10, 0]]
      = Inr (out, [KEYRING_ENVELOPE \<mapsto> [115, 0]])"
    by (simp add: keyringRepairCommand_def)
  have "js ''clean'' \<in> {js ''skipped'', js ''clean'', js ''repaired'', js ''failed''}" by simp
  from repair_reported [OF run this] run show ?thesis by blast
qed

section \<open>The prerequisites are read as probed\<close>

lemma prereqs_read:
  "parseQuickUnlockPrereqs (JStr (quickUnlockPrereqCommand argon creds)) = \<lparr>pq_argon2 = argon, pq_creds = creds, pq_ready = (argon \<and> creds),
     pq_message = pq_message (parseQuickUnlockPrereqs (JStr (quickUnlockPrereqCommand argon creds)))\<rparr>"
  by (cases argon; cases creds)
    (simp_all add: parseQuickUnlockPrereqs_def quickUnlockPrereqCommand_def has_line_def line_end_def dot_unit_def str_or_def js_def)

end
