(* ===== verification/Helpers.thy ===== *)
theory Helpers
  imports Agent Unlock Uri
begin

text \<open>
  The three native helpers (SSH agent, quick-unlock tool, vault helper) as \<^verbatim>\<open>BitwardenModel.js\<close> sees
  them: where they may be launched from, the inspection script that decides whether one can be used,
  how its report is read, and the request lines to the vault helper. What the script finds (the file,
  its first bytes, what \<^verbatim>\<open>--version\<close> and \<^verbatim>\<open>--self-test\<close> do) is a value of \<open>helper_file\<close>.
\<close>

section \<open>Where a helper may be\<close>

definition scheme_prefix :: "jsstr \<Rightarrow> bool" where
  \<comment> \<open>\<^verbatim>\<open>/^[a-zA-Z][a-zA-Z0-9+.-]*:/\<close>\<close>
  "scheme_prefix s \<longleftrightarrow>
     (case s of
        c # cs \<Rightarrow> is_alpha c \<and> (case dropWhile (\<lambda>c. is_alpha c \<or> is_digit c \<or> c = 43 \<or> c = 46 \<or> c = 45) cs of d # ds \<Rightarrow> d = 58 | [] \<Rightarrow> False)
      | [] \<Rightarrow> False)"

definition pluginDirFromUrl :: "jsval \<Rightarrow> jsstr" where
  "pluginDirFromUrl url =
     (case url of
        JStr u \<Rightarrow>
          (if u = [] then []
           else
             (let raw = (if starts_with (js ''file://'') u then Some (drop 7 u) else if scheme_prefix u then None else Some u) in
              case raw of
                None \<Rightarrow> []
              | Some r \<Rightarrow> (case decodeURIComponent r of None \<Rightarrow> [] | Some d \<Rightarrow> cleanAbsoluteDir (JStr d))))
      | _ \<Rightarrow> [])"

record helper_spec =
  hs_name :: jsstr
  hs_bundled :: jsstr
  hs_development :: jsstr
  hs_protocol :: jsstr   \<comment> \<open>the text before the digits in \<open>protocolSed\<close>\<close>

definition SSH_AGENT_HELPER_SPEC :: helper_spec where
  "SSH_AGENT_HELPER_SPEC =
     \<lparr>hs_name = js ''qs-bitwarden-ssh-agent'', hs_bundled = js ''bin/x86_64-linux/qs-bitwarden-ssh-agent'',
      hs_development = js ''agent/target/debug/qs-bitwarden-ssh-agent'', hs_protocol = js ''protocol ''\<rparr>"

definition UNLOCK_KEY_SPEC :: helper_spec where
  "UNLOCK_KEY_SPEC =
     \<lparr>hs_name = js ''qs-bitwarden-unlock-key'', hs_bundled = js ''bin/x86_64-linux/qs-bitwarden-unlock-key'',
      hs_development = js ''unlock-key/target/debug/qs-bitwarden-unlock-key'', hs_protocol = js ''envelope v''\<rparr>"

definition VAULT_HELPER_SPEC :: helper_spec where
  "VAULT_HELPER_SPEC =
     \<lparr>hs_name = js ''qs-bitwarden-vault'', hs_bundled = js ''bin/x86_64-linux/qs-bitwarden-vault'',
      hs_development = js ''vault/target/debug/qs-bitwarden-vault'', hs_protocol = js ''protocol ''\<rparr>"

definition helperCandidates :: "jsval \<Rightarrow> helper_spec \<Rightarrow> (jsstr \<times> jsstr) list" where
  "helperCandidates pluginDir spec =
     (let dir = cleanAbsoluteDir pluginDir in if dir = [] then [] else [(js ''development'', dir @ [47] @ hs_development spec)])"

definition helperPath :: "jsval \<Rightarrow> helper_spec \<Rightarrow> jsstr \<Rightarrow> jsstr" where
  "helperPath pluginDir spec source =
     (case filter (\<lambda>(s, p). s = source) (helperCandidates pluginDir spec) of [] \<Rightarrow> [] | (s, p) # r \<Rightarrow> p)"

definition sshAgentHelperCommand :: "jsval \<Rightarrow> jsstr \<Rightarrow> jsstr list" where
  "sshAgentHelperCommand pluginDir source =
     (let p = helperPath pluginDir SSH_AGENT_HELPER_SPEC source in if p \<noteq> [] then [p] else [])"

definition vaultHelperPath :: "jsval \<Rightarrow> jsstr \<Rightarrow> jsstr" where
  "vaultHelperPath pluginDir source = helperPath pluginDir VAULT_HELPER_SPEC source"

definition unlockKeyPath :: "jsval \<Rightarrow> jsstr \<Rightarrow> jsstr" where
  "unlockKeyPath pluginDir source = helperPath pluginDir UNLOCK_KEY_SPEC source"

section \<open>The inspection\<close>

record helper_file =
  hf_exists :: bool
  hf_regular :: bool
  hf_executable :: bool
  hf_magic :: jsstr          \<comment> \<open>the first four bytes, in hex\<close>
  hf_arch :: jsstr           \<comment> \<open>byte 18, in hex\<close>
  hf_version :: jsstr        \<comment> \<open>what \<^verbatim>\<open>--version\<close> prints within its time\<close>
  hf_selfTest :: bool
  hf_stamp :: "jsstr option" \<comment> \<open>the recorded hash of its source, if there is a record\<close>
  hf_sums :: "bool option"   \<comment> \<open>whether its line of \<^verbatim>\<open>SHA256SUMS\<close> matches, if there is that file\<close>

fun after_last_of :: "jsstr \<Rightarrow> jsstr \<Rightarrow> jsstr option" where
  \<comment> \<open>what follows the last occurrence\<close>
  "after_last_of p [] = (if p = [] then Some [] else None)"
| "after_last_of p (c # cs) =
     (case after_last_of p cs of
        Some r \<Rightarrow> Some r
      | None \<Rightarrow> if starts_with p (c # cs) then Some (drop (length p) (c # cs)) else None)"

definition sed_print :: "jsstr \<Rightarrow> (nat \<Rightarrow> bool) \<Rightarrow> jsstr \<Rightarrow> jsstr" where
  \<comment> \<open>\<^verbatim>\<open>sed -n 's/.*p\([..]*\).*/\1/p'\<close>, captured: the greedy match takes the last \<open>p\<close> of each line\<close>
  "sed_print p ok body =
     shell_value (concat (map (\<lambda>l. case after_last_of p l of None \<Rightarrow> [] | Some r \<Rightarrow> takeWhile ok r @ [10]) (split_on 10 body)))"

definition is_hash :: "jsstr \<Rightarrow> bool" where
  \<comment> \<open>\<^verbatim>\<open>^[0-9a-f]{64}$\<close>\<close>
  "is_hash h \<longleftrightarrow> length h = 64 \<and> list_all (\<lambda>c. is_digit c \<or> 97 \<le> c \<and> c \<le> 102) h"

record inspect_vars =
  iv_found :: jsstr
  iv_state :: jsstr
  iv_checksum :: jsstr
  iv_self :: jsstr

definition reported :: "jsstr \<Rightarrow> (string \<times> jsstr) list \<Rightarrow> jsstr" where
  \<comment> \<open>\<^verbatim>\<open>__report\<close>\<close>
  "reported hash fs = concat (map (\<lambda>(k, v). js k @ [61] @ v @ [10]) ((''sourceHash'', hash) # fs))"

fun inspect_loop :: "helper_spec \<Rightarrow> jsstr \<Rightarrow> (jsstr \<times> helper_file) list \<Rightarrow> inspect_vars \<Rightarrow> jsstr" where
  \<comment> \<open>the loop over the candidates; an empty state, checksum or self-test is an unset variable\<close>
  "inspect_loop spec hash [] iv =
     (if iv_found iv = [] then reported hash [(''state'', js ''missing'')]
      else reported hash
        [(''state'', if iv_state iv = [] then js ''unusable'' else iv_state iv), (''source'', iv_found iv),
         (''checksum'', if iv_checksum iv = [] then js ''unchecked'' else iv_checksum iv), (''selfTest'', iv_self iv)])"
| "inspect_loop spec hash ((source, f) # r) iv0 =
     (if \<not> hf_exists f then inspect_loop spec hash r iv0
      else
        (let iv = iv0\<lparr>iv_found := source\<rparr>; version = shell_value (take 200 (hf_version f));
             sum = (if source = js ''bundled'' \<and> hf_sums f \<noteq> None then (if hf_sums f = Some True then js ''match'' else js ''mismatch'') else js ''unchecked'') in
         if \<not> hf_regular f then inspect_loop spec hash r (iv\<lparr>iv_state := js ''not-a-file''\<rparr>)
         else if \<not> hf_executable f then inspect_loop spec hash r (iv\<lparr>iv_state := js ''not-executable''\<rparr>)
         else if hf_magic f \<noteq> js ''7f454c46'' then inspect_loop spec hash r (iv\<lparr>iv_state := js ''not-elf''\<rparr>)
         else if hf_arch f \<noteq> js ''3e'' then inspect_loop spec hash r (iv\<lparr>iv_state := js ''wrong-architecture''\<rparr>)
         else if sum = js ''mismatch'' then inspect_loop spec hash r (iv\<lparr>iv_checksum := sum, iv_state := js ''checksum-mismatch''\<rparr>)
         else if \<not> contains (hs_name spec @ [32]) version then inspect_loop spec hash r (iv\<lparr>iv_checksum := sum, iv_state := js ''no-version''\<rparr>)
         else if \<not> hf_selfTest f then inspect_loop spec hash r (iv\<lparr>iv_checksum := sum, iv_self := js ''fail'', iv_state := js ''self-test-failed''\<rparr>)
         else reported hash
           [(''state'', js ''ok''), (''source'', source), (''version'', sed_print (hs_name spec @ [32]) (\<lambda>c. is_digit c \<or> c = 46) version),
            (''protocol'', sed_print (hs_protocol spec) is_digit version), (''checksum'', sum), (''selfTest'', js ''pass''),
            (''sourceStamp'',
              (if source \<noteq> js ''development'' then js ''missing''
               else (case hf_stamp f of None \<Rightarrow> js ''missing''
                     | Some st \<Rightarrow> if is_hash hash \<and> hash = shell_value (take 65 st) then js ''match'' else js ''mismatch'')))]))"

definition helperInspectCommand :: "jsval \<Rightarrow> helper_spec \<Rightarrow> jsstr \<Rightarrow> helper_file \<Rightarrow> jsstr" where
  \<comment> \<open>what the script prints; the loop has one candidate, the local build\<close>
  "helperInspectCommand pluginDir spec hash f =
     (if cleanAbsoluteDir pluginDir = [] then js ''state=missing'' @ [10]
      else inspect_loop spec hash [(js ''development'', f)] \<lparr>iv_found = [], iv_state = [], iv_checksum = [], iv_self = []\<rparr>)"

section \<open>Reading the report\<close>

record helper_info =
  hi_state :: jsstr
  hi_source :: jsstr
  hi_version :: jsstr
  hi_protocol :: jsnum
  hi_checksum :: jsstr
  hi_selfTest :: jsstr
  hi_sourceStamp :: jsstr
  hi_sourceHash :: jsstr
  hi_message :: jsstr

definition uninspectedHelper :: helper_info where
  "uninspectedHelper =
     \<lparr>hi_state = js ''unknown'', hi_source = [], hi_version = [], hi_protocol = Fin 0, hi_checksum = js ''unchecked'', hi_selfTest = [],
      hi_sourceStamp = js ''missing'', hi_sourceHash = [], hi_message = []\<rparr>"

definition helperMessages :: "jsstr \<Rightarrow> jsstr \<Rightarrow> (jsstr \<times> jsstr) list" where
  "helperMessages noun protocolMismatch =
     (let the' = js ''The '' @ noun in
      [(js ''missing'', the' @ js '' was not found. Run `scripts/build-helpers.sh` in the plugin directory.''),
       (js ''not-a-file'', the' @ js '' path is not a file.''),
       (js ''not-executable'', the' @ js '' is not executable. A clone from an archive can drop file modes; `chmod +x` on it is enough.''),
       (js ''not-elf'', the' @ js '' is not a program. A partial clone, or Git LFS leaving a placeholder, both look like this.''),
       (js ''wrong-architecture'', the' @ js '' was built for a different architecture. This release ships x86_64 only.''),
       (js ''checksum-mismatch'', the' @ js '' does not match its recorded checksum. That usually means a stale binary after an update, or an incomplete clone.''),
       (js ''no-version'', the' @ js '' did not report a usable version.''),
       (js ''self-test-failed'', the' @ js '' failed its self-test. Rebuild with `scripts/build-helpers.sh`.''),
       (js ''protocol-mismatch'', the' @ [32] @ protocolMismatch @ js '' than this plugin. Rebuild with `scripts/build-helpers.sh`.''),
       (js ''unusable'', the' @ js '' could not be used.'')])"

definition SSH_AGENT_HELPER_MESSAGES :: "(jsstr \<times> jsstr) list" where
  "SSH_AGENT_HELPER_MESSAGES = helperMessages (js ''SSH agent helper'') (js ''speaks a different control protocol'')"

definition UNLOCK_KEY_MESSAGES :: "(jsstr \<times> jsstr) list" where
  "UNLOCK_KEY_MESSAGES = helperMessages (js ''quick-unlock tool'') (js ''uses a different envelope format'')"

definition VAULT_HELPER_MESSAGES :: "(jsstr \<times> jsstr) list" where
  "VAULT_HELPER_MESSAGES = helperMessages (js ''vault helper'') (js ''speaks a different protocol'')"

definition set_field :: "jsstr \<Rightarrow> jsstr \<Rightarrow> helper_info \<Rightarrow> helper_info" where
  "set_field key v hi =
     (if key = js ''protocol'' then hi\<lparr>hi_protocol := num_or_zero (num_floor (string_to_number v))\<rparr>
      else if key = js ''state'' then hi\<lparr>hi_state := v\<rparr>
      else if key = js ''source'' then hi\<lparr>hi_source := v\<rparr>
      else if key = js ''version'' then hi\<lparr>hi_version := v\<rparr>
      else if key = js ''checksum'' then hi\<lparr>hi_checksum := v\<rparr>
      else if key = js ''selfTest'' then hi\<lparr>hi_selfTest := v\<rparr>
      else if key = js ''sourceStamp'' then hi\<lparr>hi_sourceStamp := v\<rparr>
      else if key = js ''sourceHash'' then hi\<lparr>hi_sourceHash := v\<rparr>
      else hi)"

definition read_line :: "jsstr \<Rightarrow> helper_info \<Rightarrow> helper_info" where
  "read_line l hi =
     (case index_of [61] l of
        None \<Rightarrow> hi
      | Some i \<Rightarrow> if i = 0 then hi else set_field (take i l) (drop (i + 1) l) hi)"

definition parseHelperInspection :: "jsval \<Rightarrow> int \<Rightarrow> (jsstr \<times> jsstr) list \<Rightarrow> helper_info" where
  "parseHelperInspection raw expectedProtocol messages =
     (let fs = fold read_line (split_on 10 (text_of raw)) (uninspectedHelper\<lparr>hi_state := js ''missing''\<rparr>);
          st = (if hi_state fs = js ''ok'' \<and> \<not> num_eq (hi_protocol fs) (numi expectedProtocol) then js ''protocol-mismatch'' else hi_state fs);
          usable = (case map_of messages (js ''unusable'') of Some m \<Rightarrow> m | None \<Rightarrow> [])
      in fs\<lparr>hi_state := st,
            hi_message := (if st = js ''ok'' then []
                           else (case map_of messages st of Some m \<Rightarrow> if m = [] then usable else m | None \<Rightarrow> usable))\<rparr>)"

definition parseSshAgentHelperInspection :: "jsval \<Rightarrow> helper_info" where
  "parseSshAgentHelperInspection raw = parseHelperInspection raw SSH_AGENT_CONTROL_VERSION SSH_AGENT_HELPER_MESSAGES"

definition UNLOCK_KEY_ENVELOPE_VERSION :: int where "UNLOCK_KEY_ENVELOPE_VERSION = 1"

definition parseUnlockKeyInspection :: "jsval \<Rightarrow> helper_info" where
  "parseUnlockKeyInspection raw = parseHelperInspection raw UNLOCK_KEY_ENVELOPE_VERSION UNLOCK_KEY_MESSAGES"

definition VAULT_HELPER_PROTOCOL :: int where "VAULT_HELPER_PROTOCOL = 1"

definition parseVaultHelperInspection :: "jsval \<Rightarrow> helper_info" where
  "parseVaultHelperInspection raw = parseHelperInspection raw VAULT_HELPER_PROTOCOL VAULT_HELPER_MESSAGES"

definition helperReady :: "helper_info option \<Rightarrow> bool" where
  "helperReady i = (case i of None \<Rightarrow> False | Some hi \<Rightarrow> hi_state hi = js ''ok'')"

definition helperSourceOutdated :: "helper_info option \<Rightarrow> jsval \<Rightarrow> bool" where
  "helperSourceOutdated helper runningStamp =
     (case helper of
        None \<Rightarrow> False
      | Some hi \<Rightarrow>
          if runningStamp \<noteq> JUndef then \<not> is_hash (hi_sourceHash hi) \<or> runningStamp \<noteq> JStr (hi_sourceHash hi)
          else helperReady helper \<and> hi_source hi = js ''development'' \<and> hi_sourceStamp hi \<noteq> js ''match'')"

definition helperRebuildable :: "helper_info option \<Rightarrow> bool" where
  "helperRebuildable i =
     (case i of None \<Rightarrow> False
      | Some hi \<Rightarrow> hi_state hi \<in> {js ''missing'', js ''protocol-mismatch'', js ''self-test-failed'', js ''checksum-mismatch''})"

definition sshAgentHelperSourceLabel :: "jsstr \<Rightarrow> jsstr" where
  "sshAgentHelperSourceLabel source =
     (if source = js ''bundled'' then js ''the helper shipped with this plugin''
      else if source = js ''development'' then js ''a locally built development helper, not the shipped artifact'' else [])"

definition vaultHelperWarning :: "jsval \<Rightarrow> jsstr" where
  "vaultHelperWarning reason =
     (let r = trim (str_or reason []) in
      js ''Crash protection is off: '' @ (if r = [] then js ''the vault helper is unavailable.'' else r)
      @ js '' The vault is held in the shell, so a shell crash could write it to a core dump.'')"

definition vaultHelperUnavailableWarning :: "jsval \<Rightarrow> (jsstr \<Rightarrow> jsstr) \<Rightarrow> jsstr" where
  "vaultHelperUnavailableWarning reason tr =
     (let r = trim (str_or reason []) in
      tr (js ''The vault stays locked: '')
      @ tr (if r = [] then js ''The vault helper is unavailable. Run `scripts/build-helpers.sh`.'' else r)
      @ tr (js '' Click here to check again.''))"

section \<open>Talking to the vault helper\<close>

definition VAULT_HELD_SESSION :: jsstr where "VAULT_HELD_SESSION = js ''HELD-BY-QS-BITWARDEN-VAULT-HELPER-SESSION''"

definition HELD_SECRET_PREFIX :: jsstr where "HELD_SECRET_PREFIX = 0 # js ''qsbw-held:''"

definition heldSecretRef :: "jsval \<Rightarrow> jsstr" where "heldSecretRef name = HELD_SECRET_PREFIX @ to_str name"

definition heldSecretName :: "jsval \<Rightarrow> jsstr" where
  "heldSecretName v =
     (case v of JStr s \<Rightarrow> if starts_with HELD_SECRET_PREFIX s then drop (length HELD_SECRET_PREFIX) s else [] | _ \<Rightarrow> [])"

definition vaultEnv :: "(jsstr \<times> jsval) list \<Rightarrow> (jsstr \<times> jsval) list" where
  "vaultEnv env = map (\<lambda>(k, v). (k, if v = JNull \<or> v = JUndef then JNull else JStr (to_str v))) env"

definition vaultHelperLine :: "jsstr \<Rightarrow> (jsstr \<times> jsval) list \<Rightarrow> jsstr" where
  "vaultHelperLine type fs =
     json_str (JObj (put_all (put_all [] [(js ''type'', JStr type), (js ''v'', jint VAULT_HELPER_PROTOCOL)]) fs)) @ [10]"

definition vaultExecLine :: "jsval \<Rightarrow> jsval \<Rightarrow> (jsstr \<times> jsval) list \<Rightarrow> (jsstr \<times> jsval) list \<Rightarrow> jsval \<Rightarrow> jsval \<Rightarrow> jsstr" where
  "vaultExecLine ident argv env inject capture stdin =
     vaultHelperLine (js ''exec'')
       ([(js ''id'', ident), (js ''argv'', argv), (js ''env'', JObj (vaultEnv env)), (js ''inject'', JObj inject),
         (js ''capture'', js_or capture (JStr (js ''plain'')))]
        @ (if stdin = JUndef \<or> stdin = JNull \<or> stdin = JStr [] then [] else [(js ''stdin'', JStr (to_str stdin))]))"

definition parseVaultHelperLine :: "jsval \<Rightarrow> jsval option" where
  "parseVaultHelperLine line =
     (case json_parse (str_or line []) of
        None \<Rightarrow> None
      | Some m \<Rightarrow> if is_object m \<and> is_string (get_prop m (js ''type'')) then Some m else None)"

definition QUICK_UNLOCK_SETTINGS :: "jsstr list" where
  "QUICK_UNLOCK_SETTINGS = [js ''fingerprintUnlock'', js ''pinUnlock'', js ''fidoUnlock'']"

definition isQuickUnlockSetting :: "jsval \<Rightarrow> bool" where
  "isQuickUnlockSetting key \<longleftrightarrow> to_str key \<in> set QUICK_UNLOCK_SETTINGS"

section \<open>A report is read as it was written\<close>

definition report_field :: "string \<times> jsstr \<Rightarrow> bool" where
  \<comment> \<open>a name, and a value on one line or without equals signs\<close>
  "report_field kv = (case kv of (k, v) \<Rightarrow> k \<noteq> [] \<and> 61 \<notin> set (js k) \<and> 10 \<notin> set (js k) \<and> (10 \<notin> set v \<or> 61 \<notin> set v))"

lemma fold_junk: "61 \<notin> set v \<Longrightarrow> ls = split_on 10 v \<Longrightarrow> fold read_line ls hi = hi"
proof (induction ls arbitrary: v hi)
  case (Cons l ls)
  have "61 \<notin> set l'" if "l' \<in> set (split_on 10 v)" for l'
    using that Cons.prems(1) by (induction "10::nat" v arbitrary: l' rule: split_on.induct) (auto split: list.splits if_splits)
  moreover have "fold read_line (filter (\<lambda>l. 61 \<notin> set l) m) hi = hi" for m
    by (induction m) (simp_all add: read_line_def index_of_none)
  ultimately show ?case using Cons.prems(2) filter_True [of "split_on 10 v" "\<lambda>l. 61 \<notin> set l"] by metis
qed simp

lemma read_field:
  assumes "report_field (k, v)"
  shows "fold read_line (split_on 10 (js k @ [61] @ v @ [10] @ rest)) hi = fold read_line (split_on 10 rest) (set_field (js k) (hd (split_on 10 v)) hi)"
proof -
  have key: "js k \<noteq> []" "61 \<notin> set (js k)" "10 \<notin> set (js k)" using assms by (auto simp: report_field_def)
  have rl: "read_line (js k @ 61 # w) h = set_field (js k) w h" for w h using key by (simp add: read_line_def index_of_unit)
  show ?thesis
  proof (cases "10 \<in> set v")
    case False
    then have "split_on 10 (js k @ 61 # v @ 10 # rest) = (js k @ 61 # v) # split_on 10 rest"
      using split_on_append [of 10 "js k @ 61 # v" rest] key by (simp add: split_on_no_sep)
    then show ?thesis using False rl by (simp add: split_on_no_sep)
  next
    case True
    then obtain a b where v: "v = a @ 10 # b" "10 \<notin> set a" by (meson split_list_first)
    then have "61 \<notin> set b" using assms True by (auto simp: report_field_def)
    have "split_on 10 (js k @ 61 # v @ 10 # rest) = (js k @ 61 # a) # split_on 10 b @ split_on 10 rest"
      using split_on_append [of 10 "js k @ 61 # a" "b @ 10 # rest"] split_on_append [of 10 b rest] key v by (simp add: split_on_no_sep)
    moreover have "hd (split_on 10 v) = a" using v split_on_append [of 10 a b] by (simp add: split_on_no_sep)
    ultimately show ?thesis using rl fold_junk [OF \<open>61 \<notin> set b\<close> refl] by simp
  qed
qed

lemma read_fields:
  "list_all report_field fs \<Longrightarrow>
   fold read_line (split_on 10 (concat (map (\<lambda>(k, v). js k @ [61] @ v @ [10]) fs))) hi
   = fold (\<lambda>(k, v). set_field (js k) (hd (split_on 10 v))) fs hi"
proof (induction fs arbitrary: hi)
  case Nil
  then show ?case by (simp add: read_line_def)
next
  case (Cons kv fs)
  obtain k v where "kv = (k, v)" by force
  with Cons read_field [of k v "concat (map (\<lambda>(k, v). js k @ [61] @ v @ [10]) fs)" hi] show ?case by simp
qed

lemma read_reported:
  "10 \<notin> set hash \<Longrightarrow> list_all report_field fs \<Longrightarrow>
   fold read_line (split_on 10 (reported hash fs)) hi = fold (\<lambda>(k, v). set_field (js k) (hd (split_on 10 v))) ((''sourceHash'', hash) # fs) hi"
  unfolding reported_def by (rule read_fields) (simp add: report_field_def js_def)

section \<open>A helper is used exactly when it passed\<close>

definition helper_sound :: "helper_spec \<Rightarrow> helper_file \<Rightarrow> bool" where
  \<comment> \<open>an executable x86-64 program that names itself and passes its own test\<close>
  "helper_sound spec f \<longleftrightarrow>
     hf_exists f \<and> hf_regular f \<and> hf_executable f \<and> hf_magic f = js ''7f454c46'' \<and> hf_arch f = js ''3e''
     \<and> contains (hs_name spec @ [32]) (shell_value (take 200 (hf_version f))) \<and> hf_selfTest f"

definition helper_protocol :: "helper_spec \<Rightarrow> helper_file \<Rightarrow> jsnum" where
  "helper_protocol spec f =
     num_or_zero (num_floor (string_to_number (hd (split_on 10 (sed_print (hs_protocol spec) is_digit (shell_value (take 200 (hf_version f))))))))"

lemma sed_print_units: "c \<in> set (sed_print p ok body) \<Longrightarrow> ok c \<or> c = 10"
  by (auto simp: sed_print_def shell_value_def dest!: set_dropWhileD set_takeWhileD split: option.splits)

lemma sed_print_clean: "(\<And>c. ok c \<Longrightarrow> c \<noteq> 61) \<Longrightarrow> 61 \<notin> set (sed_print p ok body)"
  using sed_print_units by fastforce

definition refusal :: "helper_spec \<Rightarrow> helper_file \<Rightarrow> string" where
  \<comment> \<open>the first check that a helper fails\<close>
  "refusal spec f =
     (if \<not> hf_exists f then ''missing'' else if \<not> hf_regular f then ''not-a-file'' else if \<not> hf_executable f then ''not-executable''
      else if hf_magic f \<noteq> js ''7f454c46'' then ''not-elf'' else if hf_arch f \<noteq> js ''3e'' then ''wrong-architecture''
      else if \<not> contains (hs_name spec @ [32]) (shell_value (take 200 (hf_version f))) then ''no-version'' else ''self-test-failed'')"

lemma inspect_refused:
  assumes "\<not> helper_sound spec f" and "cleanAbsoluteDir dir \<noteq> []"
  shows "helperInspectCommand dir spec hash f =
    reported hash ((''state'', js (refusal spec f)) # (if hf_exists f then [(''source'', js ''development''), (''checksum'', js ''unchecked''),
      (''selfTest'', if refusal spec f = ''self-test-failed'' then js ''fail'' else [])] else []))"
  using assms unfolding helper_sound_def helperInspectCommand_def refusal_def by (simp add: Let_def)

lemma refusal_text: "refusal spec f \<noteq> ''ok'' \<and> 10 \<notin> set (js (refusal spec f))"
  by (simp add: refusal_def js_def)

lemma fold_fields_state:
  "\<forall>(k, v)\<in>set fs. k \<in> {''source'', ''checksum'', ''selfTest''} \<Longrightarrow>
   hi_state (fold (\<lambda>(k, v). set_field (js k) (hd (split_on 10 v))) fs hi) = hi_state hi"
proof (induction fs arbitrary: hi)
  case (Cons kv fs)
  obtain k v where kv: "kv = (k, v)" by force
  then have "hi_state (set_field (js k) (hd (split_on 10 v)) hi) = hi_state hi" using Cons.prems by (auto simp: set_field_def)
  with Cons kv show ?case by simp
qed simp

text \<open>C35: A native helper is used exactly when it passed: it is an executable program for this machine, names
  itself in its version, passes its own test and speaks the expected protocol. Nothing else it prints
  can change the verdict.\<close>
theorem helper_ready_exact:
  assumes "cleanAbsoluteDir dir \<noteq> []" and "10 \<notin> set hash"
  shows "helperReady (Some (parseHelperInspection (JStr (helperInspectCommand dir spec hash f)) expected messages))
    \<longleftrightarrow> helper_sound spec f \<and> num_eq (helper_protocol spec f) (numi expected)"
proof (cases "helper_sound spec f")
  case False
  define fs where "fs = (if hf_exists f then [(''source'', js ''development''), (''checksum'', js ''unchecked''),
      (''selfTest'', if refusal spec f = ''self-test-failed'' then js ''fail'' else [])] else [])"
  have out: "helperInspectCommand dir spec hash f = reported hash ((''state'', js (refusal spec f)) # fs)"
    using inspect_refused [OF False assms(1)] by (simp add: fs_def)
  have "list_all report_field ((''state'', js (refusal spec f)) # fs)" using refusal_text by (auto simp: report_field_def fs_def js_def)
  note read = read_reported [OF assms(2) this]
  have "\<forall>(k, v)\<in>set fs. k \<in> {''source'', ''checksum'', ''selfTest''}" by (auto simp: fs_def)
  from fold_fields_state [OF this] refusal_text
  have "hi_state (fold read_line (split_on 10 (reported hash ((''state'', js (refusal spec f)) # fs))) hi) = js (refusal spec f)" for hi
    unfolding read by (simp add: set_field_def split_on_no_sep)
  then show ?thesis using False out refusal_text by (simp add: helperReady_def parseHelperInspection_def Let_def)
next
  case True
  let ?v = "shell_value (take 200 (hf_version f))"
  let ?fs = "[(''state'', js ''ok''), (''source'', js ''development''), (''version'', sed_print (hs_name spec @ [32]) (\<lambda>c. is_digit c \<or> c = 46) ?v),
    (''protocol'', sed_print (hs_protocol spec) is_digit ?v), (''checksum'', js ''unchecked''), (''selfTest'', js ''pass''),
    (''sourceStamp'', (case hf_stamp f of None \<Rightarrow> js ''missing'' | Some st \<Rightarrow> if is_hash hash \<and> hash = shell_value (take 65 st) then js ''match'' else js ''mismatch''))]"
  have out: "helperInspectCommand dir spec hash f = reported hash ?fs"
    using True assms(1) unfolding helperInspectCommand_def helper_sound_def by (simp add: Let_def)
  have "61 \<notin> set (sed_print p is_digit ?v)" "61 \<notin> set (sed_print p (\<lambda>c. is_digit c \<or> c = 46) ?v)" for p
    by (auto intro!: sed_print_clean simp: is_digit_def)
  then have ok: "list_all report_field ?fs" by (auto simp: report_field_def js_def split: option.splits)
  have "hi_state (fold read_line (split_on 10 (reported hash ?fs)) hi) = js ''ok''
      \<and> hi_protocol (fold read_line (split_on 10 (reported hash ?fs)) hi) = helper_protocol spec f" for hi
    unfolding read_reported [OF assms(2) ok] by (simp add: set_field_def helper_protocol_def split_on_no_sep js_def)
  then show ?thesis using True out by (simp add: helperReady_def parseHelperInspection_def Let_def)
qed

definition plain_helper :: helper_file where
  "plain_helper = \<lparr>hf_exists = True, hf_regular = True, hf_executable = True, hf_magic = js ''7f454c46'', hf_arch = js ''3e'',
     hf_version = js ''qs-bitwarden-vault 1.0 protocol 1'' @ [10], hf_selfTest = True, hf_stamp = None, hf_sums = None\<rparr>"

theorem helper_ready_exact_witness:
  "helperReady (Some (parseVaultHelperInspection (JStr (helperInspectCommand (JStr [47, 112]) VAULT_HELPER_SPEC [] plain_helper))))"
proof -
  have dir: "cleanAbsoluteDir (JStr [47, 112]) \<noteq> []" by (simp add: cleanAbsoluteDir_def)
  have v: "shell_value (take 200 (hf_version plain_helper)) = js ''qs-bitwarden-vault 1.0 protocol 1''"
    by (simp add: plain_helper_def shell_value_def js_def)
  then have sound: "helper_sound VAULT_HELPER_SPEC plain_helper"
    by (simp add: helper_sound_def) (simp add: plain_helper_def VAULT_HELPER_SPEC_def contains_def js_def)
  have "sed_print (js ''protocol '') is_digit (js ''qs-bitwarden-vault 1.0 protocol 1'') = [49]"
    by (simp add: sed_print_def shell_value_def js_unfold)
  moreover have "string_to_number [49] = Fin 1"
    by (simp add: string_to_number_def Let_def parse_decimal_def decimal_value_def read_exponent_def to_double_def double_max_def span_def digits_val_def
        digit_val_def pow10_def trim_def trim_start_def trim_end_def is_ws_def is_digit_def js_def)
  ultimately have "helper_protocol VAULT_HELPER_SPEC plain_helper = Fin 1"
    using v by (simp add: helper_protocol_def VAULT_HELPER_SPEC_def num_or_zero_def)
  then show ?thesis
    unfolding parseVaultHelperInspection_def
    using dir sound helper_ready_exact [of "JStr [47, 112]" "[]" VAULT_HELPER_SPEC plain_helper VAULT_HELPER_PROTOCOL VAULT_HELPER_MESSAGES]
    by (simp add: num_eq_def VAULT_HELPER_PROTOCOL_def)
qed

text \<open>What is launched lies in the plugin's directory, without a way out of it.\<close>

lemma clean_dir_segments:
  "cleanAbsoluteDir d = p \<Longrightarrow> p \<noteq> [] \<Longrightarrow> hd p = 47 \<and> [46] \<notin> set (split_on 47 p) \<and> [46, 46] \<notin> set (split_on 47 p)"
  by (auto simp: cleanAbsoluteDir_def Let_def split: jsval.splits list.splits if_splits)

lemma helper_path_inside:
  assumes "spec \<in> {SSH_AGENT_HELPER_SPEC, UNLOCK_KEY_SPEC, VAULT_HELPER_SPEC}" and "helperPath (JStr (pluginDirFromUrl url)) spec source \<noteq> []"
  defines "p \<equiv> helperPath (JStr (pluginDirFromUrl url)) spec source"
  shows "hd p = 47 \<and> [46] \<notin> set (split_on 47 p) \<and> [46, 46] \<notin> set (split_on 47 p) \<and> (\<exists>dir. p = dir @ [47] @ hs_development spec)"
proof -
  let ?d = "cleanAbsoluteDir (JStr (pluginDirFromUrl url))"
  have p: "?d \<noteq> []" "p = ?d @ [47] @ hs_development spec"
    using assms(2) by (auto simp: p_def helperPath_def helperCandidates_def Let_def split: if_splits list.splits)
  have "[46] \<notin> set (split_on 47 (hs_development spec))" "[46, 46] \<notin> set (split_on 47 (hs_development spec))"
    using assms(1) by (auto simp: SSH_AGENT_HELPER_SPEC_def UNLOCK_KEY_SPEC_def VAULT_HELPER_SPEC_def js_def)
  with p clean_dir_segments [OF refl p(1)] split_on_append [of 47 ?d "hs_development spec"] show ?thesis by auto
qed

section \<open>Requests to the vault helper\<close>

lemma held_secret_round_trip: "heldSecretName (JStr (heldSecretRef name)) = to_str name"
  by (simp add: heldSecretName_def heldSecretRef_def)

lemma json_line: "plain v \<Longrightarrow> 10 \<notin> set (json_str v)"
  using json_str_visible [of v 10] by auto

text \<open>A request to the vault helper is one line, and the helper reads back exactly the command, its
  environment (each value a string or null), what to inject, the capture and the input that were
  given, whatever characters they hold.\<close>
theorem exec_line_framed:
  assumes "plain ident" and "plain argv" and "plain (JObj (vaultEnv env))" and "plain (JObj inject)" and "plain (js_or capture (JStr (js ''plain'')))"
    and "units_ok (to_str stdin)"
  defines "stdin_field \<equiv> (if stdin = JUndef \<or> stdin = JNull \<or> stdin = JStr [] then [] else [(js ''stdin'', JStr (to_str stdin))])"
  shows "\<exists>l. vaultExecLine ident argv env inject capture stdin = l @ [10] \<and> 10 \<notin> set l
    \<and> parseVaultHelperLine (JStr l) =
        Some (JObj ([(js ''type'', JStr (js ''exec'')), (js ''v'', jint 1), (js ''id'', ident), (js ''argv'', argv), (js ''env'', JObj (vaultEnv env)),
          (js ''inject'', JObj inject), (js ''capture'', js_or capture (JStr (js ''plain'')))] @ stdin_field))"
proof -
  let ?fs = "[(js ''id'', ident), (js ''argv'', argv), (js ''env'', JObj (vaultEnv env)), (js ''inject'', JObj inject),
    (js ''capture'', js_or capture (JStr (js ''plain'')))] @ stdin_field"
  let ?o = "[(js ''type'', JStr (js ''exec'')), (js ''v'', jint 1)] @ ?fs"
  have dist: "distinct (map fst ?o)" "\<forall>k\<in>set (map fst ?o). \<not> is_index_key k"
    by (auto simp: stdin_field_def is_digit_def)
  then have put: "put_all (put_all [] [(js ''type'', JStr (js ''exec'')), (js ''v'', jint VAULT_HELPER_PROTOCOL)]) ?fs = ?o"
    using put_all_names [of "[]" "[(js ''type'', JStr (js ''exec'')), (js ''v'', jint 1)]"] put_all_names [of "[(js ''type'', JStr (js ''exec'')), (js ''v'', jint 1)]" ?fs]
    by (simp add: VAULT_HELPER_PROTOCOL_def)
  have pl: "plain (JObj ?o)"
    by (rule plain_JObj_names [OF dist(1)]) (use assms dist(2) in \<open>auto simp: stdin_field_def\<close>)
  have line: "vaultExecLine ident argv env inject capture stdin = json_str (JObj ?o) @ [10]"
    using put by (simp add: vaultExecLine_def vaultHelperLine_def stdin_field_def)
  have "json_str (JObj ?o) \<noteq> []" by simp
  then have "parseVaultHelperLine (JStr (json_str (JObj ?o))) = Some (JObj ?o)"
    using json_parse_stringify [OF pl] by (simp add: parseVaultHelperLine_def str_or_def obj_get_def)
  with line json_line [OF pl] show ?thesis by (intro exI [of _ "json_str (JObj ?o)"]) simp
qed

theorem exec_line_framed_witness:
  "\<exists>l. vaultExecLine (jint 1) (JArr [JStr (js ''bw'')]) [] [] JUndef (JStr [10]) = l @ [10] \<and> 10 \<notin> set l
     \<and> parseVaultHelperLine (JStr l) \<noteq> None"
proof -
  have "units_ok [10]" by (simp add: units_ok_def)
  then show ?thesis
    using exec_line_framed [of "jint 1" "JArr [JStr (js ''bw'')]" "[]" "[]" JUndef "JStr [10]"] by (auto simp: vaultEnv_def put_all_def js_or_def)
qed

end
