(* ===== verification/Routing.thy ===== *)
theory Routing
  imports Agent Unlock
begin

text \<open>
  Routing SSH clients to the agent: the one file the plugin owns in the user's session configuration
  (\<^verbatim>\<open>uwsmInspectCommand\<close>, \<^verbatim>\<open>uwsmWriteCommand\<close>, \<^verbatim>\<open>uwsmRemoveCommand\<close> of \<^verbatim>\<open>BitwardenModel.js\<close>), which may
  have been replaced by anything; how their exits are read; the note about the socket of the current
  session; and the removal of everything the plugin stores. The file is a value of \<open>fragment\<close>, and
  whether each call of a script succeeds is a parameter.
\<close>

section \<open>The file\<close>

definition UWSM_FRAGMENT_REL :: jsstr where "UWSM_FRAGMENT_REL = js ''.config/uwsm/env.d/50-qs-bitwarden-ssh-agent''"

definition uwsmFragmentDisplayPath :: jsstr where "uwsmFragmentDisplayPath = js ''~/'' @ UWSM_FRAGMENT_REL"

definition uwsmFragmentContent :: jsstr where
  "uwsmFragmentContent =
     js ''# Managed by the qs-bitwarden-cli Quickshell plugin.'' @ [10]
     @ js ''# Routes SSH clients to the Bitwarden agent. Delete this file to stop.'' @ [10]
     @ js ''export SSH_AUTH_SOCK=\"${XDG_RUNTIME_DIR}/'' @ RUNTIME_SUBDIR @ js ''/ssh-agent.sock\"'' @ [10]"

datatype fragment = FragAbsent | FragLink | FragOther | FragFile jsstr bool   \<comment> \<open>contents, readable\<close>

definition uwsmExpectedShell :: jsstr where
  \<comment> \<open>\<^verbatim>\<open>__want\<close>: the contents without trailing newlines\<close>
  "uwsmExpectedShell = shell_value uwsmFragmentContent"

definition cat_value :: "jsstr \<Rightarrow> jsstr" where
  \<comment> \<open>\<^verbatim>\<open>$(cat file)\<close>: the shell drops NUL bytes, and the newlines at the end\<close>
  "cat_value content = shell_value (filter (\<lambda>c. c \<noteq> 0) content)"

definition uwsmForeignShell :: "fragment \<Rightarrow> bool" where
  \<comment> \<open>not a regular file, or one that reads as something else\<close>
  "uwsmForeignShell fr =
     (case fr of FragFile content readable \<Rightarrow> (if readable then cat_value content else []) \<noteq> uwsmExpectedShell | _ \<Rightarrow> True)"

definition uwsmInspectCommand :: "bool \<Rightarrow> fragment \<Rightarrow> jsstr" where
  "uwsmInspectCommand home fr =
     (if \<not> home then js ''no-home''
      else (case fr of
              FragLink \<Rightarrow> js ''symlink''
            | FragAbsent \<Rightarrow> js ''absent''
            | FragOther \<Rightarrow> js ''foreign''
            | FragFile content readable \<Rightarrow>
                if \<not> readable then js ''unreadable''
                else if cat_value content = uwsmExpectedShell then js ''managed'' else js ''foreign''))"

record calls =
  c_home :: bool     \<comment> \<open>\<^verbatim>\<open>HOME\<close> is set\<close>
  c_mkdir :: bool
  c_mktemp :: bool
  c_print :: bool    \<comment> \<open>the temporary file was written whole\<close>
  c_chmod :: bool
  c_renamed :: bool  \<comment> \<open>\<^verbatim>\<open>mv\<close> replaced the file\<close>
  c_mv :: bool       \<comment> \<open>\<dots> and said so\<close>
  c_rm :: bool
  c_echo :: bool     \<comment> \<open>the last \<^verbatim>\<open>echo\<close>, whose status is that of the script\<close>

definition uwsmWriteCommand :: "calls \<Rightarrow> fragment \<Rightarrow> nat \<times> jsstr \<times> fragment" where
  \<comment> \<open>status, output, and the file\<close>
  "uwsmWriteCommand c fr =
     (if \<not> c_home c then (3, [], fr)
      else if \<not> c_mkdir c then (4, [], fr)
      else if fr = FragLink then (5, [], fr)
      else if fr \<noteq> FragAbsent \<and> uwsmForeignShell fr then (6, [], fr)
      else if \<not> c_mktemp c then (7, [], fr)
      else if \<not> c_print c \<or> \<not> c_chmod c \<or> \<not> c_renamed c then (7, [], fr)
      else
        (let fr' = FragFile (uwsmExpectedShell @ [10]) True in
         if \<not> c_mv c then (7, [], fr') else if \<not> c_echo c then (1, [], fr') else (0, js ''written'' @ [10], fr')))"

definition uwsmRemoveCommand :: "calls \<Rightarrow> fragment \<Rightarrow> nat \<times> jsstr \<times> fragment" where
  "uwsmRemoveCommand c fr =
     (if \<not> c_home c then (3, [], fr)
      else if fr = FragLink then (5, [], fr)
      else if fr = FragAbsent then (if c_echo c then (0, js ''absent'' @ [10], fr) else (0, [], fr))
      else if uwsmForeignShell fr then (6, [], fr)
      else if \<not> c_rm c then (7, [], fr)
      else if c_echo c then (0, js ''removed'' @ [10], FragAbsent) else (1, [], FragAbsent))"

section \<open>Reading the exits\<close>

record action_result =
  ar_ok :: bool
  ar_code :: jsstr
  ar_message :: jsstr

definition parseExitCodeResult ::
  "jsnum \<Rightarrow> jsstr \<Rightarrow> (jsstr \<Rightarrow> action_result option) \<Rightarrow> (nat \<rightharpoonup> jsstr \<times> jsstr) \<Rightarrow> jsstr \<Rightarrow> action_result" where
  "parseExitCodeResult exitCode stdout parseSuccess failureMap defaultFailureMessage =
     (let cd = num_floor exitCode; out = trim stdout;
          fail = (case cd of
                    Fin q \<Rightarrow> if 0 \<le> q then (case failureMap (nat \<lfloor>q\<rfloor>) of Some (k, m) \<Rightarrow> \<lparr>ar_ok = False, ar_code = k, ar_message = m\<rparr>
                                             | None \<Rightarrow> \<lparr>ar_ok = False, ar_code = js ''FAILED'', ar_message = defaultFailureMessage\<rparr>)
                             else \<lparr>ar_ok = False, ar_code = js ''FAILED'', ar_message = defaultFailureMessage\<rparr>
                  | _ \<Rightarrow> \<lparr>ar_ok = False, ar_code = js ''FAILED'', ar_message = defaultFailureMessage\<rparr>)
      in if cd = Fin 0 then (case parseSuccess out of Some r \<Rightarrow> r | None \<Rightarrow> fail) else fail)"

definition UWSM_LOGIN_NOTE :: jsstr where
  "UWSM_LOGIN_NOTE =
     js ''UWSM applies this at your next graphical login, so log out and log back in. ''
     @ js ''Restarting the shell is not enough: it cannot change the environment of programs that are already running.''"

definition uwsm_failures :: "nat \<rightharpoonup> jsstr \<times> jsstr" where
  "uwsm_failures =
     [3 \<mapsto> (js ''NO_HOME'', js ''No HOME is set, so there is nowhere to put a routing file.''),
      4 \<mapsto> (js ''PARENT'', js ''Could not create '' @ uwsmFragmentDisplayPath @ [39] @ js ''s parent directory.''),
      5 \<mapsto> (js ''SYMLINK'', uwsmFragmentDisplayPath @ js '' is a symlink. This plugin will not write through it or delete it; sort that path out yourself first.''),
      6 \<mapsto> (js ''FOREIGN'', uwsmFragmentDisplayPath
              @ js '' already exists and is not this plugin's file, so it was left untouched. Remove or edit it yourself to change routing.'')]"

definition parseUwsmActionResult :: "jsnum \<Rightarrow> jsstr \<Rightarrow> action_result" where
  "parseUwsmActionResult exitCode stdout =
     parseExitCodeResult exitCode stdout
       (\<lambda>out.
          if out = js ''written'' then
            Some \<lparr>ar_ok = True, ar_code = js ''WRITTEN'', ar_message = js ''Routing file written to '' @ uwsmFragmentDisplayPath @ js ''. '' @ UWSM_LOGIN_NOTE\<rparr>
          else if out = js ''removed'' then
            Some \<lparr>ar_ok = True, ar_code = js ''REMOVED'',
              ar_message = js ''Routing file removed. Programs already running keep the old value until you log out and back in.''\<rparr>
          else if out = js ''absent'' then
            Some \<lparr>ar_ok = True, ar_code = js ''ABSENT'', ar_message = js ''There was no routing file to remove.''\<rparr>
          else None)
       uwsm_failures (js ''Could not update '' @ uwsmFragmentDisplayPath @ js ''.'')"

record inspection =
  in_state :: jsstr
  in_removable :: bool
  in_message :: jsstr

definition parseUwsmInspection :: "jsval \<Rightarrow> inspection" where
  "parseUwsmInspection raw =
     (let verdict = trim (text_of raw) in
      if verdict = js ''managed'' then
        \<lparr>in_state = verdict, in_removable = True,
         in_message = js ''Routing is set up. '' @ uwsmFragmentDisplayPath @ js '' is the file this plugin wrote, and turning the agent off removes it.''\<rparr>
      else if verdict = js ''absent'' then
        \<lparr>in_state = verdict, in_removable = False,
         in_message = js ''No routing file. SSH clients will keep using whatever agent your session already has.''\<rparr>
      else if verdict = js ''symlink'' then
        \<lparr>in_state = verdict, in_removable = False,
         in_message = uwsmFragmentDisplayPath
           @ js '' is a symlink, so this plugin will not write to it or remove it. Replace it with a regular file yourself if you want it managed here.''\<rparr>
      else if verdict = js ''unreadable'' then
        \<lparr>in_state = verdict, in_removable = False,
         in_message = uwsmFragmentDisplayPath @ js '' exists but cannot be read, so it is left alone.''\<rparr>
      else if verdict = js ''no-home'' then
        \<lparr>in_state = verdict, in_removable = False, in_message = js ''No HOME is set, so there is nowhere to put a routing file.''\<rparr>
      else
        \<lparr>in_state = js ''foreign'', in_removable = False,
         in_message = uwsmFragmentDisplayPath
           @ js '' already exists and is not the file this plugin writes, so it is left untouched. Remove or edit it yourself to change routing.''\<rparr>)"

section \<open>What the panel says about routing\<close>

record notice =
  no_text :: jsstr
  no_urgent :: bool

definition sshAgentRoutingNotice :: "jsstr \<Rightarrow> jsstr \<Rightarrow> notice" where
  \<comment> \<open>the states of the file and of this session; an empty one is unknown\<close>
  "sshAgentRoutingNotice fragmentState routingState =
     (if fragmentState = [] \<or> fragmentState = js ''unknown'' \<or> fragmentState = js ''no-home'' then \<lparr>no_text = [], no_urgent = False\<rparr>
      else if fragmentState \<noteq> js ''managed'' then
        \<lparr>no_text = js ''SSH clients are not routed here, and will not be at your next login.'', no_urgent = True\<rparr>
      else if routingState \<noteq> js ''matches'' then
        \<lparr>no_text = js ''Routing is written. It takes effect at your next login.'', no_urgent = False\<rparr>
      else \<lparr>no_text = [], no_urgent = False\<rparr>)"

definition SSH_AUTH_SOCK_OWNERS :: "((jsstr \<Rightarrow> bool) \<times> jsstr) list" where
  "SSH_AUTH_SOCK_OWNERS =
     [(\<lambda>v. contains (js ''/gcr/'') (to_lower v) \<or> contains (js ''/keyring/'') (to_lower v), js ''GNOME Keyring''),
      (\<lambda>v. contains (js ''1password'') (to_lower v), js ''1Password''),
      (\<lambda>v. contains (js ''gpg-agent'') (to_lower v), js ''GPG Agent''),
      (\<lambda>v. contains (js ''bitwarden'') (to_lower v), js ''Bitwarden Desktop''),
      (\<lambda>v. starts_with (js ''/tmp/ssh-'') v
           \<and> (let r = drop 9 v; w = takeWhile (\<lambda>c. c \<noteq> 47) r in w \<noteq> [] \<and> starts_with (js ''/agent.'') (drop (length w) r)), js ''OpenSSH ssh-agent'')]"

record diagnostic =
  di_state :: jsstr
  di_owner :: jsstr
  di_message :: jsstr

definition sshAuthSockDiagnostic :: "jsval \<Rightarrow> jsval \<Rightarrow> diagnostic" where
  \<comment> \<open>without the constant \<open>terminalCheck\<close>\<close>
  "sshAuthSockDiagnostic sock runtimeDir =
     (let v = text_of sock; ours = sshAgentSocketPath runtimeDir in
      if ours = [] then
        \<lparr>di_state = js ''unknown'', di_owner = [], di_message = js ''Without a runtime directory there is no socket path to compare against.''\<rparr>
      else if v = [] then
        \<lparr>di_state = js ''unset'', di_owner = [],
         di_message = js ''This session has no SSH_AUTH_SOCK, so SSH clients started from it have no agent yet.''\<rparr>
      else if v = ours then
        \<lparr>di_state = js ''matches'', di_owner = [],
         di_message = js ''This session points at the Bitwarden agent. Terminals you opened earlier may not; check with:''\<rparr>
      else
        (let owner = (case filter (\<lambda>(re, name). re v) SSH_AUTH_SOCK_OWNERS of [] \<Rightarrow> [] | (re, name) # r \<Rightarrow> name) in
         \<lparr>di_state = js ''elsewhere'', di_owner = owner,
          di_message = js ''This session points at '' @ (if owner = [] then js ''another agent'' else owner)
            @ js '' instead of the Bitwarden agent. Changing that is your choice; check any terminal with:''\<rparr>))"

section \<open>Removing what the plugin stores\<close>

record stored_data =
  sd_keyring :: bool        \<comment> \<open>\<^verbatim>\<open>secret-tool clear\<close> succeeds\<close>
  sd_state :: "bool \<times> bool"  \<comment> \<open>the state directory exists, and \<^verbatim>\<open>rm\<close> on it succeeds\<close>
  sd_accounts :: bool       \<comment> \<open>there are account directories\<close>
  sd_data :: "bool \<times> bool"

definition removed_parts :: "stored_data \<Rightarrow> jsstr list" where
  "removed_parts d =
     (if sd_keyring d then [js ''keyring''] else []) @ (if fst (sd_state d) \<and> snd (sd_state d) then [js ''state''] else [])
     @ (if sd_accounts d then [js ''accounts''] else []) @ (if fst (sd_data d) \<and> snd (sd_data d) then [js ''data''] else [])"

definition pluginDataRemoveCommand :: "bool \<Rightarrow> stored_data \<Rightarrow> nat \<times> jsstr" where
  "pluginDataRemoveCommand home d =
     (if \<not> home then (3, [])
      else (0, js ''removed'' @ concat (map (\<lambda>w. 32 # w) (removed_parts d)) @ [10]))"

definition parsePluginDataRemoval :: "jsnum \<Rightarrow> jsval \<Rightarrow> bool \<times> jsstr" where
  "parsePluginDataRemoval exitCode stdout =
     (let cd = num_floor exitCode; line = trim (text_of stdout);
          cleared = (if contains (js ''keyring'') line then [js ''keyring entries''] else [])
            @ (if contains (js ''state'') line then [js ''learned suggestions''] else [])
            @ (if contains (js ''data'') line then [js ''exported public keys''] else [])
            @ (if contains (js ''accounts'') line then [js ''the sign-ins of accounts added in the panel''] else [])
      in if cd = Fin 3 then (False, js ''No HOME is set, so there is nothing to clear.'')
         else if cd \<noteq> Fin 0 then (False, js ''Could not remove the plugin's stored data.'')
         else if cleared = [] then (True, js ''Nothing was left to remove.'')
         else (True, js ''Removed '' @ join (js '', '') cleared @ js ''. Your vault is untouched; run `bw logout` separately if you want that too.''))"

section \<open>The plugin touches only its own file\<close>

datatype routing_op = RWrite calls | RRemove calls

definition routing_run :: "routing_op \<Rightarrow> fragment \<Rightarrow> nat \<times> jsstr \<times> fragment" where
  "routing_run op fr = (case op of RWrite c \<Rightarrow> uwsmWriteCommand c fr | RRemove c \<Rightarrow> uwsmRemoveCommand c fr)"

definition routing_step :: "fragment \<Rightarrow> routing_op \<Rightarrow> fragment" where
  "routing_step fr op = snd (snd (routing_run op fr))"

text \<open>Whose file it is, said without the script: the plugin's is a readable regular file with the plugin's text, but for
  NUL bytes, and more or fewer newlines at its end.\<close>

definition plugins_text :: "jsstr \<Rightarrow> bool" where
  "plugins_text content \<longleftrightarrow> (\<exists>k. filter (\<lambda>c. c \<noteq> 0) content = butlast uwsmFragmentContent @ replicate k 10)"

definition someone_elses :: "fragment \<Rightarrow> bool" where
  "someone_elses fr =
     (case fr of FragAbsent \<Rightarrow> False | FragLink \<Rightarrow> True | FragOther \<Rightarrow> True | FragFile content readable \<Rightarrow> \<not> readable \<or> \<not> plugins_text content)"

lemma content_whole: "uwsmExpectedShell @ [10] = uwsmFragmentContent"
  by (simp add: uwsmExpectedShell_def uwsmFragmentContent_def shell_value_def js_def)

lemma shell_value_want: "shell_value uwsmFragmentContent = uwsmExpectedShell"
  by (simp add: uwsmExpectedShell_def)

lemma expected_text: "uwsmExpectedShell = butlast uwsmFragmentContent" "uwsmExpectedShell \<noteq> []" "last uwsmExpectedShell \<noteq> 10" "0 \<notin> set uwsmFragmentContent"
  by (simp_all add: uwsmExpectedShell_def uwsmFragmentContent_def shell_value_def js_def RUNTIME_SUBDIR_def)

lemma shell_value_eq:
  assumes "w \<noteq> []" and "last w \<noteq> 10"
  shows "shell_value s = w \<longleftrightarrow> (\<exists>k. s = w @ replicate k 10)"
proof
  let ?k = "rev (takeWhile (\<lambda>c. c = 10) (rev s))"
  have "set ?k \<subseteq> {10}" by (auto dest: set_takeWhileD)
  then have "replicate (length ?k) 10 = ?k" by (intro replicate_length_same) auto
  moreover have "s = shell_value s @ ?k" by (metis rev_append rev_rev_ident shell_value_def takeWhile_dropWhile_id)
  ultimately show "shell_value s = w \<Longrightarrow> \<exists>k. s = w @ replicate k 10" by metis
next
  obtain v x where w: "w = v @ [x]" using assms(1) by (cases w rule: rev_cases) auto
  assume "\<exists>k. s = w @ replicate k 10"
  then show "shell_value s = w" using assms(2) by (auto simp: w shell_value_def dropWhile_append)
qed

lemma foreign_iff: "fr \<noteq> FragAbsent \<Longrightarrow> uwsmForeignShell fr = someone_elses fr"
  using expected_text(1,2) shell_value_eq [OF expected_text(2,3)]
  by (auto simp: uwsmForeignShell_def someone_elses_def plugins_text_def cat_value_def split: fragment.splits)

lemma foreign_present: "someone_elses fr \<Longrightarrow> fr \<noteq> FragAbsent \<and> uwsmForeignShell fr"
  using foreign_iff [of fr] by (cases "fr = FragAbsent") (auto simp: someone_elses_def)

lemma foreign_stays: "someone_elses fr \<Longrightarrow> routing_step fr op = fr"
  by (drule foreign_present)
    (auto simp: routing_step_def routing_run_def uwsmWriteCommand_def uwsmRemoveCommand_def split: routing_op.splits)

lemma foreign_run: "someone_elses fr \<Longrightarrow> foldl routing_step fr ops = fr"
  by (induction ops) (simp_all add: foreign_stays)

lemma action_failed [simp]:
  "\<not> ar_ok (parseUwsmActionResult (Fin 1) out)"
  "\<not> ar_ok (parseUwsmActionResult (Fin 3) out)" "\<not> ar_ok (parseUwsmActionResult (Fin 4) out)" "\<not> ar_ok (parseUwsmActionResult (Fin 5) out)"
  "\<not> ar_ok (parseUwsmActionResult (Fin 6) out)" "\<not> ar_ok (parseUwsmActionResult (Fin 7) out)"
  by (simp_all add: parseUwsmActionResult_def parseExitCodeResult_def Let_def split: option.splits)

lemma action_done:
  "parseUwsmActionResult (numi 0) (js ''written'' @ [10]) = \<lparr>ar_ok = True, ar_code = js ''WRITTEN'',
     ar_message = js ''Routing file written to '' @ uwsmFragmentDisplayPath @ js ''. '' @ UWSM_LOGIN_NOTE\<rparr>"
  "ar_code (parseUwsmActionResult (numi 0) (js ''removed'' @ [10])) = js ''REMOVED'' \<and> ar_ok (parseUwsmActionResult (numi 0) (js ''removed'' @ [10]))"
  "ar_code (parseUwsmActionResult (numi 0) (js ''absent'' @ [10])) = js ''ABSENT'' \<and> ar_ok (parseUwsmActionResult (numi 0) (js ''absent'' @ [10]))"
proof -
  have "trim (js ''written'' @ [10]) = js ''written''" "trim (js ''removed'' @ [10]) = js ''removed''" "trim (js ''absent'' @ [10]) = js ''absent''"
    by (simp_all add: trim_def trim_start_def trim_end_def is_ws_def js_def)
  then show "parseUwsmActionResult (numi 0) (js ''written'' @ [10]) = \<lparr>ar_ok = True, ar_code = js ''WRITTEN'',
     ar_message = js ''Routing file written to '' @ uwsmFragmentDisplayPath @ js ''. '' @ UWSM_LOGIN_NOTE\<rparr>"
    "ar_code (parseUwsmActionResult (numi 0) (js ''removed'' @ [10])) = js ''REMOVED'' \<and> ar_ok (parseUwsmActionResult (numi 0) (js ''removed'' @ [10]))"
    "ar_code (parseUwsmActionResult (numi 0) (js ''absent'' @ [10])) = js ''ABSENT'' \<and> ar_ok (parseUwsmActionResult (numi 0) (js ''absent'' @ [10]))"
    by (simp_all add: parseUwsmActionResult_def parseExitCodeResult_def Let_def)
qed

definition truthful :: "routing_op \<Rightarrow> fragment \<Rightarrow> bool" where
  \<comment> \<open>what the panel is told about an operation: done means done; failed means that nothing changed, or that the
    plugin's own file was written or removed and this could not be told\<close>
  "truthful op fr =
     (case routing_run op fr of (rc, out, fr') \<Rightarrow>
        if ar_ok (parseUwsmActionResult (numi (int rc)) out)
        then (case op of
                RWrite c \<Rightarrow> fr' = FragFile uwsmFragmentContent True \<and> in_state (parseUwsmInspection (JStr (uwsmInspectCommand True fr'))) = js ''managed''
              | RRemove c \<Rightarrow> fr' = FragAbsent)
        else fr' = fr \<or> (\<not> someone_elses fr \<and> (case op of RWrite c \<Rightarrow> fr' = FragFile uwsmFragmentContent True | RRemove c \<Rightarrow> fr' = FragAbsent)))"

lemma managed_read: "in_state (parseUwsmInspection (JStr (js ''managed''))) = js ''managed''"
proof -
  have "trim (js ''managed'') = js ''managed''" by (simp add: trim_def trim_start_def trim_end_def is_ws_def js_def)
  then show ?thesis by (simp add: parseUwsmInspection_def Let_def)
qed

lemma cat_own: "cat_value uwsmFragmentContent = uwsmExpectedShell"
proof -
  have "filter (\<lambda>c. c \<noteq> 0) uwsmFragmentContent = uwsmFragmentContent"
    using expected_text(4) by (metis (mono_tags, lifting) filter_True)
  then show ?thesis by (simp add: cat_value_def uwsmExpectedShell_def)
qed

lemma write_truthful: "truthful (RWrite c) fr"
proof (cases "someone_elses fr")
  case True
  from foreign_present [OF this] show ?thesis by (auto simp: truthful_def routing_run_def uwsmWriteCommand_def)
next
  case False
  then show ?thesis using action_done(1) managed_read
    by (auto simp: truthful_def routing_run_def uwsmWriteCommand_def content_whole uwsmInspectCommand_def cat_own Let_def)
qed

lemma remove_truthful: "truthful (RRemove c) fr"
proof (cases "someone_elses fr")
  case True
  from foreign_present [OF this] show ?thesis by (auto simp: truthful_def routing_run_def uwsmRemoveCommand_def)
next
  case False
  then show ?thesis using action_done(2,3) by (auto simp: truthful_def routing_run_def uwsmRemoveCommand_def)
qed

text \<open>C34: The plugin only ever changes its own routing file: whatever else is at that path (a link, a directory, an
  unreadable file, a file with any other text than the plugin's, trailing newlines and NUL bytes aside) is the same
  after any number of writes and removals, whichever of their calls fail. A write or removal that the panel
  reports as done has left exactly the plugin's text, or no file; after one that it reports as failed the file is
  as it was, or it was the plugin's own (or none) and the change was made without being told. Nobody else
  changes the path while a script runs.\<close>
theorem routing_file_safe:
  "(someone_elses fr \<longrightarrow> foldl routing_step fr ops = fr) \<and> truthful op (foldl routing_step fr ops)"
  using foreign_run [of fr ops] write_truthful remove_truthful by (cases op) auto

abbreviation all_work :: calls where
  "all_work \<equiv> \<lparr>c_home = True, c_mkdir = True, c_mktemp = True, c_print = True, c_chmod = True, c_renamed = True, c_mv = True, c_rm = True, c_echo = True\<rparr>"

theorem routing_file_safe_witness:
  "foldl routing_step (FragFile (js ''export SSH_AUTH_SOCK=/tmp/mine'') True) [RWrite all_work, RRemove all_work] = FragFile (js ''export SSH_AUTH_SOCK=/tmp/mine'') True"
proof -
  have "butlast uwsmFragmentContent \<noteq> []" "hd (butlast uwsmFragmentContent) = 35"
    by (simp_all add: uwsmFragmentContent_def js_def)
  then have "hd (butlast uwsmFragmentContent @ replicate k 10) = 35" for k by simp
  moreover have "hd (filter (\<lambda>c. c \<noteq> 0) (js ''export SSH_AUTH_SOCK=/tmp/mine'')) = 101" by (simp add: js_def)
  ultimately have "someone_elses (FragFile (js ''export SSH_AUTH_SOCK=/tmp/mine'') True)"
    unfolding someone_elses_def plugins_text_def by fastforce
  then show ?thesis
    using routing_file_safe [of "FragFile (js ''export SSH_AUTH_SOCK=/tmp/mine'') True" "[RWrite all_work, RRemove all_work]" "RRemove all_work"] by blast
qed

text \<open>The comment says that anything that is not byte for byte the plugin's is left alone; a file with more newlines at
  its end counts as the plugin's.\<close>
theorem not_byte_for_byte:
  "uwsmFragmentContent @ [10] \<noteq> uwsmFragmentContent
   \<and> snd (snd (uwsmRemoveCommand all_work (FragFile (uwsmFragmentContent @ [10]) True))) = FragAbsent"
proof -
  have "filter (\<lambda>c. c \<noteq> 0) uwsmFragmentContent = butlast uwsmFragmentContent @ [10]"
    using expected_text(4) content_whole [unfolded expected_text(1)] by (metis (mono_tags, lifting) filter_True)
  then have "filter (\<lambda>c. c \<noteq> 0) (uwsmFragmentContent @ [10]) = butlast uwsmFragmentContent @ replicate 2 10" by (simp add: numeral_2_eq_2)
  then have "plugins_text (uwsmFragmentContent @ [10])" unfolding plugins_text_def by blast
  then show ?thesis using foreign_iff [of "FragFile (uwsmFragmentContent @ [10]) True"] by (simp add: uwsmRemoveCommand_def someone_elses_def)
qed

section \<open>What the removal says\<close>

text \<open>A removal that failed is not told apart from one that had nothing to do, and sign-ins are counted
  before their directory is deleted.\<close>
theorem failed_removal_not_told:
  "parsePluginDataRemoval (numi 0) (JStr (snd (pluginDataRemoveCommand True
       \<lparr>sd_keyring = False, sd_state = (True, False), sd_accounts = False, sd_data = (True, False)\<rparr>))) = (True, js ''Nothing was left to remove.'')
   \<and> parsePluginDataRemoval (numi 0) (JStr (snd (pluginDataRemoveCommand True
       \<lparr>sd_keyring = False, sd_state = (False, False), sd_accounts = True, sd_data = (True, False)\<rparr>)))
     = (True, js ''Removed the sign-ins of accounts added in the panel. Your vault is untouched; run `bw logout` separately if you want that too.'')"
  by (simp add: parsePluginDataRemoval_def pluginDataRemoveCommand_def removed_parts_def contains_def trim_def trim_start_def trim_end_def is_ws_def js_def)

end
