(* ===== verification/Export.thy ===== *)
theory Export
  imports Attachments Routing
begin

text \<open>
  The public-key files of \<^verbatim>\<open>BitwardenModel.js\<close> (for Git's SSH signing): which keys are exported and
  under which names, the payload for the writing script, the script \<open>SSH_EXPORT_WRITE_SCRIPT\<close> as a
  function of the directory and of which calls succeed, and the script that clears the directory.
\<close>

section \<open>Names and keys\<close>

definition sshExportFileName :: "jsstr \<Rightarrow> jsstr \<Rightarrow> (jsstr \<rightharpoonup> jsstr) \<Rightarrow> jsstr \<times> (jsstr \<rightharpoonup> jsstr)" where
  \<comment> \<open>the name, and the names taken, each by an item\<close>
  "sshExportFileName name itemId used =
     (let base0 = safeAttachmentFileName name;
          base = (if base0 = js ''attachment'' then js ''ssh-key'' else base0);
          suffix = take 64 (safeAttachmentFileName itemId);
          plain_name = base @ js ''.pub'';
          candidate = (if used plain_name \<noteq> None \<and> used plain_name \<noteq> Some itemId
                       then base @ [46] @ (if suffix = [] then js ''key'' else suffix) @ js ''.pub'' else plain_name)
      in (candidate, used(candidate \<mapsto> itemId)))"

definition blob_unit :: "nat \<Rightarrow> bool" where
  "blob_unit c \<longleftrightarrow> is_alpha c \<or> is_digit c \<or> c = 43 \<or> c = 47 \<or> c = 61"

definition SSH_PUBLIC_KEY_RE :: "jsstr \<Rightarrow> bool" where
  \<comment> \<open>\<^verbatim>\<open>/^(ssh-ed25519|ssh-rsa) [A-Za-z0-9+/=]+(\s|$)/\<close>\<close>
  "SSH_PUBLIC_KEY_RE s \<longleftrightarrow>
     list_ex (\<lambda>p. starts_with p s
         \<and> (let b = takeWhile blob_unit (drop (length p) s); r = drop (length p + length b) s in b \<noteq> [] \<and> (r = [] \<or> is_ws (hd r))))
       [js ''ssh-ed25519 '', js ''ssh-rsa '']"

record identity_key =
  ik_itemId :: jsstr
  ik_name :: jsstr
  ik_fingerprint :: jsstr
  ik_publicKey :: jsstr

definition export_identity :: "jsval \<Rightarrow> identity_key option" where
  "export_identity v =
     (let i = js_or v (JObj []); key = trim (str_or (get_prop i (js ''publicKey'')) []); iid = str_or (get_prop i (js ''itemId'')) [] in
      if \<not> SSH_PUBLIC_KEY_RE key \<or> contains (js ''PRIVATE'') key \<or> iid = [] then None
      else Some \<lparr>ik_itemId = iid, ik_name = str_or (get_prop i (js ''name'')) [], ik_fingerprint = str_or (get_prop i (js ''fingerprint'')) [],
                 ik_publicKey = key\<rparr>)"

definition sshExportIdentities :: "jsval \<Rightarrow> identity_key list" where
  "sshExportIdentities identities = (case identities of JArr xs \<Rightarrow> List.map_filter export_identity xs | _ \<Rightarrow> [])"

fun export_entries :: "identity_key list \<Rightarrow> (jsstr \<rightharpoonup> jsstr) \<Rightarrow> (jsstr \<times> jsstr) list" where
  "export_entries [] used = []"
| "export_entries (i # is) used =
     (case sshExportFileName (ik_name i) (ik_itemId i) used of (f, used') \<Rightarrow> (f, ik_publicKey i) # export_entries is used')"

definition payload_value :: "(jsstr \<times> jsstr) list \<Rightarrow> jsval" where
  "payload_value es = JArr (map (\<lambda>(f, k). JObj [(js ''fileName'', JStr f), (js ''publicKey'', JStr k)]) es)"

definition sshExportPayload :: "jsval \<Rightarrow> jsstr" where
  "sshExportPayload identities = json_str (payload_value (export_entries (sshExportIdentities identities) Map.empty))"

section \<open>The writing script\<close>

datatype dirent = DFile jsstr | DLink | DDir

type_synonym directory = "jsstr \<rightharpoonup> dirent"

text \<open>Names in the directory are those that \<^verbatim>\<open>readdirSync\<close> returns. Names and contents are written as UTF-8, which has no
  surrogate without its other half: Node writes U+FFFD instead.\<close>

definition alone :: "nat \<Rightarrow> nat" where
  \<comment> \<open>a unit that is not part of a pair\<close>
  "alone c = (if is_high_surrogate c \<or> is_low_surrogate c then 65533 else c)"

fun on_disk :: "jsstr \<Rightarrow> jsstr" where
  "on_disk [] = []"
| "on_disk [c] = [alone c]"
| "on_disk (c # d # ds) = (if is_high_surrogate c \<and> is_low_surrogate d then c # d # on_disk ds else alone c # on_disk (d # ds))"

record export_io =
  io_write :: "nat \<Rightarrow> bool"     \<comment> \<open>the calls for the entry with this number succeed\<close>
  io_temp :: "nat \<Rightarrow> (jsstr \<times> jsstr) option"  \<comment> \<open>the temporary file that a failing entry leaves, if it cannot be removed\<close>
  io_readdir :: bool
  io_unlink :: "jsstr \<Rightarrow> bool"  \<comment> \<open>a failing removal is ignored\<close>

definition checked_entry :: "jsval \<Rightarrow> (jsstr \<times> jsstr) option" where
  \<comment> \<open>the checks of one entry of the payload\<close>
  "checked_entry e =
     (if nullish e then None
      else (case (get_prop e (js ''fileName''), get_prop e (js ''publicKey'')) of
              (JStr f, JStr k) \<Rightarrow> if f = [] \<or> f = [46] \<or> f = [46, 46] \<or> 47 \<in> set f \<or> 0 \<in> set f then None else Some (f, k)
            | _ \<Rightarrow> None))"

fun write_entries :: "export_io \<Rightarrow> nat \<Rightarrow> (jsstr \<times> jsstr) list \<Rightarrow> directory \<Rightarrow> bool \<times> directory" where
  \<comment> \<open>each file is written beside and renamed: all of it, or nothing; a directory is not replaced\<close>
  "write_entries io n [] d = (True, d)"
| "write_entries io n ((f, k) # es) d =
     (if \<not> io_write io n \<or> d (on_disk f) = Some DDir
      then (False, case io_temp io n of None \<Rightarrow> d | Some (t, b) \<Rightarrow> d(js ''.export.'' @ t \<mapsto> DFile b))
      else write_entries io (Suc n) es (d(on_disk f \<mapsto> DFile (on_disk (k @ [10])))))"

definition ends_with :: "jsstr \<Rightarrow> jsstr \<Rightarrow> bool" where
  "ends_with e s \<longleftrightarrow> length e \<le> length s \<and> drop (length s - length e) s = e"

definition visible_pub :: "jsstr \<Rightarrow> bool" where
  "visible_pub n \<longleftrightarrow> n \<noteq> [] \<and> hd n \<noteq> 46 \<and> ends_with (js ''.pub'') n"

definition left_over :: "jsstr \<Rightarrow> bool" where
  "left_over n \<longleftrightarrow> starts_with (js ''.export.'') n"

definition prune :: "export_io \<Rightarrow> jsstr set \<Rightarrow> directory \<Rightarrow> directory" where
  "prune io keep d =
     (\<lambda>n. if ((visible_pub n \<and> n \<notin> keep) \<or> left_over n) \<and> io_unlink io n \<and> d n \<noteq> Some DDir then None else d n)"

definition SSH_EXPORT_WRITE_SCRIPT :: "export_io \<Rightarrow> jsstr \<Rightarrow> directory \<Rightarrow> bool \<times> directory" where
  \<comment> \<open>whether it exits 0, and the directory\<close>
  "SSH_EXPORT_WRITE_SCRIPT io stdin d =
     (case json_parse stdin of
        Some (JArr es) \<Rightarrow>
          if list_ex (\<lambda>e. checked_entry e = None) es then (False, d)
          else
            (let fs = map (\<lambda>e. the (checked_entry e)) es in
             case write_entries io 0 fs d of (ok, d') \<Rightarrow> if ok \<and> io_readdir io then (True, prune io (fst ` set fs) d') else (False, d'))
      | _ \<Rightarrow> (False, d))"

datatype export_dir = NoDataHome | UnsafeDir | ExportDir "directory option"

definition sshExportCommand :: "export_io \<Rightarrow> bool \<Rightarrow> jsstr \<Rightarrow> export_dir \<Rightarrow> nat \<times> jsstr \<times> export_dir" where
  \<comment> \<open>the flag: making and restricting the directory succeeds\<close>
  "sshExportCommand io made stdin e =
     (case e of
        NoDataHome \<Rightarrow> (3, [], e)
      | UnsafeDir \<Rightarrow> (5, [], e)
      | ExportDir d \<Rightarrow>
          if \<not> made then (5, [], e)
          else (case SSH_EXPORT_WRITE_SCRIPT io stdin (case d of None \<Rightarrow> Map.empty | Some m \<Rightarrow> m) of
                  (ok, d') \<Rightarrow> if ok then (0, js ''exported'' @ [10], ExportDir (Some d')) else (7, [], ExportDir (Some d'))))"

definition sshExportClearCommand :: "export_dir \<Rightarrow> nat \<times> jsstr \<times> export_dir" where
  "sshExportClearCommand e =
     (case e of
        NoDataHome \<Rightarrow> (3, [], e)
      | UnsafeDir \<Rightarrow> (5, [], e)
      | ExportDir None \<Rightarrow> (0, js ''cleared'' @ [10], e)
      | ExportDir (Some d) \<Rightarrow>
          (let d' = (\<lambda>n. if (visible_pub n \<or> left_over n) \<and> d n \<noteq> Some DDir then None else d n)
           in (0, js ''cleared'' @ [10], ExportDir (if d' = Map.empty then None else Some d'))))"

definition parseSshExportResult :: "jsnum \<Rightarrow> jsstr \<Rightarrow> action_result" where
  "parseSshExportResult exitCode stdout =
     parseExitCodeResult exitCode stdout
       (\<lambda>out. if out = js ''exported'' \<or> out = js ''cleared'' \<or> out = [] then Some \<lparr>ar_ok = True, ar_code = js ''OK'', ar_message = []\<rparr> else None)
       [3 \<mapsto> (js ''NO_HOME'', js ''No data directory is set, so public key files cannot be written.''),
        5 \<mapsto> (js ''UNSAFE_DIR'', js ''~/.local/share/qs-bitwarden-cli/ssh is not a directory this plugin will write to. Remove or rename whatever is at that path.'')]
       (js ''Could not write public key files to ~/.local/share/qs-bitwarden-cli/ssh.'')"

section \<open>What is exported\<close>

lemma exported_public:
  assumes "i \<in> set (sshExportIdentities ids)"
  shows "SSH_PUBLIC_KEY_RE (ik_publicKey i) \<and> \<not> contains (js ''PRIVATE'') (ik_publicKey i) \<and> ik_itemId i \<noteq> []"
  using assms by (auto simp: sshExportIdentities_def export_identity_def map_filter_def Let_def split: jsval.splits if_splits)

lemma entries_keys: "(f, k) \<in> set (export_entries is used) \<Longrightarrow> \<exists>i\<in>set is. k = ik_publicKey i"
  by (induction "is" arbitrary: used) (auto split: prod.splits)

lemma safe_name:
  "safeAttachmentFileName raw \<noteq> [] \<and> hd (safeAttachmentFileName raw) \<noteq> 46 \<and> 47 \<notin> set (safeAttachmentFileName raw) \<and> 0 \<notin> set (safeAttachmentFileName raw)"
  using attachment_name_inert [of raw] by (auto simp: Let_def list_ex_iff is_control_def name_lead_def)

lemma ends_with_append: "ends_with e (s @ e)"
  by (simp add: ends_with_def)

lemma export_name_visible:
  assumes "sshExportFileName name iid used = (f, used')"
  shows "visible_pub f \<and> 47 \<notin> set f \<and> 0 \<notin> set f"
proof -
  define b where "b = (if safeAttachmentFileName name = js ''attachment'' then js ''ssh-key'' else safeAttachmentFileName name)"
  have b: "b \<noteq> []" "hd b \<noteq> 46" "47 \<notin> set b" "0 \<notin> set b" using safe_name [of name] by (auto simp: b_def js_def)
  have t: "47 \<notin> set (take 64 (safeAttachmentFileName iid))" "0 \<notin> set (take 64 (safeAttachmentFileName iid))"
    using safe_name [of iid] by (meson in_set_takeD)+
  have "f = b @ js ''.pub'' \<or> (\<exists>s. f = (b @ [46] @ s) @ js ''.pub'' \<and> 47 \<notin> set s \<and> 0 \<notin> set s)"
    using assms t by (auto simp: sshExportFileName_def Let_def b_def js_def split: if_splits)
  moreover have "47 \<notin> set (js ''.pub'')" "0 \<notin> set (js ''.pub'')" by (simp_all add: js_def)
  moreover have "ends_with (js ''.pub'') (b @ 46 # s @ js ''.pub'')" for s using ends_with_append [of "js ''.pub''" "b @ 46 # s"] by simp
  ultimately show ?thesis using b ends_with_append [of "js ''.pub''" b] by (auto simp: visible_pub_def)
qed

lemma entries_visible: "(f, k) \<in> set (export_entries is used) \<Longrightarrow> visible_pub f \<and> 47 \<notin> set f \<and> 0 \<notin> set f"
  by (induction "is" arbitrary: used) (auto split: prod.splits dest!: sym [of "(_, _)" "sshExportFileName _ _ _"] export_name_visible)

section \<open>Names on the disk\<close>

lemma on_disk_append: "\<not> is_low_surrogate (hd t) \<Longrightarrow> t \<noteq> [] \<Longrightarrow> on_disk (s @ t) = on_disk s @ on_disk t"
proof (induction s rule: on_disk.induct)
  case (2 c)
  then show ?case by (cases t) auto
qed simp_all

lemma on_disk_set: "c \<in> set (on_disk s) \<Longrightarrow> c = 65533 \<or> c \<in> set s"
  by (induction s rule: on_disk.induct) (auto simp: alone_def split: if_splits)

lemma on_disk_hd: "s \<noteq> [] \<Longrightarrow> on_disk s \<noteq> [] \<and> (hd (on_disk s) = hd s \<or> hd (on_disk s) = 65533)"
  by (cases s rule: on_disk.cases) (auto simp: alone_def)

lemma on_disk_visible:
  assumes "visible_pub f"
  shows "visible_pub (on_disk f)"
proof -
  let ?p = "js ''.pub''"
  have p: "\<not> is_low_surrogate (hd ?p)" "?p \<noteq> []" "on_disk ?p = ?p" by (simp_all add: js_def is_low_surrogate_def is_high_surrogate_def alone_def)
  obtain b where "f = b @ ?p" using assms by (metis append_take_drop_id ends_with_def visible_pub_def)
  then have "on_disk f = on_disk b @ ?p" using on_disk_append [OF p(1,2)] p(3) by simp
  then show ?thesis using assms on_disk_hd [of f] ends_with_append by (auto simp: visible_pub_def)
qed

section \<open>The directory afterwards\<close>

lemma write_entries_others: "write_entries io n es d = (ok, d') \<Longrightarrow> x \<notin> on_disk ` fst ` set es \<Longrightarrow> \<not> left_over x \<Longrightarrow> d' x = d x"
proof (induction io n es d rule: write_entries.induct)
  case (2 io n f k es d)
  show ?case
  proof (cases "\<not> io_write io n \<or> d (on_disk f) = Some DDir")
    case True
    have "x \<noteq> js ''.export.'' @ t" for t using 2(4) by (auto simp: left_over_def starts_with_iff)
    with True 2(2) show ?thesis by (auto split: option.splits)
  next
    case False
    with 2(2) have "write_entries io (Suc n) es (d(on_disk f \<mapsto> DFile (on_disk (k @ [10])))) = (ok, d')" by simp
    from 2(1) [OF False this] 2(3,4) show ?thesis by simp
  qed
qed simp

lemma write_entries_written:
  assumes "\<forall>(f, k)\<in>set es. on_disk f = f \<and> \<not> left_over f"
  shows "write_entries io n es d = (True, d') \<Longrightarrow> x \<in> fst ` set es \<Longrightarrow> d' x = map_option (\<lambda>k. DFile (on_disk (k @ [10]))) (map_of (rev es) x)"
  using assms
proof (induction io n es d rule: write_entries.induct)
  case (2 io n f k es d)
  then have rest: "write_entries io (Suc n) es (d(f \<mapsto> DFile (on_disk (k @ [10])))) = (True, d')" by (auto split: if_splits)
  have same: "on_disk ` fst ` set es = fst ` set es" using 2(4) by (force simp: image_iff)
  show ?case
  proof (cases "x \<in> fst ` set es")
    case True
    moreover have "map_of (rev es) x \<noteq> None" using True by (simp add: map_of_eq_None_iff)
    moreover have "d' x = map_option (\<lambda>k. DFile (on_disk (k @ [10]))) (map_of (rev es) x)"
    proof (rule 2(1))
      show "\<not> (\<not> io_write io n \<or> d (on_disk f) = Some DDir)" using 2(2) by (auto split: if_splits)
      show "write_entries io (Suc n) es (d(on_disk f \<mapsto> DFile (on_disk (k @ [10])))) = (True, d')" using rest 2(4) by simp
    qed (use True 2(4) in auto)
    ultimately show ?thesis by (auto simp: map_add_def split: option.splits)
  next
    case False
    then have "x = f" using 2(3) by auto
    moreover have "map_of (rev es) x = None" using False by (simp add: map_of_eq_None_iff)
    moreover have "d' x = Some (DFile (on_disk (k @ [10])))"
      using write_entries_others [OF rest, of x] False same \<open>x = f\<close> 2(4) by auto
    ultimately show ?thesis by (simp add: map_add_def)
  qed
qed simp

definition own_name :: "jsstr \<Rightarrow> bool" where "own_name n \<longleftrightarrow> visible_pub n \<or> left_over n"

lemma payload_read:
  assumes "\<forall>(f, k)\<in>set es. units_ok f \<and> units_ok k"
  shows "json_parse (json_str (payload_value es)) = Some (payload_value es)"
proof (rule json_parse_stringify)
  have "plain (JObj [(js ''fileName'', JStr f), (js ''publicKey'', JStr k)])" if "units_ok f" "units_ok k" for f k
    by (rule plain_JObj_names) (use that in \<open>auto simp: is_digit_def\<close>)
  with assms show "plain (payload_value es)" by (fastforce simp: payload_value_def)
qed

lemma payload_entry:
  assumes "visible_pub f \<and> 47 \<notin> set f \<and> 0 \<notin> set f"
  shows "checked_entry (JObj [(js ''fileName'', JStr f), (js ''publicKey'', JStr k)]) = Some (f, k)"
  using assms by (auto simp: checked_entry_def obj_get_def visible_pub_def)

lemma script_on_payload:
  assumes "\<forall>(f, k)\<in>set es. units_ok f \<and> units_ok k" and "\<forall>(f, k)\<in>set es. visible_pub f \<and> 47 \<notin> set f \<and> 0 \<notin> set f"
  shows "SSH_EXPORT_WRITE_SCRIPT io (json_str (payload_value es)) d =
    (case write_entries io 0 es d of (ok, d') \<Rightarrow> if ok \<and> io_readdir io then (True, prune io (fst ` set es) d') else (False, d'))"
proof -
  have e: "checked_entry (case x of (f, k) \<Rightarrow> JObj [(js ''fileName'', JStr f), (js ''publicKey'', JStr k)]) = Some x" if "x \<in> set es" for x
    using payload_entry assms(2) that by (cases x) fastforce
  then have "map (\<lambda>e. the (checked_entry e)) (map (\<lambda>(f, k). JObj [(js ''fileName'', JStr f), (js ''publicKey'', JStr k)]) es) = es"
    by (simp add: map_idI)
  moreover have "\<not> list_ex (\<lambda>e. checked_entry e = None) (map (\<lambda>(f, k). JObj [(js ''fileName'', JStr f), (js ''publicKey'', JStr k)]) es)"
    using e by (fastforce simp: list_ex_iff)
  ultimately show ?thesis
    unfolding SSH_EXPORT_WRITE_SCRIPT_def payload_read [OF assms(1)] by (simp add: payload_value_def Let_def)
qed

text \<open>C36: The export writes public keys and nothing else. Whatever fails on the way, files of other names than visible
  \<^verbatim>\<open>.pub\<close> files and the script's own temporary ones stay as they were, no private key is written, and names
  cannot leave the directory. When the script succeeds and no exported name is cut within a surrogate pair, then every visible
  \<^verbatim>\<open>.pub\<close> name that is not a directory and whose removal does not fail is afterwards exactly what was exported under
  it, with a newline: the last key of those that got this name, or no file. (A failing removal is ignored, and then the
  old file stays.)\<close>
theorem ssh_export_exact:
  assumes "SSH_EXPORT_WRITE_SCRIPT io (sshExportPayload ids) d = (ok, d')"
  defines "es \<equiv> export_entries (sshExportIdentities ids) Map.empty"
  assumes "\<forall>(f, k)\<in>set es. units_ok f \<and> units_ok k"
  shows "(\<forall>n. \<not> own_name n \<longrightarrow> d' n = d n)
    \<and> (\<forall>(f, k)\<in>set es. visible_pub (on_disk f) \<and> 47 \<notin> set (on_disk f) \<and> SSH_PUBLIC_KEY_RE k \<and> \<not> contains (js ''PRIVATE'') k)
    \<and> (ok \<and> (\<forall>(f, k)\<in>set es. on_disk f = f) \<longrightarrow>
         (\<forall>n. visible_pub n \<and> io_unlink io n \<and> d n \<noteq> Some DDir \<longrightarrow> d' n = map_option (\<lambda>k. DFile (on_disk (k @ [10]))) (map_of (rev es) n)))"
proof -
  have vis: "\<forall>(f, k)\<in>set es. visible_pub f \<and> 47 \<notin> set f \<and> 0 \<notin> set f" using entries_visible unfolding es_def by blast
  then have disk: "\<forall>(f, k)\<in>set es. visible_pub (on_disk f) \<and> 47 \<notin> set (on_disk f)" using on_disk_visible on_disk_set by fastforce
  have pub: "\<forall>(f, k)\<in>set es. SSH_PUBLIC_KEY_RE k \<and> \<not> contains (js ''PRIVATE'') k"
    using entries_keys exported_public unfolding es_def by fast
  have lo: "\<not> left_over n" if "visible_pub n" for n using that by (auto simp: left_over_def visible_pub_def starts_with_iff js_def)
  obtain ok1 d1 where w: "write_entries io 0 es d = (ok1, d1)" by force
  have run: "(if ok1 \<and> io_readdir io then (True, prune io (fst ` set es) d1) else (False, d1)) = (ok, d')"
    using assms(1) script_on_payload [OF assms(3) vis] w unfolding sshExportPayload_def es_def by simp
  have "d' n = d n" if "\<not> own_name n" for n
  proof -
    have "n \<notin> on_disk ` fst ` set es" using disk that by (auto simp: own_name_def)
    with run write_entries_others [OF w this] that show ?thesis by (auto simp: own_name_def prune_def split: if_splits)
  qed
  moreover have "d' n = map_option (\<lambda>k. DFile (on_disk (k @ [10]))) (map_of (rev es) n)"
    if "ok" "\<forall>(f, k)\<in>set es. on_disk f = f" "visible_pub n" "io_unlink io n" "d n \<noteq> Some DDir" for n
  proof -
    have fin: "write_entries io 0 es d = (True, d1)" "d' = prune io (fst ` set es) d1" using run that(1) w by (auto split: if_splits)
    have own: "\<forall>(f, k)\<in>set es. on_disk f = f \<and> \<not> left_over f" "on_disk ` fst ` set es = fst ` set es"
      using that(2) vis lo by (force simp: image_iff)+
    show ?thesis
    proof (cases "n \<in> fst ` set es")
      case True
      with write_entries_written [OF own(1) fin(1) True] lo [OF that(3)] fin(2) show ?thesis by (simp add: prune_def)
    next
      case False
      then have "map_of (rev es) n = None" by (simp add: map_of_eq_None_iff)
      moreover have "d1 n = d n" using write_entries_others [OF fin(1), of n] False own(2) lo [OF that(3)] by simp
      ultimately show ?thesis using that False fin(2) by (simp add: prune_def)
    qed
  qed
  ultimately show ?thesis using disk pub by blast
qed

definition plain_ids :: jsval where
  "plain_ids = JArr [JObj [(js ''itemId'', JStr (js ''i'')), (js ''name'', JStr (js ''k'')), (js ''publicKey'', JStr (js ''ssh-rsa QQ''))]]"

lemma plain_entries: "export_entries (sshExportIdentities plain_ids) Map.empty = [(js ''k.pub'', js ''ssh-rsa QQ'')]"
proof -
  have "safeAttachmentFileName (js ''k'') = js ''k''"
    by (simp add: safeAttachmentFileName_def strip_dirs_def shorten_name_def Let_def js_def is_control_def file_sep_def name_lead_def is_ws_def trim_end_def)
  moreover have "trim (js ''ssh-rsa QQ'') = js ''ssh-rsa QQ''" by (simp add: trim_def trim_start_def trim_end_def is_ws_def js_def)
  moreover have "SSH_PUBLIC_KEY_RE (js ''ssh-rsa QQ'')" by (simp add: SSH_PUBLIC_KEY_RE_def blob_unit_def js_unfold)
  moreover have "\<not> contains (js ''PRIVATE'') (js ''ssh-rsa QQ'')" by (simp add: contains_def js_def)
  ultimately show ?thesis
    by (simp add: plain_ids_def sshExportIdentities_def export_identity_def sshExportFileName_def map_filter_def obj_get_def js_or_def str_or_def Let_def
        flip: js_append)
qed

definition working_io :: export_io where
  "working_io = \<lparr>io_write = (\<lambda>_. True), io_temp = (\<lambda>_. None), io_readdir = True, io_unlink = (\<lambda>_. True)\<rparr>"

theorem ssh_export_exact_witness:
  "\<exists>d'. SSH_EXPORT_WRITE_SCRIPT working_io (sshExportPayload plain_ids) [js ''old.pub'' \<mapsto> DFile [], js ''x'' \<mapsto> DFile []]
      = (True, d') \<and> d' (js ''x'') = Some (DFile []) \<and> d' (js ''old.pub'') = None \<and> d' (js ''k.pub'') = Some (DFile (js ''ssh-rsa QQ'' @ [10]))"
proof -
  let ?io = "working_io" and ?d = "[js ''old.pub'' \<mapsto> DFile [], js ''x'' \<mapsto> DFile []]"
  have ok: "\<forall>(f, k)\<in>set (export_entries (sshExportIdentities plain_ids) Map.empty). units_ok f \<and> units_ok k" by (simp add: plain_entries)
  have v: "visible_pub (js ''k.pub'')" "visible_pub (js ''old.pub'')" "\<not> own_name (js ''x'')"
    by (simp_all add: visible_pub_def ends_with_def own_name_def left_over_def js_def)
  obtain d' where run: "SSH_EXPORT_WRITE_SCRIPT ?io (sshExportPayload plain_ids) ?d = (True, d')"
    using script_on_payload [of "[(js ''k.pub'', js ''ssh-rsa QQ'')]" ?io ?d] v
    by (simp add: sshExportPayload_def plain_entries working_io_def) (simp add: js_def alone_def is_high_surrogate_def is_low_surrogate_def)
  have a: "on_disk (js ''k.pub'') = js ''k.pub''" "on_disk (js ''ssh-rsa QQ'' @ [10]) = js ''ssh-rsa QQ'' @ [10]" "io_unlink working_io n" for n
    by (simp_all add: js_def alone_def is_high_surrogate_def is_low_surrogate_def working_io_def)
  from ssh_export_exact [OF run ok] v a run show ?thesis by (auto simp: plain_entries)
qed

text \<open>Two items can still meet in one file: an item whose name is another's name with the id of a third.\<close>
theorem export_names_collide:
  "map fst (export_entries
     [\<lparr>ik_itemId = js ''1'', ik_name = js ''a'', ik_fingerprint = [], ik_publicKey = js ''ssh-rsa A''\<rparr>,
      \<lparr>ik_itemId = js ''2'', ik_name = js ''a.3'', ik_fingerprint = [], ik_publicKey = js ''ssh-rsa B''\<rparr>,
      \<lparr>ik_itemId = js ''3'', ik_name = js ''a'', ik_fingerprint = [], ik_publicKey = js ''ssh-rsa C''\<rparr>] Map.empty)
   = [js ''a.pub'', js ''a.3.pub'', js ''a.3.pub'']"
proof -
  have "safeAttachmentFileName (js ''a'') = js ''a''" "safeAttachmentFileName (js ''a.3'') = js ''a.3''" "safeAttachmentFileName (js ''3'') = js ''3''"
    by (simp_all add: safeAttachmentFileName_def strip_dirs_def shorten_name_def Let_def js_def is_control_def file_sep_def name_lead_def is_ws_def trim_end_def)
  then show ?thesis by (simp add: sshExportFileName_def Let_def) (simp add: js_def)
qed

text \<open>A name that ends inside a surrogate pair (names are cut at 128 units) is on the disk under another name than the
  one kept in mind: its file is written and, in the same successful run, pruned.\<close>
theorem cut_name_pruned:
  "SSH_EXPORT_WRITE_SCRIPT working_io (json_str (payload_value [([97, 55357] @ js ''.pub'', js ''ssh-rsa QQ'')])) Map.empty = (True, Map.empty)"
proof -
  let ?es = "[([97, 55357] @ js ''.pub'', js ''ssh-rsa QQ'')]" and ?n = "[97, 65533] @ js ''.pub''"
  have "\<forall>(f, k)\<in>set ?es. units_ok f \<and> units_ok k" "\<forall>(f, k)\<in>set ?es. visible_pub f \<and> 47 \<notin> set f \<and> 0 \<notin> set f"
    by (simp_all add: units_ok_def visible_pub_def ends_with_def js_def)
  note script = script_on_payload [OF this, of working_io Map.empty]
  have disk: "on_disk (fst (hd ?es)) = ?n" by (simp add: js_def alone_def is_high_surrogate_def is_low_surrogate_def)
  have "visible_pub ?n" "?n \<notin> fst ` set ?es" by (simp_all add: visible_pub_def ends_with_def js_def)
  then show ?thesis using disk unfolding script by (auto simp: working_io_def prune_def)
qed

lemma names_cut:
  assumes "length s = 127" and "46 \<notin> set s"
  shows "shorten_name (s @ [55357, 56832]) = s @ [55357]"
proof -
  have "last_index_of 46 t = None" if "46 \<notin> set t" for t using that by (induction t) auto
  then have "last_index_of 46 (s @ [55357, 56832]) = None" using assms(2) by simp
  with assms(1) show ?thesis by (simp add: shorten_name_def)
qed

end
