(* ===== verification/Views.thy ===== *)
theory Views
  imports Shell
begin

text \<open>
  What a view of the panel decides for itself, from \<^verbatim>\<open>BitwardenModel.js\<close>: how vault text is clipped, which
  service it talks to, which of several views acts, what is put on the clipboard and for how long. And
  \<^verbatim>\<open>demo/check-vault-layout.js\<close>, which walks the rendered items of a view and refuses a broken layout:
  the items are a tree with positions, and the first requirement that fails is the result.
\<close>

section \<open>Labels\<close>

definition plainLabel :: "jsval \<Rightarrow> jsstr" where
  "plainLabel v = text_of v"

definition clipLabel :: "jsval \<Rightarrow> jsval \<Rightarrow> jsstr" where
  "clipLabel v mx =
     (let body = text_of v; limit = num_max (Fin 1) (num_floor (num_or_zero (to_num mx))) in
      if num_le (Fin (of_nat (length body))) limit then body
      else
        (let k = (case limit of Fin q \<Rightarrow> nat \<lfloor>q\<rfloor> | _ \<Rightarrow> 0) in
         if k \<le> 3 then take k body else take (k - 3) body @ js ''...''))"

section \<open>Which service, which view\<close>

definition VAULT_HOST_TIMEOUT_MS :: int where "VAULT_HOST_TIMEOUT_MS = 3000"

datatype host_choice = Shared | Private | Wait

definition vaultHostDecision :: "bool \<Rightarrow> jsnum \<Rightarrow> jsnum \<Rightarrow> host_choice" where
  "vaultHostDecision found elapsedMs timeoutMs =
     (if found then Shared
      else
        (let limit = (if num_le (Fin 0) timeoutMs then timeoutMs else numi VAULT_HOST_TIMEOUT_MS) in
         if num_le limit elapsedMs then Private else Wait))"

record view =
  vw_opened :: bool
  vw_screen :: jsstr

fun first_index :: "('a \<Rightarrow> bool) \<Rightarrow> 'a list \<Rightarrow> nat option" where
  "first_index P [] = None"
| "first_index P (x # xs) = (if P x then Some 0 else map_option Suc (first_index P xs))"

definition presenterIndex :: "view option list \<Rightarrow> jsstr \<Rightarrow> int" where
  \<comment> \<open>an element that is no view is \<open>None\<close>\<close>
  "presenterIndex views focusedScreen =
     (if views = [] then -1
      else
        (case first_index (\<lambda>v. case v of None \<Rightarrow> False | Some w \<Rightarrow> vw_opened w) views of
           Some i \<Rightarrow> int i
         | None \<Rightarrow>
             if focusedScreen = [] then 0
             else (case first_index (\<lambda>v. case v of None \<Rightarrow> False | Some w \<Rightarrow> vw_screen w = focusedScreen) views of
                     Some j \<Rightarrow> int j
                   | None \<Rightarrow> 0)))"

section \<open>The clipboard\<close>

definition CLIPBOARD_ENV :: jsstr where "CLIPBOARD_ENV = js ''QSBW_CLIP''"
definition CLIPBOARD_SENSITIVE_TYPE :: jsstr where "CLIPBOARD_SENSITIVE_TYPE = js ''x-kde-passwordManagerHint''"

definition clipboardCopyCommand :: "jsval \<Rightarrow> jsstr list" where
  "clipboardCopyCommand clearSec =
     (let sec = num_floor (to_num clearSec);
          copy = (if is_finite sec \<and> num_lt (Fin 0) sec
                  then js ''timeout '' @ num_to_str sec @ js ''s wl-copy --foreground --sensitive'' else js ''wl-copy --sensitive'')
      in [js ''bash'', js ''-c'', js ''exec env -u '' @ CLIPBOARD_ENV @ [32] @ copy @ js '' < <(printf '' @ [39] @ js ''%s'' @ [39] @ js '' \"$'' @ CLIPBOARD_ENV @ js ''\")''])"

record clip =
  cl_value :: jsstr
  cl_types :: "jsstr list"

definition clipboardClearSensitiveCommand :: "clip option \<Rightarrow> clip option" where
  \<comment> \<open>the clipboard afterwards\<close>
  "clipboardClearSensitiveCommand c =
     (case c of None \<Rightarrow> None | Some x \<Rightarrow> if CLIPBOARD_SENSITIVE_TYPE \<in> set (cl_types x) then None else c)"

definition screenIsLocked :: "jsval \<Rightarrow> bool" where
  "screenIsLocked raw \<longleftrightarrow> trim (str_or raw []) = js ''true''"

section \<open>The layout check\<close>

datatype item_box = Item (ob_name: jsstr) (ob_x: rat) (ob_y: rat) (ob_w: rat) (ob_h: rat) (ob_implicit: rat) (ob_visible: bool) (ob_kids: "item_box list")
  \<comment> \<open>\<open>x\<close> and \<open>y\<close> are in the coordinates of the parent\<close>

type_synonym placed = "rat \<times> rat \<times> item_box"
  \<comment> \<open>an item and its origin in the coordinates of the panel, which \<^verbatim>\<open>mapToItem\<close> works with\<close>

fun findAll :: "jsstr \<Rightarrow> rat \<Rightarrow> rat \<Rightarrow> item_box \<Rightarrow> placed list" where
  "findAll name ox oy (Item n x y w h iw v kids) =
     (if n = name then [(ox, oy, Item n x y w h iw v kids)] else [])
     @ concat (map (\<lambda>k. findAll name (ox + ob_x k) (oy + ob_y k) k) kids)"

definition require :: "bool \<Rightarrow> jsstr \<Rightarrow> (jsstr, unit) sum" where
  "require condition message = (if condition then Inr () else Inl (js ''Vault layout: '' @ message))"

definition andThen :: "(jsstr, 'a) sum \<Rightarrow> ('a \<Rightarrow> (jsstr, 'b) sum) \<Rightarrow> (jsstr, 'b) sum" where
  "andThen m f = (case m of Inl e \<Rightarrow> Inl e | Inr x \<Rightarrow> f x)"

definition one :: "placed \<Rightarrow> string \<Rightarrow> (jsstr, placed) sum" where
  "one p name =
     (case p of (ox, oy, it) \<Rightarrow>
        (case findAll (js name) ox oy it of
           [m] \<Rightarrow> Inr m
         | _ \<Rightarrow> Inl (js ''Vault layout: missing or ambiguous '' @ js name)))"

definition inside :: "placed \<Rightarrow> placed \<Rightarrow> string \<Rightarrow> (jsstr, unit) sum" where
  "inside parent p label =
     (case (parent, p) of ((px, py, par), (ix, iy, it)) \<Rightarrow>
        andThen (require (0 \<le> ob_w it \<and> 0 < ob_h it) (js label @ js '' has invalid size'')) (\<lambda>_.
          require (ix - px \<ge> -1 \<and> iy - py \<ge> -1 \<and> ix - px + ob_w it \<le> ob_w par + 1 \<and> iy - py + ob_h it \<le> ob_h par + 1)
            (js label @ js '' leaves its container'')))"

fun each :: "'a list \<Rightarrow> ('a \<Rightarrow> (jsstr, unit) sum) \<Rightarrow> (jsstr, unit) sum" where
  "each [] f = Inr ()"
| "each (x # xs) f = andThen (f x) (\<lambda>_. each xs f)"

fun check_filters :: "placed \<Rightarrow> rat \<Rightarrow> string list \<Rightarrow> (jsstr, unit) sum" where
  "check_filters filters previousRight [] = Inr ()"
| "check_filters filters previousRight (name # names) =
     andThen (one filters (''vaultFilter_'' @ name)) (\<lambda>f.
       andThen (inside filters f (name @ '' filter'')) (\<lambda>_.
         andThen (require (ob_x (snd (snd f)) \<ge> previousRight - 1) (js ''filters overlap'')) (\<lambda>_.
           check_filters filters (ob_x (snd (snd f)) + ob_w (snd (snd f))) names)))"

definition check_header :: "placed \<Rightarrow> (jsstr, unit) sum" where
  "check_header panel =
     andThen (one panel ''vaultHeader'') (\<lambda>header. andThen (one header ''panelHeroTitle'') (\<lambda>title. andThen (one header ''vaultHeaderActions'') (\<lambda>acts.
       andThen (require (ob_w (snd (snd title)) + 1 \<ge> ob_implicit (snd (snd title))) (js ''vault title is elided'')) (\<lambda>_.
         andThen (inside header title ''title'') (\<lambda>_. andThen (inside header acts ''header actions'') (\<lambda>_.
           require (fst title + ob_w (snd (snd title)) \<le> fst acts) (js ''header actions overlap the title'')))))))"

definition check_toolbar :: "placed \<Rightarrow> (jsstr, unit) sum" where
  "check_toolbar panel =
     andThen (one panel ''vaultQuickActions'') (\<lambda>toolbar.
       each (ob_kids (snd (snd toolbar))) (\<lambda>k.
         if ob_visible k \<and> 0 < ob_w k then inside toolbar (fst toolbar + ob_x k, fst (snd toolbar) + ob_y k, k) ''toolbar action'' else Inr ()))"

definition check_row :: "placed \<Rightarrow> (jsstr, unit) sum" where
  "check_row row =
     andThen (one row ''vaultItemLabels'') (\<lambda>labels. andThen (inside row labels ''item labels'') (\<lambda>_. andThen (one row ''vaultItemActions'') (\<lambda>acts.
       if ob_visible (snd (snd acts))
       then andThen (inside row acts ''item actions'') (\<lambda>_.
              require (fst labels + ob_w (snd (snd labels)) \<le> fst acts) (js ''item actions overlap labels''))
       else Inr ())))"

definition verify :: "item_box \<Rightarrow> (jsstr, unit) sum" where
  "verify panel0 =
     (let panel = (0, 0, panel0) in
      andThen (check_header panel) (\<lambda>_. andThen (check_toolbar panel) (\<lambda>_.
        andThen (one panel ''vaultFilters'') (\<lambda>filters. andThen (check_filters filters 0 [''folders'', ''organizations'', ''types'']) (\<lambda>_.
          (let rows = (case panel of (ox, oy, it) \<Rightarrow> findAll (js ''vaultItemRow'') ox oy it) in
           andThen (require (rows \<noteq> []) (js ''fixture items did not render'')) (\<lambda>_. each rows check_row)))))))"

section \<open>Labels fit\<close>

lemma clip_label_fits:
  assumes "num_floor (num_or_zero (to_num mx)) = Fin q"
  shows "length (clipLabel v mx) \<le> nat \<lfloor>max 1 q\<rfloor>
    \<and> (clipLabel v mx = text_of v \<or> (\<exists>n. clipLabel v mx = take n (text_of v) \<or> clipLabel v mx = take n (text_of v) @ js ''...''))"
proof -
  have "rat_of_nat (length (text_of v)) \<le> max 1 q \<Longrightarrow> length (text_of v) \<le> nat \<lfloor>max 1 q\<rfloor>"
    by (metis floor_mono floor_of_nat nat_int nat_mono)
  then show ?thesis using assms by (auto simp: clipLabel_def Let_def simp del: max_def)
qed

section \<open>One view acts\<close>

lemma first_index_Some: "first_index P xs = Some n \<Longrightarrow> n < length xs \<and> P (xs ! n)"
  by (induction xs arbitrary: n) (auto split: if_splits)

lemma first_index_None: "first_index P xs = None \<Longrightarrow> x \<in> set xs \<Longrightarrow> \<not> P x"
  by (induction xs) (auto split: if_splits)

text \<open>With any view there is exactly one that acts: the first open one, else the first on the focused
  screen, else the first.\<close>
theorem presenter_exact:
  "(presenterIndex views focused = -1 \<longleftrightarrow> views = [])
   \<and> (views \<noteq> [] \<longrightarrow> 0 \<le> presenterIndex views focused \<and> nat (presenterIndex views focused) < length views)
   \<and> ((\<exists>w. Some w \<in> set views \<and> vw_opened w) \<longrightarrow>
        (\<exists>w. views ! nat (presenterIndex views focused) = Some w \<and> vw_opened w))
   \<and> (\<not> (\<exists>w. Some w \<in> set views \<and> vw_opened w) \<and> focused \<noteq> [] \<and> (\<exists>w. Some w \<in> set views \<and> vw_screen w = focused) \<longrightarrow>
        (\<exists>w. views ! nat (presenterIndex views focused) = Some w \<and> vw_screen w = focused))"
proof -
  let ?open = "\<lambda>v. case v of None \<Rightarrow> False | Some w \<Rightarrow> vw_opened w" and ?at = "\<lambda>v. case v of None \<Rightarrow> False | Some w \<Rightarrow> vw_screen w = focused"
  show ?thesis
  proof (cases "first_index ?open views")
    case (Some i)
    then have "views \<noteq> []" "presenterIndex views focused = int i" using first_index_Some [OF Some] by (auto simp: presenterIndex_def)
    moreover have "\<exists>w. Some w \<in> set views \<and> vw_opened w"
      using first_index_Some [OF Some] by (auto split: option.splits) (metis nth_mem)
    ultimately show ?thesis using first_index_Some [OF Some] by (auto split: option.splits)
  next
    case o: None
    then have no: "\<not> (\<exists>w. Some w \<in> set views \<and> vw_opened w)" using first_index_None [OF o] by fastforce
    show ?thesis
    proof (cases "views = [] \<or> focused = []")
      case True
      then show ?thesis using no o by (auto simp: presenterIndex_def)
    next
      case False
      show ?thesis
      proof (cases "first_index ?at views")
        case None
        then show ?thesis using first_index_None [OF None] no o False by (fastforce simp: presenterIndex_def)
      next
        case (Some j)
        then show ?thesis using first_index_Some [OF Some] no o False by (auto simp: presenterIndex_def split: option.splits)
      qed
    qed
  qed
qed

text \<open>A view waits for the shared service no longer than the timeout, and never leaves one it found.\<close>

lemma host_decided:
  "vaultHostDecision True x y = Shared" "vaultHostDecision False (Fin e) (Fin l) = Wait \<longleftrightarrow> e < (if 0 \<le> l then l else 3000)"
  by (auto simp: vaultHostDecision_def Let_def VAULT_HOST_TIMEOUT_MS_def)

section \<open>An accepted layout\<close>

named_theorems accepted

lemma require_ok [accepted]: "require c m = Inr u \<longleftrightarrow> c"
  by (simp add: require_def)

lemma andThen_ok [accepted]: "andThen m f = Inr y \<longleftrightarrow> (\<exists>x. m = Inr x \<and> f x = Inr y)"
  by (cases m) (simp_all add: andThen_def)

lemma each_ok [accepted]: "each xs f = Inr u \<longleftrightarrow> (\<forall>x\<in>set xs. f x = Inr ())"
  by (induction xs) (auto simp: andThen_ok)

lemma if_ok [accepted]: "(if c then m else Inr ()) = Inr u \<longleftrightarrow> (c \<longrightarrow> m = Inr ())"
  by auto

definition found_in :: "placed \<Rightarrow> string \<Rightarrow> placed list" where
  "found_in p name = (case p of (ox, oy, it) \<Rightarrow> findAll (js name) ox oy it)"

lemma one_ok [accepted]: "one p name = Inr m \<longleftrightarrow> found_in p name = [m]"
  by (auto simp: one_def found_in_def split: prod.splits list.splits)

definition fits_in :: "placed \<Rightarrow> placed \<Rightarrow> bool" where
  \<comment> \<open>of a valid size, and inside up to one pixel\<close>
  "fits_in parent p \<longleftrightarrow>
     (case (parent, p) of ((px, py, par), (ix, iy, it)) \<Rightarrow>
        0 \<le> ob_w it \<and> 0 < ob_h it \<and> px - 1 \<le> ix \<and> py - 1 \<le> iy \<and> ix + ob_w it \<le> px + ob_w par + 1 \<and> iy + ob_h it \<le> py + ob_h par + 1)"

lemma inside_ok [accepted]: "inside parent p label = Inr u \<longleftrightarrow> fits_in parent p"
  by (auto simp: inside_def fits_in_def andThen_ok require_ok split: prod.splits)

definition row_ok :: "placed \<Rightarrow> bool" where
  "row_ok row \<longleftrightarrow> (\<exists>labels acts. found_in row ''vaultItemLabels'' = [labels] \<and> found_in row ''vaultItemActions'' = [acts] \<and> fits_in row labels
     \<and> (ob_visible (snd (snd acts)) \<longrightarrow> fits_in row acts \<and> fst labels + ob_w (snd (snd labels)) \<le> fst acts))"

lemma check_row_ok [accepted]: "check_row row = Inr u \<longleftrightarrow> row_ok row"
  unfolding check_row_def row_ok_def by (simp only: accepted) blast

definition filters_ok :: "placed \<Rightarrow> bool" where
  "filters_ok fs \<longleftrightarrow> (\<exists>a b c. found_in fs ''vaultFilter_folders'' = [a] \<and> found_in fs ''vaultFilter_organizations'' = [b] \<and> found_in fs ''vaultFilter_types'' = [c]
     \<and> fits_in fs a \<and> fits_in fs b \<and> fits_in fs c \<and> -1 \<le> ob_x (snd (snd a))
     \<and> ob_x (snd (snd a)) + ob_w (snd (snd a)) \<le> ob_x (snd (snd b)) + 1 \<and> ob_x (snd (snd b)) + ob_w (snd (snd b)) \<le> ob_x (snd (snd c)) + 1)"

lemma check_filters_ok [accepted]: "check_filters fs 0 [''folders'', ''organizations'', ''types''] = Inr u \<longleftrightarrow> filters_ok fs"
  by (auto simp: filters_ok_def accepted)

text \<open>The layout check accepts a view exactly when its header, toolbar and filters stand, with at least one
  row of items, and in every row the labels are inside it and its visible actions are inside it and
  right of the labels.\<close>
theorem layout_accepted:
  "verify panel = Inr () \<longleftrightarrow>
     check_header (0, 0, panel) = Inr () \<and> check_toolbar (0, 0, panel) = Inr ()
     \<and> (\<exists>fs. found_in (0, 0, panel) ''vaultFilters'' = [fs] \<and> filters_ok fs)
     \<and> found_in (0, 0, panel) ''vaultItemRow'' \<noteq> [] \<and> (\<forall>row\<in>set (found_in (0, 0, panel) ''vaultItemRow''). row_ok row)"
proof -
  have "findAll (js ''vaultItemRow'') 0 0 panel = found_in (0, 0, panel) ''vaultItemRow''" by (simp add: found_in_def)
  then show ?thesis unfolding verify_def Let_def prod.case by (simp only: accepted) (simp, blast)
qed

end
