(* ===== verification/Sleep.thy ===== *)
theory Sleep
  imports Prelude
begin

text \<open>
  Locking before suspend: \<open>sleepMonitorCommand\<close> of \<^verbatim>\<open>BitwardenModel.js\<close>, a shell loop that holds a sleep
  inhibitor, tells the panel when the machine is about to sleep, and lets it sleep once the panel has
  answered or four seconds have passed. Two processes take part, the loop and the watcher that passes
  the panel's answers on through a pipe, and the panel itself; a run is any interleaving of their
  steps. In each round \<^verbatim>\<open>systemd-inhibit\<close> runs the inner script and may fail with it at any point; it is taken
  to end together with that script. An answer carries the number of the signal it answers, which the
  real one does not.
\<close>

datatype token = SleepToken | WakeToken

datatype stage =
    Outside    \<comment> \<open>between two rounds: no inhibitor\<close>
  | Watching   \<comment> \<open>the inhibitor is held, \<^verbatim>\<open>gdbus\<close> is read\<close>
  | Draining   \<comment> \<open>a sleep was announced; old answers are read away\<close>
  | Drained    \<comment> \<open>no answer came for a twentieth of a second\<close>
  | Waiting    \<comment> \<open>the token is out; an answer or the timeout ends the wait\<close>
  | Released   \<comment> \<open>\<^verbatim>\<open>systemd-inhibit\<close> ended with 0 and the inhibitor is gone\<close>
  | Stopped    \<comment> \<open>the owner is gone and the group was killed\<close>

record monitor =
  stage :: stage
  cycle :: nat          \<comment> \<open>sleep tokens printed so far\<close>
  stdin_acks :: "nat list"   \<comment> \<open>answers written by the panel, not yet passed on\<close>
  pipe :: "nat list"
  relayed :: nat        \<comment> \<open>answers passed on since the pipe was last drained\<close>
  printed :: "token list"

definition monitor_start :: monitor where
  "monitor_start = \<lparr>stage = Outside, cycle = 0, stdin_acks = [], pipe = [], relayed = 0, printed = []\<rparr>"

datatype happening =
    Retry      \<comment> \<open>no \<^verbatim>\<open>gdbus\<close>, or no inhibitor was given: the loop waits and starts over\<close>
  | Inhibit | Announced
  | GdbusEnds  \<comment> \<open>without a sleep: the inner script exits 1\<close>
  | DrainOne | DrainEnds | TokenOut | Acked nat | TimedOut
  | WakeOut
  | Breaks     \<comment> \<open>the inhibited script or \<^verbatim>\<open>systemd-inhibit\<close> fails: the loop waits five seconds, no wake token\<close>
  | PanelAcks nat | Relay | OwnerDies

inductive sleepMonitorCommand :: "monitor \<Rightarrow> happening \<Rightarrow> monitor \<Rightarrow> bool" where
  retry: "stage s = Outside \<Longrightarrow> sleepMonitorCommand s Retry s"
| inhibit: "stage s = Outside \<Longrightarrow> sleepMonitorCommand s Inhibit (s\<lparr>stage := Watching\<rparr>)"
| announced: "stage s = Watching \<Longrightarrow> sleepMonitorCommand s Announced (s\<lparr>stage := Draining\<rparr>)"
| gdbus_ends: "stage s = Watching \<Longrightarrow> sleepMonitorCommand s GdbusEnds (s\<lparr>stage := Outside\<rparr>)"
| drain_one: "stage s = Draining \<Longrightarrow> pipe s = a # r \<Longrightarrow> sleepMonitorCommand s DrainOne (s\<lparr>pipe := r\<rparr>)"
| drain_ends: "stage s = Draining \<Longrightarrow> pipe s = [] \<Longrightarrow> sleepMonitorCommand s DrainEnds (s\<lparr>stage := Drained, relayed := 0\<rparr>)"
| token_out: "stage s = Drained \<Longrightarrow>
    sleepMonitorCommand s TokenOut (s\<lparr>stage := Waiting, cycle := Suc (cycle s), printed := printed s @ [SleepToken]\<rparr>)"
| acked: "stage s = Waiting \<Longrightarrow> pipe s = a # r \<Longrightarrow> sleepMonitorCommand s (Acked a) (s\<lparr>stage := Released, pipe := r\<rparr>)"
| timed_out: "stage s = Waiting \<Longrightarrow> sleepMonitorCommand s TimedOut (s\<lparr>stage := Released\<rparr>)"
| wake_out: "stage s = Released \<Longrightarrow> sleepMonitorCommand s WakeOut (s\<lparr>stage := Outside, printed := printed s @ [WakeToken]\<rparr>)"
| breaks: "stage s \<in> {Watching, Draining, Drained, Waiting, Released} \<Longrightarrow> sleepMonitorCommand s Breaks (s\<lparr>stage := Outside\<rparr>)"
| panel_acks: "stage s \<noteq> Stopped \<Longrightarrow> 1 \<le> n \<Longrightarrow> n \<le> cycle s \<Longrightarrow> sleepMonitorCommand s (PanelAcks n) (s\<lparr>stdin_acks := stdin_acks s @ [n]\<rparr>)"
| relay: "stage s \<noteq> Stopped \<Longrightarrow> stdin_acks s = a # r \<Longrightarrow>
    sleepMonitorCommand s Relay (s\<lparr>stdin_acks := r, pipe := pipe s @ [a], relayed := Suc (relayed s)\<rparr>)"
| owner_dies: "stage s \<noteq> Stopped \<Longrightarrow> sleepMonitorCommand s OwnerDies (s\<lparr>stage := Stopped\<rparr>)"

code_pred (modes: i \<Rightarrow> i \<Rightarrow> o \<Rightarrow> bool) sleepMonitorCommand .

inductive monitor_run :: "happening list \<Rightarrow> monitor \<Rightarrow> bool" where
  start: "monitor_run [] monitor_start"
| more: "monitor_run hs s \<Longrightarrow> sleepMonitorCommand s h s' \<Longrightarrow> monitor_run (hs @ [h]) s'"

inductive_cases stepE: "sleepMonitorCommand s h s'"

definition holds_inhibitor :: "monitor \<Rightarrow> bool" where
  "holds_inhibitor s \<longleftrightarrow> stage s = Watching \<or> stage s = Draining \<or> stage s = Drained \<or> stage s = Waiting"

section \<open>What the panel is told\<close>

definition wakes_follow_sleeps :: "token list \<Rightarrow> bool" where
  \<comment> \<open>every wake token comes right after a sleep token\<close>
  "wakes_follow_sleeps p \<longleftrightarrow> (\<forall>i<length p. p ! i = WakeToken \<longrightarrow> 0 < i \<and> p ! (i - 1) = SleepToken)"

lemma wakes_follow_snoc:
  "wakes_follow_sleeps (p @ [x]) \<longleftrightarrow> wakes_follow_sleeps p \<and> (x = WakeToken \<longrightarrow> p \<noteq> [] \<and> last p = SleepToken)"
proof -
  have "(\<forall>i<length (p @ [x]). P i) \<longleftrightarrow> (\<forall>i<length p. P i) \<and> P (length p)" for P by (auto simp: less_Suc_eq)
  moreover have "(p @ [x]) ! i = p ! i" "(p @ [x]) ! (i - 1) = p ! (i - 1)" if "i < length p" for i using that by (simp_all add: nth_append less_imp_diff_less)
  ultimately show ?thesis by (cases p rule: rev_cases) (auto simp: wakes_follow_sleeps_def nth_append)
qed

fun pairs :: "nat \<Rightarrow> token list" where
  "pairs 0 = []"
| "pairs (Suc n) = pairs n @ [SleepToken, WakeToken]"

definition monitor_inv :: "monitor \<Rightarrow> bool" where
  "monitor_inv s \<longleftrightarrow>
     wakes_follow_sleeps (printed s) \<and> cycle s = length (filter (\<lambda>x. x = SleepToken) (printed s))
     \<and> (stage s = Waiting \<or> stage s = Released \<longrightarrow> printed s \<noteq> [] \<and> last (printed s) = SleepToken)
     \<and> (stage s = Drained \<or> stage s = Waiting \<longrightarrow> length (pipe s) = relayed s)
     \<and> (\<forall>a\<in>set (pipe s) \<union> set (stdin_acks s). 1 \<le> a \<and> a \<le> cycle s)"

lemma monitor_inv_step: "sleepMonitorCommand s h s' \<Longrightarrow> monitor_inv s \<Longrightarrow> monitor_inv s'"
  by (induction rule: sleepMonitorCommand.induct) (auto simp: monitor_inv_def wakes_follow_snoc intro: le_SucI)

lemma monitor_run_inv: "monitor_run hs s \<Longrightarrow> monitor_inv s"
proof (induction rule: monitor_run.induct)
  case start
  show ?case by (simp add: monitor_inv_def monitor_start_def wakes_follow_sleeps_def)
next
  case (more hs s h s')
  then show ?case using monitor_inv_step by blast
qed

definition in_turn :: "monitor \<Rightarrow> bool" where
  \<comment> \<open>the tokens alternate, and the last sleep is open exactly while its round lasts\<close>
  "in_turn s \<longleftrightarrow> (\<exists>n. (printed s = pairs n \<and> stage s \<noteq> Waiting \<and> stage s \<noteq> Released)
     \<or> (printed s = pairs n @ [SleepToken] \<and> (stage s = Waiting \<or> stage s = Released \<or> stage s = Stopped)))"

lemma in_turn_step: "sleepMonitorCommand s h s' \<Longrightarrow> h \<noteq> Breaks \<Longrightarrow> in_turn s \<Longrightarrow> in_turn s'"
proof (induction rule: sleepMonitorCommand.induct)
  case (wake_out s)
  then obtain n where "printed s = pairs n @ [SleepToken]" by (auto simp: in_turn_def)
  with wake_out show ?case by (auto simp: in_turn_def intro!: exI [of _ "Suc n"])
qed (auto simp: in_turn_def)

lemma monitor_run_in_turn: "monitor_run hs s \<Longrightarrow> Breaks \<notin> set hs \<Longrightarrow> in_turn s"
proof (induction rule: monitor_run.induct)
  case start
  show ?case by (auto simp: in_turn_def monitor_start_def intro: exI [of _ 0])
next
  case (more hs s h s')
  then show ?case using in_turn_step [of s h s'] by auto
qed

text \<open>C25: In every interleaving of the monitor, its watcher and the panel, with failures of the inhibited script at any
  point: every wake token comes right after a sleep token; the tokens alternate as long as no inhibited script has
  failed. Once a sleep was announced, the inhibitor is held until an answer that was passed on after the old ones
  were read away, the timeout, a failure of the script that holds it, or the end of the panel; before that,
  \<^verbatim>\<open>gdbus\<close> ending also lets it go. No other step does.\<close>
theorem sleep_handled:
  assumes "monitor_run hs s" and "sleepMonitorCommand s h s'"
  shows "wakes_follow_sleeps (printed s)
    \<and> (Breaks \<notin> set hs \<longrightarrow> (\<exists>n. printed s = pairs n \<or> printed s = pairs n @ [SleepToken]))
    \<and> (stage s = Draining \<or> stage s = Drained \<or> stage s = Waiting \<longrightarrow>
         holds_inhibitor s' \<or> h = TimedOut \<or> h = Breaks \<or> h = OwnerDies \<or> (\<exists>a. h = Acked a \<and> 0 < relayed s \<and> 1 \<le> a \<and> a \<le> cycle s))
    \<and> (holds_inhibitor s \<and> \<not> holds_inhibitor s' \<and> stage s = Watching \<longrightarrow> h = GdbusEnds \<or> h = Breaks \<or> h = OwnerDies)"
proof -
  have "\<exists>n. printed s = pairs n \<or> printed s = pairs n @ [SleepToken]" if "Breaks \<notin> set hs"
    using monitor_run_in_turn [OF assms(1) that] by (auto simp: in_turn_def)
  moreover have "holds_inhibitor s' \<or> h = TimedOut \<or> h = Breaks \<or> h = OwnerDies \<or> (\<exists>a. h = Acked a \<and> 0 < relayed s \<and> 1 \<le> a \<and> a \<le> cycle s)"
    if "stage s = Draining \<or> stage s = Drained \<or> stage s = Waiting"
    using assms(2) that monitor_run_inv [OF assms(1)] by (auto simp: monitor_inv_def holds_inhibitor_def elim!: stepE)
  moreover have "h = GdbusEnds \<or> h = Breaks \<or> h = OwnerDies" if "\<not> holds_inhibitor s'" "stage s = Watching"
    using assms(2) that by (auto simp: holds_inhibitor_def elim!: stepE)
  ultimately show ?thesis using monitor_run_inv [OF assms(1)] by (auto simp: monitor_inv_def)
qed

definition after_token :: "nat \<Rightarrow> monitor" where
  \<comment> \<open>waiting for the answer to this sleep, the earlier ones having timed out\<close>
  "after_token n = \<lparr>stage = Waiting, cycle = Suc n, stdin_acks = [], pipe = [], relayed = 0, printed = pairs n @ [SleepToken]\<rparr>"

lemma one_round:
  assumes "monitor_run hs s" and "stage s = Outside" and "pipe s = []" and "stdin_acks s = []" and "printed s = pairs n" and "cycle s = n"
  shows "monitor_run ((((hs @ [Inhibit]) @ [Announced]) @ [DrainEnds]) @ [TokenOut]) (after_token n)"
proof -
  let ?a = "s\<lparr>stage := Watching\<rparr>" and ?b = "s\<lparr>stage := Draining\<rparr>"
  have 1: "monitor_run (hs @ [Inhibit]) ?a" by (rule more [OF assms(1) inhibit]) (rule assms(2))
  have "sleepMonitorCommand ?a Announced ?b" using announced [of ?a] by simp
  from more [OF 1 this] have 2: "monitor_run ((hs @ [Inhibit]) @ [Announced]) ?b" .
  let ?c = "s\<lparr>stage := Drained, relayed := 0\<rparr>"
  have "sleepMonitorCommand ?b DrainEnds ?c" using drain_ends [of ?b] assms(3) by simp
  from more [OF 2 this] have 3: "monitor_run (((hs @ [Inhibit]) @ [Announced]) @ [DrainEnds]) ?c" .
  have "after_token n = ?c\<lparr>stage := Waiting, cycle := Suc (cycle ?c), printed := printed ?c @ [SleepToken]\<rparr>"
    using assms by (cases s) (simp add: after_token_def)
  then have "sleepMonitorCommand ?c TokenOut (after_token n)" using token_out [of ?c] by simp
  from more [OF 3 this] show ?thesis .
qed

lemma first_token: "monitor_run [Inhibit, Announced, DrainEnds, TokenOut] (after_token 0)"
  using one_round [OF start, of 0] by (simp add: monitor_start_def)

lemma token_breaks: "sleepMonitorCommand (after_token n) Breaks ((after_token n)\<lparr>stage := Outside\<rparr>)"
  by (rule breaks) (simp add: after_token_def)

theorem sleep_handled_witness:
  "wakes_follow_sleeps (printed (after_token 0)) \<and> \<not> holds_inhibitor ((after_token 0)\<lparr>stage := Outside\<rparr>)"
  using sleep_handled [OF first_token token_breaks] by (simp add: holds_inhibitor_def)

section \<open>Whose answer ends the wait\<close>

text \<open>An answer that the panel wrote only after the next sleep was announced does end that wait, although
  it answers the sleep before: old answers are read away only before the token.\<close>
theorem late_answer_ends_next_wait:
  "\<exists>hs s s'. monitor_run hs s \<and> sleepMonitorCommand s (Acked 1) s' \<and> cycle s = 2"
proof -
  let ?s0 = "(after_token 0)\<lparr>stage := Released\<rparr>"
  let ?s1 = "?s0\<lparr>stage := Outside, printed := printed ?s0 @ [WakeToken]\<rparr>"
  let ?s2 = "(after_token 1)\<lparr>stdin_acks := [1]\<rparr>"
  let ?s3 = "(after_token 1)\<lparr>pipe := [1], relayed := 1\<rparr>"
  have 0: "monitor_run ([Inhibit, Announced, DrainEnds, TokenOut] @ [TimedOut]) ?s0"
    by (rule more [OF first_token timed_out]) (simp add: after_token_def)
  have 1: "monitor_run (([Inhibit, Announced, DrainEnds, TokenOut] @ [TimedOut]) @ [WakeOut]) ?s1"
    by (rule more [OF 0 wake_out]) simp
  from one_round [OF 1, of 1] obtain hs where 2: "monitor_run hs (after_token 1)" by (auto simp: after_token_def)
  have "sleepMonitorCommand (after_token 1) (PanelAcks 1) ?s2" using panel_acks [of "after_token 1" 1] by (simp add: after_token_def)
  from more [OF 2 this] have 3: "monitor_run (hs @ [PanelAcks 1]) ?s2" .
  have "sleepMonitorCommand ?s2 Relay ?s3" using relay [of ?s2 1 "[]"] by (simp add: after_token_def)
  from more [OF 3 this] have 4: "monitor_run ((hs @ [PanelAcks 1]) @ [Relay]) ?s3" .
  have "\<exists>s'. sleepMonitorCommand ?s3 (Acked 1) s'" using acked [of ?s3 1 "[]"] by (auto simp: after_token_def)
  with 4 show ?thesis by (fastforce simp: after_token_def)
qed

text \<open>A script that fails after its sleep token gets no wake token, so the next sleep follows the last one.\<close>
theorem sleep_twice: "\<exists>hs s. monitor_run hs s \<and> printed s = [SleepToken, SleepToken]"
proof -
  let ?s = "(after_token 0)\<lparr>stage := Outside\<rparr>"
  from more [OF first_token token_breaks] have 1: "monitor_run ([Inhibit, Announced, DrainEnds, TokenOut] @ [Breaks]) ?s" .
  have 2: "monitor_run (([Inhibit, Announced, DrainEnds, TokenOut] @ [Breaks]) @ [Inhibit]) (?s\<lparr>stage := Watching\<rparr>)" by (rule more [OF 1 inhibit]) simp
  have "monitor_run ((([Inhibit, Announced, DrainEnds, TokenOut] @ [Breaks]) @ [Inhibit]) @ [Announced]) (?s\<lparr>stage := Watching, stage := Draining\<rparr>)"
    by (rule more [OF 2 announced]) simp
  from more [OF more [OF this drain_ends] token_out] show ?thesis by (fastforce simp: after_token_def)
qed

end
