(* ===== verification/Files.thy ===== *)
theory Files
  imports Associations Unlock
begin

text \<open>
  The files the plugin keeps, from \<^verbatim>\<open>BitwardenModel.js\<close>: the account registry and one file of learned
  associations per account. The scripts that write them are runs of single calls, each of which may
  fail, with signals and the death of the shell at any point; the scripts that read, clear and retire
  are functions on the folder. A folder is what its path is, its entries by name, and the temporary
  file of the writer; contents are bytes. Whether a removal works is a parameter.
\<close>

datatype folder_kind = NoFolder | Folder | FolderLink | NotFolder

datatype file_entry = Regular "nat list" bool   \<comment> \<open>contents, readable\<close> | Symlink | Directory

datatype write_stage =
    Begun       \<comment> \<open>before \<^verbatim>\<open>privateDirScript\<close>\<close>
  | FolderOk
  | TempMade    \<comment> \<open>after \<^verbatim>\<open>mktemp\<close>, the traps are set\<close>
  | TempFull
  | TempSized
  | TempPrivate
  | Placed      \<comment> \<open>after the rename, before \<^verbatim>\<open>mv\<close> returned and the script ended\<close>
  | Ended nat
  | Killed

record store =
  folder :: folder_kind
  entries :: "jsstr \<rightharpoonup> file_entry"
  temp :: "nat list option"
  wstage :: write_stage

datatype write_event = Check | Make | MkTemp | Fill | Measure | Chmod | Rename | Finish | Fails | Signalled | ShellDies

definition kept_input :: "nat option \<Rightarrow> nat list \<Rightarrow> nat list" where
  \<comment> \<open>\<^verbatim>\<open>head -c\<close> with one byte over the limit, or all of it\<close>
  "kept_input limit input = (case limit of Some n \<Rightarrow> take (n + 1) input | None \<Rightarrow> input)"

definition fits_limit :: "nat option \<Rightarrow> nat list \<Rightarrow> bool" where
  "fits_limit limit b = (case limit of Some n \<Rightarrow> length b \<le> n | None \<Rightarrow> True)"

text \<open>\<open>input\<close> is what arrived before the end of the input. A failing call ends the script through its exit trap;
  a trapped signal removes the temporary file and the script goes on; both removals may fail themselves. \<^verbatim>\<open>mv\<close>
  may have renamed the file and still not report it, and the shell may die at any point, also after
  the rename. \<open>Fails\<close> stands for every call that can fail, also the checks of the parent folder of the registry;
  without a limit \<open>Measure\<close> does nothing.\<close>

inductive write_step :: "nat option \<Rightarrow> jsstr \<Rightarrow> nat list \<Rightarrow> store \<Rightarrow> write_event \<Rightarrow> store \<Rightarrow> bool"
  for limit name input where
  has_folder: "wstage s = Begun \<Longrightarrow> folder s = Folder \<Longrightarrow> write_step limit name input s Check (s\<lparr>wstage := FolderOk\<rparr>)"
| bad_folder: "wstage s = Begun \<Longrightarrow> folder s = FolderLink \<or> folder s = NotFolder \<Longrightarrow> write_step limit name input s Check (s\<lparr>wstage := Ended 1\<rparr>)"
| make_folder: "wstage s = Begun \<Longrightarrow> folder s = NoFolder \<Longrightarrow> write_step limit name input s Make (s\<lparr>folder := Folder, wstage := FolderOk\<rparr>)"
| mktemp: "wstage s = FolderOk \<Longrightarrow> write_step limit name input s MkTemp (s\<lparr>temp := Some [], wstage := TempMade\<rparr>)"
| fill: "wstage s = TempMade \<Longrightarrow> write_step limit name input s Fill (s\<lparr>temp := Some (kept_input limit input), wstage := TempFull\<rparr>)"
| measure_ok: "wstage s = TempFull \<Longrightarrow> temp s = Some b \<Longrightarrow> fits_limit limit b \<Longrightarrow> write_step limit name input s Measure (s\<lparr>wstage := TempSized\<rparr>)"
| chmod_ok: "wstage s = TempSized \<Longrightarrow> temp s \<noteq> None \<Longrightarrow> write_step limit name input s Chmod (s\<lparr>wstage := TempPrivate\<rparr>)"
| rename_ok: "wstage s = TempPrivate \<Longrightarrow> temp s = Some b \<Longrightarrow> entries s name \<noteq> Some Directory \<Longrightarrow>
    write_step limit name input s Rename (s\<lparr>entries := (entries s)(name \<mapsto> Regular b True), temp := None, wstage := Placed\<rparr>)"
| finish: "wstage s = Placed \<Longrightarrow> write_step limit name input s Finish (s\<lparr>wstage := Ended 0\<rparr>)"
| fails: "wstage s \<in> {Begun, FolderOk, TempMade, TempFull, TempSized, TempPrivate, Placed} \<Longrightarrow> b = None \<or> b = temp s \<Longrightarrow> n \<noteq> 0 \<Longrightarrow>
    write_step limit name input s Fails (s\<lparr>temp := b, wstage := Ended n\<rparr>)"
| signalled: "wstage s \<in> {TempMade, TempFull, TempSized, TempPrivate, Placed} \<Longrightarrow> b = None \<or> b = temp s \<Longrightarrow>
    write_step limit name input s Signalled (s\<lparr>temp := b\<rparr>)"
| shell_dies: "wstage s \<in> {Begun, FolderOk, TempMade, TempFull, TempSized, TempPrivate, Placed} \<Longrightarrow>
    write_step limit name input s ShellDies (s\<lparr>wstage := Killed\<rparr>)"

definition MAX_ACCOUNTS_BYTES :: nat where "MAX_ACCOUNTS_BYTES = 64 * 1024"

abbreviation registry_file_name :: jsstr where "registry_file_name \<equiv> js ''registry.json''"

definition accountRegistryWriteCommand :: "nat list \<Rightarrow> store \<Rightarrow> write_event \<Rightarrow> store \<Rightarrow> bool" where
  "accountRegistryWriteCommand = write_step None registry_file_name"

definition associationsWriteCommand :: "jsval \<Rightarrow> nat list \<Rightarrow> store \<Rightarrow> write_event \<Rightarrow> store \<Rightarrow> bool" where
  "associationsWriteCommand sl = write_step (Some MAX_ASSOC_BYTES) (associationsFileName sl)"

definition read_capped :: "nat \<Rightarrow> jsstr \<Rightarrow> store \<Rightarrow> nat list" where
  "read_capped n name s =
     (case (folder s, entries s name) of
        (Folder, Some (Regular b readable)) \<Rightarrow> if readable then take n b else js ''{}''
      | _ \<Rightarrow> js ''{}'')"

definition accountRegistryReadCommand :: "store \<Rightarrow> nat list" where
  "accountRegistryReadCommand s = read_capped MAX_ACCOUNTS_BYTES registry_file_name s"

definition associationsReadCommand :: "jsval \<Rightarrow> store \<Rightarrow> nat list" where
  "associationsReadCommand sl s = read_capped MAX_ASSOC_BYTES (associationsFileName sl) s"

definition associationsClearCommand :: "bool \<Rightarrow> jsval \<Rightarrow> store \<Rightarrow> store" where
  \<comment> \<open>\<^verbatim>\<open>rm -f\<close> removes a link itself, and no folder\<close>
  "associationsClearCommand rm_works sl s =
     (if folder s = Folder \<and> rm_works \<and> entries s (associationsFileName sl) \<noteq> Some Directory
      then s\<lparr>entries := (entries s)(associationsFileName sl := None)\<rparr> else s)"

text \<open>The data directories of bw: which of them is signed in, and what is in the folder of the private ones. The
  directory of the default slot is bw's own.\<close>

record bw_data =
  signed_in :: "jsstr \<Rightarrow> bool"
  slots_folder :: folder_kind
  slot_dirs :: "jsstr set"

definition accountSlotRemoveCommand :: "bool \<Rightarrow> bool \<Rightarrow> jsval \<Rightarrow> bw_data \<Rightarrow> bw_data" where
  "accountSlotRemoveCommand logout_works rm_works sl d =
     (let s = accountSlot sl; d' = (if logout_works then d\<lparr>signed_in := (signed_in d)(s := False)\<rparr> else d) in
      if s \<noteq> DEFAULT_ACCOUNT_SLOT \<and> slots_folder d' = Folder \<and> s \<in> slot_dirs d' \<and> rm_works
      then d'\<lparr>slot_dirs := slot_dirs d' - {s}, signed_in := (signed_in d')(s := False)\<rparr> else d')"

definition accountSlotRetireCommand ::
  "(keyring \<Rightarrow> jsstr \<Rightarrow> nat \<times> nat) \<Rightarrow> (keyring \<Rightarrow> jsstr \<Rightarrow> keyring) \<Rightarrow> bool \<Rightarrow> bool \<Rightarrow> bool \<Rightarrow> jsval
    \<Rightarrow> keyring \<times> store \<times> bw_data \<Rightarrow> keyring \<times> store \<times> bw_data" where
  \<comment> \<open>the three scripts one after the other, whatever each exits with\<close>
  "accountSlotRetireCommand find_items clear logout_works rm_works rm_dir_works sl w =
     (case w of (kr, st, d) \<Rightarrow>
        (fst (keyringClearAllCommand find_items clear sl kr), associationsClearCommand rm_works sl st,
         accountSlotRemoveCommand logout_works rm_dir_works sl d))"

text \<open>The helper's runtime files, removed once nothing holds its lock: \<open>held\<close> says of each of the fifty tries whether
  the lock was held by someone else.\<close>

definition runtime_names :: "jsstr list" where
  "runtime_names = [js ''ssh-agent.sock'', js ''ssh-keys.fifo'', js ''ssh-agent.lock'']"

fun cleanup_tries :: "bool list \<Rightarrow> store \<Rightarrow> store" where
  "cleanup_tries [] s = s"
| "cleanup_tries (held # hs) s =
     (if held then cleanup_tries hs s
      else
        (let left = (\<lambda>n. if n \<in> set runtime_names \<and> entries s n \<noteq> Some Directory then None else entries s n)
         in s\<lparr>entries := left, folder := (if left = Map.empty then NoFolder else folder s)\<rparr>))"

definition sshAgentRuntimeCleanupCommand :: "(nat \<Rightarrow> bool) \<Rightarrow> store \<Rightarrow> store" where
  "sshAgentRuntimeCleanupCommand held s =
     (case (folder s, entries s (js ''ssh-agent.lock'')) of
        (Folder, Some (Regular b readable)) \<Rightarrow> cleanup_tries (map held [0..<50]) s
      | _ \<Rightarrow> s)"

section \<open>Runs of a writer\<close>

inductive runs :: "(store \<Rightarrow> write_event \<Rightarrow> store \<Rightarrow> bool) \<Rightarrow> store \<Rightarrow> write_event list \<Rightarrow> store \<Rightarrow> bool"
  for writer s where
  none: "runs writer s [] s"
| one_more: "runs writer s es t \<Longrightarrow> writer t e u \<Longrightarrow> runs writer s (es @ [e]) u"

definition written_or_kept :: "nat option \<Rightarrow> jsstr \<Rightarrow> nat list \<Rightarrow> store \<Rightarrow> bool \<Rightarrow> store \<Rightarrow> bool" where
  \<comment> \<open>what holds between the folder at the start and the folder at any later point, before or after the rename\<close>
  "written_or_kept limit name input s renamed t \<longleftrightarrow>
     entries t = (if renamed then (entries s)(name \<mapsto> Regular input True) else entries s)
     \<and> (renamed \<longrightarrow> fits_limit limit input \<and> folder t = Folder \<and> wstage t \<notin> {Begun, FolderOk, TempMade, TempFull, TempSized, TempPrivate})
     \<and> (wstage t \<in> {Placed, Ended 0} \<longrightarrow> renamed)
     \<and> (wstage t \<in> {TempFull, TempSized, TempPrivate} \<longrightarrow> temp t = None \<or> temp t = Some (kept_input limit input))
     \<and> (wstage t \<in> {TempSized, TempPrivate} \<longrightarrow> fits_limit limit (kept_input limit input))
     \<and> (wstage t \<in> {FolderOk, TempMade, TempFull, TempSized, TempPrivate} \<longrightarrow> folder t = Folder)
     \<and> (wstage t \<in> {Begun, FolderOk, Placed, Ended 0} \<longrightarrow> temp t = None)"

lemma kept_fits: "fits_limit limit (kept_input limit input) \<Longrightarrow> kept_input limit input = input \<and> fits_limit limit input"
  by (auto simp: fits_limit_def kept_input_def split: option.splits)

lemma written_or_kept_step:
  "write_step limit name input t e u \<Longrightarrow> written_or_kept limit name input s renamed t
   \<Longrightarrow> written_or_kept limit name input s (renamed \<or> e = Rename) u"
proof (induction rule: write_step.induct)
  case (rename_ok t b)
  then have "b = kept_input limit input" and "fits_limit limit (kept_input limit input)" by (auto simp: written_or_kept_def)
  with rename_ok kept_fits [of limit input] show ?case by (simp add: written_or_kept_def)
next
  case (fails t b n)
  then show ?case by (cases renamed) (simp_all add: written_or_kept_def)
next
  case (shell_dies t)
  then show ?case by (cases renamed) (simp_all add: written_or_kept_def)
next
  case (signalled t b)
  from signalled(1) have "wstage t \<noteq> Begun" "wstage t \<noteq> FolderOk" "wstage t \<noteq> Ended 0" by auto
  moreover have "b = temp t \<or> b = None" using signalled(2) by blast
  ultimately show ?case using signalled(3) by (elim disjE) (simp_all add: written_or_kept_def)
qed (simp_all add: written_or_kept_def)

lemma folder_step: "write_step limit name input t e u \<Longrightarrow> folder u = folder t \<or> (folder t = NoFolder \<and> folder u = Folder)"
  by (induction rule: write_step.induct) simp_all

section \<open>A file is the old one or the whole new one\<close>

definition writing :: "store \<Rightarrow> store" where
  \<comment> \<open>a writer begins\<close>
  "writing s = s\<lparr>temp := None, wstage := Begun\<rparr>"

lemma writing_simps [simp]: "wstage (writing s) = Begun" "temp (writing s) = None" "entries (writing s) = entries s" "folder (writing s) = folder s"
  by (simp_all add: writing_def)

text \<open>What the readers rely on: a script that replaces one file, step by step.\<close>

locale file_writer =
  fixes writer :: "store \<Rightarrow> write_event \<Rightarrow> store \<Rightarrow> bool" and limit :: "nat option" and name :: jsstr and input :: "nat list"
  assumes keeps: "writer t e u \<Longrightarrow> written_or_kept limit name input s renamed t \<Longrightarrow> written_or_kept limit name input s (renamed \<or> e = Rename) u"
    and makes_folder: "writer t e u \<Longrightarrow> folder u = folder t \<or> (folder t = NoFolder \<and> folder u = Folder)"
begin

lemma run_kept: "runs writer s es t \<Longrightarrow> wstage s = Begun \<Longrightarrow> temp s = None \<Longrightarrow> written_or_kept limit name input s (Rename \<in> set es) t"
proof (induction rule: runs.induct)
  case none
  then show ?case by (simp add: written_or_kept_def)
next
  case (one_more es t e u)
  then show ?case using keeps [of t e u s "Rename \<in> set es"] by (simp add: disj_commute eq_commute)
qed

lemma run_folder: "runs writer s es t \<Longrightarrow> folder t = folder s \<or> (folder s = NoFolder \<and> folder t = Folder)"
  by (induction rule: runs.induct) (use makes_folder in force)+

lemma written:
  assumes "runs writer (writing s) es t"
  shows "entries t = (if Rename \<in> set es then (entries s)(name \<mapsto> Regular input True) else entries s)"
    and "Rename \<in> set es \<Longrightarrow> fits_limit limit input \<and> folder t = Folder"
    and "folder s = FolderLink \<or> folder s = NotFolder \<Longrightarrow> folder t = folder s \<and> Rename \<notin> set es"
    and "wstage t = Ended 0 \<Longrightarrow> Rename \<in> set es \<and> temp t = None"
proof -
  note w = run_kept [OF assms writing_simps(1,2)]
  from w show "entries t = (if Rename \<in> set es then (entries s)(name \<mapsto> Regular input True) else entries s)" by (simp add: written_or_kept_def)
  from w show 2: "Rename \<in> set es \<Longrightarrow> fits_limit limit input \<and> folder t = Folder" by (simp add: written_or_kept_def)
  have "folder t = folder s \<or> folder s = NoFolder" using run_folder [OF assms] by auto
  with 2 show "folder s = FolderLink \<or> folder s = NotFolder \<Longrightarrow> folder t = folder s \<and> Rename \<notin> set es" by auto
  from w show "wstage t = Ended 0 \<Longrightarrow> Rename \<in> set es \<and> temp t = None" by (simp add: written_or_kept_def)
qed

end

interpretation registry_writer: file_writer "accountRegistryWriteCommand input" None registry_file_name input for input
  by unfold_locales (auto simp: accountRegistryWriteCommand_def intro: written_or_kept_step dest: folder_step)

interpretation associations_writer: file_writer "associationsWriteCommand sl input" "Some MAX_ASSOC_BYTES" "associationsFileName sl" input for sl input
  by unfold_locales (auto simp: associationsWriteCommand_def intro: written_or_kept_step dest: folder_step)

text \<open>The file of each slot is its own.\<close>
lemma file_names_differ: "accountSlot sl \<noteq> accountSlot sl' \<Longrightarrow> associationsFileName sl \<noteq> associationsFileName sl'"
proof -
  have "js ''associations.json'' \<noteq> js ''associations@'' @ x" for x by (simp add: js_def)
  note neq = this this [symmetric]
  then show "accountSlot sl \<noteq> accountSlot sl' \<Longrightarrow> associationsFileName sl \<noteq> associationsFileName sl'"
    by (auto simp: associationsFileName_def Let_def split: if_splits)
qed

definition real_store :: "store \<Rightarrow> bool" where
  \<comment> \<open>a folder that does not exist has no entries\<close>
  "real_store s \<longleftrightarrow> folder s = NoFolder \<longrightarrow> entries s = Map.empty"

lemma read_other:
  assumes "real_store s" and "folder t = folder s \<or> (folder s = NoFolder \<and> folder t = Folder)" and "entries t n = entries s n"
  shows "read_capped k n t = read_capped k n s"
  using assms by (auto simp: real_store_def read_capped_def split: folder_kind.splits)

lemma saved_read:
  "runs (associationsWriteCommand sl input) (writing s) es t \<Longrightarrow> Rename \<in> set es \<Longrightarrow> associationsReadCommand sl t = input"
  using associations_writer.written(1,2) [of sl input s es t] by (simp add: associationsReadCommand_def read_capped_def fits_limit_def)

text \<open>C17: When a well-formed ASCII store has arrived whole at the script that saves it: whatever call fails, whichever
  signals arrive and whenever the shell is killed, the associations of the account read afterwards as exactly
  the ones just saved, if the rename happened, and as the ones before, if it did not. Exit status 0 is given only
  after the rename and leaves no temporary file (after a failure or a kill the new file may be in place all
  the same); the files of the other accounts read as before; nothing is written through a linked folder.\<close>
theorem associations_saved:
  assumes "runs (associationsWriteCommand sl (serializeAssociations a)) (writing s) es t"
    and "assoc_ok a" and "list_all (\<lambda>c. c < 128) (serializeAssociations a)" and "real_store s"
  shows "parseAssociations (associationsReadCommand sl t)
      = (if Rename \<in> set es then Some a else parseAssociations (associationsReadCommand sl s))
    \<and> (wstage t = Ended 0 \<longrightarrow> Rename \<in> set es \<and> temp t = None)
    \<and> (\<forall>sl'. accountSlot sl' \<noteq> accountSlot sl \<longrightarrow> associationsReadCommand sl' t = associationsReadCommand sl' s)
    \<and> (folder s = FolderLink \<longrightarrow> entries t = entries s)"
proof -
  note w = associations_writer.written [OF assms(1)] and f = associations_writer.run_folder [OF assms(1), simplified]
  have same: "associationsReadCommand sl' t = associationsReadCommand sl' s" if "entries t (associationsFileName sl') = entries s (associationsFileName sl')" for sl'
    unfolding associationsReadCommand_def by (rule read_other [OF assms(4) f that])
  have "associationsReadCommand sl t = serializeAssociations a" if "Rename \<in> set es" using saved_read [OF assms(1) that] .
  with same [of sl] associations_round_trip [OF assms(2)]
  have "parseAssociations (associationsReadCommand sl t) = (if Rename \<in> set es then Some a else parseAssociations (associationsReadCommand sl s))"
    using w(1) by auto
  moreover have "associationsReadCommand sl' t = associationsReadCommand sl' s" if "accountSlot sl' \<noteq> accountSlot sl" for sl'
    using same [of sl'] w(1) file_names_differ [OF that] by simp
  ultimately show ?thesis using w(1,3,4) by auto
qed

abbreviation calls_made :: "write_event list" where
  "calls_made \<equiv> [Check, MkTemp, Fill, Measure, Chmod, Rename, Finish]"

lemma write_succeeds:
  assumes "folder s = Folder" and "entries s name \<noteq> Some Directory" and "fits_limit limit input"
  shows "runs (write_step limit name input) (writing s) calls_made
    (s\<lparr>entries := (entries s)(name \<mapsto> Regular input True), temp := None, wstage := Ended 0\<rparr>)"
proof -
  have k: "kept_input limit input = input" using assms(3) by (auto simp: kept_input_def fits_limit_def split: option.splits)
  let ?w = "write_step limit name input" and ?s = "writing s"
  let ?at = "\<lambda>b g. s\<lparr>temp := b, wstage := g\<rparr>" and ?in = "\<lambda>g. s\<lparr>entries := (entries s)(name \<mapsto> Regular input True), temp := None, wstage := g\<rparr>"
  have "?w ?s Check (?at None FolderOk)" using has_folder [of ?s limit name input] assms(1) by (simp add: writing_def)
  from one_more [OF none [of ?w ?s] this] have 1: "runs ?w ?s [Check] (?at None FolderOk)" by simp
  have "?w (?at None FolderOk) MkTemp (?at (Some []) TempMade)" using mktemp [of "?at None FolderOk" limit name input] by simp
  from one_more [OF 1 this] have 2: "runs ?w ?s [Check, MkTemp] (?at (Some []) TempMade)" by simp
  have "?w (?at (Some []) TempMade) Fill (?at (Some input) TempFull)" using fill [of "?at (Some []) TempMade" limit name input] k by simp
  from one_more [OF 2 this] have 3: "runs ?w ?s [Check, MkTemp, Fill] (?at (Some input) TempFull)" by simp
  have "?w (?at (Some input) TempFull) Measure (?at (Some input) TempSized)" using measure_ok [of "?at (Some input) TempFull" input limit name input] assms(3) by simp
  from one_more [OF 3 this] have 4: "runs ?w ?s [Check, MkTemp, Fill, Measure] (?at (Some input) TempSized)" by simp
  have "?w (?at (Some input) TempSized) Chmod (?at (Some input) TempPrivate)" using chmod_ok [of "?at (Some input) TempSized" limit name input] by simp
  from one_more [OF 4 this] have 5: "runs ?w ?s [Check, MkTemp, Fill, Measure, Chmod] (?at (Some input) TempPrivate)" by simp
  have "?w (?at (Some input) TempPrivate) Rename (?in Placed)" using rename_ok [of "?at (Some input) TempPrivate" input name limit input] assms(2) by simp
  from one_more [OF 5 this] have 6: "runs ?w ?s [Check, MkTemp, Fill, Measure, Chmod, Rename] (?in Placed)" by simp
  have "?w (?in Placed) Finish (?in (Ended 0))" using finish [of "?in Placed" limit name input] by simp
  from one_more [OF 6 this] show ?thesis by simp
qed

definition demo_store :: store where
  "demo_store = \<lparr>folder = Folder, entries = [js ''associations.json'' \<mapsto> Regular (js ''{}'') True], temp = None, wstage = Begun\<rparr>"

definition demo_assoc :: assoc where "demo_assoc = [(js ''domain:example.com'', demo_entry)]"

lemma demo_assoc_ok: "assoc_ok demo_assoc"
  by (simp add: demo_assoc_def assoc_ok_def entry_ok_def demo_weight demo_entry_def id_ok_def, simp add: js_unfold)

lemma demo_assoc_text: "list_all (\<lambda>c. c < 128) (serializeAssociations demo_assoc) \<and> length (serializeAssociations demo_assoc) \<le> MAX_ASSOC_BYTES"
  by (simp add: serializeAssociations_def assoc_json_def demo_assoc_def entry_json_def demo_entry_def json_quote_def js_def quote_unit_def
      is_high_surrogate_def is_low_surrogate_def ASSOC_VERSION_def num_to_str_int int_to_str_def nat_to_str_def nat_digits_acc.simps MAX_ASSOC_BYTES_def)

theorem associations_saved_witness:
  "\<exists>t. runs (associationsWriteCommand (JStr (js ''00000000000000aa'')) (serializeAssociations demo_assoc)) (writing demo_store)
       calls_made t
     \<and> parseAssociations (associationsReadCommand (JStr (js ''00000000000000aa'')) t) = Some demo_assoc
     \<and> associationsReadCommand JUndef t = js ''{}''"
proof -
  let ?sl = "JStr (js ''00000000000000aa'')"
  have n: "associationsFileName JUndef = js ''associations.json''" by (simp add: associationsFileName_def accountSlot_def)
  have d: "accountSlot JUndef \<noteq> accountSlot ?sl" by code_simp
  have "entries demo_store (associationsFileName ?sl) \<noteq> Some Directory" "real_store demo_store" "folder demo_store = Folder"
    by (simp_all add: demo_store_def real_store_def)
  moreover have "fits_limit (Some MAX_ASSOC_BYTES) (serializeAssociations demo_assoc)" using demo_assoc_text by (simp add: fits_limit_def)
  ultimately obtain t where t: "runs (associationsWriteCommand ?sl (serializeAssociations demo_assoc)) (writing demo_store)
      calls_made t" "wstage t = Ended 0"
    using write_succeeds [of demo_store "associationsFileName ?sl"] by (fastforce simp: associationsWriteCommand_def)
  from associations_saved [OF t(1) demo_assoc_ok conjunct1 [OF demo_assoc_text] \<open>real_store demo_store\<close>] t(2) d
  have "parseAssociations (associationsReadCommand ?sl t) = Some demo_assoc" "associationsReadCommand JUndef t = associationsReadCommand JUndef demo_store" by auto
  moreover have "associationsReadCommand JUndef demo_store = js ''{}''"
    by (simp add: associationsReadCommand_def n read_capped_def demo_store_def MAX_ASSOC_BYTES_def js_def)
  ultimately show ?thesis using t(1) by auto
qed

section \<open>The registry always fits what is read of it\<close>

lemma length_quote_unit: "length (quote_unit c) \<le> 6"
  by (simp add: quote_unit_def hex_unit_def)

lemma length_quote_units: "length (quote_units s) \<le> 6 * length s"
proof (induction s rule: quote_units.induct)
  case (2 c cs)
  show ?case
  proof (cases cs)
    case Nil
    then show ?thesis using length_quote_unit [of c] by simp
  next
    case (Cons d ds)
    show ?thesis
    proof (cases "is_high_surrogate c \<and> is_low_surrogate d")
      case True
      then show ?thesis using 2(1) [OF Cons True] Cons by simp
    next
      case False
      then have "quote_units (c # cs) = quote_unit c @ quote_units cs" using Cons by auto
      then show ?thesis using 2(2) [OF Cons False] Cons length_quote_unit [of c] by simp
    qed
  qed
qed simp

lemma length_nat_to_str: "n < 10 ^ k \<Longrightarrow> 0 < k \<Longrightarrow> length (nat_to_str n) \<le> k"
proof (induction k arbitrary: n)
  case (Suc k)
  show ?case
  proof (cases "n < 10")
    case False
    with Suc.prems have "0 < k" by (cases k) simp_all
    moreover have "n div 10 < 10 ^ k" using Suc.prems by (simp add: less_mult_imp_div_less mult.commute)
    moreover note False
    ultimately show ?thesis using Suc.IH [of "n div 10"] by (simp add: nat_to_str_unfold [of n])
  qed (simp add: nat_to_str_unfold)
qed simp

lemma length_time: "plain_num n \<Longrightarrow> num_le (Fin 0) n \<Longrightarrow> length (json_str (JNum n)) \<le> 21"
proof (cases n)
  case (Fin q)
  assume a: "plain_num n" "num_le (Fin 0) n"
  define z where "z = \<lfloor>q\<rfloor>"
  have q: "q = of_int z" "0 \<le> q" "\<bar>q\<bar> < 10 ^ 21" using a Fin by (simp_all add: z_def)
  have z: "0 \<le> z" using q(1,2) by simp
  have "(of_int z :: rat) < of_int (10 ^ 21)" using q z by simp
  then have lt: "z < 10 ^ 21" by (simp only: of_int_less_iff)
  then have "length (nat_to_str (nat z)) \<le> 21" using length_nat_to_str [of "nat z" 21] z by (simp add: nat_less_iff)
  moreover have "json_str (JNum n) = nat_to_str (nat z)" using num_to_str_int [of z] lt z Fin q(1) by (simp add: int_to_str_def)
  ultimately show ?thesis by simp
qed simp_all

lemma length_slot: "valid_slot s \<Longrightarrow> length s \<le> 16"
  by (auto simp: valid_slot_def DEFAULT_ACCOUNT_SLOT_def ACCOUNT_SLOT_RE_def js_def)

lemma length_account: "wf_account a \<Longrightarrow> plain_num (lastUsed a) \<Longrightarrow> length (json_str (account_json a)) \<le> 6100"
proof -
  assume a: "wf_account a" "plain_num (lastUsed a)"
  have k: "length (quote_units (js ''slot'')) \<le> 24" "length (quote_units (js ''email'')) \<le> 30" "length (quote_units (js ''userId'')) \<le> 36"
    "length (quote_units (js ''server'')) \<le> 36" "length (quote_units (js ''lastUsed'')) \<le> 48"
    by (rule order_trans [OF length_quote_units], simp)+
  have "length (quote_units (slot a)) \<le> 96" using a length_slot [of "slot a"] length_quote_units [of "slot a"] by (simp add: wf_account_def)
  moreover have "length (quote_units (email a)) \<le> 1920" using a length_quote_units [of "email a"] by (simp add: wf_account_def clean_text_def)
  moreover have "length (quote_units (userId a)) \<le> 768" using a length_quote_units [of "userId a"] by (simp add: wf_account_def clean_text_def)
  moreover have "length (quote_units (server a)) \<le> 3072" using a length_quote_units [of "server a"] by (simp add: wf_account_def clean_text_def)
  moreover have "length (json_str (JNum (lastUsed a))) \<le> 21" using a length_time [of "lastUsed a"] by (simp add: wf_account_def del: json_str.simps)
  ultimately show ?thesis using k unfolding account_json_def by (simp add: json_quote_def split del: if_split)
qed

lemma length_registry: "storable r \<Longrightarrow> length (serializeAccountRegistry r) \<le> MAX_ACCOUNTS_BYTES"
proof -
  assume r: "storable r"
  then have w: "length (accounts r) \<le> 10" "\<forall>a\<in>set (accounts r). length (json_str (account_json a)) \<le> 6100" "valid_slot (active r)"
    by (auto simp: storable_def wf_registry_def wf_accounts_def MAX_ACCOUNTS_def intro: length_account)
  have "sum_list (map (\<lambda>a. length (json_str (account_json a)) + 1) as) \<le> 6101 * length as"
    if "\<forall>a\<in>set as. length (json_str (account_json a)) \<le> 6100" for as
    using that by (induction as) auto
  from this [OF w(2)] have j: "length (join [44] (map json_str (map account_json (accounts r)))) \<le> 61010"
    using length_join_le [of 44 "map json_str (map account_json (accounts r))"] w(1) by (simp add: comp_def)
  have k: "length (quote_units (js ''version'')) \<le> 42" "length (quote_units (js ''active'')) \<le> 36" "length (quote_units (js ''accounts'')) \<le> 48"
    by (rule order_trans [OF length_quote_units], simp)+
  have "length (accountSlot (JStr (active r))) \<le> 16" using length_slot [OF w(3)] w(3) by (simp add: accountSlot_def DEFAULT_ACCOUNT_SLOT_def)
  with length_quote_units [of "accountSlot (JStr (active r))"] have "length (quote_units (accountSlot (JStr (active r)))) \<le> 96" by simp
  moreover have "length (json_str (jint ACCOUNTS_VERSION)) \<le> 1"
    using num_to_str_int [of 1] by (simp add: ACCOUNTS_VERSION_def int_to_str_def nat_to_str_unfold)
  ultimately show ?thesis using j k unfolding serializeAccountRegistry_def registry_json_def MAX_ACCOUNTS_BYTES_def by (simp add: json_quote_def split del: if_split)
qed

text \<open>C24: A well-formed registry of ASCII texts whose times print as whole numbers always fits the bytes that are read
  of its file, so saving it is never what loses it: whatever fails or is killed, reading the file afterwards gives
  exactly the registry just saved, if the rename happened, which an exit with 0 implies, and otherwise
  what was read before.\<close>
theorem registry_saved:
  assumes "runs (accountRegistryWriteCommand (serializeAccountRegistry r)) (writing s) es t"
    and "storable r" and "list_all (\<lambda>c. c < 128) (serializeAccountRegistry r)" and "real_store s"
  shows "length (serializeAccountRegistry r) \<le> MAX_ACCOUNTS_BYTES
    \<and> parseAccountRegistry (accountRegistryReadCommand t)
        = (if Rename \<in> set es then r else parseAccountRegistry (accountRegistryReadCommand s))
    \<and> (wstage t = Ended 0 \<longrightarrow> Rename \<in> set es)"
proof -
  note w = registry_writer.written [OF assms(1)] and f = registry_writer.run_folder [OF assms(1), simplified]
  have "accountRegistryReadCommand t = serializeAccountRegistry r" if "Rename \<in> set es"
    using w(1,2) that length_registry [OF assms(2)] by (simp add: accountRegistryReadCommand_def read_capped_def)
  moreover have "accountRegistryReadCommand t = accountRegistryReadCommand s" if "Rename \<notin> set es"
    unfolding accountRegistryReadCommand_def by (rule read_other [OF assms(4) f]) (use w(1) that in simp)
  ultimately show ?thesis using length_registry [OF assms(2)] registry_round_trip [OF assms(2)] w(4) by simp
qed

lemma demo_registry_text: "list_all (\<lambda>c. c < 128) (serializeAccountRegistry demo_registry)"
  by (simp add: serializeAccountRegistry_def registry_json_def demo_registry_def account_json_def accountSlot_def isAccountSlot_def DEFAULT_ACCOUNT_SLOT_def
      json_quote_def js_def quote_unit_def is_high_surrogate_def is_low_surrogate_def ACCOUNTS_VERSION_def num_to_str_int int_to_str_def nat_to_str_unfold)

theorem registry_saved_witness:
  "\<exists>t. runs (accountRegistryWriteCommand (serializeAccountRegistry demo_registry)) (writing demo_store) calls_made t
     \<and> parseAccountRegistry (accountRegistryReadCommand t) = demo_registry"
proof -
  have "entries demo_store registry_file_name \<noteq> Some Directory" "real_store demo_store" "folder demo_store = Folder"
    by (simp_all add: demo_store_def real_store_def)
  then obtain t where t: "runs (accountRegistryWriteCommand (serializeAccountRegistry demo_registry)) (writing demo_store)
      calls_made t" "wstage t = Ended 0"
    using write_succeeds [of demo_store registry_file_name None] by (fastforce simp: accountRegistryWriteCommand_def fits_limit_def)
  with registry_saved [OF t(1) storable_demo demo_registry_text \<open>real_store demo_store\<close>] show ?thesis by auto
qed

section \<open>A retired slot is gone\<close>

definition kept_elsewhere :: "jsstr \<Rightarrow> keyring \<times> store \<times> bw_data \<Rightarrow> keyring \<times> store \<times> bw_data \<Rightarrow> bool" where
  \<comment> \<open>everything of the other slots is as it was\<close>
  "kept_elsewhere sl w w' \<longleftrightarrow>
     (\<forall>sl' a. accountSlot sl' \<noteq> sl \<longrightarrow> a \<in> set KEYRING_ALL_ACCOUNTS \<longrightarrow> fst w' (keyringEntryName a sl') = fst w (keyringEntryName a sl'))
     \<and> (\<forall>sl'. accountSlot sl' \<noteq> sl \<longrightarrow> entries (fst (snd w')) (associationsFileName sl') = entries (fst (snd w)) (associationsFileName sl'))
     \<and> (\<forall>s. s \<noteq> sl \<longrightarrow> signed_in (snd (snd w')) s = signed_in (snd (snd w)) s \<and> (s \<in> slot_dirs (snd (snd w')) \<longleftrightarrow> s \<in> slot_dirs (snd (snd w))))"

text \<open>C23: Retiring a slot never touches another one: its keyring entries, learned associations, data directory and
  sign-in stay as they were, whatever fails; the directory of the default slot is never deleted. When
  the calls work, nothing of the retired slot is left in any of the three.\<close>
theorem retired_slot_gone:
  assumes "clears_only clear" and "accountSlotRetireCommand find_items clear logout_works rm_works rm_dir_works sl (kr, st, d) = (kr', st', d')"
  shows "kept_elsewhere (accountSlot sl) (kr, st, d) (kr', st', d')
    \<and> (accountSlot sl = DEFAULT_ACCOUNT_SLOT \<longrightarrow> slot_dirs d' = slot_dirs d)
    \<and> (searches_exactly find_items \<and> snd (keyringClearAllCommand find_items clear sl kr) \<longrightarrow>
         (\<forall>a\<in>set KEYRING_ALL_ACCOUNTS. kr' (keyringEntryName a sl) = None))
    \<and> (rm_works \<and> folder st = Folder \<and> entries st (associationsFileName sl) \<noteq> Some Directory \<longrightarrow> entries st' (associationsFileName sl) = None)
    \<and> (logout_works \<longrightarrow> \<not> signed_in d' (accountSlot sl))
    \<and> (accountSlot sl \<noteq> DEFAULT_ACCOUNT_SLOT \<and> rm_dir_works \<and> slots_folder d = Folder \<longrightarrow> accountSlot sl \<notin> slot_dirs d')"
proof -
  obtain ok where k: "keyringClearAllCommand find_items clear sl kr = (kr', ok)"
    and st: "st' = associationsClearCommand rm_works sl st" and d: "d' = accountSlotRemoveCommand logout_works rm_dir_works sl d"
    using assms(2) by (cases "keyringClearAllCommand find_items clear sl kr") (simp add: accountSlotRetireCommand_def)
  have "kr' (keyringEntryName a sl') = kr (keyringEntryName a sl')" if "accountSlot sl' \<noteq> accountSlot sl" "a \<in> set KEYRING_ALL_ACCOUNTS" for a sl'
    by (rule clear_all_keeps [OF assms(1) k other_slot_entry [OF that(2,1)]])
  moreover have "entries st' (associationsFileName sl') = entries st (associationsFileName sl')" if "accountSlot sl' \<noteq> accountSlot sl" for sl'
    using file_names_differ [OF that] by (simp add: st associationsClearCommand_def)
  moreover have "signed_in d' s = signed_in d s \<and> (s \<in> slot_dirs d' \<longleftrightarrow> s \<in> slot_dirs d)" if "s \<noteq> accountSlot sl" for s
    using that by (simp add: d accountSlotRemoveCommand_def Let_def)
  ultimately have "kept_elsewhere (accountSlot sl) (kr, st, d) (kr', st', d')" by (auto simp: kept_elsewhere_def)
  moreover have "\<forall>a\<in>set KEYRING_ALL_ACCOUNTS. kr' (keyringEntryName a sl) = None" if "searches_exactly find_items" ok
    using clear_all_gone [OF that(1) assms(1)] k that(2) by simp
  moreover have "logout_works \<longrightarrow> \<not> signed_in d' (accountSlot sl)" "accountSlot sl = DEFAULT_ACCOUNT_SLOT \<longrightarrow> slot_dirs d' = slot_dirs d"
    "accountSlot sl \<noteq> DEFAULT_ACCOUNT_SLOT \<and> rm_dir_works \<and> slots_folder d = Folder \<longrightarrow> accountSlot sl \<notin> slot_dirs d'"
    by (auto simp: d accountSlotRemoveCommand_def Let_def)
  moreover have "rm_works \<and> folder st = Folder \<and> entries st (associationsFileName sl) \<noteq> Some Directory \<longrightarrow> entries st' (associationsFileName sl) = None"
    by (simp add: st associationsClearCommand_def)
  ultimately show ?thesis using k by auto
qed

theorem retired_slot_gone_witness:
  "\<exists>kr' st' d'. accountSlotRetireCommand (\<lambda>kr e. (0, case kr e of None \<Rightarrow> 0 | Some v \<Rightarrow> length v + 20)) (\<lambda>kr e. kr(e := None)) True True True JUndef
       ([KEYRING_ACCOUNT \<mapsto> js ''s''], demo_store, \<lparr>signed_in = (\<lambda>_. True), slots_folder = Folder, slot_dirs = {js ''00000000000000aa''}\<rparr>) = (kr', st', d')
     \<and> entries st' (js ''associations.json'') = None \<and> \<not> signed_in d' (js ''default'') \<and> slot_dirs d' = {js ''00000000000000aa''}"
proof -
  let ?find = "\<lambda>kr e. (0::nat, case kr e of None \<Rightarrow> 0 | Some v \<Rightarrow> length v + 20)" and ?clear = "\<lambda>(kr::keyring) e. kr(e := None)"
  let ?kr = "[KEYRING_ACCOUNT \<mapsto> js ''s'']" and ?d = "\<lparr>signed_in = (\<lambda>_. True), slots_folder = Folder, slot_dirs = {js ''00000000000000aa''}\<rparr>"
  obtain kr' st' d' where r: "accountSlotRetireCommand ?find ?clear True True True JUndef (?kr, demo_store, ?d) = (kr', st', d')"
    by (cases "accountSlotRetireCommand ?find ?clear True True True JUndef (?kr, demo_store, ?d)") auto
  have c: "clears_only ?clear" by (simp add: clears_only_def)
  have s: "accountSlot JUndef = DEFAULT_ACCOUNT_SLOT" "associationsFileName JUndef = js ''associations.json''"
    by (simp_all add: associationsFileName_def accountSlot_def)
  have "folder demo_store = Folder" "entries demo_store (js ''associations.json'') \<noteq> Some Directory" by (simp_all add: demo_store_def)
  with retired_slot_gone [OF c r] s r show ?thesis by (auto simp: DEFAULT_ACCOUNT_SLOT_def)
qed

section \<open>Runtime files are removed under their lock\<close>

lemma cleanup_held: "list_all (\<lambda>h. h) hs \<Longrightarrow> cleanup_tries hs s = s"
  by (induction hs) simp_all

lemma cleanup_keeps: "n \<notin> set runtime_names \<Longrightarrow> entries (cleanup_tries hs s) n = entries s n"
  by (induction hs) (simp_all add: Let_def)

text \<open>A helper that keeps its lock keeps its files, whatever else holds; nothing but the three runtime files is ever
  removed; and the folder only when it is empty then.\<close>
theorem runtime_cleanup_safe:
  "((\<forall>i<50. held i) \<longrightarrow> sshAgentRuntimeCleanupCommand held s = s)
   \<and> (\<forall>n. n \<notin> set runtime_names \<longrightarrow> entries (sshAgentRuntimeCleanupCommand held s) n = entries s n)
   \<and> (folder (sshAgentRuntimeCleanupCommand held s) = folder s \<or> entries (sshAgentRuntimeCleanupCommand held s) = Map.empty)"
proof -
  have e: "folder (cleanup_tries hs s) = folder s \<or> entries (cleanup_tries hs s) = Map.empty" for hs
    by (induction hs) (auto simp: Let_def)
  have c: "sshAgentRuntimeCleanupCommand held s = s \<or> sshAgentRuntimeCleanupCommand held s = cleanup_tries (map held [0..<50]) s"
    by (auto simp: sshAgentRuntimeCleanupCommand_def split: folder_kind.splits option.splits file_entry.splits)
  have "(\<forall>i<50. held i) \<longrightarrow> cleanup_tries (map held [0..<50]) s = s" by (auto intro!: cleanup_held simp: list_all_iff)
  with c e [of "map held [0..<50]"] cleanup_keeps [of _ "map held [0..<50]" s] show ?thesis by auto
qed

end
