(* ===== verification/Probe.thy ===== *)
theory Probe
  imports Dependencies Agent Unlock
begin

text \<open>
  The probes behind \<open>parseDependencies\<close>: what \<^verbatim>\<open>dependencyCheckCommand\<close> and \<^verbatim>\<open>bwVersionCommand\<close> of
  \<^verbatim>\<open>BitwardenModel.js\<close> print on a machine, and that the panel reads the machine back from it; and the
  command that builds the helpers. The machine is a record of what the commands find.
\<close>

record machine =
  on_path :: "jsstr \<Rightarrow> bool"       \<comment> \<open>\<^verbatim>\<open>command -v\<close>\<close>
  bw_stat :: jsstr                \<comment> \<open>what \<^verbatim>\<open>stat\<close> prints of the resolved bw, without its newline\<close>
  is_file :: "jsstr \<Rightarrow> bool"
  lists_finger :: bool            \<comment> \<open>\<^verbatim>\<open>fprintd-list\<close> mentions a finger\<close>
  bw_says :: jsstr                \<comment> \<open>\<^verbatim>\<open>bw -v\<close>\<close>

definition flag_of :: "bool \<Rightarrow> jsstr" where
  "flag_of b = (if b then js ''1'' else js ''0'')"

definition pair_line :: "jsstr \<times> jsstr \<Rightarrow> jsstr" where
  "pair_line kv = fst kv @ 61 # snd kv"

definition checks :: "jsstr option \<Rightarrow> machine \<Rightarrow> (jsstr \<times> jsstr) list" where
  \<comment> \<open>the parts of the script, in order\<close>
  "checks pamDirectory m =
     (let pamFile = (case pamDirectory of Some (c # cs) \<Rightarrow> (c # cs) @ js ''/fprint'' | _ \<Rightarrow> js ''/nonexistent/dms-fprint'');
          finger = (on_path m (js ''fprintd-list'') \<and> lists_finger m)
      in map (\<lambda>d. (dp_key d, flag_of (on_path m (dp_binary d)))) (filter (\<lambda>d. dp_key d \<noteq> js ''wlcopy'') DEPENDENCIES)
         @ [(js ''bw_id'', if on_path m (js ''bw'') then shell_value (take 128 (bw_stat m)) else []),
            (js ''fingerprint_ready'', flag_of (is_file m pamFile \<and> finger)),
            (js ''fingerprint_hw'', flag_of finger),
            (js ''wlcopy'', flag_of (on_path m (js ''wl-copy'') \<and> on_path m (js ''wl-paste''))),
            (js ''omarchy'', flag_of (on_path m (js ''dms'')))])"

definition dependencyCheckCommand :: "jsstr option \<Rightarrow> machine \<Rightarrow> jsstr" where
  \<comment> \<open>what it prints; the directory is of the screen locker's PAM files\<close>
  "dependencyCheckCommand pamDirectory m = take 4096 (concat (map (\<lambda>kv. pair_line kv @ [10]) (checks pamDirectory m)))"

definition plain_release :: "jsstr \<Rightarrow> bool" where
  \<comment> \<open>bash's \<^verbatim>\<open>=~ ^v?[0-9]{4}\.[0-9]{1,2}\.[0-9]{1,6}$\<close>\<close>
  "plain_release s \<longleftrightarrow>
     (case split_on 46 (case s of c # cs \<Rightarrow> if c = 118 then cs else s | [] \<Rightarrow> []) of
        [y, mo, p] \<Rightarrow> digits_between 4 4 y \<and> digits_between 1 2 mo \<and> digits_between 1 6 p
      | _ \<Rightarrow> False)"

definition bwVersionCommand :: "machine \<Rightarrow> jsstr" where
  "bwVersionCommand m =
     (let v = shell_value (take 64 (bw_says m)) in
      pair_line (js ''bw_version'', if plain_release v then v else []) @ [10])"

definition buildHelpersCommand :: "jsval \<Rightarrow> (jsstr \<Rightarrow> jsstr) \<Rightarrow> jsstr list option" where
  \<open>buildHelpersCommand pluginDir tr =
     (let dir = cleanAbsoluteDir pluginDir; line = js ''printf '' @ [39] @ js ''%s'' @ [92] @ js ''n'' @ [39, 32]; bare = js ''printf '' @ [39] @ js ''%s'' @ [39, 32] in
      if dir = [] \<or> 0 \<in> set dir then None
      else Some [js ''bash'', js ''-c'', terminalScript
        (js ''__build_helpers() { cd -- '' @ shellQuote dir @ js '' || return; ''
         @ js ''if ! command -v cargo >/dev/null 2>&1; then '' @ line
         @ shellQuote (tr (js ''cargo was not found. Rust/Cargo is needed to build the helpers.'')) @ js ''; ''
         @ js ''if command -v pacman >/dev/null 2>&1; then '' @ bare
         @ shellQuote (tr (js ''Install Rust with sudo pacman -S --needed rust? [y/N] '')) @ js ''; ''
         @ js ''read -r _answer; case "$_answer" in y|Y) ;; *) return 1;; esac; fi; ''
         @ installPackagesScript [js ''rust''] tr @ js '' || return; fi; bash ''
         @ shellQuote (dir @ js ''/scripts/build-helpers.sh'') @ js ''; }; ''
         @ js ''__build_helpers; __result=$?; printf '' @ [39, 92] @ js ''n%s'' @ [39, 32] @ shellQuote (tr (js ''Press Enter to close''))
         @ js ''; read -r _answer; exit "$__result"'')])\<close>

section \<open>The panel reads the machine back\<close>

definition clean_pair :: "jsstr \<times> jsstr \<Rightarrow> bool" where
  "clean_pair kv \<longleftrightarrow> fst kv \<noteq> [] \<and> 61 \<notin> set (fst kv) \<and> list_all (\<lambda>c. \<not> is_ws c) (fst kv) \<and> list_all (\<lambda>c. \<not> is_ws c) (snd kv)"

lemma clean_pair_line:
  assumes "clean_pair kv"
  shows "10 \<notin> set (pair_line kv)" and "trim (pair_line kv) = pair_line kv" and "index_of [61] (pair_line kv) = Some (length (fst kv))"
proof -
  have "\<not> is_ws 61" by (simp add: is_ws_def)
  then have ws: "\<not> is_ws c" if "c \<in> set (pair_line kv)" for c
    using that assms by (auto simp: pair_line_def clean_pair_def list_all_iff)
  have "is_ws 10" by (simp add: is_ws_def)
  with ws show "10 \<notin> set (pair_line kv)" by blast
  show "trim (pair_line kv) = pair_line kv" using ws by (rule trim_no_ws)
  show "index_of [61] (pair_line kv) = Some (length (fst kv))" using assms by (simp add: pair_line_def clean_pair_def index_of_unit)
qed

lemma probe_pairs:
  "(\<forall>kv\<in>set ps. clean_pair kv) \<Longrightarrow>
   map_of (probe_lines (map pair_line ps @ [[]]) found) k = (case map_of (rev ps) k of Some v \<Rightarrow> Some v | None \<Rightarrow> map_of found k)"
proof (induction ps arbitrary: found)
  case (Cons kv ps)
  have p: "probe_lines (map pair_line (kv # ps) @ [[]]) found = probe_lines (map pair_line ps @ [[]]) (obj_put found (fst kv) (snd kv))"
    using Cons.prems clean_pair_line [of kv] by (simp add: Let_def clean_pair_def) (simp add: pair_line_def)
  show ?case unfolding p using Cons by (cases kv) (auto simp: map_add_def split: option.splits)
qed simp

lemma probe_fields_of:
  assumes "\<forall>kv\<in>set ps. clean_pair kv" and "distinct (map fst ps)" and "(k, v) \<in> set ps"
  shows "map_of (probeFields (concat (map (\<lambda>kv. pair_line kv @ [10]) ps))) k = Some v"
proof -
  have "10 \<notin> set l" if "l \<in> set (map pair_line ps)" for l using that assms(1) clean_pair_line(1) by fastforce
  then have "split_on 10 (concat (map (\<lambda>l. l @ [10]) (map pair_line ps))) = map pair_line ps @ [[]]" by (rule split_lines)
  then have "split_on 10 (concat (map (\<lambda>kv. pair_line kv @ [10]) ps)) = map pair_line ps @ [[]]" by (simp add: comp_def)
  moreover have "map_of (rev ps) k = Some v" using assms(2,3) by (simp add: map_of_eq_Some_iff rev_map [symmetric])
  ultimately show ?thesis using probe_pairs [OF assms(1), of "[]" k] by (simp add: probeFields_def)
qed

lemma flag_of_simps [simp]: "flag_of b = js ''1'' \<longleftrightarrow> b" "length (flag_of b) = 1" "list_all (\<lambda>c. \<not> is_ws c) (flag_of b)"
  by (simp_all add: flag_of_def js_def is_ws_def)

lemma checks_unfold:
  "checks pam m =
     [(js ''bw'', flag_of (on_path m (js ''bw''))), (js ''jq'', flag_of (on_path m (js ''jq''))), (js ''cargo'', flag_of (on_path m (js ''cargo''))),
      (js ''fprintd'', flag_of (on_path m (js ''fprintd-list''))),
      (js ''bw_id'', if on_path m (js ''bw'') then shell_value (take 128 (bw_stat m)) else []),
      (js ''fingerprint_ready'', flag_of (is_file m (case pam of Some (c # cs) \<Rightarrow> (c # cs) @ js ''/fprint'' | _ \<Rightarrow> js ''/nonexistent/dms-fprint'')
         \<and> on_path m (js ''fprintd-list'') \<and> lists_finger m)),
      (js ''fingerprint_hw'', flag_of (on_path m (js ''fprintd-list'') \<and> lists_finger m)),
      (js ''wlcopy'', flag_of (on_path m (js ''wl-copy'') \<and> on_path m (js ''wl-paste''))),
      (js ''omarchy'', flag_of (on_path m (js ''dms'')))]"
proof -
  have "map dp_key DEPENDENCIES = [js ''wlcopy'', js ''bw'', js ''jq'', js ''cargo'', js ''fprintd'']"
    "map dp_binary DEPENDENCIES = [js ''wl-copy'', js ''bw'', js ''jq'', js ''cargo'', js ''fprintd-list'']"
    by (simp_all add: DEPENDENCIES_def)
  then show ?thesis unfolding checks_def DEPENDENCIES_def Let_def by (simp add: js_eq_iff)
qed

lemma shell_value_subset: "set (shell_value s) \<subseteq> set s" "length (shell_value s) \<le> length s"
  using set_dropWhileD [of _ "\<lambda>c. c = 10" "rev s"] length_dropWhile_le [of "\<lambda>c. c = 10" "rev s"] by (auto simp: shell_value_def)

lemma checks_clean: "list_all (\<lambda>c. \<not> is_ws c) (bw_stat m) \<Longrightarrow> \<forall>kv\<in>set (checks pam m). clean_pair kv"
proof -
  assume "list_all (\<lambda>c. \<not> is_ws c) (bw_stat m)"
  then have "list_all (\<lambda>c. \<not> is_ws c) (shell_value (take 128 (bw_stat m)))"
    using shell_value_subset(1) [of "take 128 (bw_stat m)"] set_take_subset [of 128 "bw_stat m"] by (auto simp: list_all_iff)
  then have "\<forall>kv\<in>set (checks pam m). list_all (\<lambda>c. \<not> is_ws c) (snd kv)" unfolding checks_unfold by simp
  moreover have "\<forall>kv\<in>set (checks pam m). fst kv \<noteq> [] \<and> 61 \<notin> set (fst kv) \<and> list_all (\<lambda>c. \<not> is_ws c) (fst kv)"
    unfolding checks_unfold by (simp add: js_def is_ws_def)
  ultimately show ?thesis by (simp add: clean_pair_def)
qed

lemma checks_short: "length (concat (map (\<lambda>kv. pair_line kv @ [10]) (checks pam m))) \<le> 4096"
proof -
  have "length (shell_value (take 128 (bw_stat m))) \<le> 128" using shell_value_subset(2) [of "take 128 (bw_stat m)"] by simp
  then show ?thesis unfolding checks_unfold by (simp add: pair_line_def)
qed

lemma check_found:
  assumes "list_all (\<lambda>c. \<not> is_ws c) (bw_stat m)" and "(k, v) \<in> set (checks pam m)"
  shows "map_of (probeFields (dependencyCheckCommand pam m)) k = Some v"
proof -
  have "distinct (map fst (checks pam m))" unfolding checks_unfold by (simp add: js_eq_iff)
  with probe_fields_of [OF checks_clean [OF assms(1)] _ assms(2)] checks_short [of pam m] show ?thesis by (simp add: dependencyCheckCommand_def)
qed

lemma installed_of:
  assumes "k \<in> dp_key ` set DEPENDENCIES"
  shows "dependencyInstalled (Some (parseDependencies raw v)) k = (map_of (probeFields raw) k = Some (js ''1''))"
proof -
  have find: "\<exists>r. find (\<lambda>r. dp_key (dr_dep r) = k) (map (dep_row_of found st ver) ds) = Some r \<and> dr_installed r = (map_of found k = Some (js ''1''))"
    if "k \<in> dp_key ` set ds" for found st ver ds
    using that by (induction ds) (auto simp: dep_row_of_def Let_def)
  obtain st ver where "ds_items (parseDependencies raw v) = map (dep_row_of (probeFields raw) st ver) DEPENDENCIES"
    unfolding parseDependencies_def Let_def by (simp only: deps.simps)
  with find [OF assms, of "probeFields raw" st ver] show ?thesis
    by (auto simp: dependencyInstalled_def dependencyByKey_def dep_items_def)
qed

lemma parsed_fields:
  "ds_hasClipboard (parseDependencies raw v) = (map_of (probeFields raw) (js ''wlcopy'') = Some (js ''1''))"
  "ds_hasOmarchy (parseDependencies raw v) = (map_of (probeFields raw) (js ''omarchy'') = Some (js ''1''))"
  "ds_hasFingerprintReader (parseDependencies raw v) = (map_of (probeFields raw) (js ''fingerprint_hw'') = Some (js ''1''))"
  "ds_bwId (parseDependencies raw v) = dependencyBwId raw"
  by (simp_all only: parseDependencies_def Let_def deps.simps)

lemma dependency_keys: "dp_key ` set DEPENDENCIES = {js ''wlcopy'', js ''bw'', js ''jq'', js ''cargo'', js ''fprintd''}"
  by (simp add: DEPENDENCIES_def)

text \<open>The setup screen shows the machine as it is: whatever is installed, a program counts as installed exactly
  when it was found on the path (the clipboard when both of its programs were), fingerprint unlock as
  ready exactly when the locker's PAM file is there and a finger is listed, the vault is read exactly
  when both bw and jq are there, and the identity of the bw file is read back.\<close>
theorem probe_exact:
  assumes "list_all (\<lambda>c. \<not> is_ws c) (bw_stat m)" and "length (bw_stat m) \<le> 128"
  shows "let p = parseDependencies (dependencyCheckCommand pam m) v; there = (\<lambda>k. on_path m (js k)) in
    (\<forall>k\<in>{''bw'', ''jq'', ''cargo''}. dependencyInstalled (Some p) (js k) = there k)
    \<and> dependencyInstalled (Some p) (js ''wlcopy'') = (there ''wl-copy'' \<and> there ''wl-paste'')
    \<and> dependencyInstalled (Some p) (js ''fprintd'') = there ''fprintd-list''
    \<and> ds_hasClipboard p = (there ''wl-copy'' \<and> there ''wl-paste'') \<and> ds_hasOmarchy p = there ''dms''
    \<and> ds_hasFingerprintReader p = (there ''fprintd-list'' \<and> lists_finger m)
    \<and> (vaultListMode (Some p) = js ''sanitized'') = (there ''bw'' \<and> there ''jq'')
    \<and> (there ''bw'' \<and> length (split_on 58 (bw_stat m)) = 4 \<and> list_all (digits_between 1 20) (split_on 58 (bw_stat m)) \<longrightarrow> ds_bwId p = bw_stat m)"
proof -
  let ?raw = "dependencyCheckCommand pam m"
  let ?p = "parseDependencies ?raw v" and ?there = "\<lambda>k. on_path m (js k)"
  have f: "map_of (probeFields ?raw) k = Some w" if "(k, w) \<in> set (checks pam m)" for k w by (rule check_found [OF assms(1) that])
  have found: "map_of (probeFields ?raw) (js ''bw'') = Some (flag_of (?there ''bw''))"
    "map_of (probeFields ?raw) (js ''jq'') = Some (flag_of (?there ''jq''))"
    "map_of (probeFields ?raw) (js ''cargo'') = Some (flag_of (?there ''cargo''))"
    "map_of (probeFields ?raw) (js ''fprintd'') = Some (flag_of (?there ''fprintd-list''))"
    "map_of (probeFields ?raw) (js ''bw_id'') = Some (if ?there ''bw'' then shell_value (take 128 (bw_stat m)) else [])"
    "map_of (probeFields ?raw) (js ''fingerprint_hw'') = Some (flag_of (?there ''fprintd-list'' \<and> lists_finger m))"
    "map_of (probeFields ?raw) (js ''wlcopy'') = Some (flag_of (?there ''wl-copy'' \<and> ?there ''wl-paste''))"
    "map_of (probeFields ?raw) (js ''omarchy'') = Some (flag_of (?there ''dms''))"
    by (rule f, simp only: checks_unfold list.set insert_iff, simp)+
  have inst: "dependencyInstalled (Some ?p) k = (map_of (probeFields ?raw) k = Some (js ''1''))"
    if "k \<in> {js ''wlcopy'', js ''bw'', js ''jq'', js ''cargo'', js ''fprintd''}" for k
    using installed_of [of k ?raw v] that by (simp only: dependency_keys)
  have "is_ws 10" by (simp add: is_ws_def)
  then have "10 \<notin> set (bw_stat m)" using assms(1) by (auto simp: list_all_iff)
  then have "shell_value (take 128 (bw_stat m)) = bw_stat m" using assms(2) by (simp add: shell_value_id)
  moreover have "trim (bw_stat m) = bw_stat m" using assms(1) by (intro trim_no_ws) (simp add: list_all_iff)
  ultimately have "?there ''bw'' \<and> length (split_on 58 (bw_stat m)) = 4 \<and> list_all (digits_between 1 20) (split_on 58 (bw_stat m)) \<longrightarrow> ds_bwId ?p = bw_stat m"
    using found(5) by (simp add: parsed_fields dependencyBwId_def field_or_empty_def)
  moreover have "(vaultListMode (Some ?p) = js ''sanitized'') = (dependencyInstalled (Some ?p) (js ''bw'') \<and> dependencyInstalled (Some ?p) (js ''jq''))"
    by (simp add: vaultListMode_def js_eq_iff)
  ultimately show ?thesis unfolding Let_def by (simp add: inst parsed_fields found)
qed

text \<open>A fingerprint reader is reported only once \<^verbatim>\<open>fprintd\<close> is installed and knows a finger.\<close>
theorem reader_needs_fprintd:
  "\<exists>m. \<not> on_path m (js ''fprintd-list'') \<and> (\<forall>pam v. \<not> ds_hasFingerprintReader (parseDependencies (dependencyCheckCommand pam m) v))"
proof -
  let ?m = "\<lparr>on_path = (\<lambda>_. False), bw_stat = [], is_file = (\<lambda>_. True), lists_finger = True, bw_says = []\<rparr>"
  have "(js ''fingerprint_hw'', flag_of False) \<in> set (checks pam ?m)" for pam unfolding checks_unfold by simp
  from check_found [OF _ this] have "\<not> ds_hasFingerprintReader (parseDependencies (dependencyCheckCommand pam ?m) v)" for pam v
    by (simp add: parsed_fields)
  then show ?thesis by (intro exI [of _ ?m]) simp
qed

definition demo_machine :: machine where
  "demo_machine = \<lparr>on_path = (\<lambda>k. k \<in> {js ''bw'', js ''jq'', js ''wl-copy''}), bw_stat = js ''1:2:3:4'', is_file = (\<lambda>_. False),
     lists_finger = False, bw_says = js ''2026.1.0''\<rparr>"

theorem probe_exact_witness:
  "let p = parseDependencies (dependencyCheckCommand None demo_machine) None in
    dependencyInstalled (Some p) (js ''bw'') \<and> \<not> ds_hasClipboard p \<and> vaultListMode (Some p) = js ''sanitized'' \<and> ds_bwId p = js ''1:2:3:4''"
proof -
  have "list_all (\<lambda>c. \<not> is_ws c) (bw_stat demo_machine)" "length (bw_stat demo_machine) \<le> 128"
    by (simp_all add: demo_machine_def js_def is_ws_def)
  note p = probe_exact [OF this, of None None, unfolded Let_def]
  have "length (split_on 58 (bw_stat demo_machine)) = 4 \<and> list_all (digits_between 1 20) (split_on 58 (bw_stat demo_machine))"
    by (simp add: demo_machine_def js_def digits_between_def is_digit_def)
  moreover have "on_path demo_machine (js ''bw'')" "on_path demo_machine (js ''jq'')" "\<not> on_path demo_machine (js ''wl-paste'')" "bw_stat demo_machine = js ''1:2:3:4''"
    by (simp_all add: demo_machine_def js_eq_iff)
  ultimately show ?thesis using p unfolding Let_def by simp
qed

lemma split_on_covers: "c \<in> set s \<Longrightarrow> c = d \<or> (\<exists>w\<in>set (split_on d s). c \<in> set w)"
proof (induction d s rule: split_on.induct)
  case (2 d x xs)
  then show ?case by (cases "split_on d xs") (auto split: if_splits)
qed simp

lemma plain_release_no_ws: "plain_release v \<Longrightarrow> c \<in> set v \<Longrightarrow> \<not> is_ws c"
proof -
  assume v: "plain_release v" "c \<in> set v"
  let ?r = "case v of c # cs \<Rightarrow> if c = 118 then cs else v | [] \<Rightarrow> []"
  have "c = 118 \<or> c \<in> set ?r" using v(2) by (cases v) (auto split: if_splits)
  moreover have "c = 46 \<or> is_digit c" if "c \<in> set ?r"
    using v(1) split_on_covers [OF that, of 46] by (auto simp: plain_release_def digits_between_def list_all_iff split: list.splits)
  ultimately show "\<not> is_ws c" by (auto simp: is_digit_def is_ws_def)
qed

text \<open>What bw prints as its version reaches the panel exactly when it is a release, and never as anything else.\<close>
theorem version_read:
  "parseBwVersionProbe (bwVersionCommand m)
    = (let v = shell_value (take 64 (bw_says m)) in if plain_release v then normalizeReleaseVersion v else [])"
proof -
  define v where "v = shell_value (take 64 (bw_says m))"
  let ?kv = "(js ''bw_version'', if plain_release v then v else [])"
  have "list_all (\<lambda>c. \<not> is_ws c) (snd ?kv)" using plain_release_no_ws [of v] by (simp add: list_all_iff)
  then have "clean_pair ?kv" by (simp add: clean_pair_def js_def is_ws_def split: if_splits)
  with probe_fields_of [of "[?kv]" "fst ?kv" "snd ?kv"] have "map_of (probeFields (pair_line ?kv @ [10])) (js ''bw_version'') = Some (snd ?kv)" by simp
  moreover have "normalizeReleaseVersion [] = []" by (simp add: normalizeReleaseVersion_def release_of_def)
  ultimately show ?thesis by (simp add: parseBwVersionProbe_def bwVersionCommand_def field_or_empty_def Let_def flip: v_def)
qed

end
