(* ===== verification/Keyring.thy ===== *)
theory Keyring
  imports Unlock
begin

text \<open>
  Single keyring entries and what stands around the typed secrets, from \<^verbatim>\<open>BitwardenModel.js\<close>: looking one
  entry up, asking whether it is there, clearing it; the legacy PIN blob; the choice of the pinentry
  program, its probe and its command line; and what is shown of the error output of \<^verbatim>\<open>bw\<close>. The keyring
  is the map of \<open>Unlock\<close>; \<^verbatim>\<open>secret-tool search\<close>, \<^verbatim>\<open>openssl\<close> and \<^verbatim>\<open>command -v\<close> are parameters.
\<close>

section \<open>One entry\<close>

definition keyringLookupEntryCommand :: "jsstr \<Rightarrow> keyring \<Rightarrow> jsstr option" where
  \<comment> \<open>what is printed, if the lookup succeeds\<close>
  "keyringLookupEntryCommand account kr = map_option (\<lambda>v. shell_value (take MAX_TOKEN_BYTES v)) (kr account)"

definition keyringHasEntryCommand :: "jsstr \<Rightarrow> keyring \<Rightarrow> jsstr" where
  "keyringHasEntryCommand account kr = (if kr account \<noteq> None then js ''yes'' else js ''no'') @ [10]"

definition keyringClearCommand :: "(keyring \<Rightarrow> jsstr \<Rightarrow> nat \<times> nat) \<Rightarrow> (keyring \<Rightarrow> jsstr \<Rightarrow> keyring) \<Rightarrow> jsval \<Rightarrow> keyring \<Rightarrow> keyring \<times> bool" where
  \<comment> \<open>the keyring afterwards, and whether the script exits 0; the status of the search is not looked at\<close>
  "keyringClearCommand find_items clear sl kr =
     (let e = keyringEntryName KEYRING_ACCOUNT sl; kr' = clear kr e in (kr', snd (find_items kr' e) = 0))"

definition keyringLookupMasterPasswordCommand :: "jsval \<Rightarrow> keyring \<Rightarrow> jsstr option" where
  "keyringLookupMasterPasswordCommand sl = keyringLookupEntryCommand (keyringEntryName KEYRING_MASTER sl)"

definition keyringHasMasterPasswordCommand :: "jsval \<Rightarrow> keyring \<Rightarrow> jsstr" where
  "keyringHasMasterPasswordCommand sl = keyringHasEntryCommand (keyringEntryName KEYRING_MASTER sl)"

definition keyringHasFidoPasswordCommand :: "jsval \<Rightarrow> keyring \<Rightarrow> jsstr" where
  "keyringHasFidoPasswordCommand sl = keyringHasEntryCommand (keyringEntryName KEYRING_FIDO sl)"

definition keyringHasPinCommand :: "jsval \<Rightarrow> keyring \<Rightarrow> jsstr" where
  "keyringHasPinCommand sl = keyringHasEntryCommand (keyringEntryName KEYRING_PIN sl)"

definition keyringClearMasterPasswordCommand :: "jsval \<Rightarrow> jsstr list" where
  "keyringClearMasterPasswordCommand sl = keyringClearEntryCommand (keyringEntryName KEYRING_MASTER sl)"

definition keyringClearFidoPasswordCommand :: "jsval \<Rightarrow> jsstr list" where
  "keyringClearFidoPasswordCommand sl = keyringClearEntryCommand (keyringEntryName KEYRING_FIDO sl)"

definition keyringClearPinCommand :: "jsval \<Rightarrow> jsstr list" where
  "keyringClearPinCommand sl = keyringClearEntryCommand (keyringEntryName KEYRING_PIN sl)"

definition PIN_ITERATIONS :: nat where "PIN_ITERATIONS = 600000"

definition pinUnlockCommand :: "(nat \<Rightarrow> jsstr \<Rightarrow> jsstr \<Rightarrow> jsstr option) \<Rightarrow> jsstr \<Rightarrow> jsval \<Rightarrow> keyring \<Rightarrow> jsstr option" where
  \<comment> \<open>\<open>decrypt\<close> is \<^verbatim>\<open>openssl enc -d\<close>, of the iterations, the PIN and the blob\<close>
  "pinUnlockCommand decrypt pin sl kr =
     (case kr (keyringEntryName KEYRING_PIN sl) of
        None \<Rightarrow> None
      | Some blob \<Rightarrow> map_option (take MAX_TOKEN_BYTES) (decrypt PIN_ITERATIONS pin (take 8192 blob)))"

definition bwVerifyPasswordCommand :: "jsstr list" where
  "bwVerifyPasswordCommand =
     [js ''bash'', js ''-c'', cappedScript
        (js ''bw unlock --passwordenv '' @ KEYRING_SECRET_ENV @ js '' --raw 2>/dev/null | head -c '' @ nat_to_str MAX_TOKEN_BYTES) MAX_STDERR_BYTES]"

section \<open>The pinentry program\<close>

definition PINENTRY_PREFERRED_PROGRAM :: jsstr where "PINENTRY_PREFERRED_PROGRAM = js ''pinentry-qt''"
definition PINENTRY_DEFAULT_PROGRAM :: jsstr where "PINENTRY_DEFAULT_PROGRAM = js ''pinentry''"

definition PINENTRY_RESOLVE :: "(jsstr \<Rightarrow> bool) \<Rightarrow> jsstr \<Rightarrow> jsstr" where
  \<comment> \<open>\<open>runnable\<close> is \<^verbatim>\<open>command -v\<close>\<close>
  "PINENTRY_RESOLVE runnable prog =
     (if prog \<noteq> [] then prog
      else if runnable PINENTRY_PREFERRED_PROGRAM then PINENTRY_PREFERRED_PROGRAM else PINENTRY_DEFAULT_PROGRAM)"

record pin_opts =
  po_title :: jsval
  po_description :: jsval
  po_prompt :: jsval
  po_error :: jsval
  po_minLength :: jsval

definition least_length :: "jsval \<Rightarrow> nat" where
  \<comment> \<open>the script takes \<^verbatim>\<open>Infinity\<close> for no number, so for no minimum\<close>
  "least_length v = (case to_num v of Fin q \<Rightarrow> nat \<lfloor>q\<rfloor> | _ \<Rightarrow> 0)"

definition pinentryCommand :: "(jsstr \<Rightarrow> bool) \<Rightarrow> jsval \<Rightarrow> pin_opts \<Rightarrow> lines \<Rightarrow> pin_exit" where
  \<comment> \<open>how the script ends, when the program answers the given lines\<close>
  "pinentryCommand runnable program o' =
     PINENTRY_SCRIPT (runnable (PINENTRY_RESOLVE runnable (pinentryProgram program)))
       (pinentryText (po_title o')) (pinentryText (po_description o')) (pinentryText (po_prompt o')) (pinentryText (po_error o'))
       (least_length (po_minLength o'))"

definition pinentryProbeCommand :: "(jsstr \<Rightarrow> bool) \<Rightarrow> jsval \<Rightarrow> jsstr" where
  "pinentryProbeCommand runnable program =
     (if runnable (PINENTRY_RESOLVE runnable (pinentryProgram program)) then js ''found'' else js ''missing'') @ [10]"

section \<open>Error output\<close>

function strip_sgr :: "jsstr \<Rightarrow> jsstr" where
  \<comment> \<open>\<^verbatim>\<open>replace(/\x1b\[[0-9;]*m/g, "")\<close>\<close>
  "strip_sgr [] = []"
| "strip_sgr (c # cs) =
     (if c = 27 \<and> cs \<noteq> [] \<and> hd cs = 91 then
        (case dropWhile (\<lambda>d. is_digit d \<or> d = 59) (tl cs) of
           d # r \<Rightarrow> if d = 109 then strip_sgr r else c # strip_sgr cs
         | [] \<Rightarrow> c # strip_sgr cs)
      else c # strip_sgr cs)"
  by pat_completeness auto
termination
proof (relation "measure length")
  fix c d :: nat and cs r :: jsstr
  assume "c = 27 \<and> cs \<noteq> [] \<and> hd cs = 91" and "dropWhile (\<lambda>d. is_digit d \<or> d = 59) (tl cs) = d # r"
  then show "(r, c # cs) \<in> measure length"
    using length_dropWhile_le [of "\<lambda>d. is_digit d \<or> d = 59" "tl cs"] by (cases cs) auto
qed auto

definition exactly :: "string \<Rightarrow> re" where
  "exactly s = foldr (\<lambda>c r. Cat (Unit (\<lambda>d. d = c)) r) (js s) Eps"

definition SDK_LOG_RE :: re where
  \<comment> \<open>\<^verbatim>\<open>/^\s*(ERROR|WARN|INFO|DEBUG|TRACE)\s+bitwarden_\w+(::\w+)*\s*:/\<close>\<close>
  "SDK_LOG_RE =
     cats [Begin, any_ws, one_of (map exactly [''ERROR'', ''WARN'', ''INFO'', ''DEBUG'', ''TRACE'']), plus (Unit is_ws),
       exactly ''bitwarden_'', plus (Unit word_unit), Star (Cat (exactly ''::'') (plus (Unit word_unit))), any_ws, exactly '':'']"

definition bwErrorText :: "jsstr \<Rightarrow> jsstr" where
  "bwErrorText err =
     join [10] (filter (\<lambda>l. l \<noteq> []) (map trim (filter (\<lambda>l. \<not> re_test SDK_LOG_RE l) (split_on 10 (strip_sgr err)))))"

section \<open>What the commands promise\<close>

text \<open>The presence check, the lookup and the legacy unlock agree on what is there.\<close>
lemma has_iff_lookup: "keyringHasEntryCommand a kr = js ''yes'' @ [10] \<longleftrightarrow> keyringLookupEntryCommand a kr \<noteq> None"
  by (simp add: keyringHasEntryCommand_def keyringLookupEntryCommand_def js_eq_iff)

lemma cleared_if_searched:
  assumes "searches_exactly find_items" and "keyringClearCommand find_items clear sl kr = (kr', ok)"
    and "fst (find_items kr' (keyringEntryName KEYRING_ACCOUNT sl)) = 0"
  shows "ok \<longleftrightarrow> kr' (keyringEntryName KEYRING_ACCOUNT sl) = None"
  using assms by (auto simp: keyringClearCommand_def searches_exactly_def Let_def)

text \<open>Clearing the session exits 0 although the entry is still there, when the search that should confirm it fails:
  a failing search prints nothing, and only what it prints is counted.\<close>
theorem cleared_despite_failed_search:
  "\<exists>find_items clear kr kr'. searches_exactly find_items \<and> clears_only clear
     \<and> keyringClearCommand find_items clear JUndef kr = (kr', True) \<and> kr' (keyringEntryName KEYRING_ACCOUNT JUndef) \<noteq> None"
proof -
  let ?e = "keyringEntryName KEYRING_ACCOUNT JUndef"
  have "searches_exactly (\<lambda>kr e. (1, 0))" "clears_only (\<lambda>kr e. kr)" by (simp_all add: searches_exactly_def clears_only_def)
  moreover have "keyringClearCommand (\<lambda>kr e. (1, 0)) (\<lambda>kr e. kr) JUndef [?e \<mapsto> []] = ([?e \<mapsto> []], True)"
    by (simp add: keyringClearCommand_def Let_def)
  ultimately show ?thesis by (intro exI conjI) (assumption | simp)+
qed

lemma getpin_not_missing: "getpin mn d r \<noteq> Missing"
  by (induction mn d r rule: getpin.induct) (auto simp: err_exit_def Let_def)

text \<open>The probe says \<^verbatim>\<open>missing\<close> exactly when running the script would: both choose the same program, for every
  setting and whatever is installed.\<close>
theorem pinentry_probe_agrees:
  "pinentryProbeMissing (Fin 0) (pinentryProbeCommand runnable program) \<longleftrightarrow> pinentryCommand runnable program o' r = Missing"
proof -
  have "trim (js ''found'' @ [10]) \<noteq> js ''missing''" "trim (js ''missing'' @ [10]) = js ''missing''" by (simp_all add: js_unfold)
  then have "pinentryProbeMissing (Fin 0) (pinentryProbeCommand runnable program) \<longleftrightarrow> \<not> runnable (PINENTRY_RESOLVE runnable (pinentryProgram program))"
    by (simp add: pinentryProbeMissing_def pinentryProbeCommand_def)
  moreover have "pinentryCommand runnable program o' r = Missing \<longleftrightarrow> \<not> runnable (PINENTRY_RESOLVE runnable (pinentryProgram program))"
    by (simp add: pinentryCommand_def PINENTRY_SCRIPT_def getpin_not_missing split: prod.splits)
  ultimately show ?thesis by simp
qed

text \<open>Nothing of the log lines of the SDK is shown, and every line shown is a line of the output.\<close>
theorem shown_errors:
  "\<exists>ls. bwErrorText err = join [10] ls \<and> (\<forall>l\<in>set ls. l \<noteq> [] \<and> trim l = l \<and>
     (\<exists>l'\<in>set (split_on 10 (strip_sgr err)). l = trim l' \<and> \<not> re_test SDK_LOG_RE l'))"
  unfolding bwErrorText_def by (rule exI, rule conjI, rule refl) auto

end
