(* ===== verification/Feed.thy ===== *)
theory Feed
  imports Sanitize "HOL-Library.Sublist"
begin

text \<open>
  The two small Node programs in the pipeline that reads the vault, from \<^verbatim>\<open>BitwardenModel.js\<close>: the validator
  that lets only strict JSON through (\<^verbatim>\<open>strictJsonStdinScript\<close>) and the writer that feeds the agent's FIFO
  (\<^verbatim>\<open>agentBranchScript\<close>), with the \<^verbatim>\<open>tee\<close> that feeds it and the \<^verbatim>\<open>cat\<close> that reads what is left. Programs read their
  input in chunks of any size; a write to the FIFO may take any part of what it is given, fail, or never
  return (the writer is then stopped after ten seconds).
\<close>

section \<open>The validator\<close>

definition strictJsonStdinScript :: "(jsval \<Rightarrow> bool) \<Rightarrow> (jsstr \<Rightarrow> jsstr) \<Rightarrow> nat \<Rightarrow> jsstr list \<Rightarrow> jsstr option" where
  \<comment> \<open>which values are rejected, what is written, the limit, and the chunks; \<open>None\<close> is exit 1 with nothing written\<close>
  "strictJsonStdinScript reject writes maxBytes chunks =
     (let byteLength = foldl (\<lambda>n c. n + length c) 0 chunks; raw = concat chunks in
      if maxBytes < byteLength then None
      else (case json_parse raw of
              None \<Rightarrow> None
            | Some parsed \<Rightarrow> if reject parsed then None else Some (writes raw)))"

definition STRICT_JSON_PASSTHROUGH :: "nat \<Rightarrow> jsstr list \<Rightarrow> jsstr option" where
  "STRICT_JSON_PASSTHROUGH = strictJsonStdinScript (\<lambda>v. case v of JArr xs \<Rightarrow> False | _ \<Rightarrow> True) (\<lambda>raw. raw)"

definition STRICT_JSON_ONE_OBJECT :: "nat \<Rightarrow> jsstr list \<Rightarrow> jsstr option" where
  "STRICT_JSON_ONE_OBJECT = strictJsonStdinScript (\<lambda>v. case v of JObj ps \<Rightarrow> False | _ \<Rightarrow> True) (\<lambda>raw. 91 # raw @ [93])"

section \<open>The FIFO writer\<close>

datatype fifo_path = IsFifo | IsOther | IsLink | IsGone

record writer =
  fd_open :: bool
  fifo :: jsstr                 \<comment> \<open>what went into the FIFO so far\<close>
  results :: "nat option list"  \<comment> \<open>of the coming calls of \<^verbatim>\<open>writeSync\<close>: how much it takes, or an exception\<close>

definition open_fifo :: "fifo_path \<Rightarrow> nat option list \<Rightarrow> writer" where
  \<comment> \<open>\<^verbatim>\<open>O_NOFOLLOW\<close> refuses a link, and what is opened must be a FIFO\<close>
  "open_fifo p rs = \<lparr>fd_open = (p = IsFifo), fifo = [], results = rs\<rparr>"

fun write_chunk :: "nat option list \<Rightarrow> jsstr \<Rightarrow> bool \<times> jsstr \<times> nat option list" where
  \<comment> \<open>the loop over \<^verbatim>\<open>offset\<close>: whether the descriptor stays open, what was written, the results left;
    a call without a result blocks until the writer is stopped\<close>
  "write_chunk rs [] = (True, [], rs)"
| "write_chunk [] (c # cs) = (False, [], [])"
| "write_chunk (None # rs) (c # cs) = (False, [], rs)"
| "write_chunk (Some n # rs) (c # cs) =
     (case write_chunk rs (drop n (c # cs)) of (ok, w, rs') \<Rightarrow> (ok, take n (c # cs) @ w, rs'))"

definition on_data :: "writer \<Rightarrow> jsstr \<Rightarrow> writer" where
  "on_data s chunk =
     (if \<not> fd_open s then s
      else (case write_chunk (results s) chunk of (ok, w, rs) \<Rightarrow> \<lparr>fd_open = ok, fifo = fifo s @ w, results = rs\<rparr>))"

definition fed_line :: "fifo_path \<Rightarrow> (jsstr \<Rightarrow> jsstr list) \<Rightarrow> nat option list \<Rightarrow> jsval option \<Rightarrow> jsstr" where
  \<comment> \<open>what goes into the FIFO of the line that jq prints, if it prints one; \<open>cuts\<close> is how it arrives\<close>
  "fed_line opened cuts rs line =
     (case line of
        None \<Rightarrow> []
      | Some v \<Rightarrow> fifo (foldl on_data (open_fifo opened rs) (cuts (json_str v @ [10]))))"

section \<open>The branch\<close>

text \<open>\<^verbatim>\<open>tee\<close> writes each piece to the pipeline and then to the branch, through a pipe of a fixed size. The inner
  shell keeps the other end of that pipe until it exits: writing to it after that kills \<^verbatim>\<open>tee\<close>. jq prints
  only when it has read its whole input, and may be stopped at any time; the pipeline reads what \<^verbatim>\<open>tee\<close> gives it.\<close>

datatype tee_stage = TeeRuns | TeeEnded | TeeKilled

datatype branch_stage = Looking | Filtering | CatRuns | BranchGone

record feed =
  rest :: jsstr           \<comment> \<open>validated text that \<^verbatim>\<open>tee\<close> has not read\<close>
  pending :: jsstr        \<comment> \<open>passed on, but not yet written to the branch\<close>
  passed :: jsstr         \<comment> \<open>what went on to the filter of the item list\<close>
  branch_pipe :: jsstr
  jq_got :: jsstr
  fed :: jsstr            \<comment> \<open>what the FIFO got\<close>
  tee :: tee_stage
  branch :: branch_stage

definition feed_start :: "jsstr \<Rightarrow> feed" where
  "feed_start text = \<lparr>rest = text, pending = [], passed = [], branch_pipe = [], jq_got = [], fed = [], tee = TeeRuns, branch = Looking\<rparr>"

datatype feed_event = TeePasses nat | TeeFeeds nat | TeeBroken | TeeEnds | Looks | JqReads nat | JqEnds | JqStops | CatReads nat | CatEnds | BranchDies

inductive agentBranchScript ::
  "(jsstr \<Rightarrow> jsval option) \<Rightarrow> nat \<Rightarrow> fifo_path \<Rightarrow> fifo_path \<Rightarrow> (jsstr \<Rightarrow> jsstr list) \<Rightarrow> nat option list \<Rightarrow> feed \<Rightarrow> feed_event \<Rightarrow> feed \<Rightarrow> bool"
  for jq room before opened cuts rs where
  tee_passes: "tee s = TeeRuns \<Longrightarrow> pending s = [] \<Longrightarrow> 0 < n \<Longrightarrow> n \<le> length (rest s) \<Longrightarrow>
    agentBranchScript jq room before opened cuts rs s (TeePasses n) (s\<lparr>rest := drop n (rest s), pending := take n (rest s), passed := passed s @ take n (rest s)\<rparr>)"
| tee_feeds: "tee s = TeeRuns \<Longrightarrow> branch s \<noteq> BranchGone \<Longrightarrow> 0 < n \<Longrightarrow> n \<le> length (pending s) \<Longrightarrow> length (branch_pipe s) + n \<le> room \<Longrightarrow>
    agentBranchScript jq room before opened cuts rs s (TeeFeeds n) (s\<lparr>pending := drop n (pending s), branch_pipe := branch_pipe s @ take n (pending s)\<rparr>)"
| tee_broken: "tee s = TeeRuns \<Longrightarrow> branch s = BranchGone \<Longrightarrow> pending s \<noteq> [] \<Longrightarrow>
    agentBranchScript jq room before opened cuts rs s TeeBroken (s\<lparr>tee := TeeKilled\<rparr>)"
| tee_ends: "tee s = TeeRuns \<Longrightarrow> rest s = [] \<Longrightarrow> pending s = [] \<Longrightarrow> agentBranchScript jq room before opened cuts rs s TeeEnds (s\<lparr>tee := TeeEnded\<rparr>)"
| looks_fifo: "branch s = Looking \<Longrightarrow> before = IsFifo \<or> before = IsLink \<Longrightarrow> agentBranchScript jq room before opened cuts rs s Looks (s\<lparr>branch := Filtering\<rparr>)"
| looks_other: "branch s = Looking \<Longrightarrow> before \<noteq> IsFifo \<Longrightarrow> agentBranchScript jq room before opened cuts rs s Looks (s\<lparr>branch := CatRuns\<rparr>)"
| jq_reads: "branch s = Filtering \<Longrightarrow> 0 < n \<Longrightarrow> n \<le> length (branch_pipe s) \<Longrightarrow>
    agentBranchScript jq room before opened cuts rs s (JqReads n) (s\<lparr>branch_pipe := drop n (branch_pipe s), jq_got := jq_got s @ take n (branch_pipe s)\<rparr>)"
| jq_ends: "branch s = Filtering \<Longrightarrow> branch_pipe s = [] \<Longrightarrow> tee s \<noteq> TeeRuns \<Longrightarrow>
    agentBranchScript jq room before opened cuts rs s JqEnds (s\<lparr>fed := fed_line opened cuts rs (jq (jq_got s)), branch := CatRuns\<rparr>)"
| jq_stops: "branch s = Filtering \<Longrightarrow> agentBranchScript jq room before opened cuts rs s JqStops (s\<lparr>branch := CatRuns\<rparr>)"
| cat_reads: "branch s = CatRuns \<Longrightarrow> 0 < n \<Longrightarrow> n \<le> length (branch_pipe s) \<Longrightarrow>
    agentBranchScript jq room before opened cuts rs s (CatReads n) (s\<lparr>branch_pipe := drop n (branch_pipe s)\<rparr>)"
| cat_ends: "branch s = CatRuns \<Longrightarrow> branch_pipe s = [] \<Longrightarrow> tee s \<noteq> TeeRuns \<Longrightarrow>
    agentBranchScript jq room before opened cuts rs s CatEnds (s\<lparr>branch := BranchGone\<rparr>)"
| branch_dies: "branch s \<noteq> BranchGone \<Longrightarrow> agentBranchScript jq room before opened cuts rs s BranchDies (s\<lparr>branch := BranchGone\<rparr>)"

definition agent_keys :: "(jsstr \<Rightarrow> jsstr) \<Rightarrow> tonumber \<Rightarrow> bool \<Rightarrow> jsstr \<Rightarrow> jsstr \<Rightarrow> jsval option" where
  \<comment> \<open>\<^verbatim>\<open>jq -c\<close> with \<open>AGENT_KEYS_FILTER\<close>, on a text\<close>
  "agent_keys enc num hide loadId text = (case json_parse text of None \<Rightarrow> None | Some v \<Rightarrow> AGENT_KEYS_FILTER enc num hide loadId v)"

inductive feed_run :: "(feed \<Rightarrow> feed_event \<Rightarrow> feed \<Rightarrow> bool) \<Rightarrow> jsstr \<Rightarrow> feed_event list \<Rightarrow> feed \<Rightarrow> bool"
  for step whole where
  begun: "feed_run step whole [] (feed_start whole)"
| one_more: "feed_run step whole es s \<Longrightarrow> step s e t \<Longrightarrow> feed_run step whole (es @ [e]) t"

section \<open>How the input is cut does not matter\<close>

lemma foldl_length: "foldl (\<lambda>n c. n + length c) k (cs :: jsstr list) = k + length (concat cs)"
  by (induction cs arbitrary: k) auto

lemma validator_whole: "strictJsonStdinScript reject writes m cs = strictJsonStdinScript reject writes m [concat cs]"
  by (simp add: strictJsonStdinScript_def foldl_length)

text \<open>The validators are the \<open>strict_array\<close> and \<open>strict_object\<close> of the pipelines: they pass a text on exactly when it
  is short enough and strict JSON of the right kind, and what they write parses to that value.\<close>

lemma passthrough_strict: "STRICT_JSON_PASSTHROUGH m cs = map_option (\<lambda>v. concat cs) (strict_array m (concat cs))"
  by (auto simp: STRICT_JSON_PASSTHROUGH_def strictJsonStdinScript_def foldl_length strict_array_def split: option.splits jsval.splits)

lemma one_object_strict: "STRICT_JSON_ONE_OBJECT m cs = map_option (\<lambda>v. 91 # concat cs @ [93]) (strict_object m (concat cs))"
  by (auto simp: STRICT_JSON_ONE_OBJECT_def strictJsonStdinScript_def foldl_length strict_object_def split: option.splits jsval.splits)

section \<open>What reaches the agent\<close>

lemma write_chunk_prefix:
  "write_chunk rs cs = (ok, w, rs') \<Longrightarrow> prefix w cs \<and> (ok \<longrightarrow> w = cs)"
proof (induction rs cs arbitrary: ok w rs' rule: write_chunk.induct)
  case (4 n rs c cs)
  obtain ok1 w1 rs1 where r: "write_chunk rs (drop n (c # cs)) = (ok1, w1, rs1)" by (metis prod_cases3)
  with "4.prems" have e: "ok = ok1" "w = take n (c # cs) @ w1" by simp_all
  from "4.IH" [OF r] have "prefix w1 (drop n (c # cs))" "ok1 \<longrightarrow> w1 = drop n (c # cs)" by auto
  with e show ?case by (metis append_take_drop_id same_prefix_prefix)
qed auto

lemma on_data_prefix:
  assumes "prefix (fifo s) sent" and "fd_open s \<longrightarrow> fifo s = sent"
  shows "prefix (fifo (on_data s c)) (sent @ c) \<and> (fd_open (on_data s c) \<longrightarrow> fifo (on_data s c) = sent @ c)"
proof (cases "fd_open s")
  case True
  obtain ok w rs' where r: "write_chunk (results s) c = (ok, w, rs')" by (metis prod_cases3)
  from write_chunk_prefix [OF r] show ?thesis using True assms r by (auto simp: on_data_def)
qed (use assms in \<open>auto simp: on_data_def\<close>)

lemma fold_on_data:
  "prefix (fifo s) sent \<Longrightarrow> (fd_open s \<longrightarrow> fifo s = sent) \<Longrightarrow>
   prefix (fifo (foldl on_data s cs)) (sent @ concat cs) \<and> (fd_open (foldl on_data s cs) \<longrightarrow> fifo (foldl on_data s cs) = sent @ concat cs)"
proof (induction cs arbitrary: s sent)
  case (Cons c cs)
  from on_data_prefix [OF Cons.prems, of c] Cons.IH [of "on_data s c" "sent @ c"] show ?case by simp
qed simp

lemma closed_stays: "\<not> fd_open s \<Longrightarrow> foldl on_data s cs = s"
  by (induction cs) (simp_all add: on_data_def)

lemma write_chunk_takes:
  "\<lbrakk>\<forall>x\<in>set rs. \<exists>n>0. x = Some n; length cs \<le> length rs\<rbrakk> \<Longrightarrow>
   \<exists>rs'. write_chunk rs cs = (True, cs, rs') \<and> length rs \<le> length rs' + length cs \<and> set rs' \<subseteq> set rs"
proof (induction rs cs rule: write_chunk.induct)
  case (4 n rs c cs)
  from "4.prems" obtain m where n: "n = Suc m" by (cases n) auto
  have "\<exists>rs'. write_chunk rs (drop n (c # cs)) = (True, drop n (c # cs), rs') \<and> length rs \<le> length rs' + length (drop n (c # cs)) \<and> set rs' \<subseteq> set rs"
    by (rule "4.IH") (use "4.prems" n in auto)
  then obtain rs' where r: "write_chunk rs (drop m cs) = (True, drop m cs, rs')" "length rs \<le> length rs' + length (drop m cs)" "set rs' \<subseteq> set rs"
    by (auto simp: n)
  then show ?case by (intro exI [of _ rs']) (auto simp: n)
qed auto

lemma fold_takes:
  "\<lbrakk>fd_open s; \<forall>x\<in>set (results s). \<exists>n>0. x = Some n; length (concat cs) \<le> length (results s)\<rbrakk> \<Longrightarrow>
   fifo (foldl on_data s cs) = fifo s @ concat cs"
proof (induction cs arbitrary: s)
  case (Cons c cs)
  obtain rs' where r: "write_chunk (results s) c = (True, c, rs')" "length (results s) \<le> length rs' + length c" "set rs' \<subseteq> set (results s)"
    using write_chunk_takes [of "results s" c] Cons.prems by auto
  then have o: "on_data s c = \<lparr>fd_open = True, fifo = fifo s @ c, results = rs'\<rparr>" using Cons.prems(1) by (simp add: on_data_def)
  from r Cons.prems have "\<forall>x\<in>set rs'. \<exists>n>0. x = Some n" "length (concat cs) \<le> length rs'" by auto
  with Cons.IH [of "on_data s c"] show ?case by (simp add: o)
qed simp

lemma fed_line_prefix:
  assumes "\<forall>t. concat (cuts t) = t"
  shows "prefix (fed_line opened cuts rs (Some v)) (json_str v @ [10])"
    and "opened \<noteq> IsFifo \<Longrightarrow> fed_line opened cuts rs line = []"
    and "opened = IsFifo \<Longrightarrow> \<forall>x\<in>set rs. \<exists>n>0. x = Some n \<Longrightarrow> length (json_str v @ [10]) \<le> length rs \<Longrightarrow> fed_line opened cuts rs (Some v) = json_str v @ [10]"
proof -
  let ?t = "json_str v @ [10]" and ?s = "open_fifo opened rs"
  have c: "concat (cuts ?t) = ?t" using assms by blast
  show "prefix (fed_line opened cuts rs (Some v)) ?t"
    using fold_on_data [of ?s "[]" "cuts ?t"] c by (simp add: open_fifo_def fed_line_def)
  show "fed_line opened cuts rs line = []" if "opened \<noteq> IsFifo"
    using closed_stays [of ?s] that by (simp add: open_fifo_def fed_line_def split: option.splits)
  show "fed_line opened cuts rs (Some v) = ?t" if "opened = IsFifo" "\<forall>x\<in>set rs. \<exists>n>0. x = Some n" "length ?t \<le> length rs"
    using fold_takes [of ?s "cuts ?t"] that c by (simp add: open_fifo_def fed_line_def)
qed

section \<open>The item list is not disturbed\<close>

definition feed_inv :: "(jsstr \<Rightarrow> jsval option) \<Rightarrow> fifo_path \<Rightarrow> (jsstr \<Rightarrow> jsstr list) \<Rightarrow> nat option list \<Rightarrow> jsstr \<Rightarrow> feed_event list \<Rightarrow> feed \<Rightarrow> bool" where
  "feed_inv jq opened cuts rs text es s \<longleftrightarrow>
     passed s @ rest s = text
     \<and> (tee s = TeeEnded \<longrightarrow> rest s = [] \<and> pending s = [])
     \<and> (branch s = BranchGone \<and> tee s = TeeRuns \<longrightarrow> BranchDies \<in> set es) \<and> (tee s = TeeKilled \<longrightarrow> BranchDies \<in> set es)
     \<and> (branch s \<noteq> BranchGone \<longrightarrow> tee s \<noteq> TeeKilled)
     \<and> (branch s = Looking \<longrightarrow> jq_got s = [])
     \<and> (branch s = Looking \<or> branch s = Filtering \<longrightarrow> fed s = [] \<and> JqEnds \<notin> set es \<and> jq_got s @ branch_pipe s @ pending s = passed s)
     \<and> fed s = (if JqEnds \<in> set es then fed_line opened cuts rs (jq text) else [])"

lemma take_drop_then: "take n xs @ drop n xs @ ys = xs @ ys"
  by (simp flip: append_assoc)

lemma feed_inv_step:
  assumes "agentBranchScript jq room before opened cuts rs s e t" and "feed_inv jq opened cuts rs text es s"
  shows "feed_inv jq opened cuts rs text (es @ [e]) t"
  using assms
proof (induction rule: agentBranchScript.induct)
  case (jq_ends s)
  then have "tee s = TeeEnded" by (cases "tee s") (auto simp: feed_inv_def)
  with jq_ends have "jq_got s = text" by (auto simp: feed_inv_def)
  with jq_ends show ?case by (auto simp: feed_inv_def)
qed (auto simp: feed_inv_def take_drop_then)

lemma feed_run_inv: "feed_run (agentBranchScript jq room before opened cuts rs) text es s \<Longrightarrow> feed_inv jq opened cuts rs text es s"
proof (induction rule: feed_run.induct)
  case begun
  show ?case by (simp add: feed_inv_def feed_start_def)
next
  case (one_more es s e t)
  then show ?case using feed_inv_step by blast
qed

section \<open>Every run ends\<close>

definition feed_left :: "feed \<Rightarrow> nat" where
  "feed_left s = 3 * length (rest s) + 2 * length (pending s) + length (branch_pipe s) + (if tee s = TeeRuns then 1 else 0)
     + (case branch s of Looking \<Rightarrow> 3 | Filtering \<Rightarrow> 2 | CatRuns \<Rightarrow> 1 | BranchGone \<Rightarrow> 0)"

lemma feed_left_step: "agentBranchScript jq room before opened cuts rs s e t \<Longrightarrow> feed_left t < feed_left s"
  by (induction rule: agentBranchScript.induct) (auto simp: feed_left_def split: branch_stage.splits)

lemma feed_run_left: "feed_run (agentBranchScript jq room before opened cuts rs) text es s \<Longrightarrow> length es + feed_left s \<le> 3 * length text + 4"
proof (induction rule: feed_run.induct)
  case begun
  show ?case by (simp add: feed_left_def feed_start_def)
next
  case (one_more es s e t)
  then show ?case using feed_left_step by fastforce
qed

text \<open>A run that cannot go on by itself has come to its end: no program waits for another for ever.\<close>
lemma feed_not_stuck:
  assumes "feed_run (agentBranchScript jq room before opened cuts rs) text es s" and "0 < room" and "BranchDies \<notin> set es"
    and "\<not> (\<exists>e t. e \<noteq> BranchDies \<and> agentBranchScript jq room before opened cuts rs s e t)"
  shows "tee s = TeeEnded \<and> branch s = BranchGone"
proof -
  let ?step = "agentBranchScript jq room before opened cuts rs"
  note inv = feed_run_inv [OF assms(1)]
  have no: "\<not> ?step s e t" if "e \<noteq> BranchDies" for e t using assms(4) that by blast
  have branch: "branch s = CatRuns \<or> branch s = BranchGone"
    using no [of Looks] no [of JqStops] looks_fifo [of s before jq room opened cuts rs] looks_other [of s before jq room opened cuts rs]
      jq_stops [of s jq room before opened cuts rs] by (cases "branch s") auto
  have empty: "branch_pipe s = []" if "branch s = CatRuns"
    using no [of "CatReads 1"] cat_reads [of s 1 jq room before opened cuts rs] that by (cases "branch_pipe s") auto
  have "tee s \<noteq> TeeRuns"
  proof
    assume run: "tee s = TeeRuns"
    then have c: "branch s = CatRuns" using branch inv assms(3) by (auto simp: feed_inv_def)
    have "pending s = []"
      using no [of "TeeFeeds 1"] tee_feeds [of s 1 room jq before opened cuts rs] run c empty [OF c] assms(2) by (cases "pending s") auto
    moreover from this have "rest s = []"
      using no [of "TeePasses 1"] tee_passes [of s 1 jq room before opened cuts rs] run by (cases "rest s") auto
    ultimately show False using no [of TeeEnds] tee_ends [of s jq room before opened cuts rs] run by auto
  qed
  then have "tee s = TeeEnded" using inv assms(3) by (cases "tee s") (auto simp: feed_inv_def)
  then show ?thesis using branch empty no [of CatEnds] cat_ends [of s jq room before opened cuts rs] by auto
qed

text \<open>C29: Feeding the agent does not disturb the item list: in every interleaving of \<^verbatim>\<open>tee\<close>, the branch and its programs,
  what is passed on is a prefix of the validated text, and all of it when \<^verbatim>\<open>tee\<close> has ended; as long as the branch's
  shell itself is not killed \<^verbatim>\<open>tee\<close> never writes to a closed pipe, and a run ends, after at most three steps for
  each character and four more, only with the whole text passed on, whenever jq or the writer stop. Into the FIFO
  goes a prefix of the one line with the keys, and nothing before jq has read everything; the whole line, when
  jq came to its end and the writes keep making progress; and nothing at all unless what was opened is a
  FIFO and not a link, even if the path was exchanged after it was looked at.\<close>
theorem agent_feed:
  assumes "feed_run (agentBranchScript (agent_keys enc num hide loadId) room before opened cuts rs) text es s" and "0 < room"
    and "json_parse text = Some v" and "AGENT_KEYS_FILTER enc num hide loadId v = Some line" and "\<forall>t. concat (cuts t) = t"
  shows "prefix (passed s) text \<and> (tee s = TeeEnded \<longrightarrow> passed s = text) \<and> length es \<le> 3 * length text + 4
    \<and> (BranchDies \<notin> set es \<longrightarrow> tee s \<noteq> TeeKilled
         \<and> (\<not> (\<exists>e t. e \<noteq> BranchDies \<and> agentBranchScript (agent_keys enc num hide loadId) room before opened cuts rs s e t) \<longrightarrow> passed s = text))
    \<and> prefix (fed s) (json_str line @ [10]) \<and> (JqEnds \<notin> set es \<or> opened \<noteq> IsFifo \<longrightarrow> fed s = [])
    \<and> (JqEnds \<in> set es \<and> opened = IsFifo \<and> (\<forall>x\<in>set rs. \<exists>n>0. x = Some n) \<and> length (json_str line @ [10]) \<le> length rs
       \<longrightarrow> fed s = json_str line @ [10])"
proof -
  note inv = feed_run_inv [OF assms(1)]
  have jq: "agent_keys enc num hide loadId text = Some line" using assms(3,4) by (simp add: agent_keys_def)
  have ended: "passed s = text" if "tee s = TeeEnded" using inv that by (auto simp: feed_inv_def)
  have "passed s = text" if "BranchDies \<notin> set es"
      "\<not> (\<exists>e t. e \<noteq> BranchDies \<and> agentBranchScript (agent_keys enc num hide loadId) room before opened cuts rs s e t)"
    using ended feed_not_stuck [OF assms(1,2) that] by blast
  moreover have "fed s = (if JqEnds \<in> set es then fed_line opened cuts rs (Some line) else [])" using inv jq by (simp add: feed_inv_def)
  moreover have "prefix (passed s) text" "BranchDies \<notin> set es \<longrightarrow> tee s \<noteq> TeeKilled" using inv by (auto simp: feed_inv_def)
  moreover have "length es \<le> 3 * length text + 4" using feed_run_left [OF assms(1)] by simp
  ultimately show ?thesis using ended fed_line_prefix [OF assms(5)] by auto
qed

lemma feed_two:
  "feed_run (agentBranchScript jq 4 IsFifo IsFifo (\<lambda>t. [t]) rs) [91, 93] [TeePasses 2, TeeFeeds 2, TeeEnds, Looks, JqReads 2, JqEnds, CatEnds]
     \<lparr>rest = [], pending = [], passed = [91, 93], branch_pipe = [], jq_got = [91, 93], fed = fed_line IsFifo (\<lambda>t. [t]) rs (jq [91, 93]),
      tee = TeeEnded, branch = BranchGone\<rparr>"
proof -
  let ?step = "agentBranchScript jq 4 IsFifo IsFifo (\<lambda>t. [t]) rs" and ?s = "feed_start [91, 93]"
  let ?s1 = "?s\<lparr>rest := [], pending := [91, 93], passed := [91, 93]\<rparr>"
  let ?s2 = "?s1\<lparr>pending := [], branch_pipe := [91, 93]\<rparr>"
  let ?s3 = "?s2\<lparr>tee := TeeEnded\<rparr>" and ?s4 = "?s2\<lparr>tee := TeeEnded, branch := Filtering\<rparr>"
  let ?s5 = "?s4\<lparr>branch_pipe := [], jq_got := [91, 93]\<rparr>"
  let ?s6 = "?s5\<lparr>fed := fed_line IsFifo (\<lambda>t. [t]) rs (jq [91, 93]), branch := CatRuns\<rparr>"
  have "?step ?s (TeePasses 2) ?s1" using tee_passes [of ?s 2 jq 4 IsFifo IsFifo] by (simp add: feed_start_def)
  note 1 = feed_run.one_more [of ?step, OF feed_run.begun [of ?step] this]
  have "?step ?s1 (TeeFeeds 2) ?s2" using tee_feeds [of ?s1 2 4 jq IsFifo IsFifo] by (simp add: feed_start_def)
  note 2 = feed_run.one_more [of ?step, OF 1 this]
  have "?step ?s2 TeeEnds ?s3" using tee_ends [of ?s2 jq 4 IsFifo IsFifo] by (simp add: feed_start_def)
  note 3 = feed_run.one_more [of ?step, OF 2 this]
  have "?step ?s3 Looks ?s4" using looks_fifo [of ?s3 IsFifo jq 4 IsFifo] by (simp add: feed_start_def)
  note 4 = feed_run.one_more [of ?step, OF 3 this]
  have "?step ?s4 (JqReads 2) ?s5" using jq_reads [of ?s4 2 jq 4 IsFifo IsFifo] by (simp add: feed_start_def)
  note 5 = feed_run.one_more [of ?step, OF 4 this]
  have "?step ?s5 JqEnds ?s6" using jq_ends [of ?s5 jq 4 IsFifo IsFifo] by (simp add: feed_start_def)
  note 6 = feed_run.one_more [of ?step, OF 5 this]
  have "?step ?s6 CatEnds (?s6\<lparr>branch := BranchGone\<rparr>)" using cat_ends [of ?s6 jq 4 IsFifo IsFifo] by (simp add: feed_start_def)
  from feed_run.one_more [of ?step, OF 6 this] show ?thesis by (simp add: feed_start_def)
qed

theorem agent_feed_witness:
  "\<exists>es s. feed_run (agentBranchScript (agent_keys (\<lambda>s. s) (\<lambda>s. None) True (js ''l'')) 4 IsFifo IsFifo (\<lambda>t. [t]) (replicate 200 (Some 1))) [91, 93] es s
     \<and> passed s = [91, 93] \<and> fed s = json_str (JObj [(js ''loadId'', JStr (js ''l'')), (js ''items'', JArr [])]) @ [10]"
proof -
  let ?out = "JObj [(js ''loadId'', JStr (js ''l'')), (js ''items'', JArr [])]"
  have f: "AGENT_KEYS_FILTER (\<lambda>s. s) (\<lambda>s. None) True (js ''l'') (JArr []) = Some ?out" by (simp add: AGENT_KEYS_FILTER_def)
  have p: "json_parse [91, 93] = Some (JArr [])" by code_simp
  have l: "length (json_str ?out @ [10]) \<le> 200" by (simp add: json_quote_def js_def quote_unit_def is_high_surrogate_def is_low_surrogate_def)
  note run = feed_two [of "agent_keys (\<lambda>s. s) (\<lambda>s. None) True (js ''l'')" "replicate 200 (Some 1)"]
  from agent_feed [OF run _ p f] l run show ?thesis by (intro exI conjI) auto
qed

end
