(* ===== verification/Spec2Isabelle.thy ===== *)
theory Spec2Isabelle
  imports Shell Accounts Agent Prompts Edit Totp Suggestions Dependencies Settings Generator Attachments Sends Sanitize Challenges Envelope
    Fido Repair Helpers Routing Export Views Sleep Files Probe Keyring Feed
begin

text \<open>
  A verification library for a Bitwarden panel: a desktop-shell plugin whose logic is JavaScript. The panel
  itself (QML, \<^verbatim>\<open>Service.qml\<close> and \<^verbatim>\<open>Panel.qml\<close>) only runs processes and draws; what it runs and how it reads
  the answers is decided by the functions of \<^verbatim>\<open>BitwardenModel.js\<close>, \<^verbatim>\<open>TotpModel.js\<close> and \<^verbatim>\<open>FidoModel.js\<close>,
  by two Node preloads (\<^verbatim>\<open>bw-login-code.js\<close>, \<^verbatim>\<open>bw-fast-exit.js\<close>) and, for the demo, by
  \<^verbatim>\<open>demo/check-vault-layout.js\<close>. Those files are modelled here. Many of the functions return shell, jq or Node
  scripts; where what a script does matters, the definition of that name is the script's effect on an explicit
  state, not its text.

  \<^bold>\<open>The parts and their theories.\<close>

  \<^item> The language. \<open>Prelude\<close>: strings as lists of UTF-16 code units (\<open>jsstr\<close>), numbers as exact rationals with
    NaN and the infinities (\<open>jsnum\<close>), values (\<open>jsval\<close>), insertion-ordered objects, stable sorting as the locale
    \<open>sort_order\<close>, trimming, splitting, printing of numbers. \<open>Json\<close>: \<^verbatim>\<open>JSON.parse\<close> and \<^verbatim>\<open>JSON.stringify\<close> and
    that reading back what was printed gives the value. \<open>Uri\<close>: percent coding. \<open>Dates\<close>: ISO times and the
    calendar. \<open>Regex\<close>: a backtracking engine, its declarative meaning and their equivalence.
  \<^item> Commands. \<open>Shell\<close>: quoting and the \<^verbatim>\<open>bw\<close> command lines, with a reader of the shell grammar that
    shows each argument arrives unchanged. \<open>Login\<close> and \<open>Challenges\<close>: server addresses, session tokens, two-step
    methods, the challenges read out of the output of \<^verbatim>\<open>bw\<close>, the login command lines and both preloads.
  \<^item> Accounts. \<open>Accounts\<close>: the registry with every operation on it as one machine. \<open>Files\<close>: the scripts that
    read, write and clear the registry and the association files and that retire a slot, call by call; the
    locale \<open>file_writer\<close> is what readers rely on, interpreted on both writers.
  \<^item> The vault. \<open>Sanitize\<close> and \<open>Feed\<close>: the pipeline from \<^verbatim>\<open>bw list items\<close> to the panel and to the agent.
    \<open>Items\<close>: parsing, search, the public detail. \<open>Edit\<close>: how the edit form is filled and the payloads of saves. \<open>Attachments\<close>: names, and the
    script that claims a name for a download, as a machine driven by the answers of the file system.
    \<open>Sends\<close>, \<open>Totp\<close> (SHA-1, SHA-256 and HMAC on machine words), \<open>Generator\<close>.
  \<^item> Suggestions. \<open>Context\<close>: what a window title says. \<open>Associations\<close>: what was picked where.
    \<open>Suggestions\<close>: the choice of at most six logins.
  \<^item> Unlocking. \<open>Unlock\<close>, \<open>Keyring\<close>: keyring entries, PIN, pinentry. \<open>Envelope\<close>: the sealed envelope with
    its ways in, over abstract tools; the locale \<open>envelope_writer\<close> is the contract of the scripts that replace
    it, interpreted on creating and updating. \<open>Fido\<close>, \<open>Repair\<close>.
  \<^item> The SSH agent. \<open>Agent\<close>: its control lines and its supervisor (\<open>sshAgentReduce\<close>). \<open>Prompts\<close>: what is asked,
    the queue, grants, the cooldown. \<open>Routing\<close>, \<open>Export\<close>, \<open>Helpers\<close>: the routing file, the public key files,
    the native helpers and the protocol of the vault helper.
  \<^item> The rest. \<open>Dependencies\<close> and \<open>Probe\<close>: what is installed and how setup reads it. \<open>Settings\<close>, \<open>Views\<close>,
    \<open>Sleep\<close> (locking before suspend, over all interleavings of three processes).

  Definitions carry the names of the source. A helper that has no name there says in a comment what it stands
  for. Fallible operations return an option or a sum whose left side is the exit status; stateful scripts take
  and return the keyring (a map), a folder, a directory or a record of the state; the SSH supervisor, the
  registry, the prompt queue and the associations are machines over a datatype of events, the claim script, the
  file writers and the sleep monitor step relations or reaction functions with every failure of a call as a
  step.

  \<^bold>\<open>What is shown.\<close> The gate for signing opens only on a well-formed ready line during the handshake, in
  every reachable state, and a crashing helper is restarted a bounded number of times. No private key reaches the
  panel, and no secret its public detail. Changing the unlock envelope is all or nothing and never stores what
  does not open; moving a legacy password never loses it; turning a method off removes it from the envelope; a remembered
  session is not given back after a restart; logging out and retiring a slot leave nothing behind when they report
  success, and touch no other slot. Files are old or new, never in between, whatever
  fails. The claim script touches only what it created, tells what happened, and ends. Arguments, control lines,
  JSON files and typed secrets arrive as they were sent. Suggestions come from the vault, stay on the site, and
  a pick is remembered across a restart. Queues are first in, first out; options are satisfiable; codes are the
  8-bit regrouping of base32 and have their digits. The theorems at the end of this theory span components.

  \<^bold>\<open>Idealisations.\<close> Numbers are exact rationals instead of doubles (every number the code computes with is a
  small whole number or a quotient shown rounded) and entropy is a real logarithm. Upper and lower case are those
  of Latin-1. Texts that pass between processes are compared as code units; where bytes are counted the
  theorems ask for ASCII. An answer in \<open>Sleep\<close> carries the number of the sleep it answers, which the real one
  does not, and \<^verbatim>\<open>systemd-inhibit\<close> ends together with the script it runs. \<open>Routing\<close> and \<open>Export\<close> have their path to
  themselves while a script runs.

  \<^bold>\<open>Parameters.\<close> Code outside the repository is an argument: \<^verbatim>\<open>localeCompare\<close> (\<open>collate\<close>),
  \<^verbatim>\<open>Math.random\<close>, times that are not ISO, jq's \<^verbatim>\<open>tonumber\<close> and \<^verbatim>\<open>//\<close>, \<^verbatim>\<open>@base64\<close>, the tools of the envelope
  (\<open>tools\<close>: argon2, systemd-creds, the unlock program, \<^verbatim>\<open>secret-tool\<close>), the FIDO host, \<^verbatim>\<open>openssl\<close>, what is on
  the path, the facts of a helper file, and whether and how each system call fails. The laws assumed of them
  (\<open>searches_exactly\<close>, \<open>clears_only\<close>, \<open>looks_up\<close>, \<open>stores_only\<close>, \<open>removes_only\<close>, the laws of sealing) are named definitions, and each theorem that assumes
  one has a witness that instantiates it.

  \<^bold>\<open>Fuel and termination.\<close> Only the JSON reader and the shell reader count steps, by twice the length of the
  text and more, which the round-trip theorems show to be enough; every other recursion is structural or has a
  measure. The claim script has a bound on its calls.

  \<^bold>\<open>Not modelled.\<close> The QML files, which wire events to the functions above on a runtime that is not part of the
  repository (only the filling of the edit form is, in \<open>Edit\<close>); the three Rust programs (\<^verbatim>\<open>agent/\<close>, \<^verbatim>\<open>vault/\<close>, \<^verbatim>\<open>unlock-key/\<close>), of which only the side of their
  protocols that is JavaScript is; \<^verbatim>\<open>scripts/\<close>, the demo's Python and shell, tests and translations. Of the
  JavaScript, functions that only return a constant or a fixed command without arguments are left out.
\<close>

section \<open>What is learned survives a restart\<close>

text \<open>C9: Picking an item teaches the panel, in a window that gives the pick a key (a terminal without a domain and a
  browser whose title has no domain give none, and there nothing is recorded): the picked login is the first
  suggestion for that window in the next run, after the pick was recorded, the store was printed, written
  to the account's file, read from it and parsed. This holds when no word of the window's title is pinned to an item,
  the store with the pick is within its budget (so that nothing of it is trimmed), well formed and ASCII, and the
  write exited 0.\<close>
theorem pick_remembered:
  assumes "cleanWindowContext w = Some c" and "contextKeys (Some c) False \<noteq> []" and "items \<noteq> []" and "i \<noteq> []"
    and "by_id items i = Some it" and "isLoginItem it"
    and "\<forall>x\<in>set (cx_titleTokens c). \<forall>e. map_of a (js ''word:'' @ x) = Some e \<longrightarrow> \<not> ae_pinned e"
    and "total_cost (record_keys (contextKeys (Some c) False) a i ts False) \<le> MAX_ASSOC_WRITE_BYTES"
    and "assoc_ok (recordAssociation a (Some c) i ts False)"
    and "list_all (\<lambda>u. u < 128) (serializeAssociations (recordAssociation a (Some c) i ts False))"
    and "runs (associationsWriteCommand sl (serializeAssociations (recordAssociation a (Some c) i ts False))) (writing s) es t"
    and "wstage t = Ended 0"
  shows "\<exists>b more. parseAssociations (associationsReadCommand sl t) = Some b \<and> sg_matches (findContextualMatches items w b) = it # more"
proof -
  let ?a = "recordAssociation a (Some c) i ts False"
  have rec: "?a = record_keys (contextKeys (Some c) False) a i ts False"
    using assms(2,4,8) by (simp add: recordAssociation_def trim_small)
  have read: "parseAssociations (associationsReadCommand sl t) = Some ?a"
    using saved_read [OF assms(11)] associations_writer.written(4) [OF assms(11,12)] associations_round_trip [OF assms(9)] by simp
  obtain r where "learnedMatchIds ?a (Some c) = [(i, r)]"
    using picked_learned [OF assms(2,4,7), of ts] unfolding rec by blast
  from learned_first [OF this assms(5,6)] obtain more where m: "sg_matches (suggest items c ?a) = it # more" by blast
  have "(cx_isTerminal c \<longrightarrow> cx_detectedDomain c \<noteq> None) \<and> (cx_title c = [] \<and> cx_detectedDomain c = None \<longrightarrow> cx_clsSquashed c \<noteq> [])"
    using assms(2) by (auto simp: contextKeys_def split: option.splits if_splits)
  then have "findContextualMatches items w ?a = suggest items c ?a" using assms(1,3) by (auto simp: findContextualMatches_def)
  with read m show ?thesis by auto
qed

theorem pick_remembered_witness:
  "\<exists>t b more. wstage t = Ended 0 \<and> parseAssociations (associationsReadCommand JUndef t) = Some b
     \<and> sg_matches (findContextualMatches [site_login] site_window b) = site_login # more"
proof -
  obtain c where c: "cleanWindowContext site_window = Some c" "cx_detectedDomain c = Some site_host"
    "cx_isTerminal c = False" "cx_title c = js ''ab.io''" "cx_isBrowser c" by (rule site_context)
  define e where "e = \<lparr>ae_itemId = js ''i1'', ae_weight = 3, ae_count = 1, ae_updated = js ''2024'', ae_pinned = False\<rparr>"
  let ?i = "js ''i1''" and ?t = "js ''2024''" and ?k = "js ''domain:ab.io''"
  have keys: "contextKeys (Some c) False = [(?k, 3)]" using c by (simp add: contextKeys_def site_host_def js_def)
  have rk: "record_keys (contextKeys (Some c) False) [] ?i ?t False = [(?k, e)]" by (simp add: keys record_keys_def picked_entry_def e_def)
  have printed: "serializeAssociations [(?k, e)] = json_str (assoc_json [(?k, e)])" by (simp add: serializeAssociations_def)
  note json = assoc_json_def entry_json_def e_def json_quote_def js_def quote_unit_def is_high_surrogate_def is_low_surrogate_def
    ASSOC_VERSION_def num_to_str_int int_to_str_def nat_to_str_unfold
  have cost: "total_cost [(?k, e)] \<le> MAX_ASSOC_WRITE_BYTES"
    by (simp add: total_cost_def entry_cost_def MAX_ASSOC_WRITE_BYTES_def MAX_ASSOC_BYTES_def json)
  have rec: "recordAssociation [] (Some c) ?i ?t False = [(?k, e)]"
    using trim_small [OF cost] rk keys by (simp add: recordAssociation_def)
  have ok: "assoc_ok [(?k, e)]"
    by (simp add: assoc_ok_def entry_ok_def e_def id_ok_def associationKeyWeight_def MAX_TITLE_CHARS_def host_unit_def lower_alnum_def units_ok_def js_unfold)
  have ascii: "list_all (\<lambda>u. u < 128) (serializeAssociations [(?k, e)])" and short: "fits_limit (Some MAX_ASSOC_BYTES) (serializeAssociations [(?k, e)])"
    unfolding printed by (simp_all add: json fits_limit_def MAX_ASSOC_BYTES_def)
  have "folder demo_store = Folder" "entries demo_store (associationsFileName JUndef) \<noteq> Some Directory" by (simp_all add: demo_store_def)
  from write_succeeds [OF this short] obtain t
    where t: "runs (associationsWriteCommand JUndef (serializeAssociations (recordAssociation [] (Some c) ?i ?t False))) (writing demo_store)
      calls_made t" "wstage t = Ended 0"
    by (fastforce simp: associationsWriteCommand_def rec)
  have item: "by_id [site_login] ?i = Some site_login" "isLoginItem site_login" by (simp_all add: by_id_def site_login_def isLoginItem_def)
  from pick_remembered [OF c(1) _ _ _ item _ _ _ _ t, unfolded rec rk] keys cost ok ascii t(2) show ?thesis by fastforce
qed

section \<open>Private keys stay out of the panel\<close>

text \<open>C6: What the panel reads does not depend on private keys: when \<^verbatim>\<open>bw list items\<close> exits 0 and two of its
  outputs, both lists within the size limit, differ only in what SSH items hold beyond their public metadata, the whole pipeline (the size limits, the strict
  validator, the filter and the check of its output) prints the same or fails the same way, and so does
  everything computed from it.\<close>
theorem panel_blind_to_private_keys:
  assumes "json_parse raw = Some (JArr xs)" and "json_parse raw' = Some (JArr ys)" and "hide_private num xs = hide_private num ys"
    and "length raw \<le> MAX_ITEMS_BYTES" and "length raw' \<le> MAX_ITEMS_BYTES"
  shows "sanitizedListCommand num hide 0 raw = sanitizedListCommand num hide 0 raw'"
proof -
  have "SANITIZED_ITEMS_FILTER num hide (JArr xs) = SANITIZED_ITEMS_FILTER num hide (JArr ys)"
    using filter_hidden [of num hide xs] filter_hidden [of num hide ys] assms(3) by simp
  moreover have "strict_array MAX_ITEMS_BYTES (take (MAX_ITEMS_BYTES + 1) r) = Some (JArr zs)"
    if "json_parse r = Some (JArr zs)" "length r \<le> MAX_ITEMS_BYTES" for r zs
    using that by (simp add: strict_array_def)
  ultimately show ?thesis using assms(1,2,4,5) by (simp add: sanitizedListCommand_def)
qed

definition one_key :: "nat \<Rightarrow> jsval" where
  \<comment> \<open>an SSH key whose private part is one letter\<close>
  "one_key u = JObj [(js ''type'', JNum (Fin 5)), (js ''sshKey'', JObj [(js ''privateKey'', JStr [u])])]"

theorem panel_blind_to_private_keys_witness:
  "one_key 65 \<noteq> one_key 66
   \<and> sanitizedListCommand (\<lambda>s. None) False 0 (json_str (JArr [one_key 65])) = sanitizedListCommand (\<lambda>s. None) False 0 (json_str (JArr [one_key 66]))"
proof -
  have ok: "plain (JArr [one_key u])" if "u < 128" for u
    using that unfolding one_key_def by (simp add: js_def units_ok_def put_all_def key_before_def is_index_key_def is_digit_def)
  have p: "json_parse (json_str (JArr [one_key 65])) = Some (JArr [one_key 65])" "json_parse (json_str (JArr [one_key 66])) = Some (JArr [one_key 66])"
    by (rule json_parse_stringify, rule ok, simp)+
  have h: "hide_private (\<lambda>s. None) [one_key 65] = hide_private (\<lambda>s. None) [one_key 66]" by code_simp
  have l: "length (json_str (JArr [one_key u])) \<le> MAX_ITEMS_BYTES" if "u = 65 \<or> u = 66" for u
    using that by (auto simp: one_key_def MAX_ITEMS_BYTES_def json_quote_def js_def quote_unit_def is_high_surrogate_def is_low_surrogate_def
        num_to_str_int int_to_str_def nat_to_str_unfold)
  from panel_blind_to_private_keys [OF p h l l] show ?thesis by (simp add: one_key_def del: json_str.simps)
qed

end
